(* ===== verification/Prelude.thy ===== *)
theory Prelude
  imports Complex_Main
begin

text \<open>
  The vocabulary and the generic lemmas every component shares: identifiers, instants and
  durations, a table as a list of rows with the two statements the program runs on it (a
  conditional update and a lookup by key), Python's dict built from pairs, and the collections
  of rewrite rules the component proofs pass to the simplifier.
\<close>

section \<open>Collections of facts\<close>

named_theorems table_simps \<open>rewriting of table updates and lookups\<close>
named_theorems status_simps \<open>evaluation of the order status machine\<close>
named_theorems time_simps \<open>durations in microseconds\<close>

section \<open>Identifiers, instants, durations\<close>

text \<open>
  A UUID and its string form are identified: the code converts back and forth with \<open>str\<close> and
  \<open>uuid.UUID\<close>, which are inverse to each other. An aware \<open>datetime\<close> is the instant it denotes, in
  microseconds since the epoch; a \<open>timedelta\<close> is a number of microseconds. A \<open>date\<close> is its
  proleptic Gregorian ordinal.
\<close>

type_synonym uuid = nat
type_synonym instant = int
type_synonym cents = int
type_synonym date = int

definition seconds :: "int \<Rightarrow> int" where
  [time_simps]: "seconds n = 1000000 * n"

definition minutes :: "int \<Rightarrow> int" where
  [time_simps]: "minutes n = 60000000 * n"

definition days :: "int \<Rightarrow> int" where
  [time_simps]: "days n = 86400000000 * n"

lemma minutes_mono: "a \<le> b \<Longrightarrow> minutes a \<le> minutes b"
  by (simp add: minutes_def)

lemma minutes_nonneg [simp]: "0 \<le> minutes n \<longleftrightarrow> 0 \<le> n"
  by (simp add: minutes_def)

section \<open>Tables\<close>

text \<open>
  A table is the list of its rows, in the order a query with no \<open>ORDER BY\<close> returns them.
  \<open>update_where p f\<close> is \<open>UPDATE ... SET f WHERE p\<close>; \<open>lookup_by key k\<close> is the read of one row by its
  primary key.
\<close>

definition update_where :: "('r \<Rightarrow> bool) \<Rightarrow> ('r \<Rightarrow> 'r) \<Rightarrow> 'r list \<Rightarrow> 'r list" where
  "update_where p f rows = map (\<lambda>r. if p r then f r else r) rows"

definition lookup_by :: "('r \<Rightarrow> 'k) \<Rightarrow> 'k \<Rightarrow> 'r list \<Rightarrow> 'r option" where
  "lookup_by key k rows = find (\<lambda>r. key r = k) rows"

lemma length_update_where [simp]: "length (update_where p f rows) = length rows"
  by (simp add: update_where_def)

lemma update_where_simps [simp]:
  "update_where p f [] = []"
  "update_where p f (r # rs) = (if p r then f r else r) # update_where p f rs"
  by (simp_all add: update_where_def)

lemma set_update_where: "set (update_where p f rows) = (\<lambda>r. if p r then f r else r) ` set rows"
  by (simp add: update_where_def)

lemma map_update_where_inv [table_simps]:
  "(\<And>r. g (f r) = g r) \<Longrightarrow> map g (update_where p f rows) = map g rows"
  by (induction rows) auto

lemma update_where_none: "(\<And>r. r \<in> set rows \<Longrightarrow> \<not> p r) \<Longrightarrow> update_where p f rows = rows"
  by (induction rows) auto

lemma lookup_by_simps [simp]:
  "lookup_by key k [] = None"
  "lookup_by key k (r # rs) = (if key r = k then Some r else lookup_by key k rs)"
  by (simp_all add: lookup_by_def)

lemma lookup_by_Some: "lookup_by key k rows = Some r \<Longrightarrow> r \<in> set rows \<and> key r = k"
  by (induction rows) (auto split: if_splits)

lemma lookup_by_None: "lookup_by key k rows = None \<longleftrightarrow> k \<notin> key ` set rows"
  by (induction rows) auto

lemma lookup_by_distinct:
  "distinct (map key rows) \<Longrightarrow> r \<in> set rows \<Longrightarrow> lookup_by key (key r) rows = Some r"
  by (induction rows) (auto simp: image_iff)

text \<open>What a read by key sees after an update that keeps the key.\<close>

lemma lookup_by_update_where [table_simps]:
  assumes "\<And>r. key (f r) = key r"
  shows "lookup_by key k (update_where p f rows) =
    map_option (\<lambda>r. if p r then f r else r) (lookup_by key k rows)"
  by (induction rows) (auto simp: assms)

lemma distinct_update_where [table_simps]:
  "(\<And>r. key (f r) = key r) \<Longrightarrow>
     distinct (map key (update_where p f rows)) = distinct (map key rows)"
  by (simp add: map_update_where_inv)

lemma filter_update_where_notin:
  assumes "\<And>r. r \<in> set rows \<Longrightarrow> p r \<Longrightarrow> q (f r) = q r" "\<And>r. r \<in> set rows \<Longrightarrow> p r \<Longrightarrow> \<not> q r"
  shows "filter q (update_where p f rows) = filter q rows"
  using assms by (induction rows) auto

section \<open>Dictionaries\<close>

text \<open>
  \<open>{k: v for ...}\<close>: a later pair replaces an earlier one with the same key. \<open>del_key\<close> and
  \<open>put_key\<close> are the update and the deletion of a dictionary kept as an association list, a
  replaced key keeping its place, as Python's \<open>dict\<close> and a Redis hash do.
\<close>

definition dict_of :: "('k \<times> 'v) list \<Rightarrow> 'k \<rightharpoonup> 'v" where
  "dict_of kvs = map_of (rev kvs)"

fun put_key :: "'k \<Rightarrow> 'v \<Rightarrow> ('k \<times> 'v) list \<Rightarrow> ('k \<times> 'v) list" where
  "put_key k v [] = [(k, v)]"
| "put_key k v ((k', v') # kvs) = (if k = k' then (k, v) # kvs else (k', v') # put_key k v kvs)"

definition del_key :: "'k \<Rightarrow> ('k \<times> 'v) list \<Rightarrow> ('k \<times> 'v) list" where
  "del_key k kvs = filter (\<lambda>p. fst p \<noteq> k) kvs"

lemma map_of_put_key [simp]: "map_of (put_key k v kvs) = (map_of kvs)(k \<mapsto> v)"
  by (induction k v kvs rule: put_key.induct) auto

lemma keys_put_key: "fst ` set (put_key k v kvs) = insert k (fst ` set kvs)"
  by (induction k v kvs rule: put_key.induct) auto

lemma distinct_put_key: "distinct (map fst kvs) \<Longrightarrow> distinct (map fst (put_key k v kvs))"
proof (induction k v kvs rule: put_key.induct)
  case (2 k v k' v' kvs)
  have "k' \<notin> fst ` set (put_key k v kvs)" if "k \<noteq> k'"
    using 2 that by (simp add: keys_put_key)
  with 2 show ?case by auto
qed simp

lemma map_of_del_key [simp]: "map_of (del_key k kvs) = (map_of kvs)(k := None)"
  by (induction kvs) (auto simp: del_key_def fun_eq_iff)

lemma keys_del_key: "fst ` set (del_key k kvs) = fst ` set kvs - {k}"
  by (auto simp: del_key_def)

lemma distinct_del_key: "distinct (map fst kvs) \<Longrightarrow> distinct (map fst (del_key k kvs))"
  by (simp add: del_key_def distinct_map_filter)

lemma dict_of_Some: "dict_of kvs k = Some v \<Longrightarrow> (k, v) \<in> set kvs"
  by (auto simp: dict_of_def dest: map_of_SomeD)

lemma dict_of_distinct: "distinct (map fst kvs) \<Longrightarrow> dict_of kvs = map_of kvs"
  by (simp add: dict_of_def map_of_inject_set flip: rev_map)

section \<open>Sums and lists\<close>

lemma sum_list_le_pointwise:
  "(\<And>x. x \<in> set xs \<Longrightarrow> f x \<le> g x) \<Longrightarrow> sum_list (map f xs) \<le> (sum_list (map g xs) :: int)"
  by (rule sum_list_mono)

lemma sum_list_nonneg_int: "(\<And>x. x \<in> set xs \<Longrightarrow> 0 \<le> f x) \<Longrightarrow> 0 \<le> (sum_list (map f xs) :: int)"
  by (rule sum_list_nonneg) auto

lemma distinct_set_single: "distinct xs \<Longrightarrow> set xs = {x} \<Longrightarrow> xs = [x]"
proof -
  assume d: "distinct xs" and s: "set xs = {x}"
  have "length xs = Suc 0" using distinct_card [OF d] s by simp
  then obtain y where "xs = [y]" by (cases xs) auto
  with s show "xs = [x]" by simp
qed

text \<open>\<open>list.index\<close> on a tuple, and \<open>x in xs\<close> as a boolean.\<close>

fun index_of :: "'a \<Rightarrow> 'a list \<Rightarrow> nat" where
  "index_of x [] = 0"
| "index_of x (y # ys) = (if x = y then 0 else Suc (index_of x ys))"

end
