(* ===== verification/Tables.thy ===== *)
theory Tables
  imports Prelude
begin

text \<open>
  The rows of the order-lifecycle tables (\<open>src/app/models\<close>) and the database session. A row is a
  record with the columns some modelled operation reads or writes; a nullable column is an option.
  A status column that the code compares with string constants is a datatype with those constants.
  A session holds what its transaction sees (\<open>db\<close>) and what is committed (\<open>base\<close>), so that
  \<open>commit\<close> and \<open>rollback\<close> are definable; \<open>fresh\<close> supplies \<open>uuid4\<close> values: every identifier in use is
  below it, which is the collision-freedom the code relies on.
\<close>

section \<open>Enumerations\<close>

datatype sla_tier = HOT_SHOT | T1 | T2 | T3

datatype order_status =
    Received | Classified | Held | Queued | Assigned | Accepted | En_route_pickup | Picked_up
  | En_route_drop | Delivered | Cancelled | Delivery_failed | Returned

text \<open>The enumeration's members in declaration order, and the strings of \<open>SLATier\<close>.\<close>

definition order_statuses :: "order_status list" where
  "order_statuses =
    [Received, Classified, Held, Queued, Assigned, Accepted, En_route_pickup, Picked_up,
     En_route_drop, Delivered, Cancelled, Delivery_failed, Returned]"

fun tier_value :: "sla_tier \<Rightarrow> string" where
  "tier_value HOT_SHOT = ''HOT_SHOT''"
| "tier_value T1 = ''T1''"
| "tier_value T2 = ''T2''"
| "tier_value T3 = ''T3''"

datatype intake_mode = INTAKE_LIVE | INTAKE_BACKFILL

datatype stop_status =
    Stop_pending | Stop_en_route | Stop_arrived | Stop_completed | Stop_failed | Stop_cancelled
  | Stop_recorded

datatype stop_type = Pickup | Dropoff | Visit

datatype route_status = Route_planned | Route_active | Route_completed | Route_aborted

datatype offer_status =
    Offer_offered | Offer_accepted | Offer_declined | Offer_expired | Offer_withdrawn

datatype review_status = REVIEW_PENDING | REVIEW_VERIFIED | REVIEW_REJECTED

datatype playbook_outcome =
    OUTCOME_OPEN | OUTCOME_ACTED | OUTCOME_AGREED | OUTCOME_OVERRULED | OUTCOME_ESCALATED | OUTCOME_SUPERSEDED

datatype delivery_status =
    DELIVERY_PENDING | DELIVERY_DELIVERED | DELIVERY_FAILED | DELIVERY_REJECTED

text \<open>The lines of a fee (\<open>price_drop\<close> in \<open>src/app/billing/rates.py\<close>).\<close>

datatype fee_kind = Fee_base | Fee_mileage | Fee_pieces | Fee_weight | Fee_minimum

section \<open>JSON columns\<close>

text \<open>
  A JSON value as it is read back: a string that holds a UUID or an ISO time is kept as what it
  denotes.
\<close>

datatype json =
    JNull | JId uuid | JFloat rat | JText string | JTime instant | JInt int | JBool bool | JList "json list"
  | JObj "(string \<times> json) list"

type_synonym json_object = "(string \<times> json) list"

section \<open>Rows\<close>

text \<open>
  The columns of an order that intake copies from the contract and no modelled operation reads again.
\<close>

record order_contract =
  oc_raw_payload :: json_object
  oc_pickup_address :: "string option"
  oc_pickup_contact_name :: "string option"
  oc_pickup_contact_phone :: "string option"
  oc_ready_at :: "instant option"
  oc_pickup_window_start :: "instant option"
  oc_pickup_window_end :: "instant option"
  oc_delivery_window_start :: "instant option"
  oc_assignment_scope :: string
  oc_entry_seconds :: "int option"
  oc_revenue_basis :: string
  oc_quoted_amount_cents :: "cents option"
  oc_payment_status :: string
  oc_modality_assigned :: "string option"
  oc_delivery_contact_name :: "string option"
  oc_delivery_contact_phone :: "string option"
  oc_delivery_notes :: "string option"

record order_row =
  ord_id :: uuid
  ord_hub_id :: uuid
  ord_client_id :: "uuid option"
  ord_shop_id :: "uuid option"
  ord_external_order_ref :: string
  ord_source_system :: string
  ord_source_order_ref :: "string option"
  ord_sla_tier :: "sla_tier option"
  ord_hold_deadline :: "instant option"
  ord_assigned_at :: "instant option"
  ord_weight_units :: rat
  ord_status :: order_status
  ord_requested_at :: "instant option"
  ord_delivered_at :: "instant option"
  ord_delivery_attempts :: int
  ord_failure_reason :: "string option"
  ord_delivery_lat :: "rat option"
  ord_delivery_lng :: "rat option"
  ord_delivery_location_id :: "uuid option"
  ord_sla_owner :: string
  ord_delivery_window_end :: "instant option"
  ord_promised_at :: "instant option"
  ord_payer_type :: string
  ord_cod_amount_cents :: "cents option"
  ord_fee_cents :: "cents option"
  ord_invoice_id :: "uuid option"
  ord_intake_mode :: intake_mode
  ord_proof_requirements :: "json_object option"
  ord_tracking_token :: "string option"
  ord_delivery_address :: "string option"
  ord_intake_flags :: "json_object list"
  ord_fee_components :: "(fee_kind \<times> cents) list option"
  ord_rate_version_id :: "uuid option"
  ord_contract :: order_contract
  ord_created_at :: instant
  ord_updated_at :: instant

text \<open>What was recorded at a stop: proof of delivery, the PIN, the flag and the two position pins.\<close>

type_synonym position_pin = "(rat \<times> rat \<times> rat option) option"

record stop_evidence =
  ev_pod_method :: "string option"
  ev_pod_photo_url :: "string option"
  ev_pod_signature_url :: "string option"
  ev_pod_photo_urls :: "string list option"
  ev_pod_pin :: "string option"
  ev_pod_left_at :: "string option"
  ev_delivery_pin :: "string option"
  ev_pin_attempts :: int
  ev_failure_reason :: "string option"
  ev_flag_note :: "string option"
  ev_arrived_pin :: position_pin
  ev_completed_pin :: position_pin

record stop_row =
  stop_id :: uuid
  stop_route_id :: uuid
  stop_shop_id :: "uuid option"
  stop_sequence :: int
  stop_status_of :: stop_status
  stop_type_of :: stop_type
  stop_parcel_count :: int
  stop_scanned_count :: int
  stop_eta :: "instant option"
  stop_planned_eta :: "instant option"
  stop_arrived_at :: "instant option"
  stop_completed_at :: "instant option"
  stop_flagged_at :: "instant option"
  stop_evidence_of :: stop_evidence
  stop_created_at :: instant

record stop_order_row =
  so_stop_id :: uuid
  so_order_id :: uuid

record parcel_row =
  parcel_hub_id :: uuid
  parcel_order_id :: uuid
  parcel_barcode :: string
  parcel_scanned_at :: "instant option"

record route_row =
  route_id :: uuid
  route_hub_id :: uuid
  route_driver_id :: uuid
  route_status_of :: route_status
  route_plan_version :: int
  route_created_at :: instant

text \<open>One entry of \<open>RouteOffer.stop_payload\<close>: a JSON object with these keys.\<close>

record payload_stop =
  ps_order_id :: uuid
  ps_lat :: rat
  ps_lng :: rat
  ps_sla_tier :: string
  ps_shop_name :: "string option"

text \<open>
  One entry of \<open>RouteOffer.visit_payload\<close>, as far as it is read: its kind, and its order, \<open>None\<close> when
  the key is missing or its value is no UUID.
\<close>

record visit_entry =
  ve_kind :: "string option"
  ve_order_id :: "uuid option"

record offer_row =
  offer_id :: uuid
  offer_hub_id :: uuid
  offer_driver_id :: uuid
  offer_status_of :: offer_status
  offer_stop_payload :: "payload_stop list"
  offer_visit_payload :: "visit_entry list option"
  offer_offered_at :: instant
  offer_expires_at :: instant
  offer_responded_at :: "instant option"
  offer_decline_reason :: "string option"
  offer_route_id :: "uuid option"
  offer_bonus_cents :: "cents option"

record shop_row =
  shop_id :: uuid
  shop_name :: string
  shop_lat :: rat
  shop_lng :: rat
  shop_location_id :: "uuid option"
  shop_client_id :: uuid
  shop_address :: string
  shop_phone :: "string option"
  shop_external_ref :: "string option"
  shop_created_at :: instant

record hub_row =
  hub_id :: uuid
  hub_lat :: rat
  hub_lng :: rat
  hub_timezone :: string
  hub_state_code :: "string option"

record closure_row =
  closure_hub_id :: uuid
  closure_date :: date

record driver_row =
  driver_id :: uuid
  driver_hub_id :: uuid
  driver_is_active :: bool
  driver_vehicle_capacity_units :: int
  driver_employment_type :: string
  driver_stripe_account :: "string option"
  driver_hourly_rate_cents :: "cents option"
  driver_status_text :: string

record document_row =
  doc_driver_id :: uuid
  doc_type_of :: string
  doc_claimed_expires_at :: date
  doc_verified_expires_at :: "date option"
  doc_review_status :: review_status
  doc_rejection_reason :: "string option"
  doc_file_url :: "string option"

record assignment_row =
  asg_id :: uuid
  asg_hub_id :: uuid
  asg_order_id :: uuid
  asg_driver_id :: uuid
  asg_assigned_at :: instant
  asg_offer_id :: uuid
  asg_ops_user_id :: string
  asg_ops_user_email :: string

record playbook_row =
  pb_rule :: string
  pb_order_id :: uuid
  pb_action :: string
  pb_target :: "uuid option"
  pb_outcome :: playbook_outcome
  pb_closed_at :: "instant option"
  pb_human_action :: "string option"
  pb_human_target :: "uuid option"
  pb_ops_user_id :: "string option"

text \<open>
  The JSON value of a rule: its integer entries (\<open>rule_value\<close>) and its text entries (\<open>rule_texts\<close>).
\<close>

record rule_row =
  rule_type :: string
  rule_enabled :: bool
  rule_hub_id :: uuid
  rule_scope_shop_id :: "uuid option"
  rule_value :: "(string \<times> int) list"
  rule_texts :: "(string \<times> string) list"
  rule_created_at :: instant

record client_row =
  client_id :: uuid
  client_hub_id :: uuid
  client_control_arm_contracted_at :: "instant option"
  client_control_arm_fraction :: "rat option"

record client_rate =
  rate_id :: uuid
  rate_client_id :: uuid
  rate_sla_tier :: string
  rate_effective_from :: instant
  rate_per_drop_cents :: cents
  rate_per_mile_cents :: cents
  rate_per_piece_cents :: cents
  rate_per_weight_unit_cents :: cents
  minimum_charge_cents :: "cents option"

record sla_term_row =
  term_client_id :: uuid
  term_sla_tier :: string
  term_delivery_target_minutes :: int
  term_credit_percent :: int
  term_credit_minimum_cents :: "cents option"
  term_credit_maximum_cents :: "cents option"

record invoice_row =
  inv_id :: uuid
  inv_client_id :: uuid
  inv_period_start :: date
  inv_period_end :: date
  inv_gross_cents :: cents
  inv_credit_cents :: cents
  inv_total_cents :: cents

record invoice_credit_row =
  ic_invoice_id :: uuid
  ic_order_id :: uuid
  ic_sla_tier :: "sla_tier option"
  ic_amount_cents :: cents
  ic_reason :: string
  ic_promised_by :: instant
  ic_delivered_at :: instant
  ic_minutes_late :: int

datatype cod_outcome = OUTCOME_COLLECTED | OUTCOME_DISPUTED

record cod_row =
  cod_id :: uuid
  cod_order_id :: uuid
  cod_stop_id :: uuid
  cod_driver_id :: uuid
  cod_client_id :: "uuid option"
  cod_shop_id :: "uuid option"
  cod_outcome_of :: cod_outcome
  cod_amount_due_cents :: cents
  cod_amount_collected_cents :: "cents option"
  cod_method :: "string option"
  cod_dispute_note :: "string option"
  cod_occurred_at :: instant
  cod_escalated_at :: "instant option"

text \<open>
  A decision snapshot keeps, per assignment, the orders of its visits. The values of a delivery's
  outcome are the keys \<open>record_delivery_outcome\<close> writes, those of an abstention the keys
  \<open>record_arm_abstention\<close> writes; a key an entry does not have is \<open>None\<close>, like a null.
\<close>

record snapshot_row =
  snap_id :: uuid
  snap_hub_id :: uuid
  snap_decided_at :: instant
  snap_assignments :: "uuid list list"

record outcome_values =
  ov_delivered_at :: "instant option"
  ov_promised_delivery_by :: "instant option"
  ov_commitment_source :: "string option"
  ov_sla_tier :: "sla_tier option"
  ov_lateness_micros :: "int option"
  ov_on_time :: "bool option"
  ov_correction_reason :: "string option"
  ov_arm :: "string option"
  ov_declined :: "string option"
  ov_abstention_reason :: "string option"
  ov_would_have_held_until :: "instant option"

record outcome_row =
  out_id :: uuid
  out_hub_id :: uuid
  out_decision_snapshot_id :: "uuid option"
  out_subject_type :: string
  out_subject_id :: uuid
  out_kind :: string
  out_occurred_at :: instant
  out_recorded_at :: instant
  out_values :: outcome_values
  out_supersedes :: "uuid option"

record payout_row =
  pay_hub_id :: uuid
  pay_driver_id :: uuid
  pay_stop_id :: uuid
  pay_amount_cents :: cents
  pay_status :: string
  pay_transfer_id :: "string option"
  pay_created_at :: instant

record ping_row =
  ping_driver_id :: uuid
  ping_lat :: rat
  ping_lng :: rat
  ping_recorded_at :: instant

record location_row =
  location_id :: uuid
  location_merged_into_id :: "uuid option"
  location_normalized_address :: string
  location_address :: string
  location_lat :: "rat option"
  location_lng :: "rat option"

record profile_row =
  profile_location_id :: uuid
  profile_dwell_sample_count :: int
  profile_dwell_p50_seconds :: "int option"
  profile_inherited_dwell_p50_seconds :: "int option"
  profile_inherited_dwell_sample_count :: "int option"

record endpoint_row =
  endpoint_id :: uuid
  endpoint_client_id :: uuid
  endpoint_is_active :: bool
  endpoint_consecutive_failures :: int
  endpoint_disabled_at :: "instant option"
  endpoint_last_success_at :: "instant option"

text \<open>The webhook body (\<open>build_payload\<close>); \<open>occurred_at.isoformat()\<close> is kept as the instant.\<close>

record webhook_payload =
  wp_event_id :: uuid
  wp_type :: string
  wp_order_id :: uuid
  wp_source_order_ref :: "string option"
  wp_source_system :: string
  wp_previous_status :: string
  wp_status :: string
  wp_occurred_at :: instant

record delivery_row =
  wd_id :: uuid
  wd_endpoint_id :: uuid
  wd_order_id :: uuid
  wd_event_id :: uuid
  wd_sequence :: int
  wd_payload :: webhook_payload
  wd_status :: delivery_status
  wd_attempts :: int
  wd_next_attempt_at :: "instant option"
  wd_last_status_code :: "int option"
  wd_last_error :: "string option"
  wd_delivered_at :: "instant option"

section \<open>The database and the session\<close>

text \<open>The tables of the operations side, which the order lifecycle itself does not touch.\<close>

record ledger_tables =
  clients :: "client_row list"
  client_sla_terms :: "sla_term_row list"
  invoices :: "invoice_row list"
  invoice_credits :: "invoice_credit_row list"
  cod_collections :: "cod_row list"
  decision_snapshots :: "snapshot_row list"
  outcome_ledger :: "outcome_row list"
  gig_payouts :: "payout_row list"

record geocode_row =
  geo_normalized_address :: string
  geo_raw_address :: string
  geo_lat :: "rat option"
  geo_lng :: "rat option"
  geo_display_name :: "string option"
  geo_provider :: "string option"
  geo_attempted_at :: instant

record return_item_row =
  ri_hub_id :: uuid
  ri_origin_order_id :: "uuid option"
  ri_shop_id :: "uuid option"
  ri_manifest :: string
  ri_status :: string

record arm_assignment_row =
  ea_hub_id :: uuid
  ea_client_id :: uuid
  ea_order_id :: uuid
  ea_experiment :: string
  ea_arm :: string
  ea_assigned_at :: instant
  ea_salt :: string
  ea_control_fraction :: rat
  ea_draw :: rat
  ea_contracted_at :: "instant option"
  ea_receiver_key :: "string option"
  ea_block_size :: "int option"
  ea_block_index :: "int option"
  ea_position_in_block :: "int option"

record exclusion_row =
  ex_id :: uuid
  ex_client_id :: uuid
  ex_receiver_key :: string
  ex_experiment :: string
  ex_reason :: string
  ex_requested_by :: string
  ex_excluded_at :: instant
  ex_revoked_at :: "instant option"

text \<open>The tables only intake and the experiment use.\<close>

record intake_tables =
  geocoded_addresses :: "geocode_row list"
  client_rates :: "client_rate list"
  return_items :: "return_item_row list"
  experiment_assignments :: "arm_assignment_row list"
  experiment_exclusions :: "exclusion_row list"

record shift_event_row =
  se_driver_id :: uuid
  se_hub_id :: uuid
  se_event_type :: string
  se_occurred_at :: instant

record ops_tables =
  hub_closures :: "closure_row list"
  driver_rows :: "driver_row list"
  driver_documents :: "document_row list"
  dispatch_assignments :: "assignment_row list"
  playbook_decisions :: "playbook_row list"
  active_rules :: "rule_row list"
  shift_events :: "shift_event_row list"
  ledgers_of :: ledger_tables
  intake_of :: intake_tables

record db =
  orders :: "order_row list"
  stops :: "stop_row list"
  stop_orders :: "stop_order_row list"
  parcels :: "parcel_row list"
  routes :: "route_row list"
  offers :: "offer_row list"
  shops :: "shop_row list"
  hubs :: "hub_row list"
  pings :: "ping_row list"
  locations :: "location_row list"
  profiles :: "profile_row list"
  endpoints :: "endpoint_row list"
  deliveries :: "delivery_row list"
  ops_of :: ops_tables

text \<open>One line of the structured log, as far as the status sink writes it.\<close>

record status_event =
  ev_order_id :: uuid
  ev_client_id :: "uuid option"
  ev_source_system :: string
  ev_source_order_ref :: "string option"
  ev_previous_status :: string
  ev_status :: string
  ev_occurred_at :: instant

record session =
  db :: db
  base :: db
  txn_now :: instant
  fresh :: uuid
  delivery_seq :: int
  pending_deliveries :: "uuid list"
  status_log :: "status_event list"

definition commit :: "session \<Rightarrow> session" where
  "commit s = s\<lparr>base := db s\<rparr>"

definition rollback :: "session \<Rightarrow> session" where
  "rollback s = s\<lparr>db := base s\<rparr>"

abbreviation (input) on_db :: "(db \<Rightarrow> db) \<Rightarrow> session \<Rightarrow> session" where
  "on_db f s \<equiv> s\<lparr>db := f (db s)\<rparr>"

definition order_by_id :: "uuid \<Rightarrow> db \<Rightarrow> order_row option" where
  "order_by_id i d = lookup_by ord_id i (orders d)"

text \<open>\<open>uuid.uuid4()\<close>\<close>

definition uuid4 :: "session \<Rightarrow> uuid \<times> session" where
  "uuid4 s = (fresh s, s\<lparr>fresh := Suc (fresh s)\<rparr>)"

lemma set_order_statuses [simp]: "set order_statuses = UNIV"
proof -
  have "s \<in> set order_statuses" for s by (cases s) (simp_all add: order_statuses_def)
  then show ?thesis by blast
qed

lemma tier_value_inject [simp]: "tier_value t = tier_value u \<longleftrightarrow> t = u"
  by (cases t; cases u) simp_all

lemma rollback_commit [simp]: "rollback (commit s) = commit s"
  by (simp add: commit_def rollback_def)

text \<open>A database with these orders and one active webhook endpoint, for evaluating properties.\<close>

definition sample_tables :: "order_row list \<Rightarrow> db" where
  "sample_tables rows =
     \<lparr>orders = rows, stops = [], stop_orders = [], parcels = [], routes = [], offers = [], shops = [],
      hubs = [], pings = [], locations = [], profiles = [],
      endpoints = [\<lparr>endpoint_id = 50, endpoint_client_id = 2, endpoint_is_active = True,
        endpoint_consecutive_failures = 0, endpoint_disabled_at = None, endpoint_last_success_at = None\<rparr>],
      deliveries = [],
      ops_of = \<lparr>hub_closures = [], driver_rows = [], driver_documents = [], dispatch_assignments = [],
        playbook_decisions = [], active_rules = [], shift_events = [], ledgers_of = \<lparr>clients = [], client_sla_terms = [], invoices = [],
          invoice_credits = [], cod_collections = [], decision_snapshots = [], outcome_ledger = [], gig_payouts = []\<rparr>,
        intake_of = \<lparr>geocoded_addresses = [], client_rates = [], return_items = [], experiment_assignments = [],
          experiment_exclusions = []\<rparr>\<rparr>\<rparr>"

definition no_contract :: order_contract where
  "no_contract = \<lparr>oc_raw_payload = [], oc_pickup_address = None, oc_pickup_contact_name = None,
     oc_pickup_contact_phone = None, oc_ready_at = None, oc_pickup_window_start = None, oc_pickup_window_end = None,
     oc_delivery_window_start = None, oc_assignment_scope = ''any_driver'', oc_entry_seconds = None,
     oc_revenue_basis = ''per_drop'', oc_quoted_amount_cents = None, oc_payment_status = ''unbilled'',
     oc_modality_assigned = None, oc_delivery_contact_name = None, oc_delivery_contact_phone = None,
     oc_delivery_notes = None\<rparr>"

text \<open>A shop of client 2, and a dock, to evaluate properties on.\<close>

definition sample_shop :: "uuid \<Rightarrow> rat \<Rightarrow> rat \<Rightarrow> shop_row" where
  "sample_shop i lat lng = \<lparr>shop_id = i, shop_name = ''S'', shop_lat = lat, shop_lng = lng, shop_location_id = None,
     shop_client_id = 2, shop_address = ''1 High St'', shop_phone = None, shop_external_ref = Some ''S1'', shop_created_at = 0\<rparr>"

definition sample_dock :: "uuid \<Rightarrow> uuid option \<Rightarrow> location_row" where
  "sample_dock i target = \<lparr>location_id = i, location_merged_into_id = target, location_normalized_address = ''1 high st'',
     location_address = ''1 High St'', location_lat = None, location_lng = None\<rparr>"

lemma sample_shop_sel [simp]:
  "shop_id (sample_shop i lat lng) = i" "shop_lat (sample_shop i lat lng) = lat" "shop_lng (sample_shop i lat lng) = lng"
  "shop_name (sample_shop i lat lng) = ''S''" "shop_location_id (sample_shop i lat lng) = None"
  by (simp_all add: sample_shop_def)

lemma sample_dock_sel [simp]:
  "location_id (sample_dock i target) = i" "location_merged_into_id (sample_dock i target) = target"
  by (simp_all add: sample_dock_def)

definition no_evidence :: stop_evidence where
  "no_evidence = \<lparr>ev_pod_method = None, ev_pod_photo_url = None, ev_pod_signature_url = None, ev_pod_photo_urls = None,
     ev_pod_pin = None, ev_pod_left_at = None, ev_delivery_pin = None, ev_pin_attempts = 0, ev_failure_reason = None,
     ev_flag_note = None, ev_arrived_pin = None, ev_completed_pin = None\<rparr>"

end
