(* ===== verification/State_Machine.thy ===== *)
theory State_Machine
  imports Tables
begin

text \<open>
  The order status machine (\<open>src/app/orders/state_machine.py\<close>), as the tables and functions the
  module declares, and the interface every lifecycle of the program offers: a successor table and
  a set of final states nothing leaves. The interface's lemmas (reachability, absorption, the
  precondition of a conditional write) are proved once in the locale \<open>lifecycle\<close>; the order
  machine is interpreted here and the gig-job machine in its own theory.
\<close>

section \<open>The tables and functions of the module\<close>

fun PUBLIC_LABELS :: "order_status \<Rightarrow> string" where
  "PUBLIC_LABELS Received = ''RECEIVED''"
| "PUBLIC_LABELS Classified = ''HELD''"
| "PUBLIC_LABELS Held = ''HELD''"
| "PUBLIC_LABELS Queued = ''HELD''"
| "PUBLIC_LABELS Assigned = ''ASSIGNED''"
| "PUBLIC_LABELS Accepted = ''ACCEPTED''"
| "PUBLIC_LABELS En_route_pickup = ''EN_ROUTE_PICKUP''"
| "PUBLIC_LABELS Picked_up = ''PICKED_UP''"
| "PUBLIC_LABELS En_route_drop = ''EN_ROUTE_DROP''"
| "PUBLIC_LABELS Delivered = ''DELIVERED''"
| "PUBLIC_LABELS Delivery_failed = ''EXCEPTION_RAISED''"
| "PUBLIC_LABELS Returned = ''RETURNED_TO_HUB''"
| "PUBLIC_LABELS Cancelled = ''CANCELLED''"

definition TERMINAL :: "order_status list" where
  "TERMINAL = [Delivered, Returned, Cancelled]"

definition ALWAYS_AVAILABLE :: "order_status list" where
  "ALWAYS_AVAILABLE = [Cancelled, Delivery_failed]"

fun FORWARD :: "order_status \<Rightarrow> order_status list" where
  "FORWARD Received = [Classified, Accepted, Held]"
| "FORWARD Classified = [Held, Queued]"
| "FORWARD Held = [Queued, Assigned]"
| "FORWARD Queued = [Assigned, Held]"
| "FORWARD Accepted = [Held, Queued, Assigned]"
| "FORWARD Assigned = [En_route_pickup, Picked_up]"
| "FORWARD En_route_pickup = [Picked_up]"
| "FORWARD Picked_up = [En_route_drop, Delivered]"
| "FORWARD En_route_drop = [Delivered]"
| "FORWARD Delivery_failed = [Held, Assigned, Queued, Returned]"
| "FORWARD Delivered = []"
| "FORWARD Returned = []"
| "FORWARD Cancelled = []"

datatype order_error =
    InvalidOrderTransition order_status order_status

definition allowed_next :: "order_status \<Rightarrow> order_status list" where
  "allowed_next current =
     (if current \<in> set TERMINAL then []
      else FORWARD current @ filter (\<lambda>s. s \<noteq> current) ALWAYS_AVAILABLE)"

definition can_transition :: "order_status \<Rightarrow> order_status \<Rightarrow> bool" where
  "can_transition current new \<longleftrightarrow> (if current = new then True else new \<in> set (allowed_next current))"

definition assert_transition :: "order_status \<Rightarrow> order_status \<Rightarrow> order_error + unit" where
  "assert_transition current new =
     (if \<not> can_transition current new then Inl (InvalidOrderTransition current new) else Inr ())"

definition legal_sources :: "order_status \<Rightarrow> order_status list" where
  "legal_sources new = filter (\<lambda>s. s \<noteq> new \<and> new \<in> set (allowed_next s)) order_statuses"

definition public_label :: "order_status \<Rightarrow> string" where
  "public_label status = PUBLIC_LABELS status"

lemmas machine_defs [status_simps] =
  TERMINAL_def ALWAYS_AVAILABLE_def allowed_next_def can_transition_def legal_sources_def
  order_statuses_def

section \<open>Lifecycles\<close>

text \<open>
  What the writers of a status rely on: \<open>next_of s\<close> lists the states that may follow \<open>s\<close>, and
  nothing follows a \<open>final\<close> state.
\<close>

locale lifecycle =
  fixes next_of :: "'s \<Rightarrow> 's list" and final :: "'s \<Rightarrow> bool"
  assumes final_stuck: "final s \<Longrightarrow> next_of s = []"
begin

text \<open>One move, and a life: a sequence of moves from a start state.\<close>

inductive move :: "'s \<Rightarrow> 's \<Rightarrow> bool" where
  move: "t \<in> set (next_of s) \<Longrightarrow> move s t"

fun life :: "'s \<Rightarrow> 's list \<Rightarrow> bool" where
  "life s [] = True"
| "life s (t # ts) = (move s t \<and> life t ts)"

inductive_cases move_cases: "move s t"
inductive_simps move_iff: "move s t"

lemma final_no_move: "final s \<Longrightarrow> \<not> move s t"
  by (auto simp: move_iff final_stuck)

lemma final_absorbing: "final s \<Longrightarrow> move\<^sup>*\<^sup>* s t \<Longrightarrow> t = s"
  by (erule converse_rtranclpE) (auto dest: final_no_move)

lemma final_life: "final s \<Longrightarrow> life s ts \<Longrightarrow> ts = []"
  by (cases ts) (auto dest: final_no_move)

lemma life_append: "life s (ts @ us) \<longleftrightarrow> life s ts \<and> life (last (s # ts)) us"
  by (induction ts arbitrary: s) auto

lemma life_reach: "life s ts \<Longrightarrow> move\<^sup>*\<^sup>* s (last (s # ts))"
  by (induction ts arbitrary: s) (auto intro: converse_rtranclp_into_rtranclp)

lemma reach_life: "move\<^sup>*\<^sup>* s t \<Longrightarrow> \<exists>ts. life s ts \<and> last (s # ts) = t"
proof (induction rule: converse_rtranclp_induct)
  case base
  show ?case by (rule exI [of _ "[]"]) simp
next
  case (step s u)
  then obtain ts where "life u ts" "last (u # ts) = t" by blast
  with step.hyps(1) show ?case by (intro exI [of _ "u # ts"]) simp
qed

text \<open>
  A checkpoint: a set of states that a life from outside it can only enter through a gate is not
  entered without passing that gate.
\<close>

lemma life_through_gate:
  assumes "\<And>s t. s \<notin> Z \<Longrightarrow> t \<in> Z \<Longrightarrow> move s t \<Longrightarrow> t \<in> G"
  shows "life s ts \<Longrightarrow> s \<notin> Z \<Longrightarrow> last (s # ts) \<in> Z \<Longrightarrow> \<exists>g \<in> set ts. g \<in> G"
proof (induction ts arbitrary: s)
  case (Cons t ts)
  show ?case
  proof (cases "t \<in> Z")
    case True
    with assms Cons.prems show ?thesis by auto
  next
    case False
    with Cons.IH [of t] Cons.prems show ?thesis by auto
  qed
qed simp

end

interpretation om: lifecycle allowed_next "\<lambda>s. s \<in> set TERMINAL"
  by unfold_locales (simp add: allowed_next_def)

lemma order_move_iff: "om.move s t \<longleftrightarrow> t \<in> set (allowed_next s)"
  by (rule om.move_iff)

section \<open>Properties\<close>

lemma can_transition_refl [simp]: "can_transition s s"
  by (simp add: can_transition_def)

lemma set_legal_sources: "set (legal_sources t) = {s. s \<noteq> t \<and> can_transition s t}"
  by (auto simp: legal_sources_def can_transition_def)

lemma allowed_next_irrefl: "s \<notin> set (allowed_next s)"
  by (cases s) (simp_all add: status_simps)

lemma legal_sources_move: "s \<in> set (legal_sources t) \<longleftrightarrow> om.move s t"
  by (auto simp: legal_sources_def order_move_iff allowed_next_irrefl)

lemma terminal_can_transition: "s \<in> set TERMINAL \<Longrightarrow> can_transition s t \<longleftrightarrow> s = t"
  by (simp add: can_transition_def allowed_next_def)

lemma assigned_gate:
  "om.move s t \<Longrightarrow> t \<in> {Assigned, En_route_pickup, Picked_up, En_route_drop, Delivered} \<Longrightarrow>
     s \<notin> {Assigned, En_route_pickup, Picked_up, En_route_drop, Delivered} \<Longrightarrow> t = Assigned"
  by (cases s) (auto simp: om.move_iff status_simps)

lemma picked_up_gate:
  "om.move s t \<Longrightarrow> t \<in> {Picked_up, En_route_drop, Delivered} \<Longrightarrow>
     s \<notin> {Picked_up, En_route_drop, Delivered} \<Longrightarrow> t = Picked_up"
  by (cases s) (auto simp: om.move_iff status_simps)

text \<open>
  (C3) Every life of an order from its receipt to its delivery along the machine passes through
  \<open>assigned\<close> and through \<open>picked_up\<close>: nothing is delivered that no driver was given or collected.
\<close>

theorem delivered_was_assigned_and_picked_up:
  assumes "om.life Received sts" "last (Received # sts) = Delivered"
  shows "Assigned \<in> set sts \<and> Picked_up \<in> set sts"
proof -
  have "\<exists>g \<in> set sts. g \<in> {Assigned}"
    by (rule om.life_through_gate [where Z = "{Assigned, En_route_pickup, Picked_up, En_route_drop, Delivered}"])
      (use assms in \<open>auto dest: assigned_gate\<close>)
  moreover have "\<exists>g \<in> set sts. g \<in> {Picked_up}"
    by (rule om.life_through_gate [where Z = "{Picked_up, En_route_drop, Delivered}"])
      (use assms in \<open>auto dest: picked_up_gate\<close>)
  ultimately show ?thesis by simp
qed

theorem delivered_was_assigned_and_picked_up_witness:
  "Assigned \<in> set [Held, Assigned, Picked_up, Delivered] \<and> Picked_up \<in> set [Held, Assigned, Picked_up, Delivered]"
  by (rule delivered_was_assigned_and_picked_up)
    (simp_all add: om.move_iff status_simps)

end
