(* ===== verification/Status_Service.thy ===== *)
theory Status_Service
  imports State_Machine
begin

text \<open>
  Advancing orders and telling the consumers (\<open>src/app/orders/status_service.py\<close>,
  \<open>src/app/orders/sinks.py\<close>, \<open>src/app/webhooks/sink.py\<close>). \<open>advance_orders\<close> reads the rows once,
  unlocked, and then writes them one at a time with a conditional UPDATE, so other transactions may
  commit in between: \<open>env k\<close> is what they do to the order table between the read (or the write
  before) and the write of the \<open>k\<close>-th row. Every theorem quantifies over \<open>env\<close> or sets it to the
  identity. A sink is a function from the event and the session to whether it returned (or raised)
  and the session it leaves; the program registers two.
\<close>

section \<open>The webhook sink\<close>

definition build_payload :: "status_event \<Rightarrow> uuid \<Rightarrow> webhook_payload" where
  "build_payload event event_id =
     \<lparr>wp_event_id = event_id, wp_type = ''order.status_changed'', wp_order_id = ev_order_id event,
      wp_source_order_ref = ev_source_order_ref event, wp_source_system = ev_source_system event,
      wp_previous_status = ev_previous_status event, wp_status = ev_status event,
      wp_occurred_at = ev_occurred_at event\<rparr>"

text \<open>The row \<open>WebhookDelivery(...)\<close> with the defaults of its columns.\<close>

definition new_delivery ::
    "uuid \<Rightarrow> status_event \<Rightarrow> uuid \<Rightarrow> webhook_payload \<Rightarrow> uuid \<Rightarrow> int \<Rightarrow> delivery_row" where
  "new_delivery endpoint event event_id payload new_id seq =
     \<lparr>wd_id = new_id, wd_endpoint_id = endpoint, wd_order_id = ev_order_id event,
      wd_event_id = event_id, wd_sequence = seq, wd_payload = payload,
      wd_status = DELIVERY_PENDING, wd_attempts = 0,
      wd_next_attempt_at = Some (ev_occurred_at event), wd_last_status_code = None,
      wd_last_error = None, wd_delivered_at = None\<rparr>"

text \<open>
  \<open>session.add\<close> and \<open>flush\<close> of one delivery: the unique constraint on endpoint and event refuses
  it (\<open>None\<close>, an \<open>IntegrityError\<close>), or the row is in the table with its defaults.
\<close>

definition flush_delivery ::
    "uuid \<Rightarrow> status_event \<Rightarrow> uuid \<Rightarrow> webhook_payload \<Rightarrow> session \<Rightarrow> (uuid \<times> session) option" where
  "flush_delivery endpoint event event_id payload s =
     (if \<exists>d \<in> set (deliveries (db s)). wd_endpoint_id d = endpoint \<and> wd_event_id d = event_id
      then None
      else let (new_id, s') = uuid4 s in
        Some (new_id,
          s'\<lparr>delivery_seq := delivery_seq s' + 1,
             db := (db s')\<lparr>deliveries := deliveries (db s') @
               [new_delivery endpoint event event_id payload new_id (delivery_seq s')]\<rparr>\<rparr>))"

fun enqueue_deliveries ::
    "status_event \<Rightarrow> uuid \<Rightarrow> webhook_payload \<Rightarrow> endpoint_row list \<Rightarrow> session \<Rightarrow> session" where
  "enqueue_deliveries event event_id payload [] s = s"
| "enqueue_deliveries event event_id payload (e # es) s =
     (case flush_delivery (endpoint_id e) event event_id payload s of
        None \<Rightarrow> rollback s
      | Some (new_id, s') \<Rightarrow>
          enqueue_deliveries event event_id payload es
            (s'\<lparr>pending_deliveries := pending_deliveries s' @ [new_id]\<rparr>))"

definition active_endpoints :: "uuid \<Rightarrow> db \<Rightarrow> endpoint_row list" where
  "active_endpoints client d =
     filter (\<lambda>e. endpoint_client_id e = client \<and> endpoint_is_active e) (endpoints d)"

text \<open>\<open>WebhookStatusSink.emit\<close>; \<open>has_session\<close> says whether the caller passed one.\<close>

definition webhook_emit :: "bool \<Rightarrow> status_event \<Rightarrow> session \<Rightarrow> bool \<times> session" where
  "webhook_emit has_session event s =
     (case ev_client_id event of
        None \<Rightarrow> (True, s)
      | Some client \<Rightarrow>
          if \<not> has_session then (True, s)
          else let es = active_endpoints client (db s) in
            if es = [] then (True, s)
            else let (event_id, s') = uuid4 s in
              (True, enqueue_deliveries event event_id (build_payload event event_id) es s'))"

definition take_pending_delivery_ids :: "session \<Rightarrow> uuid list \<times> session" where
  "take_pending_delivery_ids s = (pending_deliveries s, s\<lparr>pending_deliveries := []\<rparr>)"

section \<open>The sinks\<close>

definition logging_emit :: "bool \<Rightarrow> status_event \<Rightarrow> session \<Rightarrow> bool \<times> session" where
  "logging_emit has_session event s = (True, s\<lparr>status_log := status_log s @ [event]\<rparr>)"

type_synonym sink = "bool \<Rightarrow> status_event \<Rightarrow> session \<Rightarrow> bool \<times> session"

definition registered_sinks :: "sink list" where
  "registered_sinks = [logging_emit, webhook_emit]"

text \<open>Each sink in turn; one that raised is logged and the next one still runs.\<close>

fun fan_out :: "sink list \<Rightarrow> bool \<Rightarrow> status_event \<Rightarrow> session \<Rightarrow> session" where
  "fan_out [] has_session event s = s"
| "fan_out (k # ks) has_session event s = fan_out ks has_session event (snd (k has_session event s))"

definition status_event_of ::
    "uuid \<Rightarrow> uuid option \<Rightarrow> string \<Rightarrow> string option \<Rightarrow> order_status \<Rightarrow> order_status \<Rightarrow> instant \<Rightarrow> status_event" where
  "status_event_of order_id client source_system source_order_ref previous current occurred_at =
     \<lparr>ev_order_id = order_id, ev_client_id = client, ev_source_system = source_system,
      ev_source_order_ref = source_order_ref, ev_previous_status = public_label previous,
      ev_status = public_label current, ev_occurred_at = occurred_at\<rparr>"

definition emit_status_change ::
    "bool \<Rightarrow> uuid \<Rightarrow> uuid option \<Rightarrow> string \<Rightarrow> string option \<Rightarrow> order_status \<Rightarrow> order_status \<Rightarrow> instant
      \<Rightarrow> session \<Rightarrow> session" where
  "emit_status_change has_session order_id client source_system source_order_ref previous current occurred_at s =
     fan_out registered_sinks has_session
       (status_event_of order_id client source_system source_order_ref previous current occurred_at) s"

section \<open>Advancing\<close>

type_synonym interference = "nat \<Rightarrow> order_row list \<Rightarrow> order_row list"

definition interfere :: "(order_row list \<Rightarrow> order_row list) \<Rightarrow> session \<Rightarrow> session" where
  "interfere f s =
     s\<lparr>db := (db s)\<lparr>orders := f (orders (db s))\<rparr>, base := (base s)\<lparr>orders := f (orders (base s))\<rparr>\<rparr>"

text \<open>
  \<open>UPDATE orders SET status WHERE id = .. AND status IN (..) RETURNING\<close>: \<open>None\<close> when no row matched.
  The column \<open>updated_at\<close> takes the transaction's time.
\<close>

definition conditional_update ::
    "uuid \<Rightarrow> order_status list \<Rightarrow> order_status \<Rightarrow> session \<Rightarrow> session option" where
  "conditional_update i precondition new_status s =
     (if \<exists>r \<in> set (orders (db s)). ord_id r = i \<and> ord_status r \<in> set precondition
      then Some (on_db (\<lambda>d. d\<lparr>orders :=
             update_where (\<lambda>r. ord_id r = i \<and> ord_status r \<in> set precondition)
               (\<lambda>r. r\<lparr>ord_status := new_status, ord_updated_at := txn_now s\<rparr>) (orders d)\<rparr>) s)
      else None)"

text \<open>\<open>order.delivered_at = occurred_at\<close>, once, for the row as it was read.\<close>

definition stamp_delivered :: "order_row \<Rightarrow> order_status \<Rightarrow> instant \<Rightarrow> session \<Rightarrow> session" where
  "stamp_delivered order new_status occurred_at s =
     (if new_status = Delivered \<and> ord_delivered_at order = None
      then on_db (\<lambda>d. d\<lparr>orders := update_where (\<lambda>r. ord_id r = ord_id order)
             (\<lambda>r. r\<lparr>ord_delivered_at := Some occurred_at\<rparr>) (orders d)\<rparr>) s
      else s)"

text \<open>The instance the caller gets back for a row that moved.\<close>

definition moved_order :: "order_row \<Rightarrow> order_status \<Rightarrow> instant \<Rightarrow> instant \<Rightarrow> order_row" where
  "moved_order order new_status occurred_at updated_at =
     order\<lparr>ord_status := new_status, ord_updated_at := updated_at,
       ord_delivered_at := (if new_status = Delivered \<and> ord_delivered_at order = None
         then Some occurred_at else ord_delivered_at order)\<rparr>"

definition emit_for :: "order_row \<Rightarrow> order_status \<Rightarrow> instant \<Rightarrow> session \<Rightarrow> session" where
  "emit_for order new_status occurred_at s =
     emit_status_change True (ord_id order) (ord_client_id order) (ord_source_system order)
       (ord_source_order_ref order) (ord_status order) new_status occurred_at s"

text \<open>The loop over the rows read, in row order; \<open>k\<close> counts them.\<close>

fun advance_rows ::
    "interference \<Rightarrow> nat \<Rightarrow> order_status list \<Rightarrow> order_status \<Rightarrow> instant \<Rightarrow> order_row list \<Rightarrow> session
      \<Rightarrow> order_row list \<times> session" where
  "advance_rows env k precondition new_status occurred_at [] s = ([], s)"
| "advance_rows env k precondition new_status occurred_at (order # rows) s =
     (if ord_status order = new_status then
        advance_rows env (Suc k) precondition new_status occurred_at rows s
      else if \<not> can_transition (ord_status order) new_status then
        advance_rows env (Suc k) precondition new_status occurred_at rows s
      else if ord_status order \<notin> set precondition then
        advance_rows env (Suc k) precondition new_status occurred_at rows s
      else
        let s1 = interfere (env k) s in
        case conditional_update (ord_id order) precondition new_status s1 of
          None \<Rightarrow> advance_rows env (Suc k) precondition new_status occurred_at rows s1
        | Some s2 \<Rightarrow>
            let s3 = emit_for order new_status occurred_at (stamp_delivered order new_status occurred_at s2);
                (moved, s4) = advance_rows env (Suc k) precondition new_status occurred_at rows s3
            in (moved_order order new_status occurred_at (txn_now s2) # moved, s4))"

definition precondition_of :: "order_status list option \<Rightarrow> order_status \<Rightarrow> order_status list" where
  "precondition_of only_from new_status =
     (case only_from of None \<Rightarrow> legal_sources new_status | Some ss \<Rightarrow> ss)"

definition read_rows :: "uuid list \<Rightarrow> session \<Rightarrow> order_row list" where
  "read_rows order_ids s = sort_key ord_id (filter (\<lambda>r. ord_id r \<in> set order_ids) (orders (db s)))"

text \<open>\<open>now\<close> is the clock, used when the caller names no instant.\<close>

definition advance_orders ::
    "interference \<Rightarrow> instant \<Rightarrow> instant option \<Rightarrow> order_status list option \<Rightarrow> uuid list \<Rightarrow> order_status
      \<Rightarrow> session \<Rightarrow> order_row list \<times> session" where
  "advance_orders env now occurred_at only_from order_ids new_status s =
     (if order_ids = [] then ([], s)
      else advance_rows env 0 (precondition_of only_from new_status) new_status
        (case occurred_at of None \<Rightarrow> now | Some t \<Rightarrow> t) (read_rows order_ids s) s)"

definition no_interference :: interference where
  "no_interference = (\<lambda>k rows. rows)"

section \<open>What one emission does\<close>

text \<open>
  The session is in order when the identifiers in use are below \<open>fresh\<close> and the endpoints have
  distinct identifiers. Then the unique constraint never fires, so the sink's \<open>rollback\<close> branch is
  not taken.
\<close>

definition session_ok :: "session \<Rightarrow> bool" where
  "session_ok s \<longleftrightarrow>
     (\<forall>d \<in> set (deliveries (db s)). wd_event_id d < fresh s) \<and>
     distinct (map endpoint_id (endpoints (db s)))"

fun owed_rows ::
    "status_event \<Rightarrow> uuid \<Rightarrow> webhook_payload \<Rightarrow> endpoint_row list \<Rightarrow> uuid \<Rightarrow> int \<Rightarrow> delivery_row list" where
  "owed_rows event event_id payload [] n q = []"
| "owed_rows event event_id payload (e # es) n q =
     new_delivery (endpoint_id e) event event_id payload n q
       # owed_rows event event_id payload es (Suc n) (q + 1)"

lemma new_delivery_sel [simp]:
  "wd_endpoint_id (new_delivery e ev eid p n q) = e" "wd_event_id (new_delivery e ev eid p n q) = eid"
  "wd_id (new_delivery e ev eid p n q) = n" "wd_order_id (new_delivery e ev eid p n q) = ev_order_id ev"
  "wd_payload (new_delivery e ev eid p n q) = p" "wd_status (new_delivery e ev eid p n q) = DELIVERY_PENDING"
  "wd_attempts (new_delivery e ev eid p n q) = 0"
  "wd_next_attempt_at (new_delivery e ev eid p n q) = Some (ev_occurred_at ev)"
  by (simp_all add: new_delivery_def)

lemma map_owed_rows:
  "map wd_endpoint_id (owed_rows ev eid p es n q) = map endpoint_id es"
  "map wd_event_id (owed_rows ev eid p es n q) = map (\<lambda>_. eid) es"
  "map wd_id (owed_rows ev eid p es n q) = [n ..< n + length es]"
  "length (owed_rows ev eid p es n q) = length es"
  by (induction es arbitrary: n q) (simp_all add: upt_rec)

lemma owed_rows_each:
  "d \<in> set (owed_rows ev eid p es n q) \<Longrightarrow>
     wd_event_id d = eid \<and> wd_payload d = p \<and> wd_status d = DELIVERY_PENDING \<and> wd_attempts d = 0 \<and>
     wd_order_id d = ev_order_id ev \<and> wd_next_attempt_at d = Some (ev_occurred_at ev)"
  by (induction es arbitrary: n q) auto

text \<open>Flushing with a fresh event identifier never meets the unique constraint.\<close>

lemma enqueue_deliveries_fresh:
  assumes "distinct (map endpoint_id es)"
    "\<And>d. d \<in> set (deliveries (db s)) \<Longrightarrow> wd_event_id d = eid \<Longrightarrow> wd_endpoint_id d \<notin> endpoint_id ` set es"
  shows "enqueue_deliveries ev eid p es s =
    s\<lparr>db := (db s)\<lparr>deliveries := deliveries (db s) @ owed_rows ev eid p es (fresh s) (delivery_seq s)\<rparr>,
      fresh := fresh s + length es, delivery_seq := delivery_seq s + int (length es),
      pending_deliveries := pending_deliveries s @ [fresh s ..< fresh s + length es]\<rparr>"
  using assms
proof (induction es arbitrary: s)
  case Nil
  show ?case by simp
next
  case (Cons e es)
  let ?s' = "s\<lparr>db := (db s)\<lparr>deliveries := deliveries (db s) @
      [new_delivery (endpoint_id e) ev eid p (fresh s) (delivery_seq s)]\<rparr>, fresh := Suc (fresh s),
      delivery_seq := delivery_seq s + 1, pending_deliveries := pending_deliveries s @ [fresh s]\<rparr>"
  have new: "\<not> (\<exists>d \<in> set (deliveries (db s)). wd_endpoint_id d = endpoint_id e \<and> wd_event_id d = eid)"
    using Cons.prems(2) by fastforce
  have flush: "enqueue_deliveries ev eid p (e # es) s = enqueue_deliveries ev eid p es ?s'"
    unfolding enqueue_deliveries.simps flush_delivery_def if_not_P [OF new] by (cases s) (simp add: uuid4_def)
  have rest: "wd_endpoint_id d \<notin> endpoint_id ` set es"
    if "d \<in> set (deliveries (db ?s'))" "wd_event_id d = eid" for d
  proof (cases "d \<in> set (deliveries (db s))")
    case True
    with that(2) Cons.prems(2) show ?thesis by auto
  next
    case False
    with that(1) have "wd_endpoint_id d = endpoint_id e" by simp
    with Cons.prems(1) show ?thesis by simp
  qed
  have "enqueue_deliveries ev eid p es ?s' =
    ?s'\<lparr>db := (db ?s')\<lparr>deliveries := deliveries (db ?s') @ owed_rows ev eid p es (fresh ?s') (delivery_seq ?s')\<rparr>,
      fresh := fresh ?s' + length es, delivery_seq := delivery_seq ?s' + int (length es),
      pending_deliveries := pending_deliveries ?s' @ [fresh ?s' ..< fresh ?s' + length es]\<rparr>"
    by (rule Cons.IH) (use Cons.prems(1) rest in auto)
  then show ?case unfolding flush by (simp add: upt_rec)
qed

text \<open>What a transition owes, and what the whole emission of one event does.\<close>

definition endpoints_for :: "status_event \<Rightarrow> db \<Rightarrow> endpoint_row list" where
  "endpoints_for event d =
     (case ev_client_id event of None \<Rightarrow> [] | Some client \<Rightarrow> active_endpoints client d)"

definition emitted :: "status_event \<Rightarrow> session \<Rightarrow> session" where
  "emitted event s =
     (let es = endpoints_for event (db s); used = (if es = [] then 0 else Suc (length es)) in
      s\<lparr>db := (db s)\<lparr>deliveries := deliveries (db s) @
           owed_rows event (fresh s) (build_payload event (fresh s)) es (Suc (fresh s)) (delivery_seq s)\<rparr>,
        fresh := fresh s + used, delivery_seq := delivery_seq s + int (length es),
        pending_deliveries := pending_deliveries s @ [Suc (fresh s) ..< Suc (fresh s) + length es],
        status_log := status_log s @ [event]\<rparr>)"

lemma session_okD:
  "session_ok s \<Longrightarrow> d \<in> set (deliveries (db s)) \<Longrightarrow> wd_event_id d < fresh s"
  "session_ok s \<Longrightarrow> distinct (map endpoint_id (active_endpoints c (db s)))"
  by (auto simp: session_ok_def active_endpoints_def distinct_map_filter)

lemma webhook_emit_ok:
  assumes "session_ok s"
  shows "webhook_emit True event s = (True,
    (let es = endpoints_for event (db s); used = (if es = [] then 0 else Suc (length es)) in
      s\<lparr>db := (db s)\<lparr>deliveries := deliveries (db s) @
           owed_rows event (fresh s) (build_payload event (fresh s)) es (Suc (fresh s)) (delivery_seq s)\<rparr>,
        fresh := fresh s + used, delivery_seq := delivery_seq s + int (length es),
        pending_deliveries := pending_deliveries s @ [Suc (fresh s) ..< Suc (fresh s) + length es]\<rparr>))"
proof (cases "endpoints_for event (db s) = []")
  case True
  then show ?thesis
    by (auto simp: webhook_emit_def endpoints_for_def Let_def split: option.splits)
next
  case False
  then obtain c where c: "ev_client_id event = Some c" "active_endpoints c (db s) \<noteq> []"
    by (auto simp: endpoints_for_def split: option.splits)
  have "enqueue_deliveries event (fresh s) (build_payload event (fresh s)) (active_endpoints c (db s))
      (s\<lparr>fresh := Suc (fresh s)\<rparr>) = (let s' = s\<lparr>fresh := Suc (fresh s)\<rparr>; es = active_endpoints c (db s) in
     s'\<lparr>db := (db s')\<lparr>deliveries := deliveries (db s') @ owed_rows event (fresh s) (build_payload event (fresh s)) es (fresh s') (delivery_seq s')\<rparr>,
      fresh := fresh s' + length es, delivery_seq := delivery_seq s' + int (length es),
      pending_deliveries := pending_deliveries s' @ [fresh s' ..< fresh s' + length es]\<rparr>)"
    unfolding Let_def
    by (rule enqueue_deliveries_fresh) (use session_okD [OF assms] in fastforce)+
  with c show ?thesis
    by (simp add: webhook_emit_def endpoints_for_def uuid4_def Let_def)
qed

lemma emit_status_change_ok:
  assumes "session_ok s"
  shows "emit_status_change True i c ss sr prev cur t s = emitted (status_event_of i c ss sr prev cur t) s"
proof -
  have ok: "session_ok (s\<lparr>status_log := l\<rparr>)" for l using assms by (simp add: session_ok_def)
  show ?thesis
    by (simp add: emit_status_change_def registered_sinks_def logging_emit_def webhook_emit_ok [OF ok]
        emitted_def Let_def)
qed

lemma session_ok_emitted: "session_ok s \<Longrightarrow> session_ok (emitted e s)"
  by (auto simp: session_ok_def emitted_def Let_def dest: owed_rows_each)

section \<open>The contract of a sink\<close>

locale status_sink =
  fixes emit :: sink and ok :: "session \<Rightarrow> bool"
  assumes returns: "ok s \<Longrightarrow> fst (emit h e s)"
    and keeps_ok: "ok s \<Longrightarrow> ok (snd (emit h e s))"
    and only_deliveries: "ok s \<Longrightarrow> \<exists>ds. db (snd (emit h e s)) = (db s)\<lparr>deliveries := deliveries (db s) @ ds\<rparr>"
    and keeps_base: "ok s \<Longrightarrow> base (snd (emit h e s)) = base s"
    and keeps_now: "ok s \<Longrightarrow> txn_now (snd (emit h e s)) = txn_now s"

lemma fan_out_contract:
  assumes "\<And>k. k \<in> set ks \<Longrightarrow> status_sink k ok"
  shows "ok s \<Longrightarrow> ok (fan_out ks h e s) \<and>
    (\<exists>ds. db (fan_out ks h e s) = (db s)\<lparr>deliveries := deliveries (db s) @ ds\<rparr>) \<and>
    base (fan_out ks h e s) = base s \<and> txn_now (fan_out ks h e s) = txn_now s"
  using assms
proof (induction ks arbitrary: s)
  case Nil
  then show ?case by (auto intro: exI [of _ "[]"])
next
  case (Cons k ks)
  let ?s' = "snd (k h e s)"
  have k: "status_sink k ok" using Cons.prems(2) by simp
  obtain ds where ds: "db ?s' = (db s)\<lparr>deliveries := deliveries (db s) @ ds\<rparr>"
    using status_sink.only_deliveries [OF k Cons.prems(1)] by blast
  have IH: "ok (fan_out ks h e ?s') \<and>
    (\<exists>ds. db (fan_out ks h e ?s') = (db ?s')\<lparr>deliveries := deliveries (db ?s') @ ds\<rparr>) \<and>
    base (fan_out ks h e ?s') = base ?s' \<and> txn_now (fan_out ks h e ?s') = txn_now ?s'"
    using Cons.IH [OF status_sink.keeps_ok [OF k Cons.prems(1)]] Cons.prems(2) by simp
  then obtain es where "db (fan_out ks h e ?s') = (db ?s')\<lparr>deliveries := deliveries (db ?s') @ es\<rparr>" by blast
  then have "db (fan_out ks h e ?s') = (db s)\<lparr>deliveries := deliveries (db s) @ (ds @ es)\<rparr>"
    by (simp add: ds)
  with IH show ?case
    using status_sink.keeps_base [OF k Cons.prems(1)] status_sink.keeps_now [OF k Cons.prems(1)] by auto
qed

interpretation logging_sink: status_sink logging_emit session_ok
  by unfold_locales (auto simp: logging_emit_def session_ok_def intro: exI [of _ "[]"])

lemma webhook_emit_no_session: "webhook_emit False e s = (True, s)"
  by (simp add: webhook_emit_def split: option.split)

interpretation webhook_sink: status_sink webhook_emit session_ok
proof
  fix s h e assume ok: "session_ok s"
  show "fst (webhook_emit h e s)"
    by (cases h) (simp_all add: webhook_emit_no_session webhook_emit_ok [OF ok])
  show "session_ok (snd (webhook_emit h e s))" using ok
    by (cases h) (auto simp: webhook_emit_no_session webhook_emit_ok Let_def session_ok_def dest: owed_rows_each)
  show "\<exists>ds. db (snd (webhook_emit h e s)) = (db s)\<lparr>deliveries := deliveries (db s) @ ds\<rparr>"
    by (cases h) (auto simp: webhook_emit_no_session webhook_emit_ok [OF ok] Let_def intro: exI [of _ "[]"])
  show "base (snd (webhook_emit h e s)) = base s"
    by (cases h) (simp_all add: webhook_emit_no_session webhook_emit_ok [OF ok] Let_def)
  show "txn_now (snd (webhook_emit h e s)) = txn_now s"
    by (cases h) (simp_all add: webhook_emit_no_session webhook_emit_ok [OF ok] Let_def)
qed

lemma registered_sinks_contract: "k \<in> set registered_sinks \<Longrightarrow> status_sink k session_ok"
  using logging_sink.status_sink_axioms webhook_sink.status_sink_axioms
  by (auto simp: registered_sinks_def)

lemmas registered_fan_out = fan_out_contract [OF registered_sinks_contract]

section \<open>Under interference\<close>

lemma emit_for_contract:
  assumes "session_ok s"
  shows "session_ok (emit_for r n t s)" "base (emit_for r n t s) = base s"
    "txn_now (emit_for r n t s) = txn_now s" "orders (db (emit_for r n t s)) = orders (db s)"
    "endpoints (db (emit_for r n t s)) = endpoints (db s)"
proof -
  let ?e = "status_event_of (ord_id r) (ord_client_id r) (ord_source_system r) (ord_source_order_ref r)
      (ord_status r) n t"
  have c: "session_ok (fan_out registered_sinks True ?e s)"
    "\<exists>ds. db (fan_out registered_sinks True ?e s) = (db s)\<lparr>deliveries := deliveries (db s) @ ds\<rparr>"
    "base (fan_out registered_sinks True ?e s) = base s"
    "txn_now (fan_out registered_sinks True ?e s) = txn_now s"
    using registered_fan_out [OF _ assms] by blast+
  from c(2) obtain ds where
    "db (fan_out registered_sinks True ?e s) = (db s)\<lparr>deliveries := deliveries (db s) @ ds\<rparr>" ..
  with c show "session_ok (emit_for r n t s)" "base (emit_for r n t s) = base s"
    "txn_now (emit_for r n t s) = txn_now s" "orders (db (emit_for r n t s)) = orders (db s)"
    "endpoints (db (emit_for r n t s)) = endpoints (db s)"
    by (simp_all add: emit_for_def emit_status_change_def)
qed

lemma emit_for_deliveries:
  assumes "session_ok s"
  shows "\<exists>ds. db (emit_for r n t s) = (db s)\<lparr>deliveries := deliveries (db s) @ ds\<rparr>"
  unfolding emit_for_def emit_status_change_def
  by (rule registered_fan_out [OF _ assms, THEN conjunct2, THEN conjunct1])

lemma interfere_simps [simp]:
  "orders (db (interfere f s)) = f (orders (db s))" "deliveries (db (interfere f s)) = deliveries (db s)"
  "endpoints (db (interfere f s)) = endpoints (db s)" "fresh (interfere f s) = fresh s"
  "session_ok (interfere f s) = session_ok s" "txn_now (interfere f s) = txn_now s"
  by (simp_all add: interfere_def session_ok_def)

lemma conditional_update_Some:
  "conditional_update i pre new s = Some s' \<Longrightarrow>
     s' = s\<lparr>db := (db s)\<lparr>orders := update_where (\<lambda>r. ord_id r = i \<and> ord_status r \<in> set pre)
        (\<lambda>r. r\<lparr>ord_status := new, ord_updated_at := txn_now s\<rparr>) (orders (db s))\<rparr>\<rparr>"
  by (auto simp: conditional_update_def split: if_splits)

lemma stamp_delivered_simps [simp]:
  "base (stamp_delivered r n t s) = base s" "txn_now (stamp_delivered r n t s) = txn_now s"
  "session_ok (stamp_delivered r n t s) = session_ok s"
  "deliveries (db (stamp_delivered r n t s)) = deliveries (db s)"
  "endpoints (db (stamp_delivered r n t s)) = endpoints (db s)"
  "fresh (stamp_delivered r n t s) = fresh s" "status_log (stamp_delivered r n t s) = status_log s"
  by (simp_all add: stamp_delivered_def session_ok_def)

text \<open>The status of an order, as a reader of the table sees it.\<close>

definition status_in :: "uuid \<Rightarrow> order_row list \<Rightarrow> order_status option" where
  "status_in i rows = map_option ord_status (lookup_by ord_id i rows)"

lemma status_in_stamp [simp]:
  "status_in i (orders (db (stamp_delivered r n t s))) = status_in i (orders (db s))"
  by (simp add: stamp_delivered_def status_in_def table_simps option.map_comp comp_def if_distrib cong: if_cong)

lemma status_in_conditional:
  assumes "conditional_update i pre new s = Some s'"
  shows "status_in j (orders (db s')) =
    (case status_in j (orders (db s)) of None \<Rightarrow> None
     | Some st \<Rightarrow> Some (if j = i \<and> st \<in> set pre then new else st))"
  using conditional_update_Some [OF assms]
  by (auto simp: status_in_def table_simps split: option.split dest: lookup_by_Some)

text \<open>
  Rely and guarantee. \<open>stays_within R f\<close>: what the other transactions do to each order's status stays
  within \<open>R\<close>.
\<close>

definition stays_within :: "(order_status \<Rightarrow> order_status \<Rightarrow> bool) \<Rightarrow> (order_row list \<Rightarrow> order_row list) \<Rightarrow> bool" where
  "stays_within R f \<longleftrightarrow> (\<forall>rows i. rel_option R (status_in i rows) (status_in i (f rows)))"

lemma advance_rows_rely:
  assumes refl: "reflp R" and trans: "transp R" and rely: "\<And>k. stays_within R (env k)"
    and guar: "\<And>st. st \<in> set pre \<Longrightarrow> R st new"
  shows "session_ok s \<Longrightarrow>
    rel_option R (status_in i (orders (db s)))
      (status_in i (orders (db (snd (advance_rows env k pre new t rows s)))))"
proof (induction rows arbitrary: k s)
  case Nil
  show ?case using refl by (simp add: option.rel_reflp reflpD)
next
  case (Cons r rows)
  have R_trans: "rel_option R a b \<Longrightarrow> rel_option R b c \<Longrightarrow> rel_option R a c" for a b c
    using trans by (meson option.rel_transp transpD)
  let ?s1 = "interfere (env k) s"
  have env: "rel_option R (status_in i (orders (db s))) (status_in i (orders (db ?s1)))"
    using rely [of k] by (simp add: stays_within_def)
  have ok1: "session_ok ?s1" using Cons.prems by simp
  show ?case
  proof (cases "ord_status r = new \<or> \<not> can_transition (ord_status r) new \<or> ord_status r \<notin> set pre")
    case True
    then show ?thesis using Cons.IH [OF Cons.prems] by auto
  next
    case go: False
    show ?thesis
    proof (cases "conditional_update (ord_id r) pre new ?s1")
      case None
      then show ?thesis using go R_trans [OF env Cons.IH [OF ok1]] by (simp add: Let_def)
    next
      case (Some s2)
      let ?s3 = "emit_for r new t (stamp_delivered r new t s2)"
      have ok2: "session_ok (stamp_delivered r new t s2)"
        using ok1 conditional_update_Some [OF Some] by (simp add: session_ok_def)
      have "rel_option R (status_in i (orders (db ?s1))) (status_in i (orders (db ?s3)))"
        using guar refl
        by (auto simp: emit_for_contract [OF ok2] status_in_conditional [OF Some] reflpD split: option.split)
      from R_trans [OF R_trans [OF env this] Cons.IH [OF emit_for_contract(1) [OF ok2]]]
      show ?thesis using go Some by (simp add: Let_def split_beta)
    qed
  qed
qed

section \<open>Without interference\<close>

definition may_move :: "order_status list \<Rightarrow> order_status \<Rightarrow> order_row \<Rightarrow> bool" where
  "may_move pre new r \<longleftrightarrow> ord_status r \<noteq> new \<and> can_transition (ord_status r) new \<and> ord_status r \<in> set pre"

definition event_for :: "order_status \<Rightarrow> instant \<Rightarrow> order_row \<Rightarrow> status_event" where
  "event_for new t r = status_event_of (ord_id r) (ord_client_id r) (ord_source_system r)
     (ord_source_order_ref r) (ord_status r) new t"

lemma emit_for_ok: "session_ok s \<Longrightarrow> emit_for r new t s = emitted (event_for new t r) s"
  by (simp add: emit_for_def event_for_def emit_status_change_ok)

lemma emitted_simps [simp]:
  "orders (db (emitted e s)) = orders (db s)" "txn_now (emitted e s) = txn_now s"
  "base (emitted e s) = base s" "status_log (emitted e s) = status_log s @ [e]"
  "endpoints (db (emitted e s)) = endpoints (db s)"
  by (simp_all add: emitted_def Let_def)

definition owed_key :: "delivery_row \<Rightarrow> uuid \<times> uuid \<times> string \<times> delivery_status \<times> instant option" where
  "owed_key d = (wd_endpoint_id d, wd_order_id d, wp_status (wd_payload d), wd_status d, wd_next_attempt_at d)"

definition owed_for :: "db \<Rightarrow> status_event \<Rightarrow> (uuid \<times> uuid \<times> string \<times> delivery_status \<times> instant option) list" where
  "owed_for d e = map (\<lambda>p. (endpoint_id p, ev_order_id e, ev_status e, DELIVERY_PENDING, Some (ev_occurred_at e)))
     (endpoints_for e d)"

lemma owed_key_owed_rows:
  "map owed_key (owed_rows e eid (build_payload e eid) es n q) =
     map (\<lambda>p. (endpoint_id p, ev_order_id e, ev_status e, DELIVERY_PENDING, Some (ev_occurred_at e))) es"
  by (induction es arbitrary: n q) (simp_all add: owed_key_def build_payload_def)

lemma owed_emitted:
  "map owed_key (deliveries (db (emitted e s))) = map owed_key (deliveries (db s)) @ owed_for (db s) e"
  by (simp add: emitted_def Let_def owed_key_owed_rows owed_for_def)

lemma conditional_update_row:
  assumes "distinct (map ord_id (orders (db s)))" "r \<in> set (orders (db s))" "ord_status r \<in> set pre"
  shows "map_option (stamp_delivered r new t) (conditional_update (ord_id r) pre new s) =
    Some (s\<lparr>db := (db s)\<lparr>orders :=
       update_where (\<lambda>q. q = r) (\<lambda>q. moved_order q new t (txn_now s)) (orders (db s))\<rparr>\<rparr>)"
proof -
  have same: "ord_id q = ord_id r \<Longrightarrow> q \<in> set (orders (db s)) \<Longrightarrow> q = r" for q
    using assms(1,2) by (metis eq_key_imp_eq_value inj_on_eq_iff distinct_map)
  have "\<exists>q \<in> set (orders (db s)). ord_id q = ord_id r \<and> ord_status q \<in> set pre" using assms by blast
  then show ?thesis
    using assms same
    by (auto simp: conditional_update_def stamp_delivered_def update_where_def moved_order_def intro!: map_cong)
qed

lemma owed_for_cong: "endpoints d = endpoints d' \<Longrightarrow> owed_for d e = owed_for d' e"
  by (simp add: owed_for_def endpoints_for_def active_endpoints_def split: option.split)

lemma owed_for_orders [simp]: "owed_for (d\<lparr>orders := x\<rparr>) = owed_for d"
  by (rule ext, rule owed_for_cong) simp

lemma moved_order_id [simp]: "ord_id (moved_order r new t u) = ord_id r"
  by (simp add: moved_order_def)

lemma advance_rows_step:
  assumes "session_ok s" "distinct (map ord_id (orders (db s)))" "r \<in> set (orders (db s))" "may_move pre new r"
    and s'_def: "s' = emitted (event_for new t r) (s\<lparr>db := (db s)\<lparr>orders :=
       update_where (\<lambda>q. q = r) (\<lambda>q. moved_order q new t (txn_now s)) (orders (db s))\<rparr>\<rparr>)"
  shows "advance_rows no_interference k pre new t (r # rows) s =
    (moved_order r new t (txn_now s) # fst (advance_rows no_interference (Suc k) pre new t rows s'),
     snd (advance_rows no_interference (Suc k) pre new t rows s'))"
proof -
  have quiet: "interfere (no_interference k) s = s" by (simp add: interfere_def no_interference_def)
  obtain s2 where s2: "conditional_update (ord_id r) pre new s = Some s2"
    "stamp_delivered r new t s2 = s\<lparr>db := (db s)\<lparr>orders :=
       update_where (\<lambda>q. q = r) (\<lambda>q. moved_order q new t (txn_now s)) (orders (db s))\<rparr>\<rparr>"
    using conditional_update_row [OF assms(2,3), of pre new t] assms(4) by (auto simp: may_move_def)
  have "session_ok (stamp_delivered r new t s2)" using assms(1) s2(2) by (simp add: session_ok_def)
  then have e: "emit_for r new t (stamp_delivered r new t s2) = s'"
    by (simp add: emit_for_ok s2(2) s'_def)
  have "txn_now s2 = txn_now s" using conditional_update_Some [OF s2(1)] by simp
  with assms(4) s2(1) e quiet show ?thesis
    by (simp add: may_move_def Let_def split_beta)
qed

lemma advance_rows_quiet:
  assumes "session_ok s" "distinct (map ord_id (orders (db s)))" "set rows \<subseteq> set (orders (db s))" "distinct rows"
  shows
    "fst (advance_rows no_interference k pre new t rows s) =
       map (\<lambda>r. moved_order r new t (txn_now s)) (filter (may_move pre new) rows) \<and>
     orders (db (snd (advance_rows no_interference k pre new t rows s))) =
       update_where (\<lambda>r. r \<in> set rows \<and> may_move pre new r) (\<lambda>r. moved_order r new t (txn_now s)) (orders (db s)) \<and>
     status_log (snd (advance_rows no_interference k pre new t rows s)) =
       status_log s @ map (event_for new t) (filter (may_move pre new) rows) \<and>
     map owed_key (deliveries (db (snd (advance_rows no_interference k pre new t rows s)))) =
       map owed_key (deliveries (db s)) @
         concat (map (owed_for (db s)) (map (event_for new t) (filter (may_move pre new) rows))) \<and>
     base (snd (advance_rows no_interference k pre new t rows s)) = base s \<and>
     session_ok (snd (advance_rows no_interference k pre new t rows s))"
  using assms
proof (induction rows arbitrary: k s)
  case Nil
  then show ?case by (simp add: update_where_def)
next
  case (Cons r rows)
  show ?case
  proof (cases "may_move pre new r")
    case False
    then have "advance_rows no_interference k pre new t (r # rows) s =
        advance_rows no_interference (Suc k) pre new t rows s"
      by (auto simp: may_move_def)
    moreover have "update_where (\<lambda>q. q \<in> set (r # rows) \<and> may_move pre new q) f xs =
        update_where (\<lambda>q. q \<in> set rows \<and> may_move pre new q) f xs" for f xs
      using False by (auto simp: update_where_def)
    ultimately show ?thesis using Cons False by simp
  next
    case True
    let ?f = "\<lambda>q. moved_order q new t (txn_now s)"
    let ?s0 = "s\<lparr>db := (db s)\<lparr>orders := update_where (\<lambda>q. q = r) ?f (orders (db s))\<rparr>\<rparr>"
    let ?s' = "emitted (event_for new t r) ?s0"
    have ids: "distinct (map ord_id (orders (db ?s')))"
      using Cons.prems(2) by (simp add: map_update_where_inv)
    have inj: "inj_on ord_id (set (orders (db s)))" using Cons.prems(2) by (simp add: distinct_map)
    have sub: "set rows \<subseteq> set (orders (db ?s'))"
      using Cons.prems(3,4) by (auto simp: set_update_where)
    have ok: "session_ok ?s'"
      using Cons.prems(1) by (intro session_ok_emitted) (simp add: session_ok_def)
    have moved: "?f r \<notin> set rows"
    proof
      assume "?f r \<in> set rows"
      moreover have "ord_id (?f r) = ord_id r" by simp
      ultimately have "?f r = r" using inj_onD [OF inj, of "?f r" r] Cons.prems(3) by auto
      with \<open>?f r \<in> set rows\<close> Cons.prems(4) show False by simp
    qed
    have upd: "update_where (\<lambda>q. q \<in> set rows \<and> may_move pre new q) ?f (update_where (\<lambda>q. q = r) ?f xs) =
        update_where (\<lambda>q. q \<in> set (r # rows) \<and> may_move pre new q) ?f xs" for xs
      using moved True Cons.prems(4) by (induction xs) auto
    have owed: "owed_for (db ?s') = owed_for (db s)" by (auto intro!: owed_for_cong)
    note IH = Cons.IH [OF ok ids sub, of "Suc k"]
    have step: "advance_rows no_interference k pre new t (r # rows) s =
        (?f r # fst (advance_rows no_interference (Suc k) pre new t rows ?s'),
         snd (advance_rows no_interference (Suc k) pre new t rows ?s'))"
      using Cons.prems(3) by (intro advance_rows_step [OF Cons.prems(1,2) _ True]) simp_all
    show ?thesis
      unfolding step using IH Cons.prems(4) True by (simp add: upd owed owed_emitted)
  qed
qed

text \<open>The rows read are distinct rows of the table, in the order of their identifiers.\<close>

lemma set_read_rows: "set (read_rows ids s) = {r \<in> set (orders (db s)). ord_id r \<in> set ids}"
  by (auto simp: read_rows_def)

lemma distinct_read_rows:
  "distinct (map ord_id (orders (db s))) \<Longrightarrow> distinct (read_rows ids s)"
  by (simp add: read_rows_def distinct_sort distinct_map)

lemma sorted_read_rows: "sorted (map ord_id (read_rows ids s))"
  by (simp add: read_rows_def)

lemma advance_rows_base:
  "session_ok s \<Longrightarrow>
     deliveries (base (snd (advance_rows env k pre new t rows s))) = deliveries (base s) \<and>
     session_ok (snd (advance_rows env k pre new t rows s))"
proof (induction rows arbitrary: k s)
  case (Cons r rows)
  let ?s1 = "interfere (env k) s"
  have ok1: "session_ok ?s1" and b1: "deliveries (base ?s1) = deliveries (base s)"
    using Cons.prems by (simp_all add: interfere_def session_ok_def)
  show ?case
  proof (cases "conditional_update (ord_id r) pre new ?s1")
    case None
    then show ?thesis using Cons.IH [OF ok1, of "Suc k"] Cons.IH [OF Cons.prems, of "Suc k"] b1 by (simp add: Let_def)
  next
    case (Some s2)
    have s2: "base s2 = base ?s1" "session_ok (stamp_delivered r new t s2)"
      using conditional_update_Some [OF Some] ok1 by (simp_all add: session_ok_def)
    note c = emit_for_contract [OF s2(2), of r new t]
    show ?thesis
      using Some Cons.IH [OF c(1), of "Suc k"] Cons.IH [OF Cons.prems, of "Suc k"] b1 s2(1) c(2)
      by (simp add: Let_def split_beta)
  qed
qed simp

text \<open>A conditional write by another transaction is admissible interference.\<close>

lemma stays_within_conditional:
  assumes "reflp R" "\<And>st. st \<in> set pre \<Longrightarrow> R st new"
  shows "stays_within R (update_where (\<lambda>r. ord_id r = i \<and> ord_status r \<in> set pre) (\<lambda>r. r\<lparr>ord_status := new\<rparr>))"
  unfolding stays_within_def
proof (intro allI)
  fix rows j
  show "rel_option R (status_in j rows) (status_in j (update_where (\<lambda>r. ord_id r = i \<and> ord_status r \<in> set pre)
      (\<lambda>r. r\<lparr>ord_status := new\<rparr>) rows))"
    using assms by (cases "lookup_by ord_id j rows") (auto simp: status_in_def table_simps reflpD)
qed

section \<open>Properties\<close>

text \<open>Rows and a session to evaluate the properties on.\<close>

definition sample_order :: "uuid \<Rightarrow> order_status \<Rightarrow> order_row" where
  "sample_order i st =
     \<lparr>ord_id = i, ord_hub_id = 1, ord_client_id = Some 2, ord_shop_id = Some 3,
      ord_external_order_ref = ''A-1'', ord_source_system = ''epicor'', ord_source_order_ref = Some ''77'',
      ord_sla_tier = Some T2, ord_hold_deadline = None, ord_assigned_at = None, ord_weight_units = 1,
      ord_status = st, ord_requested_at = Some 0, ord_delivered_at = None, ord_delivery_attempts = 1,
      ord_failure_reason = None, ord_delivery_lat = None, ord_delivery_lng = None, ord_delivery_location_id = None,
      ord_sla_owner = ''LMX'', ord_delivery_window_end = None, ord_promised_at = None,
      ord_payer_type = ''contract_client'', ord_cod_amount_cents = None, ord_fee_cents = None,
      ord_invoice_id = None, ord_intake_mode = INTAKE_LIVE, ord_proof_requirements = None,
      ord_tracking_token = None, ord_delivery_address = None, ord_intake_flags = [], ord_fee_components = None,
      ord_rate_version_id = None, ord_contract = no_contract, ord_created_at = 0, ord_updated_at = 0\<rparr>"

definition sample_session :: "order_row list \<Rightarrow> session" where
  "sample_session rows =
     \<lparr>db = sample_tables rows, base = sample_tables rows, txn_now = 900, fresh = 100, delivery_seq = 1,
      pending_deliveries = [], status_log = []\<rparr>"

lemmas sample_defs = sample_order_def sample_tables_def sample_session_def

lemma session_ok_sample [simp]: "session_ok (sample_session rows)"
  by (simp add: session_ok_def sample_session_def sample_tables_def)

lemma orders_sample [simp]: "orders (db (sample_session rows)) = rows"
  by (simp add: sample_session_def sample_tables_def)

lemma sample_order_sel [simp]: "ord_id (sample_order i st) = i" "ord_status (sample_order i st) = st"
  "ord_intake_mode (sample_order i st) = INTAKE_LIVE"
  by (simp_all add: sample_order_def)

text \<open>
  (C1) Whatever other transactions commit between the read and the writes, as long as they too only
  make moves of the order machine, advancing orders takes every order along moves of the machine
  only; an order that is delivered, returned or cancelled keeps that status. The precondition is
  the machine's own, or a caller's list of statuses that may legally move to the new one.
\<close>

theorem advance_orders_stays_legal:
  assumes "session_ok s"
    and "\<And>k. stays_within om.move\<^sup>*\<^sup>* (env k)"
    and "set (precondition_of only_from new) \<subseteq> set (legal_sources new)"
    and "s' = snd (advance_orders env now occurred_at only_from ids new s)"
  shows "rel_option om.move\<^sup>*\<^sup>* (status_in i (orders (db s))) (status_in i (orders (db s'))) \<and>
    (\<forall>st \<in> set TERMINAL. status_in i (orders (db s)) = Some st \<longrightarrow> status_in i (orders (db s')) = Some st)"
proof -
  have rel: "rel_option om.move\<^sup>*\<^sup>* (status_in i (orders (db s))) (status_in i (orders (db s')))"
  proof (cases "ids = []")
    case True
    then show ?thesis by (simp add: assms(4) advance_orders_def option.rel_refl)
  next
    case False
    then show ?thesis unfolding assms(4) advance_orders_def
      using assms(1-3)
      by (auto intro!: advance_rows_rely simp: reflp_def transp_def legal_sources_move subset_iff)
  qed
  moreover have "status_in i (orders (db s')) = Some st"
    if "st \<in> set TERMINAL" "status_in i (orders (db s)) = Some st" for st
    using rel that by (auto simp: option_rel_Some1 dest: om.final_absorbing)
  ultimately show ?thesis by blast
qed

text \<open>
  (C2) With nothing committing in between, \<open>advance_orders\<close> moves exactly the named orders whose
  status differs, may legally move and satisfies the precondition: those rows get the new status,
  the transaction's time and, on a first delivery, \<open>delivered_at\<close>; every other row is untouched.
  The orders returned are those rows in the order of their identifiers, the log has one event for
  each of them, and each active endpoint of its client is owed one pending notification with the
  public label, due at once.
\<close>

theorem advance_orders_exact:
  assumes "session_ok s" "distinct (map ord_id (orders (db s)))" "ids \<noteq> []"
    and "pre = precondition_of only_from new" "t = (case occurred_at of None \<Rightarrow> now | Some u \<Rightarrow> u)"
    and "movers = filter (may_move pre new) (read_rows ids s)"
    and "(moved, s') = advance_orders no_interference now occurred_at only_from ids new s"
  shows "moved = map (\<lambda>r. moved_order r new t (txn_now s)) movers \<and>
    orders (db s') = update_where (\<lambda>r. ord_id r \<in> set ids \<and> may_move pre new r)
      (\<lambda>r. moved_order r new t (txn_now s)) (orders (db s)) \<and>
    status_log s' = status_log s @ map (event_for new t) movers \<and>
    map owed_key (deliveries (db s')) = map owed_key (deliveries (db s)) @
      concat (map (owed_for (db s)) (map (event_for new t) movers))"
proof -
  have res: "moved = fst (advance_rows no_interference 0 pre new t (read_rows ids s) s)"
    "s' = snd (advance_rows no_interference 0 pre new t (read_rows ids s) s)"
    using assms(3,7) by (simp_all add: advance_orders_def assms(4,5) prod_eq_iff)
  have "update_where (\<lambda>r. r \<in> set (read_rows ids s) \<and> may_move pre new r) f (orders (db s)) =
      update_where (\<lambda>r. ord_id r \<in> set ids \<and> may_move pre new r) f (orders (db s))" for f
    by (auto simp: update_where_def set_read_rows)
  moreover note advance_rows_quiet [OF assms(1,2), of "read_rows ids s" 0 pre new t]
  ultimately show ?thesis
    using distinct_read_rows [OF assms(2), of ids] by (simp add: res assms(6) set_read_rows)
qed

text \<open>
  Advancing commits nothing: whatever else happened meanwhile, rolling the caller's
  transaction back leaves the notifications owed exactly as they were committed before, so no
  consumer is told of a transition that did not happen.
\<close>

theorem advance_orders_rolled_back_owes_nothing:
  assumes "session_ok s"
  shows "deliveries (db (rollback (snd (advance_orders env now occurred_at only_from ids new s)))) =
    deliveries (base s)"
  using assms by (simp add: advance_orders_def rollback_def advance_rows_base)

text \<open>A dispatcher's cancel of order 8, landing before the first write.\<close>

theorem advance_orders_stays_legal_witness:
  "status_in 7 (orders (db (snd (advance_orders
     (\<lambda>k. update_where (\<lambda>r. ord_id r = 8 \<and> ord_status r \<in> set [Assigned]) (\<lambda>r. r\<lparr>ord_status := Cancelled\<rparr>))
     0 None None [7, 8] Picked_up (sample_session [sample_order 7 Cancelled, sample_order 8 Assigned])))))
   = Some Cancelled"
  (is "status_in 7 (orders (db (snd (advance_orders ?env 0 None None ?ids ?new ?s)))) = _")
proof -
  have rely: "stays_within om.move\<^sup>*\<^sup>* (?env k)" for k
    by (rule stays_within_conditional) (auto simp: reflp_def om.move_iff status_simps)
  have pre: "set (precondition_of None ?new) \<subseteq> set (legal_sources ?new)"
    by (simp add: precondition_of_def)
  have "\<forall>st \<in> set TERMINAL. status_in 7 (orders (db ?s)) = Some st \<longrightarrow>
      status_in 7 (orders (db (snd (advance_orders ?env 0 None None ?ids ?new ?s)))) = Some st"
    by (rule advance_orders_stays_legal [OF session_ok_sample rely pre refl, THEN conjunct2])
  then show ?thesis by (simp add: status_in_def TERMINAL_def)
qed

theorem advance_orders_exact_witness:
  "map ord_status (orders (db (snd (advance_orders no_interference 0 None None [7, 8] Picked_up
     (sample_session [sample_order 7 Cancelled, sample_order 8 Assigned]))))) = [Cancelled, Picked_up]"
proof -
  let ?s = "sample_session [sample_order 7 Cancelled, sample_order 8 Assigned]"
  let ?r = "advance_orders no_interference 0 None None [7, 8] Picked_up ?s"
  have "orders (db (snd ?r)) = update_where (\<lambda>r. ord_id r \<in> set [7, 8] \<and> may_move (precondition_of None Picked_up) Picked_up r)
      (\<lambda>r. moved_order r Picked_up 0 (txn_now ?s)) (orders (db ?s))"
    using advance_orders_exact [OF session_ok_sample [of "[sample_order 7 Cancelled, sample_order 8 Assigned]"]
        _ _ refl refl refl prod.collapse, where ids = "[7, 8]" and new = Picked_up and now = 0
        and occurred_at = None and only_from = None]
    by simp
  then show ?thesis
    by (simp add: may_move_def precondition_of_def moved_order_def status_simps)
qed

theorem advance_orders_rolled_back_owes_nothing_witness:
  "deliveries (db (rollback (snd (advance_orders no_interference 0 None None [8] Picked_up
     (sample_session [sample_order 8 Assigned]))))) = []"
  unfolding advance_orders_rolled_back_owes_nothing [OF session_ok_sample]
  by (simp add: sample_session_def sample_tables_def)

end
