(* ===== verification/Route_Stops.thy ===== *)
theory Route_Stops
  imports Status_Service
begin

text \<open>
  The helpers shared by everything that finishes a route (\<open>src/app/delivery/routes.py\<close>) and the
  promotion of the stop being driven to (\<open>src/app/delivery/en_route.py\<close>). Row locks are not part of
  the state: a function that waits for a lock, or writes after an unlocked read, takes what other
  transactions committed meanwhile as a parameter (\<open>others\<close>), and one that gives up when a row is
  busy takes whether it is.
\<close>

section \<open>Routes\<close>

definition lock_route :: "uuid \<Rightarrow> db \<Rightarrow> route_row option" where
  "lock_route rid d = lookup_by route_id rid (routes d)"

definition FINISHED_STOP_STATUSES :: "stop_status list" where
  "FINISHED_STOP_STATUSES = [Stop_completed, Stop_failed, Stop_cancelled, Stop_recorded]"

definition count_parcels :: "uuid list \<Rightarrow> db \<Rightarrow> int \<times> int" where
  "count_parcels order_ids d =
     (let ps = filter (\<lambda>p. parcel_order_id p \<in> set order_ids) (parcels d) in
      (int (length ps), int (length (filter (\<lambda>p. parcel_scanned_at p \<noteq> None) ps))))"

definition shed_parcels :: "uuid list \<Rightarrow> uuid list \<Rightarrow> db \<Rightarrow> stop_row \<Rightarrow> stop_row" where
  "shed_parcels leaving staying d stop =
     (let (total, scanned) = count_parcels leaving d;
          count = max (int (length staying))
            (stop_parcel_count stop - (if total = 0 then int (length leaving) else total)) in
      stop\<lparr>stop_parcel_count := count,
        stop_scanned_count := min count (max 0 (stop_scanned_count stop - scanned))\<rparr>)"

definition carried_by :: "uuid \<Rightarrow> db \<Rightarrow> uuid list" where
  "carried_by sid d = remdups (map so_order_id (filter (\<lambda>l. so_stop_id l = sid) (stop_orders d)))"

definition update_stop :: "uuid \<Rightarrow> (stop_row \<Rightarrow> stop_row) \<Rightarrow> db \<Rightarrow> db" where
  "update_stop sid f d = d\<lparr>stops := update_where (\<lambda>r. stop_id r = sid) f (stops d)\<rparr>"

text \<open>One turn of the loop: the identifier of the stop when it was cancelled outright.\<close>

definition take_orders_off_stop :: "uuid list \<Rightarrow> stop_row \<Rightarrow> db \<Rightarrow> uuid list \<times> db" where
  "take_orders_off_stop leaving stop d =
     (let carried = carried_by (stop_id stop) d;
          gone = filter (\<lambda>i. i \<in> set leaving) carried;
          left = filter (\<lambda>i. i \<notin> set leaving) carried in
      if left \<noteq> [] then
        let d' = d\<lparr>stop_orders := filter (\<lambda>l. \<not> (so_stop_id l = stop_id stop \<and> so_order_id l \<in> set gone)) (stop_orders d)\<rparr>
        in ([], if stop_type_of stop = Pickup then update_stop (stop_id stop) (shed_parcels gone left d') d' else d')
      else ([stop_id stop], update_stop (stop_id stop) (\<lambda>r. r\<lparr>stop_status_of := Stop_cancelled, stop_eta := None\<rparr>) d))"

fun take_orders_off_stops :: "uuid list \<Rightarrow> stop_row list \<Rightarrow> db \<Rightarrow> uuid list \<times> db" where
  "take_orders_off_stops leaving [] d = ([], d)"
| "take_orders_off_stops leaving (stop # rest) d =
     (let (removed, d1) = take_orders_off_stop leaving stop d;
          (more, d2) = take_orders_off_stops leaving rest d1
      in (removed @ more, d2))"

text \<open>\<open>False\<close>, with the transaction rolled back, when the row is held by somebody.\<close>

definition try_lock_route :: "bool \<Rightarrow> session \<Rightarrow> bool \<times> session" where
  "try_lock_route busy s = (if busy then (False, rollback s) else (True, s))"

definition try_lock_route_and_stops :: "bool \<Rightarrow> bool \<Rightarrow> session \<Rightarrow> bool \<times> session" where
  "try_lock_route_and_stops route_busy stops_busy s =
     (if route_busy \<or> stops_busy then (False, rollback s) else (True, s))"

section \<open>The stop being driven to\<close>

definition current_stop :: "uuid \<Rightarrow> db \<Rightarrow> stop_row option" where
  "current_stop rid d =
     (case sort_key stop_sequence (filter (\<lambda>r. stop_route_id r = rid \<and>
             stop_status_of r \<notin> set FINISHED_STOP_STATUSES) (stops d)) of
        [] \<Rightarrow> None | r # _ \<Rightarrow> Some r)"

definition interfere_db :: "(db \<Rightarrow> db) \<Rightarrow> session \<Rightarrow> session" where
  "interfere_db f s = s\<lparr>db := f (db s), base := f (base s)\<rparr>"

definition advance_dropoff :: "interference \<Rightarrow> instant \<Rightarrow> stop_row \<Rightarrow> session \<Rightarrow> session" where
  "advance_dropoff env now current s =
     (if stop_type_of current = Dropoff then
        let ids = map so_order_id (filter (\<lambda>l. so_stop_id l = stop_id current) (stop_orders (db s))) in
        if ids \<noteq> [] then snd (advance_orders env now None None ids En_route_drop s) else s
      else s)"

text \<open>\<open>others\<close> commits between the read of the current stop and the write that promotes it.\<close>

definition mark_current_stop_en_route ::
    "(db \<Rightarrow> db) \<Rightarrow> interference \<Rightarrow> instant \<Rightarrow> uuid \<Rightarrow> session \<Rightarrow> stop_row option \<times> session" where
  "mark_current_stop_en_route others env now rid s =
     (case current_stop rid (db s) of
        None \<Rightarrow> (None, s)
      | Some current \<Rightarrow>
          if stop_status_of current = Stop_pending then
            let s1 = interfere_db others s in
            if \<exists>r \<in> set (stops (db s1)). stop_id r = stop_id current \<and> stop_status_of r = Stop_pending then
              let s2 = s1\<lparr>db := (db s1)\<lparr>stops := update_where (\<lambda>r. stop_id r = stop_id current \<and> stop_status_of r = Stop_pending)
                      (\<lambda>r. r\<lparr>stop_status_of := Stop_en_route\<rparr>) (stops (db s1))\<rparr>\<rparr>;
                  current' = current\<lparr>stop_status_of := Stop_en_route\<rparr>
              in (Some current', advance_dropoff env now current' s2)
            else (None, s1)
          else (Some current, advance_dropoff env now current s))"

section \<open>Lemmas\<close>

definition left_on :: "uuid list \<Rightarrow> uuid \<Rightarrow> db \<Rightarrow> uuid list" where
  "left_on leaving sid d = filter (\<lambda>i. i \<notin> set leaving) (carried_by sid d)"

definition gone_from :: "uuid list \<Rightarrow> uuid \<Rightarrow> db \<Rightarrow> uuid list" where
  "gone_from leaving sid d = filter (\<lambda>i. i \<in> set leaving) (carried_by sid d)"

text \<open>What becomes of a row and of a link when \<open>leaving\<close> comes off the stops in \<open>ids\<close>.\<close>

definition off_row :: "uuid list \<Rightarrow> uuid set \<Rightarrow> db \<Rightarrow> stop_row \<Rightarrow> stop_row" where
  "off_row leaving ids d r =
     (if stop_id r \<notin> ids then r
      else if left_on leaving (stop_id r) d = [] then r\<lparr>stop_status_of := Stop_cancelled, stop_eta := None\<rparr>
      else if stop_type_of r = Pickup
        then shed_parcels (gone_from leaving (stop_id r) d) (left_on leaving (stop_id r) d) d r
      else r)"

definition off_link :: "uuid list \<Rightarrow> uuid set \<Rightarrow> db \<Rightarrow> stop_order_row \<Rightarrow> bool" where
  "off_link leaving ids d l \<longleftrightarrow>
     so_stop_id l \<in> ids \<and> left_on leaving (so_stop_id l) d \<noteq> [] \<and> so_order_id l \<in> set leaving"

lemma set_carried_by: "set (carried_by sid d) = {so_order_id l | l. l \<in> set (stop_orders d) \<and> so_stop_id l = sid}"
  by (auto simp: carried_by_def)

lemma carried_by_cong: "stop_orders d = stop_orders d' \<Longrightarrow> carried_by sid d = carried_by sid d'"
  by (simp add: carried_by_def)

lemma shed_parcels_cong: "parcels d = parcels d' \<Longrightarrow> shed_parcels g l d = shed_parcels g l d'"
  by (simp add: fun_eq_iff shed_parcels_def count_parcels_def)

lemma shed_parcels_id [simp]: "stop_id (shed_parcels g l d r) = stop_id r" "stop_type_of (shed_parcels g l d r) = stop_type_of r"
  "stop_status_of (shed_parcels g l d r) = stop_status_of r"
  by (simp_all add: shed_parcels_def Let_def split_beta)

lemma off_row_id [simp]: "stop_id (off_row leaving ids d r) = stop_id r" "stop_type_of (off_row leaving ids d r) = stop_type_of r"
  by (simp_all add: off_row_def)

text \<open>One stop.\<close>

lemma take_orders_off_stop_exact:
  assumes "st \<in> set (stops d)" "distinct (map stop_id (stops d))"
  shows "take_orders_off_stop leaving st d =
    (if left_on leaving (stop_id st) d = [] then [stop_id st] else [],
     d\<lparr>stops := map (off_row leaving {stop_id st} d) (stops d),
       stop_orders := filter (\<lambda>l. \<not> off_link leaving {stop_id st} d l) (stop_orders d)\<rparr>)"
proof -
  let ?left = "left_on leaving (stop_id st) d" and ?gone = "gone_from leaving (stop_id st) d"
  have same: "r = st" if "r \<in> set (stops d)" "stop_id r = stop_id st" for r
    using assms that by (metis distinct_map inj_onD)
  have link: "so_order_id l \<in> set ?gone \<longleftrightarrow> so_order_id l \<in> set leaving"
    if "l \<in> set (stop_orders d)" "so_stop_id l = stop_id st" for l
    using that by (auto simp: gone_from_def set_carried_by)
  show ?thesis
  proof (cases "?left = []")
    case True
    have "filter (\<lambda>l. \<not> off_link leaving {stop_id st} d l) (stop_orders d) = stop_orders d"
      using True by (intro filter_True) (auto simp: off_link_def)
    with True show ?thesis
      by (auto simp: take_orders_off_stop_def Let_def left_on_def update_stop_def update_where_def off_row_def)
  next
    case False
    have f: "filter (\<lambda>l. \<not> (so_stop_id l = stop_id st \<and> so_order_id l \<in> set ?gone)) (stop_orders d) =
        filter (\<lambda>l. \<not> off_link leaving {stop_id st} d l) (stop_orders d)"
      using False link by (intro filter_cong) (auto simp: off_link_def)
    have m: "update_where (\<lambda>r. stop_id r = stop_id st) (shed_parcels ?gone ?left d) (stops d) =
        map (off_row leaving {stop_id st} d) (stops d)" if "stop_type_of st = Pickup"
      using False that same by (auto simp: update_where_def off_row_def)
    have k: "stops d = map (off_row leaving {stop_id st} d) (stops d)" if "stop_type_of st \<noteq> Pickup"
      using False that same by (intro sym [OF map_idI]) (auto simp: off_row_def)
    have c: "shed_parcels ?gone ?left (d\<lparr>stop_orders := x\<rparr>) = shed_parcels ?gone ?left d" for x
      by (rule shed_parcels_cong) simp
    show ?thesis
    proof (cases "stop_type_of st = Pickup")
      case True
      with False show ?thesis
        unfolding take_orders_off_stop_def Let_def left_on_def [symmetric] gone_from_def [symmetric] f update_stop_def c
        by (simp add: m)
    next
      case np: False
      with False k [OF np] show ?thesis
        unfolding take_orders_off_stop_def Let_def left_on_def [symmetric] gone_from_def [symmetric] f by simp
    qed
  qed
qed

lemma carried_by_other:
  assumes "sid \<noteq> tid"
  shows "carried_by sid (d\<lparr>stops := x, stop_orders := filter (\<lambda>l. \<not> off_link leaving {tid} e l) (stop_orders d)\<rparr>) = carried_by sid d"
proof -
  have "filter (\<lambda>l. so_stop_id l = sid) (filter (\<lambda>l. \<not> off_link leaving {tid} e l) ls) = filter (\<lambda>l. so_stop_id l = sid) ls" for ls
    using assms by (induction ls) (auto simp: off_link_def)
  then show ?thesis by (simp add: carried_by_def)
qed

lemma take_orders_off_stops_rows:
  "set sts \<subseteq> set (stops d) \<Longrightarrow> distinct (map stop_id (stops d)) \<Longrightarrow> distinct (map stop_id sts) \<Longrightarrow>
   take_orders_off_stops leaving sts d =
    (map stop_id (filter (\<lambda>st. left_on leaving (stop_id st) d = []) sts),
     d\<lparr>stops := map (off_row leaving (stop_id ` set sts) d) (stops d),
       stop_orders := filter (\<lambda>l. \<not> off_link leaving (stop_id ` set sts) d l) (stop_orders d)\<rparr>)"
proof (induction sts arbitrary: d)
  case Nil
  have "map (off_row leaving {} d) (stops d) = stops d" by (intro map_idI) (simp add: off_row_def)
  then show ?case by (simp add: off_link_def)
next
  case (Cons st sts)
  let ?t = "stop_id st"
  let ?d1 = "d\<lparr>stops := map (off_row leaving {?t} d) (stops d),
       stop_orders := filter (\<lambda>l. \<not> off_link leaving {?t} d l) (stop_orders d)\<rparr>"
  have st: "st \<in> set (stops d)" using Cons.prems(1) by simp
  have notin: "?t \<notin> stop_id ` set sts" using Cons.prems(3) by simp
  have keep: "r \<in> set (stops d) \<Longrightarrow> stop_id r \<noteq> ?t \<Longrightarrow> r \<in> set (stops ?d1)" for r
    by (auto simp: image_iff off_row_def intro!: bexI [of _ r])
  have sub: "set sts \<subseteq> set (stops ?d1)"
  proof
    fix r assume r: "r \<in> set sts"
    then have "stop_id r \<noteq> ?t" using notin by (metis image_eqI)
    with r Cons.prems(1) show "r \<in> set (stops ?d1)" by (intro keep) auto
  qed
  have ids: "distinct (map stop_id (stops ?d1))" using Cons.prems(2) by (simp add: comp_def)
  have left: "left_on leaving sid ?d1 = left_on leaving sid d" "gone_from leaving sid ?d1 = gone_from leaving sid d"
    if "sid \<noteq> ?t" for sid
    using carried_by_other [OF that] by (simp_all add: left_on_def gone_from_def)
  note IH = Cons.IH [OF sub ids]
  have rows: "off_row leaving (stop_id ` set sts) ?d1 (off_row leaving {?t} d r) = off_row leaving (stop_id ` set (st # sts)) d r" for r
  proof (cases "stop_id r = ?t")
    case True
    with notin show ?thesis by (simp add: off_row_def)
  next
    case False
    then show ?thesis using left [OF False] shed_parcels_cong [of ?d1 d]
      by (simp add: off_row_def)
  qed
  have links: "filter (\<lambda>l. \<not> off_link leaving (stop_id ` set sts) ?d1 l) (filter (\<lambda>l. \<not> off_link leaving {?t} d l) ls) =
      filter (\<lambda>l. \<not> off_link leaving (stop_id ` set (st # sts)) d l) ls" for ls
  proof -
    have "\<not> off_link leaving {?t} d l \<and> \<not> off_link leaving (stop_id ` set sts) ?d1 l \<longleftrightarrow>
        \<not> off_link leaving (stop_id ` set (st # sts)) d l" for l
      using notin left [of "so_stop_id l"] by (cases "so_stop_id l = ?t") (auto simp: off_link_def)
    then show ?thesis by (simp only: filter_filter)
  qed
  have fin: "filter (\<lambda>q. left_on leaving (stop_id q) ?d1 = []) sts = filter (\<lambda>q. left_on leaving (stop_id q) d = []) sts"
  proof (intro filter_cong refl)
    fix q assume "q \<in> set sts"
    then have "stop_id q \<noteq> ?t" using notin by (metis image_eqI)
    then show "left_on leaving (stop_id q) ?d1 = [] \<longleftrightarrow> left_on leaving (stop_id q) d = []" by (simp add: left(1))
  qed
  show ?case
    using IH Cons.prems(3)
    by (simp add: take_orders_off_stop_exact [OF st Cons.prems(2)] fin links rows comp_def del: filter_filter)
qed

lemma count_parcels_split:
  "distinct xs \<Longrightarrow> fst (count_parcels (filter P xs) d) + fst (count_parcels (filter (\<lambda>x. \<not> P x) xs) d) = fst (count_parcels xs d) \<and>
   snd (count_parcels (filter P xs) d) + snd (count_parcels (filter (\<lambda>x. \<not> P x) xs) d) = snd (count_parcels xs d)"
proof -
  have "length (filter (\<lambda>p. parcel_order_id p \<in> set (filter P xs) \<and> Q p) ps) +
      length (filter (\<lambda>p. parcel_order_id p \<in> set (filter (\<lambda>x. \<not> P x) xs) \<and> Q p) ps) =
      length (filter (\<lambda>p. parcel_order_id p \<in> set xs \<and> Q p) ps)" for Q and ps :: "parcel_row list"
    by (induction ps) auto
  from this [of "\<lambda>_. True" "parcels d"] this [of "\<lambda>p. parcel_scanned_at p \<noteq> None" "parcels d"]
  show ?thesis by (simp add: count_parcels_def Let_def flip: of_nat_add)
qed

lemma count_parcels_nonneg: "0 \<le> fst (count_parcels xs d)" "0 \<le> snd (count_parcels xs d)"
  "snd (count_parcels xs d) \<le> fst (count_parcels xs d)"
  by (simp_all add: count_parcels_def Let_def del: filter_filter)

section \<open>Properties\<close>

text \<open>
  Taking orders off stops: a stop that carries another order keeps it and loses exactly the links
  of the leaving orders, and a pickup among them sheds their parcels; a stop left with nothing is
  cancelled, keeps its links and loses its forecast; every other stop and link is untouched. The
  result lists the cancelled stops in the order given.
\<close>

theorem take_orders_off_stops_exact:
  assumes "set sts \<subseteq> set (stops d)" "distinct (map stop_id (stops d))" "distinct (map stop_id sts)"
    and "(removed, d') = take_orders_off_stops leaving sts d" "ids = stop_id ` set sts"
  shows "removed = map stop_id (filter (\<lambda>st. set (carried_by (stop_id st) d) \<subseteq> set leaving) sts) \<and>
    stop_orders d' = filter (\<lambda>l. \<not> (so_stop_id l \<in> ids \<and> so_order_id l \<in> set leaving \<and>
      \<not> set (carried_by (so_stop_id l) d) \<subseteq> set leaving)) (stop_orders d) \<and>
    stops d' = map (off_row leaving ids d) (stops d) \<and>
    d' = d\<lparr>stops := stops d', stop_orders := stop_orders d'\<rparr> \<and>
    (\<forall>st \<in> set sts. stop_id st \<notin> set removed \<longrightarrow> set (carried_by (stop_id st) d') \<inter> set leaving = {})"
proof -
  have left: "left_on leaving sid d = [] \<longleftrightarrow> set (carried_by sid d) \<subseteq> set leaving" for sid
    by (auto simp: left_on_def filter_empty_conv)
  note r = take_orders_off_stops_rows [OF assms(1-3), of leaving]
  have removed: "removed = map stop_id (filter (\<lambda>st. set (carried_by (stop_id st) d) \<subseteq> set leaving) sts)"
    and d': "d' = d\<lparr>stops := map (off_row leaving ids d) (stops d),
       stop_orders := filter (\<lambda>l. \<not> off_link leaving ids d l) (stop_orders d)\<rparr>"
    using assms(4) by (simp_all add: r assms(5) left)
  have ol: "off_link leaving ids d l \<longleftrightarrow> so_stop_id l \<in> ids \<and> so_order_id l \<in> set leaving \<and>
      \<not> set (carried_by (so_stop_id l) d) \<subseteq> set leaving" for l
    by (auto simp: off_link_def left)
  have "set (carried_by (stop_id st) d') \<inter> set leaving = {}"
    if st: "st \<in> set sts" "stop_id st \<notin> set removed" for st
  proof -
    have "\<not> set (carried_by (stop_id st) d) \<subseteq> set leaving" using st by (auto simp: removed)
    moreover have "stop_id st \<in> ids" using st(1) by (simp add: assms(5))
    ultimately have "off_link leaving ids d l" if "so_stop_id l = stop_id st" "so_order_id l \<in> set leaving" for l
      using that by (simp add: ol)
    then show ?thesis unfolding set_carried_by by (auto simp: d')
  qed
  with removed d' ol show ?thesis by auto
qed

text \<open>
  A pickup whose counts are those of its orders' parcels keeps that when orders leave: if every
  order on it has a parcel row, afterwards its parcel count and its scanned count are again those of
  the orders still on it, so it can be completed, and not before their last parcel is scanned.
\<close>

theorem shed_pickup_counts_the_orders_left:
  assumes "stop_parcel_count r = fst (count_parcels (carried_by sid d) d)"
    and "stop_scanned_count r = snd (count_parcels (carried_by sid d) d)"
    and "fst (count_parcels (gone_from leaving sid d) d) \<noteq> 0 \<or> gone_from leaving sid d = []"
    and "int (length (left_on leaving sid d)) \<le> fst (count_parcels (left_on leaving sid d) d)"
    and "r' = shed_parcels (gone_from leaving sid d) (left_on leaving sid d) d r"
  shows "stop_parcel_count r' = fst (count_parcels (left_on leaving sid d) d) \<and>
    stop_scanned_count r' = snd (count_parcels (left_on leaving sid d) d)"
proof -
  have "distinct (carried_by sid d)" by (simp add: carried_by_def)
  from count_parcels_split [OF this, of "\<lambda>i. i \<in> set leaving" d]
  have sum: "fst (count_parcels (gone_from leaving sid d) d) + fst (count_parcels (left_on leaving sid d) d) =
      fst (count_parcels (carried_by sid d) d)"
    "snd (count_parcels (gone_from leaving sid d) d) + snd (count_parcels (left_on leaving sid d) d) =
      snd (count_parcels (carried_by sid d) d)"
    by (simp_all add: gone_from_def left_on_def)
  have "stop_parcel_count r' = fst (count_parcels (left_on leaving sid d) d)"
    using assms(1,3,4) sum by (auto simp: assms(5) shed_parcels_def Let_def split_beta)
  moreover have "stop_scanned_count r' = min (stop_parcel_count r') (snd (count_parcels (left_on leaving sid d) d))"
    using assms(2) sum count_parcels_nonneg(2) [of "left_on leaving sid d" d]
    by (simp add: assms(5) shed_parcels_def Let_def split_beta)
  ultimately show ?thesis using count_parcels_nonneg(3) [of "left_on leaving sid d" d] by simp
qed

text \<open>
  Advancing orders writes the orders and the deliveries owed for them, and no other table: any view of the
  database that ignores these two stays.
\<close>

definition ignores_orders :: "(db \<Rightarrow> 'a) \<Rightarrow> bool" where
  "ignores_orders view \<longleftrightarrow> (\<forall>d x. view (d\<lparr>orders := x\<rparr>) = view d) \<and> (\<forall>d x. view (d\<lparr>deliveries := x\<rparr>) = view d)"

lemma emitted_frame: "ignores_orders view \<Longrightarrow> view (db (emitted e s)) = view (db s)"
  by (simp add: emitted_def Let_def ignores_orders_def)

lemma advance_orders_frame:
  assumes "session_ok s" and view: "ignores_orders view"
  shows "view (db (snd (advance_orders env now t pre ids new s))) = view (db s)"
proof -
  have v: "view (d\<lparr>orders := x\<rparr>) = view d" "view (d\<lparr>deliveries := y\<rparr>) = view d" for d x y
    using view by (simp_all add: ignores_orders_def)
  have "session_ok s \<Longrightarrow> view (db (snd (advance_rows env k p new u rows s))) = view (db s)" for k p u rows s
  proof (induction rows arbitrary: k s)
    case (Cons r rows)
    let ?s1 = "interfere (env k) s"
    have ok1: "session_ok ?s1" and b1: "view (db ?s1) = view (db s)"
      using Cons.prems by (simp_all add: interfere_def session_ok_def v)
    show ?case
    proof (cases "conditional_update (ord_id r) p new ?s1")
      case None
      then show ?thesis using Cons.IH [OF ok1, of "Suc k"] Cons.IH [OF Cons.prems, of "Suc k"] b1 by (simp add: Let_def)
    next
      case (Some s2)
      have s2: "view (db (stamp_delivered r new u s2)) = view (db ?s1)" "session_ok (stamp_delivered r new u s2)"
        using conditional_update_Some [OF Some] ok1 by (simp_all add: session_ok_def stamp_delivered_def v)
      have e: "view (db (emit_for r new u (stamp_delivered r new u s2))) = view (db ?s1)"
        using emit_for_ok [OF s2(2)] s2(1) emitted_frame [OF view] by simp
      show ?thesis
        using Some Cons.IH [OF emit_for_contract(1) [OF s2(2), of r new u], of "Suc k"] Cons.IH [OF Cons.prems, of "Suc k"] b1 e
        by (simp add: Let_def split_beta)
    qed
  qed simp
  with assms(1) show ?thesis by (simp add: advance_orders_def)
qed

lemma advance_orders_stops: "session_ok s \<Longrightarrow> stops (db (snd (advance_orders env now t pre ids new s))) = stops (db s)"
  by (rule advance_orders_frame) (simp_all add: ignores_orders_def)

lemma mark_current_stops:
  assumes "session_ok s" "session_ok (interfere_db others s)"
    and "s' = snd (mark_current_stop_en_route others env now rid s)"
  shows "stops (db s') =
    (case current_stop rid (db s) of
       None \<Rightarrow> stops (db s)
     | Some c \<Rightarrow>
         if stop_status_of c = Stop_pending
         then update_where (\<lambda>r. stop_id r = stop_id c \<and> stop_status_of r = Stop_pending)
           (\<lambda>r. r\<lparr>stop_status_of := Stop_en_route\<rparr>) (stops (others (db s)))
         else stops (db s))"
proof -
  have adv: "session_ok q \<Longrightarrow> stops (db (advance_dropoff env now c q)) = stops (db q)" for c q
    by (simp add: advance_dropoff_def Let_def advance_orders_stops)
  have ok: "session_ok ((interfere_db others s)\<lparr>db := (db (interfere_db others s))\<lparr>stops := x\<rparr>\<rparr>)" for x
    using assms(2) by (simp add: session_ok_def)
  have others: "stops (db (interfere_db others s)) = stops (others (db s))" by (simp add: interfere_db_def)
  show ?thesis
  proof (cases "current_stop rid (db s)")
    case None
    then show ?thesis by (simp add: assms(3) mark_current_stop_en_route_def)
  next
    case (Some c)
    let ?p = "\<lambda>r. stop_id r = stop_id c \<and> stop_status_of r = Stop_pending"
    show ?thesis
    proof (cases "stop_status_of c = Stop_pending")
      case True
      have none: "update_where ?p f rows = rows" if "\<not> (\<exists>r \<in> set rows. ?p r)" for f and rows
        using that by (intro update_where_none) auto
      show ?thesis
      proof (cases "\<exists>r \<in> set (stops (others (db s))). ?p r")
        case here: True
        with True Some ok show ?thesis
          by (simp add: assms(3) mark_current_stop_en_route_def Let_def adv others)
      next
        case gone: False
        from True Some gone none [OF gone] ok show ?thesis
          by (simp add: assms(3) mark_current_stop_en_route_def Let_def others adv)
      qed
    next
      case False
      with Some assms(1) show ?thesis by (simp add: assms(3) mark_current_stop_en_route_def adv)
    qed
  qed
qed

text \<open>
  Promoting the current stop never undoes what others did meanwhile: whatever was committed
  between the read and the write, afterwards the stops are as the others left them, except that the
  stop read as current goes from \<open>pending\<close> to \<open>en_route\<close>, if it is still pending then. A stop
  cancelled or finished meanwhile is not put back on the route.
\<close>

theorem mark_current_stop_keeps_what_others_wrote:
  assumes "session_ok s" "session_ok (interfere_db others s)"
    and "s' = snd (mark_current_stop_en_route others env now rid s)"
  shows "stops (db s') =
    (case current_stop rid (db s) of
       None \<Rightarrow> stops (db s)
     | Some c \<Rightarrow>
         if stop_status_of c = Stop_pending
         then update_where (\<lambda>r. stop_id r = stop_id c \<and> stop_status_of r = Stop_pending)
           (\<lambda>r. r\<lparr>stop_status_of := Stop_en_route\<rparr>) (stops (others (db s)))
         else stops (db s))"
  by (rule mark_current_stops [OF assms])

definition sample_stop :: "uuid \<Rightarrow> int \<Rightarrow> stop_status \<Rightarrow> stop_type \<Rightarrow> stop_row" where
  "sample_stop i q st ty =
     \<lparr>stop_id = i, stop_route_id = 4, stop_shop_id = Some 5, stop_sequence = q, stop_status_of = st,
      stop_type_of = ty, stop_parcel_count = 2, stop_scanned_count = 1, stop_eta = Some 9,
      stop_planned_eta = Some 9, stop_arrived_at = None, stop_completed_at = None, stop_flagged_at = None,
      stop_evidence_of = no_evidence, stop_created_at = 0\<rparr>"

text \<open>One shared pickup and one drop-off of order 7; order 8 stays on the pickup.\<close>

definition sample_route_tables :: db where
  "sample_route_tables =
     (sample_tables [sample_order 7 Assigned, sample_order 8 Assigned])\<lparr>
        stops := [sample_stop 10 1 Stop_pending Pickup, sample_stop 11 2 Stop_pending Dropoff],
        stop_orders := [\<lparr>so_stop_id = 10, so_order_id = 7\<rparr>, \<lparr>so_stop_id = 10, so_order_id = 8\<rparr>,
          \<lparr>so_stop_id = 11, so_order_id = 7\<rparr>],
        parcels := [\<lparr>parcel_hub_id = 1, parcel_order_id = 7, parcel_barcode = ''P1'', parcel_scanned_at = Some 4\<rparr>, 
          \<lparr>parcel_hub_id = 1, parcel_order_id = 8, parcel_barcode = ''P2'', parcel_scanned_at = None\<rparr>],
        routes := [\<lparr>route_id = 4, route_hub_id = 1, route_driver_id = 3, route_status_of = Route_active,
          route_plan_version = 1, route_created_at = 0\<rparr>]\<rparr>"

theorem take_orders_off_stops_exact_witness:
  "fst (take_orders_off_stops [7] (stops sample_route_tables) sample_route_tables) = [11]"
proof -
  have "fst (take_orders_off_stops [7] (stops sample_route_tables) sample_route_tables) =
      map stop_id (filter (\<lambda>st. set (carried_by (stop_id st) sample_route_tables) \<subseteq> set [7]) (stops sample_route_tables))"
    using take_orders_off_stops_exact [OF _ _ _ prod.collapse refl, of "stops sample_route_tables" sample_route_tables "[7]"]
    by (simp add: sample_route_tables_def sample_stop_def)
  also have "\<dots> = [11]" by code_simp
  finally show ?thesis .
qed

theorem shed_pickup_counts_the_orders_left_witness:
  "stop_parcel_count (shed_parcels [7] [8] sample_route_tables (sample_stop 10 1 Stop_pending Pickup)) = 1"
proof -
  have g: "gone_from [7] 10 sample_route_tables = [7]" "left_on [7] 10 sample_route_tables = [8]"
    "count_parcels [7] sample_route_tables = (1, 1)" "count_parcels [8] sample_route_tables = (1, 0)"
    "count_parcels (carried_by 10 sample_route_tables) sample_route_tables = (2, 1)" by code_simp+
  show ?thesis
    using shed_pickup_counts_the_orders_left [of "sample_stop 10 1 Stop_pending Pickup" 10 sample_route_tables "[7]", OF _ _ _ _ refl]
    by (simp add: g sample_stop_def)
qed

theorem mark_current_stop_keeps_what_others_wrote_witness:
  "map stop_status_of (stops (db (snd (mark_current_stop_en_route
     (\<lambda>d. d\<lparr>stops := [sample_stop 10 1 Stop_cancelled Pickup, sample_stop 11 2 Stop_pending Dropoff]\<rparr>) no_interference 0 4
     ((sample_session [])\<lparr>db := sample_route_tables\<rparr>))))) = [Stop_cancelled, Stop_pending]"
proof -
  let ?s = "(sample_session [])\<lparr>db := sample_route_tables\<rparr>"
  let ?o = "\<lambda>d. d\<lparr>stops := [sample_stop 10 1 Stop_cancelled Pickup, sample_stop 11 2 Stop_pending Dropoff]\<rparr>"
  have ok: "session_ok ?s" "session_ok (interfere_db ?o ?s)"
    by (simp_all add: session_ok_def sample_session_def sample_route_tables_def sample_tables_def interfere_db_def)
  have cur: "current_stop 4 sample_route_tables = Some (sample_stop 10 1 Stop_pending Pickup)" by code_simp
  show ?thesis
    using mark_current_stop_keeps_what_others_wrote [OF ok refl, of no_interference 0 4]
    by (simp add: cur) (simp add: sample_stop_def)
qed

end
