(* ===== verification/Py_Float.thy ===== *)
theory Py_Float
  imports Prelude "HOL-Library.Log_Nat"
begin

text \<open>
  Python's \<open>float\<close> and the operations of it the program uses. A float is the rational it
  denotes; every arithmetic operation is the exact result rounded to a 53-bit significand, ties to
  even (\<open>fl\<close>), as IEEE 754 binary64 does. Infinities, NaN, overflow (above about 1.8e308) and
  subnormals (below about 2.2e-308) are not represented: distances, hours, weights and cents stay
  far inside that range. \<open>round(x)\<close> rounds to the nearest integer, ties to even, on the exact
  value of the float; \<open>round(x, n)\<close> is the float nearest to the decimal so rounded;
  \<open>timedelta(minutes=x)\<close> is CPython's: the whole minutes exactly, the fraction multiplied by the
  factor in floating point, and the result rounded to whole microseconds, ties to even.

  The lemmas show what the components rely on: \<open>fl\<close> is monotone and odd, keeps signs, and is exact
  on integers up to \<open>2^53\<close>; so the rounded amounts computed from floats are monotone and
  non-negative.
\<close>

section \<open>Rounding\<close>

definition round_half_even :: "rat \<Rightarrow> int" where
  "round_half_even x =
     (let f = \<lfloor>x\<rfloor>; d = x - of_int f in
      if d < 1 / 2 then f else if 1 / 2 < d then f + 1 else if even f then f else f + 1)"

text \<open>The exponent of a positive rational: \<open>2 powi flog2 x \<le> x < 2 powi (flog2 x + 1)\<close>.\<close>

definition flog2 :: "rat \<Rightarrow> int" where
  "flog2 x =
     (let (n, d) = quotient_of x; e = bitlen n - bitlen d in
      if 2 powi e \<le> x then e else e - 1)"

definition fl :: "rat \<Rightarrow> rat" where
  "fl x =
     (if x = 0 then 0
      else let u = 2 powi (flog2 \<bar>x\<bar> - 52) in of_int (round_half_even (x / u)) * u)"

section \<open>The operations\<close>

definition fadd :: "rat \<Rightarrow> rat \<Rightarrow> rat" where
  "fadd x y = fl (x + y)"

definition fsub :: "rat \<Rightarrow> rat \<Rightarrow> rat" where
  "fsub x y = fl (x - y)"

definition fmul :: "rat \<Rightarrow> rat \<Rightarrow> rat" where
  "fmul x y = fl (x * y)"

definition fdiv :: "rat \<Rightarrow> rat \<Rightarrow> rat" where
  "fdiv x y = fl (x / y)"

text \<open>An \<open>int\<close> operand of a mixed operation is converted first.\<close>

definition of_py_int :: "int \<Rightarrow> rat" where
  "of_py_int n = fl (of_int n)"

text \<open>\<open>int / int\<close> is the correctly rounded quotient.\<close>

definition int_truediv :: "int \<Rightarrow> int \<Rightarrow> rat" where
  "int_truediv a b = fl (of_int a / of_int b)"

definition py_round_ndigits :: "nat \<Rightarrow> rat \<Rightarrow> rat" where
  "py_round_ndigits n x = fl (of_int (round_half_even (x * 10 ^ n)) / 10 ^ n)"

text \<open>
  \<open>sum\<close> over floats adds from the left (Python up to 3.11, the version the repository pins).
\<close>

definition fsum :: "rat list \<Rightarrow> rat" where
  "fsum xs = foldl fadd 0 xs"

definition trunc :: "rat \<Rightarrow> int" where
  "trunc x = (if 0 \<le> x then \<lfloor>x\<rfloor> else \<lceil>x\<rceil>)"

definition timedelta_minutes :: "rat \<Rightarrow> int" where
  "timedelta_minutes x =
     (let whole = trunc x; frac = x - of_int whole in
      minutes whole + round_half_even (fmul 60000000 frac))"

text \<open>\<open>timedelta.total_seconds()\<close> of a number of microseconds.\<close>

definition total_seconds :: "int \<Rightarrow> rat" where
  "total_seconds us = int_truediv us 1000000"

section \<open>Lemmas on rounding\<close>

lemma round_half_even_of_int [simp]: "round_half_even (of_int n) = n"
  by (simp add: round_half_even_def)

lemma round_half_even_bounds:
  "of_int \<lfloor>x\<rfloor> \<le> (of_int (round_half_even x) :: rat)" "round_half_even x \<le> \<lfloor>x\<rfloor> + 1"
  by (auto simp: round_half_even_def Let_def)

lemma round_half_even_near: "\<bar>of_int (round_half_even x) - x\<bar> \<le> 1 / 2"
  unfolding round_half_even_def Let_def by (simp add: abs_if) linarith

lemma round_half_even_mono:
  assumes "x \<le> y" shows "round_half_even x \<le> round_half_even y"
proof (cases "\<lfloor>x\<rfloor> = \<lfloor>y\<rfloor>")
  case True
  with assms show ?thesis by (auto simp: round_half_even_def Let_def)
next
  case False
  with assms have "\<lfloor>x\<rfloor> + 1 \<le> \<lfloor>y\<rfloor>" using floor_mono [OF assms] by linarith
  moreover have "round_half_even x \<le> \<lfloor>x\<rfloor> + 1" by (rule round_half_even_bounds)
  moreover have "\<lfloor>y\<rfloor> \<le> round_half_even y" by (auto simp: round_half_even_def Let_def)
  ultimately show ?thesis by linarith
qed

lemma round_half_even_ge: "of_int n \<le> x \<Longrightarrow> n \<le> round_half_even x"
  using round_half_even_mono [of "of_int n" x] by simp

lemma round_half_even_le: "x \<le> of_int n \<Longrightarrow> round_half_even x \<le> n"
  using round_half_even_mono [of x "of_int n"] by simp

lemma bitlen_powi:
  assumes "0 < n"
  shows "2 powi (bitlen n - 1) \<le> (of_int n :: rat)" "(of_int n :: rat) < 2 powi bitlen n"
proof -
  have pos: "0 < bitlen n" using assms
    by (metis bitlen_eq_zero_iff bitlen_nonneg less_le not_less)
  have b: "2 ^ nat (bitlen n - 1) \<le> n" "n < 2 ^ nat (bitlen n)"
    using bitlen_bounds [OF assms] by auto
  have "(2 :: rat) powi (bitlen n - 1) = of_int (2 ^ nat (bitlen n - 1))"
    using pos by (simp add: power_int_def)
  also have "\<dots> \<le> of_int n" using b(1) by (rule of_int_le_iff [THEN iffD2])
  finally show "2 powi (bitlen n - 1) \<le> (of_int n :: rat)" .
  have "(of_int n :: rat) < of_int (2 ^ nat (bitlen n))" using b(2) by (rule of_int_less_iff [THEN iffD2])
  also have "\<dots> = 2 powi bitlen n" using pos by (simp add: power_int_def)
  finally show "(of_int n :: rat) < 2 powi bitlen n" .
qed

lemma flog2_bounds:
  assumes "0 < x"
  shows "2 powi flog2 x \<le> x" "x < 2 powi (flog2 x + 1)"
proof -
  obtain n d where q: "quotient_of x = (n, d)" by (cases "quotient_of x")
  have d: "0 < d" using q by (rule quotient_of_denom_pos)
  have x: "x = of_int n / of_int d" using q by (rule quotient_of_div)
  have n: "0 < n" using assms d x by (simp add: zero_less_divide_iff)
  let ?e = "bitlen n - bitlen d"
  have dpos: "(0::rat) < of_int d" using d by simp
  have up: "x < 2 powi (?e + 1)"
  proof -
    have "x * 2 powi (bitlen d - 1) \<le> x * of_int d"
      using bitlen_powi(1) [OF d] assms by (intro mult_left_mono) auto
    also have "\<dots> = of_int n" using x dpos by simp
    also have "\<dots> < 2 powi bitlen n" by (rule bitlen_powi(2) [OF n])
    also have "\<dots> = 2 powi (?e + 1) * 2 powi (bitlen d - 1)"
      by (simp flip: power_int_add)
    finally show ?thesis by (simp add: mult_less_cancel_right zero_less_power_int)
  qed
  have lo: "2 powi (?e - 1) < x"
  proof -
    have "(2 powi (?e - 1) * 2 powi bitlen d :: rat) = 2 powi (bitlen n - 1)"
      by (simp flip: power_int_add)
    also have "\<dots> \<le> of_int n" by (rule bitlen_powi(1) [OF n])
    also have "\<dots> = x * of_int d" using x dpos by simp
    also have "\<dots> < x * 2 powi bitlen d"
      using bitlen_powi(2) [OF d] assms by (intro mult_strict_left_mono)
    finally show ?thesis by (simp add: mult_less_cancel_right zero_less_power_int)
  qed
  have "flog2 x = (if 2 powi ?e \<le> x then ?e else ?e - 1)"
    by (simp add: flog2_def q)
  then show "2 powi flog2 x \<le> x" "x < 2 powi (flog2 x + 1)" using up lo
    by (auto simp: not_le)
qed

lemma flog2_mono:
  assumes "0 < x" "x \<le> y" shows "flog2 x \<le> flog2 y"
proof (rule ccontr)
  assume "\<not> flog2 x \<le> flog2 y"
  then have "(2 :: rat) powi (flog2 y + 1) \<le> 2 powi flog2 x"
    by (intro power_int_increasing) auto
  also have "\<dots> \<le> x" by (rule flog2_bounds(1) [OF assms(1)])
  also have "\<dots> \<le> y" by (rule assms(2))
  also have "\<dots> < 2 powi (flog2 y + 1)" using assms by (intro flog2_bounds(2)) simp
  finally show False by simp
qed

lemma fl_0 [simp]: "fl 0 = 0" by (simp add: fl_def)

lemma fl_pos: "0 < x \<Longrightarrow> fl x = of_int (round_half_even (x / 2 powi (flog2 x - 52))) * 2 powi (flog2 x - 52)"
  by (simp add: fl_def Let_def)

lemma fl_binade:
  assumes "0 < x"
  shows "2 powi flog2 x \<le> fl x" "fl x \<le> 2 powi (flog2 x + 1)"
proof -
  let ?u = "2 powi (flog2 x - 52) :: rat"
  have u: "0 < ?u" by (simp add: zero_less_power_int)
  have s1: "(2 powi flog2 x :: rat) = of_int (2 ^ 52) * ?u"
    using power_int_add [of "2::rat" 52 "flog2 x - 52"] by simp
  have s2: "(2 powi (flog2 x + 1) :: rat) = of_int (2 ^ 53) * ?u"
    using power_int_add [of "2::rat" 53 "flog2 x - 52"] by (simp add: add.commute)
  have "of_int (2 ^ 52) \<le> x / ?u"
    using flog2_bounds(1) [OF assms] u s1 by (simp add: pos_le_divide_eq)
  then have "2 ^ 52 \<le> round_half_even (x / ?u)" by (rule round_half_even_ge)
  then have "of_int (2 ^ 52) * ?u \<le> of_int (round_half_even (x / ?u)) * ?u"
    using u by (intro mult_right_mono of_int_le_iff [THEN iffD2]) simp_all
  then show "2 powi flog2 x \<le> fl x" by (simp only: s1 fl_pos [OF assms])
  have "x / ?u \<le> of_int (2 ^ 53)"
    using flog2_bounds(2) [OF assms] u s2 by (simp add: pos_divide_le_eq)
  then have "round_half_even (x / ?u) \<le> 2 ^ 53" by (rule round_half_even_le)
  then have "of_int (round_half_even (x / ?u)) * ?u \<le> of_int (2 ^ 53) * ?u"
    using u by (intro mult_right_mono of_int_le_iff [THEN iffD2]) simp_all
  then show "fl x \<le> 2 powi (flog2 x + 1)" by (simp only: s2 fl_pos [OF assms])
qed

lemma fl_mono_pos:
  assumes "0 < x" "x \<le> y" shows "fl x \<le> fl y"
proof (cases "flog2 x = flog2 y")
  case True
  let ?u = "2 powi (flog2 y - 52) :: rat"
  have u: "0 < ?u" by (simp add: zero_less_power_int)
  have "x / ?u \<le> y / ?u" using assms(2) u by (simp add: divide_right_mono)
  then have "round_half_even (x / ?u) \<le> round_half_even (y / ?u)" by (rule round_half_even_mono)
  then have "of_int (round_half_even (x / ?u)) * ?u \<le> of_int (round_half_even (y / ?u)) * ?u"
    using u by (intro mult_right_mono of_int_le_iff [THEN iffD2]) simp_all
  with True assms show ?thesis by (simp add: fl_pos)
next
  case False
  with flog2_mono [OF assms] have "flog2 x + 1 \<le> flog2 y" by simp
  then have "(2 :: rat) powi (flog2 x + 1) \<le> 2 powi flog2 y" by (intro power_int_increasing) auto
  with fl_binade(2) [OF assms(1)] fl_binade(1) [of y] assms show ?thesis by linarith
qed

lemma round_half_even_uminus: "round_half_even (- x) = - round_half_even x"
proof (cases "x = of_int \<lfloor>x\<rfloor>")
  case True
  then obtain n where "x = of_int n" by blast
  then show ?thesis using round_half_even_of_int [of "- n"] by simp
next
  case False
  then have "\<lfloor>- x\<rfloor> = - \<lfloor>x\<rfloor> - 1" 
    by (smt (verit, best) ceiling_altdef ceiling_def minus_equation_iff)
  then show ?thesis by (auto simp: round_half_even_def Let_def)
qed

lemma fl_uminus: "fl (- x) = - fl x"
  by (simp add: fl_def Let_def round_half_even_uminus)

lemma fl_nonneg: "0 \<le> x \<Longrightarrow> 0 \<le> fl x"
  using fl_binade(1) [of x] by (cases "x = 0") (auto intro: order_trans [of 0 "2 powi flog2 x"])

lemma fl_mono: "x \<le> y \<Longrightarrow> fl x \<le> fl y"
proof -
  assume le: "x \<le> y"
  consider "0 < x" | "x \<le> 0" "0 \<le> y" | "y < 0" using le by linarith
  then show ?thesis
  proof cases
    case 1
    then show ?thesis using le by (rule fl_mono_pos)
  next
    case 2
    have "0 \<le> fl (- x)" using 2 by (intro fl_nonneg) simp
    moreover have "0 \<le> fl y" using 2 by (intro fl_nonneg) simp
    ultimately show ?thesis by (simp add: fl_uminus)
  next
    case 3
    have "fl (- y) \<le> fl (- x)" using 3 le by (intro fl_mono_pos) simp_all
    then show ?thesis by (simp add: fl_uminus)
  qed
qed

lemma fl_of_int_pos:
  assumes "0 < n" "n \<le> 2 ^ 53" shows "fl (of_int n) = of_int n"
proof -
  let ?x = "of_int n :: rat" and ?e = "flog2 (of_int n)"
  have x: "0 < ?x" using assms by simp
  show ?thesis
  proof (cases "?e \<le> 52")
    case True
    have "?x / 2 powi (?e - 52) = ?x * 2 powi (52 - ?e)"
      using power_int_minus [of "2::rat" "52 - ?e"] by (simp add: divide_inverse)
    also have "\<dots> = of_int (n * 2 ^ nat (52 - ?e))" using True by (simp add: power_int_def)
    finally have exact: "?x / 2 powi (?e - 52) = of_int (n * 2 ^ nat (52 - ?e))" .
    have "fl ?x = of_int (n * 2 ^ nat (52 - ?e)) * 2 powi (?e - 52)"
      unfolding fl_pos [OF x] exact round_half_even_of_int ..
    also have "\<dots> = ?x" unfolding exact [symmetric] by simp
    finally show ?thesis .
  next
    case False
    then have "(2::rat) ^ 53 \<le> 2 powi ?e"
      using power_int_increasing [of 53 ?e "2::rat"] by simp
    also have "\<dots> \<le> ?x" by (rule flog2_bounds(1) [OF x])
    finally have "(of_int (2 ^ 53) :: rat) \<le> of_int n" by simp
    then have "2 ^ 53 \<le> n" by (rule of_int_le_iff [THEN iffD1])
    with assms(2) have "n = 2 ^ 53" by simp
    moreover have "fl (of_int (2 ^ 53)) = of_int (2 ^ 53)" by code_simp
    ultimately show ?thesis by simp
  qed
qed

lemma fl_of_int:
  assumes "\<bar>n\<bar> \<le> 2 ^ 53" shows "fl (of_int n) = of_int n"
proof -
  consider "0 < n" | "n = 0" | "0 < - n" by linarith
  then show ?thesis
  proof cases
    case 3
    then have "fl (of_int (- n)) = of_int (- n)" using assms by (intro fl_of_int_pos) auto
    then show ?thesis by (simp add: fl_uminus)
  qed (use assms fl_of_int_pos in auto)
qed

section \<open>Lemmas on the operations\<close>

lemma of_py_int_exact [simp]: "\<bar>n\<bar> \<le> 2 ^ 53 \<Longrightarrow> of_py_int n = of_int n"
  by (simp add: of_py_int_def fl_of_int)

lemma of_py_int_nonneg [simp]: "0 \<le> n \<Longrightarrow> 0 \<le> of_py_int n"
  by (simp add: of_py_int_def fl_nonneg)

lemma fmul_nonneg: "0 \<le> x \<Longrightarrow> 0 \<le> y \<Longrightarrow> 0 \<le> fmul x y"
  by (simp add: fmul_def fl_nonneg)

lemma fmul_mono: "0 \<le> x \<Longrightarrow> 0 \<le> c \<Longrightarrow> x \<le> y \<Longrightarrow> fmul x c \<le> fmul y c"
  by (simp add: fmul_def fl_mono mult_right_mono)

lemma fadd_nonneg: "0 \<le> x \<Longrightarrow> 0 \<le> y \<Longrightarrow> 0 \<le> fadd x y"
  by (simp add: fadd_def fl_nonneg)

lemma fadd_mono: "x \<le> x' \<Longrightarrow> y \<le> y' \<Longrightarrow> fadd x y \<le> fadd x' y'"
  by (simp add: fadd_def fl_mono)

lemma fdiv_nonneg: "0 \<le> x \<Longrightarrow> 0 \<le> y \<Longrightarrow> 0 \<le> fdiv x y"
  by (simp add: fdiv_def fl_nonneg)

lemma fdiv_mono: "0 < c \<Longrightarrow> x \<le> y \<Longrightarrow> fdiv x c \<le> fdiv y c"
  by (simp add: fdiv_def fl_mono divide_right_mono)

lemma round_half_even_nonneg: "0 \<le> x \<Longrightarrow> 0 \<le> round_half_even x"
  using round_half_even_ge [of 0 x] by simp

lemma fsum_nonneg: "(\<And>x. x \<in> set xs \<Longrightarrow> 0 \<le> x) \<Longrightarrow> 0 \<le> fsum xs"
proof -
  have "0 \<le> a \<Longrightarrow> (\<And>x. x \<in> set xs \<Longrightarrow> 0 \<le> x) \<Longrightarrow> 0 \<le> foldl fadd a xs" for a
    by (induction xs arbitrary: a) (auto simp: fadd_nonneg)
  then show "(\<And>x. x \<in> set xs \<Longrightarrow> 0 \<le> x) \<Longrightarrow> 0 \<le> fsum xs"
    by (simp add: fsum_def)
qed

lemma timedelta_minutes_nonneg: "0 \<le> x \<Longrightarrow> 0 \<le> timedelta_minutes x"
proof -
  assume "0 \<le> x"
  then have "0 \<le> trunc x" "0 \<le> x - of_int (trunc x)" by (simp_all add: trunc_def)
  then show ?thesis
    by (simp add: timedelta_minutes_def Let_def fmul_nonneg round_half_even_nonneg)
qed

lemma timedelta_minutes_of_int [simp]: "timedelta_minutes (of_int n) = minutes n"
  by (simp add: timedelta_minutes_def trunc_def fmul_def round_half_even_def)

end
