(* ===== verification/Event_Bus.thy ===== *)
theory Event_Bus
  imports Tables
begin

text \<open>
  The per-hub event bus over Redis (\<open>src/app/events/bus.py\<close>): the set of dirty hubs, the sorted set
  of wake-ups, and the per-hub lock with its time to live. A Redis command is atomic, so each
  operation below that is one command or one script is one step; \<open>_poll_once\<close> is the sequence the
  code runs. The last section is the whole bus as a step relation: any number of processes poll,
  publish and finish runs, and time passes in between.

  A wake-up's member \<open>hub|token\<close> is the pair; a hub identifier has no bar in it, so splitting at the
  first bar gives the hub back. Scores are the instants themselves.
\<close>

section \<open>The keys in Redis\<close>

type_synonym hub = uuid
type_synonym token = uuid

record bus =
  dirty_hubs :: "hub list"
  wakeups :: "((hub \<times> token) \<times> instant) list"
  hub_locks :: "(hub \<times> (token \<times> instant)) list"

definition LOCK_TTL_SECONDS :: int where
  "LOCK_TTL_SECONDS = 60"

text \<open>A lock past its expiry is gone, as far as any command can see.\<close>

definition lock_at :: "instant \<Rightarrow> hub \<Rightarrow> bus \<Rightarrow> (token \<times> instant) option" where
  "lock_at now h b =
     (case map_of (hub_locks b) h of
        None \<Rightarrow> None
      | Some (tok, expiry) \<Rightarrow> if now < expiry then Some (tok, expiry) else None)"

text \<open>\<open>SET key token NX EX 60\<close>; \<open>token\<close> is the caller's fresh \<open>uuid4\<close>.\<close>

definition try_acquire_hub_lock :: "instant \<Rightarrow> hub \<Rightarrow> token \<Rightarrow> bus \<Rightarrow> token option \<times> bus" where
  "try_acquire_hub_lock now h tok b =
     (case lock_at now h b of
        Some _ \<Rightarrow> (None, b)
      | None \<Rightarrow> (Some tok,
          b\<lparr>hub_locks := put_key h (tok, now + seconds LOCK_TTL_SECONDS) (hub_locks b)\<rparr>))"

text \<open>The script \<open>_RELEASE_IF_OWNER\<close>.\<close>

definition release_hub_lock :: "instant \<Rightarrow> hub \<Rightarrow> token \<Rightarrow> bus \<Rightarrow> bus" where
  "release_hub_lock now h tok b =
     (case lock_at now h b of
        None \<Rightarrow> b
      | Some (owner, _) \<Rightarrow> if owner = tok then b\<lparr>hub_locks := del_key h (hub_locks b)\<rparr> else b)"

definition sadd :: "'a \<Rightarrow> 'a list \<Rightarrow> 'a list" where
  "sadd x xs = (if x \<in> set xs then xs else xs @ [x])"

definition srem :: "'a \<Rightarrow> 'a list \<Rightarrow> 'a list" where
  "srem x xs = filter (\<lambda>y. y \<noteq> x) xs"

definition publish :: "hub \<Rightarrow> bus \<Rightarrow> bus" where
  "publish h b = b\<lparr>dirty_hubs := sadd h (dirty_hubs b)\<rparr>"

text \<open>\<open>zadd\<close> and \<open>zrem\<close> on the wake-ups.\<close>

definition add_wakeup :: "hub \<Rightarrow> token \<Rightarrow> instant \<Rightarrow> bus \<Rightarrow> bus" where
  "add_wakeup h tok due b = b\<lparr>wakeups := put_key (h, tok) due (wakeups b)\<rparr>"

definition remove_wakeup :: "hub \<Rightarrow> token \<Rightarrow> bus \<Rightarrow> bus" where
  "remove_wakeup h tok b = b\<lparr>wakeups := del_key (h, tok) (wakeups b)\<rparr>"

fun wake_members :: "(hub \<times> token) list \<Rightarrow> bus \<Rightarrow> bus" where
  "wake_members [] b = b"
| "wake_members (m # ms) b =
     (if m \<in> fst ` set (wakeups b)
      then wake_members ms (publish (fst m) (remove_wakeup (fst m) (snd m) b))
      else wake_members ms b)"

definition wake_due_hubs :: "instant \<Rightarrow> bus \<Rightarrow> bus" where
  "wake_due_hubs now b = wake_members (map fst (filter (\<lambda>w. snd w \<le> now) (wakeups b))) b"

text \<open>
  One poll of one process: \<open>running\<close> is its \<open>_local_running\<close>, \<open>toks\<close> the fresh tokens it draws, one
  per attempt. The result lists the runs it started, as pairs of hub and token.
\<close>

fun poll_hubs ::
    "instant \<Rightarrow> hub list \<Rightarrow> (nat \<Rightarrow> token) \<Rightarrow> nat \<Rightarrow> hub list \<Rightarrow> bus \<Rightarrow> (hub \<times> token) list \<times> hub list \<times> bus" where
  "poll_hubs now [] toks n running b = ([], running, b)"
| "poll_hubs now (h # hs) toks n running b =
     (if h \<in> set running then poll_hubs now hs toks n running b
      else case try_acquire_hub_lock now h (toks n) b of
        (None, b') \<Rightarrow> poll_hubs now hs toks (Suc n) running b'
      | (Some tok, b') \<Rightarrow>
          let b'' = b'\<lparr>dirty_hubs := srem h (dirty_hubs b')\<rparr>;
              (started, running', c) = poll_hubs now hs toks (Suc n) (sadd h running) b''
          in ((h, tok) # started, running', c))"

definition poll_once ::
    "instant \<Rightarrow> (nat \<Rightarrow> token) \<Rightarrow> hub list \<Rightarrow> bus \<Rightarrow> (hub \<times> token) list \<times> hub list \<times> bus" where
  "poll_once now toks running b =
     (let b' = wake_due_hubs now b in poll_hubs now (dirty_hubs b') toks 0 running b')"

text \<open>The \<open>finally\<close> of a run, after the handler returned or raised.\<close>

definition finish_run :: "instant \<Rightarrow> hub \<Rightarrow> token \<Rightarrow> hub list \<Rightarrow> bus \<Rightarrow> hub list \<times> bus" where
  "finish_run now h tok running b = (srem h running, release_hub_lock now h tok b)"

section \<open>Lemmas\<close>

lemma set_sadd [simp]: "set (sadd x xs) = insert x (set xs)"
  by (auto simp: sadd_def)

lemma distinct_sadd [simp]: "distinct xs \<Longrightarrow> distinct (sadd x xs)"
  by (simp add: sadd_def)

lemma set_srem [simp]: "set (srem x xs) = set xs - {x}"
  by (auto simp: srem_def)

lemma distinct_srem [simp]: "distinct xs \<Longrightarrow> distinct (srem x xs)"
  by (simp add: srem_def)

lemma publish_simps [simp]:
  "dirty_hubs (publish h b) = sadd h (dirty_hubs b)" "wakeups (publish h b) = wakeups b"
  "hub_locks (publish h b) = hub_locks b"
  by (simp_all add: publish_def)

lemma wakeup_simps [simp]:
  "dirty_hubs (remove_wakeup h tok b) = dirty_hubs b" "hub_locks (remove_wakeup h tok b) = hub_locks b"
  "wakeups (remove_wakeup h tok b) = del_key (h, tok) (wakeups b)"
  "dirty_hubs (add_wakeup h tok due b) = dirty_hubs b" "hub_locks (add_wakeup h tok due b) = hub_locks b"
  "wakeups (add_wakeup h tok due b) = put_key (h, tok) due (wakeups b)"
  by (simp_all add: remove_wakeup_def add_wakeup_def)

lemma lock_at_cong: "hub_locks b = hub_locks c \<Longrightarrow> lock_at now h b = lock_at now h c"
  by (simp add: lock_at_def)

lemma lock_at_acquired:
  "try_acquire_hub_lock now h tok b = (Some tok', b') \<Longrightarrow>
     tok' = tok \<and> lock_at now h b = None \<and> dirty_hubs b' = dirty_hubs b \<and> wakeups b' = wakeups b \<and>
     hub_locks b' = put_key h (tok, now + seconds LOCK_TTL_SECONDS) (hub_locks b)"
  by (auto simp: try_acquire_hub_lock_def split: option.splits)

lemma lock_at_busy:
  "try_acquire_hub_lock now h tok b = (None, b') \<Longrightarrow> b' = b \<and> lock_at now h b \<noteq> None"
  by (auto simp: try_acquire_hub_lock_def split: option.splits)

lemma wake_members_exact:
  "set (dirty_hubs (wake_members ms b)) =
     set (dirty_hubs b) \<union> fst ` (set ms \<inter> fst ` set (wakeups b)) \<and>
   wakeups (wake_members ms b) = filter (\<lambda>w. fst w \<notin> set ms) (wakeups b) \<and>
   hub_locks (wake_members ms b) = hub_locks b"
proof (induction ms arbitrary: b)
  case (Cons m ms)
  show ?case
  proof (cases "m \<in> fst ` set (wakeups b)")
    case True
    have W: "filter (\<lambda>w. fst w \<notin> set ms) (del_key m W) = filter (\<lambda>w. fst w \<notin> set (m # ms)) W" for W :: "((hub \<times> token) \<times> instant) list"
      by (induction W) (simp_all add: del_key_def)
    have D: "insert (fst m) (D \<union> fst ` (A \<inter> (K - {m}))) = insert (fst m) (D \<union> fst ` (A \<inter> K))" for D A K
      by auto
    from True show ?thesis by (simp add: Cons.IH keys_del_key W D)
  next
    case False
    then have "filter (\<lambda>w. fst w \<notin> set ms) (wakeups b) = filter (\<lambda>w. fst w \<notin> set (m # ms)) (wakeups b)"
      by (intro filter_cong) auto
    with False show ?thesis by (auto simp: Cons.IH)
  qed
qed simp

lemma wake_due_hubs_exact:
  assumes "distinct (map fst (wakeups b))"
  shows "set (dirty_hubs (wake_due_hubs now b)) =
      set (dirty_hubs b) \<union> (\<lambda>w. fst (fst w)) ` {w \<in> set (wakeups b). snd w \<le> now}"
    "wakeups (wake_due_hubs now b) = filter (\<lambda>w. now < snd w) (wakeups b)"
    "hub_locks (wake_due_hubs now b) = hub_locks b"
proof -
  have key: "fst w \<notin> set (map fst (filter (\<lambda>w. snd w \<le> now) (wakeups b))) \<longleftrightarrow> now < snd w"
    if w: "w \<in> set (wakeups b)" for w
  proof -
    have same: "v = w" if "v \<in> set (wakeups b)" "fst v = fst w" for v
      using assms w that by (metis eq_key_imp_eq_value prod.collapse)
    have "fst w \<in> set (map fst (filter (\<lambda>w. snd w \<le> now) (wakeups b))) \<longleftrightarrow>
        (\<exists>v \<in> set (wakeups b). snd v \<le> now \<and> fst w = fst v)"
      by (auto simp only: set_map set_filter image_iff)
    also have "\<dots> \<longleftrightarrow> snd w \<le> now"
    proof
      assume "\<exists>v \<in> set (wakeups b). snd v \<le> now \<and> fst w = fst v"
      then obtain v where "v \<in> set (wakeups b)" "snd v \<le> now" "fst v = fst w" by (elim bexE conjE) (rule that, auto)
      with same [of v] show "snd w \<le> now" by simp
    next
      assume "snd w \<le> now"
      with w show "\<exists>v \<in> set (wakeups b). snd v \<le> now \<and> fst w = fst v" by (intro bexI [of _ w]) simp_all
    qed
    finally have "fst w \<in> set (map fst (filter (\<lambda>w. snd w \<le> now) (wakeups b))) \<longleftrightarrow> snd w \<le> now" .
    then show ?thesis by (simp add: not_le)
  qed
  show "set (dirty_hubs (wake_due_hubs now b)) =
      set (dirty_hubs b) \<union> (\<lambda>w. fst (fst w)) ` {w \<in> set (wakeups b). snd w \<le> now}"
  proof -
    let ?due = "filter (\<lambda>w. snd w \<le> now) (wakeups b)"
    have "set (map fst ?due) \<inter> fst ` set (wakeups b) = fst ` set ?due" by auto
    then show ?thesis
      by (simp only: wake_due_hubs_def wake_members_exact image_image set_filter)
  qed
  show "wakeups (wake_due_hubs now b) = filter (\<lambda>w. now < snd w) (wakeups b)"
    unfolding wake_due_hubs_def by (simp only: wake_members_exact) (rule filter_cong [OF refl key])
  show "hub_locks (wake_due_hubs now b) = hub_locks b"
    by (simp add: wake_due_hubs_def wake_members_exact)
qed

lemma lock_at_put: "hub_locks b' = put_key h (tok, e) (hub_locks b) \<Longrightarrow>
    lock_at now h' b' = (if h' = h then (if now < e then Some (tok, e) else None) else lock_at now h' b)"
  by (simp add: lock_at_def)

lemma lock_at_release:
  "lock_at now h' (release_hub_lock t h tok b) =
     (if h' = h \<and> (\<exists>e. lock_at t h b = Some (tok, e)) then None else lock_at now h' b)"
  by (auto simp: release_hub_lock_def lock_at_def split: option.splits if_splits)

lemma lock_at_later: "t \<le> now \<Longrightarrow> lock_at now h b = Some (tok, e) \<Longrightarrow> lock_at t h b = Some (tok, e)"
  by (auto simp: lock_at_def split: option.splits if_splits)

lemma lock_at_expires: "lock_at t h b = Some (tok, e) \<Longrightarrow> now < e \<Longrightarrow> lock_at now h b = Some (tok, e)"
  by (auto simp: lock_at_def split: option.splits if_splits)

section \<open>The bus as a step relation\<close>

text \<open>
  A run is a holder of the hub's lock: a task started by some process's poll, or one of the entry
  points inside \<open>hub_lock\<close>. \<open>next_token\<close> supplies the fresh tokens.
\<close>

record run =
  run_hub :: hub
  run_token :: token
  run_started :: instant

record system =
  clock :: instant
  bus_of :: bus
  runs :: "run list"
  next_token :: token

inductive bus_step :: "system \<Rightarrow> system \<Rightarrow> bool" where
  tick: "0 \<le> d \<Longrightarrow> bus_step S (S\<lparr>clock := clock S + d\<rparr>)"
| publish: "bus_step S (S\<lparr>bus_of := publish h (bus_of S)\<rparr>)"
| schedule: "bus_step S (S\<lparr>bus_of := add_wakeup h tok due (bus_of S)\<rparr>)"
| unschedule: "bus_step S (S\<lparr>bus_of := remove_wakeup h tok (bus_of S)\<rparr>)"
| wake: "bus_step S (S\<lparr>bus_of := wake_members ms (bus_of S)\<rparr>)"
| acquire: "try_acquire_hub_lock (clock S) h (next_token S) (bus_of S) = (Some tok, b) \<Longrightarrow>
    bus_step S (S\<lparr>bus_of := b, runs := \<lparr>run_hub = h, run_token = tok, run_started = clock S\<rparr> # runs S,
      next_token := Suc (next_token S)\<rparr>)"
| busy: "try_acquire_hub_lock (clock S) h (next_token S) (bus_of S) = (None, b) \<Longrightarrow>
    bus_step S (S\<lparr>bus_of := b, next_token := Suc (next_token S)\<rparr>)"
| consume: "bus_step S (S\<lparr>bus_of := (bus_of S)\<lparr>dirty_hubs := srem h (dirty_hubs (bus_of S))\<rparr>\<rparr>)"
| finish: "r \<in> set (runs S) \<Longrightarrow>
    bus_step S (S\<lparr>bus_of := release_hub_lock (clock S) (run_hub r) (run_token r) (bus_of S),
      runs := remove1 r (runs S)\<rparr>)"

inductive_cases bus_step_cases: "bus_step S S'"

abbreviation run_end :: "run \<Rightarrow> instant" where
  "run_end r \<equiv> run_started r + seconds LOCK_TTL_SECONDS"

text \<open>
  A run whose time to live has not passed holds the lock; tokens are not reused; runs of one hub
  are at least a time to live apart.
\<close>

definition bus_inv :: "system \<Rightarrow> bool" where
  "bus_inv S \<longleftrightarrow>
     distinct (map run_token (runs S)) \<and>
     (\<forall>r \<in> set (runs S). run_token r < next_token S \<and> run_started r \<le> clock S \<and>
        (clock S < run_end r \<longrightarrow> lock_at (clock S) (run_hub r) (bus_of S) = Some (run_token r, run_end r))) \<and>
     (\<forall>r \<in> set (runs S). \<forall>q \<in> set (runs S). r \<noteq> q \<longrightarrow> run_hub r = run_hub q \<longrightarrow>
        run_end r \<le> run_started q \<or> run_end q \<le> run_started r)"

text \<open>Only the locks, the runs, the clock and the token supply matter.\<close>

lemma bus_inv_cong:
  assumes inv: "bus_inv S" and same: "hub_locks (bus_of S') = hub_locks (bus_of S)" "runs S' = runs S"
    "clock S' = clock S" and "next_token S \<le> next_token S'"
  shows "bus_inv S'"
proof -
  have "lock_at t h (bus_of S') = lock_at t h (bus_of S)" for t h
    using same(1) by (rule lock_at_cong)
  moreover have "run_token r < next_token S'" if "r \<in> set (runs S)" for r
    using inv assms(5) that by (auto simp: bus_inv_def intro: less_le_trans)
  ultimately show ?thesis using inv same(2,3) by (simp add: bus_inv_def)
qed

lemma bus_inv_tick:
  assumes inv: "bus_inv S" and d: "0 \<le> d"
  shows "bus_inv (S\<lparr>clock := clock S + d\<rparr>)"
proof -
  have "run_started r \<le> clock S + d \<and> (clock S + d < run_end r \<longrightarrow>
      lock_at (clock S + d) (run_hub r) (bus_of S) = Some (run_token r, run_end r))"
    if r: "r \<in> set (runs S)" for r
  proof -
    have "run_started r \<le> clock S" "clock S < run_end r \<Longrightarrow>
        lock_at (clock S) (run_hub r) (bus_of S) = Some (run_token r, run_end r)"
      using inv r by (auto simp: bus_inv_def)
    with d show ?thesis by (auto intro: lock_at_expires)
  qed
  with inv show ?thesis by (simp add: bus_inv_def)
qed

lemma bus_inv_acquire:
  assumes inv: "bus_inv S" and acq: "try_acquire_hub_lock (clock S) h (next_token S) (bus_of S) = (Some tok, b)"
  shows "bus_inv (S\<lparr>bus_of := b, runs := \<lparr>run_hub = h, run_token = tok, run_started = clock S\<rparr> # runs S,
      next_token := Suc (next_token S)\<rparr>)"
proof -
  note a = lock_at_acquired [OF acq]
  have old: "run_end r \<le> clock S" if "r \<in> set (runs S)" "run_hub r = h" for r
    using inv a that by (force simp: bus_inv_def)
  have ttl: "0 < seconds LOCK_TTL_SECONDS" by (simp add: seconds_def LOCK_TTL_SECONDS_def)
  have fresh: "next_token S \<notin> run_token ` set (runs S)" using inv by (auto simp: bus_inv_def)
  have lk: "lock_at t h' b = (if h' = h then (if t < clock S + seconds LOCK_TTL_SECONDS then
      Some (tok, clock S + seconds LOCK_TTL_SECONDS) else None) else lock_at t h' (bus_of S))" for t h'
    using a by (intro lock_at_put) simp
  show ?thesis
    using inv a fresh ttl old unfolding bus_inv_def by (force simp: lk)
qed

lemma bus_inv_finish:
  assumes inv: "bus_inv S" and r: "r \<in> set (runs S)"
  shows "bus_inv (S\<lparr>bus_of := release_hub_lock (clock S) (run_hub r) (run_token r) (bus_of S),
      runs := remove1 r (runs S)\<rparr>)"
proof -
  have d: "distinct (runs S)" using inv by (auto simp: bus_inv_def distinct_map)
  have tok: "q \<in> set (runs S) \<Longrightarrow> q \<noteq> r \<Longrightarrow> run_token q \<noteq> run_token r" for q
    using inv r by (auto simp: bus_inv_def distinct_map dest: inj_onD)
  have lk: "lock_at (clock S) (run_hub q) (release_hub_lock (clock S) (run_hub r) (run_token r) (bus_of S)) =
      lock_at (clock S) (run_hub q) (bus_of S)"
    if "q \<in> set (runs S)" "q \<noteq> r" "clock S < run_end q" for q
    using inv that tok unfolding bus_inv_def by (force simp: lock_at_release)
  have sub: "set (remove1 r (runs S)) = set (runs S) - {r}" using d by (rule set_remove1_eq)
  have dt: "distinct (map run_token (remove1 r (runs S)))"
    using inv d by (auto simp: bus_inv_def distinct_map intro: inj_on_diff)
  have each: "run_token q < next_token S \<and> run_started q \<le> clock S \<and>
      (clock S < run_end q \<longrightarrow> lock_at (clock S) (run_hub q)
        (release_hub_lock (clock S) (run_hub r) (run_token r) (bus_of S)) = Some (run_token q, run_end q))"
    if q: "q \<in> set (runs S)" "q \<noteq> r" for q
    using inv q lk [OF q] unfolding bus_inv_def by auto
  have apart: "run_end p \<le> run_started q \<or> run_end q \<le> run_started p"
    if "p \<in> set (runs S)" "q \<in> set (runs S)" "p \<noteq> q" "run_hub p = run_hub q" for p q
    using inv that unfolding bus_inv_def by blast
  show ?thesis unfolding bus_inv_def using dt each apart by (simp add: sub)
qed

lemma bus_inv_step: "bus_step S S' \<Longrightarrow> bus_inv S \<Longrightarrow> bus_inv S'"
proof (induction rule: bus_step.induct)
  case (tick d S)
  then show ?case by (intro bus_inv_tick)
next
  case (acquire S h tok b)
  then show ?case by (intro bus_inv_acquire)
next
  case (busy S h b)
  then show ?case using lock_at_busy [OF busy(1)] by (auto elim!: bus_inv_cong)
next
  case (finish r S)
  then show ?case by (intro bus_inv_finish)
qed (auto elim!: bus_inv_cong simp: wake_members_exact)

lemma bus_inv_reachable: "bus_step\<^sup>*\<^sup>* S S' \<Longrightarrow> bus_inv S \<Longrightarrow> bus_inv S'"
  by (induction rule: rtranclp_induct) (auto intro: bus_inv_step)

lemma lock_at_dirty [simp]: "lock_at now h (b\<lparr>dirty_hubs := x\<rparr>) = lock_at now h b"
  by (simp add: lock_at_def)

lemma distinct_dirty_wake: "distinct (dirty_hubs b) \<Longrightarrow> distinct (dirty_hubs (wake_members ms b))"
  by (induction ms arbitrary: b) auto

lemma poll_hubs_exact:
  assumes "distinct hs" "poll_hubs now hs toks n running b = (started, running', c)"
  shows "fst ` set started = {h \<in> set hs. h \<notin> set running \<and> lock_at now h b = None} \<and>
    set (dirty_hubs c) = set (dirty_hubs b) - fst ` set started \<and>
    set running' = set running \<union> fst ` set started \<and> wakeups c = wakeups b \<and>
    (\<forall>h. lock_at now h c = (case map_of started h of Some tok \<Rightarrow> Some (tok, now + seconds LOCK_TTL_SECONDS)
       | None \<Rightarrow> lock_at now h b))"
  using assms
proof (induction hs arbitrary: n running b started running' c)
  case (Cons h hs)
  show ?case
  proof (cases "h \<in> set running")
    case True
    with Cons.prems have "poll_hubs now hs toks n running b = (started, running', c)" by simp
    with Cons.IH [of n running b started running' c] Cons.prems(1) True show ?thesis by auto
  next
    case go: False
    obtain o1 b1 where acq: "try_acquire_hub_lock now h (toks n) b = (o1, b1)" by (cases "try_acquire_hub_lock now h (toks n) b")
    show ?thesis
    proof (cases o1)
      case None
      note busy = lock_at_busy [OF acq [unfolded None]]
      from Cons.prems go acq None busy have "poll_hubs now hs toks (Suc n) running b = (started, running', c)" by simp
      with Cons.IH [of "Suc n" running b started running' c] Cons.prems(1) busy show ?thesis by auto
    next
      case (Some tok)
      let ?b2 = "b1\<lparr>dirty_hubs := srem h (dirty_hubs b1)\<rparr>"
      note got = lock_at_acquired [OF acq [unfolded Some]]
      obtain st where st: "started = (h, tok) # st"
        "poll_hubs now hs toks (Suc n) (sadd h running) ?b2 = (st, running', c)"
        using Cons.prems(2) go acq Some by (auto simp: Let_def split: prod.splits)
      have lk: "lock_at now h' b1 = (if h' = h then Some (tok, now + seconds LOCK_TTL_SECONDS) else lock_at now h' b)" for h'
        using got lock_at_put [of b1 h tok "now + seconds LOCK_TTL_SECONDS" b now h']
        by (simp add: seconds_def LOCK_TTL_SECONDS_def)
      have IH: "fst ` set st = {g \<in> set hs. g \<notin> set (sadd h running) \<and> lock_at now g ?b2 = None}"
        "set (dirty_hubs c) = set (dirty_hubs ?b2) - fst ` set st"
        "set running' = set (sadd h running) \<union> fst ` set st" "wakeups c = wakeups ?b2"
        "\<And>g. lock_at now g c = (case map_of st g of Some tok \<Rightarrow> Some (tok, now + seconds LOCK_TTL_SECONDS)
           | None \<Rightarrow> lock_at now g ?b2)"
        using Cons.IH [OF _ st(2)] Cons.prems(1) by auto
      have h: "h \<notin> fst ` set st" using IH(1) by simp
      have keys: "fst ` set started = {g \<in> set (h # hs). g \<notin> set running \<and> lock_at now g b = None}"
        using IH(1) Cons.prems(1) got go by (auto simp: st lk)
      have locks: "lock_at now g c = (case map_of started g of Some tok \<Rightarrow> Some (tok, now + seconds LOCK_TTL_SECONDS)
           | None \<Rightarrow> lock_at now g b)" for g
        using h by (simp add: IH(5) st lk map_of_eq_None_iff [THEN iffD2] split: option.split)
      show ?thesis using keys locks IH(2-4) got by (auto simp: st(1))
    qed
  qed
qed simp

section \<open>Properties\<close>

text \<open>
  (C22) One run per hub: in every reachable state of the bus, with any number of processes polling,
  entering the lock, finishing and any passage of time, two runs for one hub are both under way only
  if one of them has outlived the lock's time to live.
\<close>

theorem hub_lock_mutual_exclusion:
  assumes "bus_step\<^sup>*\<^sup>* S S'" "runs S = []" "r \<in> set (runs S')" "q \<in> set (runs S')" "r \<noteq> q"
    "run_hub r = run_hub q"
  shows "run_end r \<le> clock S' \<or> run_end q \<le> clock S'"
proof -
  have "bus_inv S" using assms(2) by (simp add: bus_inv_def)
  with assms(1) have inv: "bus_inv S'" by (rule bus_inv_reachable)
  then have "run_end r \<le> run_started q \<or> run_end q \<le> run_started r"
    "run_started r \<le> clock S'" "run_started q \<le> clock S'"
    using assms(3-6) by (auto simp: bus_inv_def)
  then show ?thesis by linarith
qed

text \<open>
  No event is lost and none runs twice: a poll starts a run for exactly the hubs that are dirty
  or have a wake-up due, are not already running in this process and whose lock is free; it takes
  their locks; and every other dirty or due hub stays dirty for a later poll. Wake-ups that are not
  due stay scheduled.
\<close>

theorem poll_once_accounts_for_every_event:
  assumes "distinct (map fst (wakeups b))" "distinct (dirty_hubs b)"
    and "poll_once now toks running b = (started, running', c)"
    and "due = set (dirty_hubs b) \<union> (\<lambda>w. fst (fst w)) ` {w \<in> set (wakeups b). snd w \<le> now}"
  shows "fst ` set started = {h \<in> due. h \<notin> set running \<and> lock_at now h b = None} \<and>
    set (dirty_hubs c) = due - fst ` set started \<and>
    (\<forall>h \<in> fst ` set started. \<exists>tok. lock_at now h c = Some (tok, now + seconds LOCK_TTL_SECONDS)) \<and>
    wakeups c = filter (\<lambda>w. now < snd w) (wakeups b)"
proof -
  let ?b = "wake_due_hubs now b"
  note w = wake_due_hubs_exact [OF assms(1), of now]
  have "lock_at now h ?b = lock_at now h b" for h using w(3) by (rule lock_at_cong)
  moreover have p: "poll_hubs now (dirty_hubs ?b) toks 0 running ?b = (started, running', c)"
    using assms(3) by (simp add: poll_once_def Let_def)
  moreover have "distinct (dirty_hubs ?b)"
    using distinct_dirty_wake [OF assms(2)] by (simp add: wake_due_hubs_def)
  moreover note poll_hubs_exact [OF _ p]
  ultimately have keys: "fst ` set started = {h \<in> due. h \<notin> set running \<and> lock_at now h b = None}"
      and dirty: "set (dirty_hubs c) = due - fst ` set started"
      and wk: "wakeups c = filter (\<lambda>w. now < snd w) (wakeups b)"
      and lk: "\<And>h. lock_at now h c = (case map_of started h of Some tok \<Rightarrow> Some (tok, now + seconds LOCK_TTL_SECONDS)
         | None \<Rightarrow> lock_at now h b)"
    by (simp_all add: w assms(4) cong: option.case_cong)
  have "\<exists>tok. lock_at now h c = Some (tok, now + seconds LOCK_TTL_SECONDS)" if "h \<in> fst ` set started" for h
    using that by (cases "map_of started h") (simp_all add: lk map_of_eq_None_iff)
  with keys dirty wk show ?thesis by blast
qed

definition sample_bus :: bus where
  "sample_bus = \<lparr>dirty_hubs = [4], wakeups = [((5, 9), 10), ((6, 9), 99)], hub_locks = [(4, (3, 50))]\<rparr>"

theorem hub_lock_mutual_exclusion_witness:
  "run_end \<lparr>run_hub = 4, run_token = 7, run_started = 0\<rparr> \<le> 70000000 \<or>
     run_end \<lparr>run_hub = 4, run_token = 8, run_started = 70000000\<rparr> \<le> 70000000"
proof -
  let ?b = "\<lparr>dirty_hubs = [], wakeups = [], hub_locks = []\<rparr>"
  let ?S0 = "\<lparr>clock = 0, bus_of = ?b, runs = [], next_token = 7\<rparr>"
  let ?r = "\<lparr>run_hub = 4, run_token = 7, run_started = 0\<rparr>" and ?q = "\<lparr>run_hub = 4, run_token = 8, run_started = 70000000\<rparr>"
  let ?S1 = "\<lparr>clock = 0, bus_of = ?b\<lparr>hub_locks := [(4, (7, 60000000))]\<rparr>, runs = [?r], next_token = 8\<rparr>"
  let ?S2 = "?S1\<lparr>clock := 70000000\<rparr>"
  let ?S3 = "\<lparr>clock = 70000000, bus_of = ?b\<lparr>hub_locks := [(4, (8, 130000000))]\<rparr>, runs = [?q, ?r], next_token = 9\<rparr>"
  have "bus_step ?S0 ?S1"
    using bus_step.acquire [of ?S0 4 7 "?b\<lparr>hub_locks := [(4, (7, 60000000))]\<rparr>"]
    by (simp add: try_acquire_hub_lock_def lock_at_def seconds_def LOCK_TTL_SECONDS_def)
  moreover have "bus_step ?S1 ?S2" using bus_step.tick [of 70000000 ?S1] by simp
  moreover have "bus_step ?S2 ?S3"
    using bus_step.acquire [of ?S2 4 8 "?b\<lparr>hub_locks := [(4, (8, 130000000))]\<rparr>"]
    by (simp add: try_acquire_hub_lock_def lock_at_def seconds_def LOCK_TTL_SECONDS_def)
  ultimately have "bus_step\<^sup>*\<^sup>* ?S0 ?S3" by (meson r_into_rtranclp rtranclp_trans)
  from hub_lock_mutual_exclusion [OF this, of ?r ?q] show ?thesis by simp
qed

theorem poll_once_accounts_for_every_event_witness:
  "fst ` set (fst (poll_once 20 (\<lambda>n. 100 + n) [] sample_bus)) = {5}"
proof -
  obtain started running' c where p: "poll_once 20 (\<lambda>n. 100 + n) [] sample_bus = (started, running', c)"
    by (cases "poll_once 20 (\<lambda>n. 100 + n) [] sample_bus")
  have "fst ` set started = {h \<in> set (dirty_hubs sample_bus) \<union> (\<lambda>w. fst (fst w)) ` {w \<in> set (wakeups sample_bus). snd w \<le> 20}.
      h \<notin> set [] \<and> lock_at 20 h sample_bus = None}"
    using poll_once_accounts_for_every_event [OF _ _ p refl] by (simp add: sample_bus_def)
  also have "\<dots> = {5}" by (force simp: sample_bus_def lock_at_def)
  finally show ?thesis by (simp add: p)
qed

end
