(* ===== verification/Hold_Queue.thy ===== *)
theory Hold_Queue
  imports Py_Float Event_Bus
begin

text \<open>
  The batch-hold queue: the release decision (\<open>src/app/batch_queue/queue.py\<close>,
  \<open>src/app/batch_queue/clustering.py\<close>) and its Redis store (\<open>src/app/batch_queue/store.py\<close>).
  \<open>miles_between\<close> calls a third-party geodesic, so the distance is the parameter \<open>miles\<close> of every
  definition that uses it; what a property needs of it (symmetry) is a hypothesis there. The tier of
  a held order is the string the queue stores. The configured radius is the parameter
  \<open>default_radius\<close>.
\<close>

section \<open>The decision\<close>

type_synonym distance = "rat \<Rightarrow> rat \<Rightarrow> rat \<Rightarrow> rat \<Rightarrow> rat"

record held_order =
  ho_order_id :: uuid
  ho_shop_lat :: rat
  ho_shop_lng :: rat
  ho_sla_tier :: string
  ho_hold_deadline :: instant
  ho_held_since :: instant
  ho_shop_name :: string
  ho_delivery_lat :: "rat option"
  ho_delivery_lng :: "rat option"

datatype hold_action = Release | Keep_holding

datatype hold_reason =
    Hot_shot_immediate_release | Sla_hold_deadline_reached | Dispatcher_released
  | Would_conflict_with_higher_priority_order | Cluster_mate_found | Driver_passing
  | No_available_drivers | Waiting_for_cluster_mate

record batch_decision =
  bd_order_id :: uuid
  bd_action :: hold_action
  bd_reason :: hold_reason
  bd_cluster_mate_ids :: "uuid list"

definition cluster_members ::
    "distance \<Rightarrow> rat \<Rightarrow> rat \<Rightarrow> (uuid \<times> rat \<times> rat) list \<Rightarrow> rat \<Rightarrow> uuid list" where
  "cluster_members miles target_lat target_lng candidates radius_miles =
     map fst (filter (\<lambda>(i, lat, lng). miles target_lat target_lng lat lng \<le> radius_miles) candidates)"

definition tier_urgency :: "string \<Rightarrow> int" where
  "tier_urgency tier =
     (case map_of [(''HOT_SHOT'', 0), (''T1'', 1), (''T2'', 2), (''T3'', 3)] tier of
        Some u \<Rightarrow> u | None \<Rightarrow> 3)"

definition CONFLICT_RISK_WINDOW_MINUTES :: int where
  "CONFLICT_RISK_WINDOW_MINUTES = 10"

definition would_conflict_with_a_more_urgent_order ::
    "held_order \<Rightarrow> held_order list \<Rightarrow> uuid list \<Rightarrow> nat \<Rightarrow> instant \<Rightarrow> bool" where
  "would_conflict_with_a_more_urgent_order order others mates drivers now =
     (if drivers > 1 then False
      else let threshold = now + minutes CONFLICT_RISK_WINDOW_MINUTES;
               urgency = tier_urgency (ho_sla_tier order) in
        \<exists>other \<in> set (filter (\<lambda>q. ho_order_id q \<noteq> ho_order_id order) others).
          ho_order_id other \<notin> set mates \<and> tier_urgency (ho_sla_tier other) < urgency \<and>
          ho_hold_deadline other \<le> threshold)"

text \<open>\<open>cluster_radius_miles or settings.batch_hold_cluster_radius_miles\<close>: a zero counts as unset.\<close>

definition effective_radius :: "rat \<Rightarrow> rat option \<Rightarrow> rat" where
  "effective_radius default_radius given =
     (case given of None \<Rightarrow> default_radius | Some r \<Rightarrow> if r = 0 then default_radius else r)"

definition cluster_mates :: "distance \<Rightarrow> rat \<Rightarrow> held_order \<Rightarrow> held_order list \<Rightarrow> uuid list" where
  "cluster_mates miles radius order others =
     cluster_members miles (ho_shop_lat order) (ho_shop_lng order)
       (map (\<lambda>q. (ho_order_id q, ho_shop_lat q, ho_shop_lng q))
         (filter (\<lambda>q. ho_order_id q \<noteq> ho_order_id order \<and> ho_sla_tier q \<noteq> ''HOT_SHOT'') others))
       radius"

definition decision :: "held_order \<Rightarrow> hold_action \<Rightarrow> hold_reason \<Rightarrow> uuid list \<Rightarrow> batch_decision" where
  "decision order act why mates =
     \<lparr>bd_order_id = ho_order_id order, bd_action = act, bd_reason = why, bd_cluster_mate_ids = mates\<rparr>"

definition evaluate_held_order ::
    "distance \<Rightarrow> rat \<Rightarrow> held_order \<Rightarrow> held_order list \<Rightarrow> nat \<Rightarrow> instant \<Rightarrow> rat option \<Rightarrow> bool \<Rightarrow> bool
      \<Rightarrow> batch_decision" where
  "evaluate_held_order miles default_radius order others drivers now given released passing =
     (let radius = effective_radius default_radius given in
      if ho_sla_tier order = ''HOT_SHOT'' then decision order Release Hot_shot_immediate_release []
      else if ho_hold_deadline order \<le> now then decision order Release Sla_hold_deadline_reached []
      else if released then decision order Release Dispatcher_released []
      else let mates = cluster_mates miles radius order others in
        if mates \<noteq> [] \<and> drivers > 0 then
          (if would_conflict_with_a_more_urgent_order order others mates drivers now
           then decision order Keep_holding Would_conflict_with_higher_priority_order mates
           else decision order Release Cluster_mate_found mates)
        else if passing then decision order Release Driver_passing mates
        else if drivers = 0 then decision order Keep_holding No_available_drivers mates
        else decision order Keep_holding Waiting_for_cluster_mate [])"

definition run_hold_cycle ::
    "distance \<Rightarrow> rat \<Rightarrow> held_order list \<Rightarrow> nat \<Rightarrow> instant \<Rightarrow> rat option \<Rightarrow> uuid list \<Rightarrow> uuid list
      \<Rightarrow> batch_decision list" where
  "run_hold_cycle miles default_radius held drivers now given released passing =
     map (\<lambda>order. evaluate_held_order miles default_radius order held drivers now given
            (ho_order_id order \<in> set released) (ho_order_id order \<in> set passing)) held"

section \<open>The store\<close>

text \<open>
  A stored entry is the JSON object \<open>_serialize\<close> writes. \<open>json.dumps\<close> writes a float so that it reads
  back as the same float, and \<open>isoformat\<close> likewise for a \<open>datetime\<close>, so a value is kept as itself.
\<close>

fun json_opt :: "rat option \<Rightarrow> json" where
  "json_opt None = JNull"
| "json_opt (Some x) = JFloat x"

definition serialize :: "held_order \<Rightarrow> json_object" where
  "serialize order =
     [(''order_id'', JId (ho_order_id order)), (''shop_lat'', JFloat (ho_shop_lat order)),
      (''shop_lng'', JFloat (ho_shop_lng order)), (''sla_tier'', JText (ho_sla_tier order)),
      (''hold_deadline'', JTime (ho_hold_deadline order)), (''held_since'', JTime (ho_held_since order)),
      (''shop_name'', JText (ho_shop_name order)), (''delivery_lat'', json_opt (ho_delivery_lat order)),
      (''delivery_lng'', json_opt (ho_delivery_lng order))]"

fun get_id :: "json option \<Rightarrow> uuid option" where
  "get_id (Some (JId i)) = Some i"
| "get_id _ = None"

fun get_float :: "json option \<Rightarrow> rat option" where
  "get_float (Some (JFloat x)) = Some x"
| "get_float _ = None"

fun get_text :: "json option \<Rightarrow> string option" where
  "get_text (Some (JText x)) = Some x"
| "get_text _ = None"

fun get_time :: "json option \<Rightarrow> instant option" where
  "get_time (Some (JTime t)) = Some t"
| "get_time _ = None"

text \<open>
  \<open>None\<close> is the \<open>KeyError\<close> (or parse error) of a row without a required field; the last three
  fields fall back, for rows written before they existed.
\<close>

definition deserialize :: "json_object \<Rightarrow> held_order option" where
  "deserialize raw =
     (let data = map_of raw in
      Option.bind (get_id (data ''order_id'')) (\<lambda>i.
      Option.bind (get_float (data ''shop_lat'')) (\<lambda>lat.
      Option.bind (get_float (data ''shop_lng'')) (\<lambda>lng.
      Option.bind (get_text (data ''sla_tier'')) (\<lambda>tier.
      Option.bind (get_time (data ''hold_deadline'')) (\<lambda>deadline.
      Option.bind (get_time (data ''held_since'')) (\<lambda>since.
      Some \<lparr>ho_order_id = i, ho_shop_lat = lat, ho_shop_lng = lng, ho_sla_tier = tier,
        ho_hold_deadline = deadline, ho_held_since = since,
        ho_shop_name = (case get_text (data ''shop_name'') of None \<Rightarrow> '''' | Some n \<Rightarrow> n),
        ho_delivery_lat = get_float (data ''delivery_lat''),
        ho_delivery_lng = get_float (data ''delivery_lng'')\<rparr>)))))))"

text \<open>The hash per hub, and the bus that keeps the wake-ups.\<close>

record hold_store =
  hs_orders :: "hub \<Rightarrow> (uuid \<times> json_object) list"
  hs_bus :: bus

definition hold_add :: "hub \<Rightarrow> held_order \<Rightarrow> bool \<Rightarrow> hold_store \<Rightarrow> hold_store" where
  "hold_add h order schedule_wakeup st =
     (let st' = st\<lparr>hs_orders := (hs_orders st)(h := put_key (ho_order_id order) (serialize order) (hs_orders st h))\<rparr> in
      if \<not> schedule_wakeup then st'
      else st'\<lparr>hs_bus := add_wakeup h (ho_order_id order) (ho_hold_deadline order) (hs_bus st')\<rparr>)"

text \<open>\<open>HSETNX\<close>, and the wake-up with \<open>NX\<close>: neither replaces an entry.\<close>

definition hold_add_if_absent :: "hub \<Rightarrow> held_order \<Rightarrow> hold_store \<Rightarrow> bool \<times> hold_store" where
  "hold_add_if_absent h order st =
     (if ho_order_id order \<in> fst ` set (hs_orders st h) then (False, st)
      else let st' = st\<lparr>hs_orders := (hs_orders st)(h := put_key (ho_order_id order) (serialize order) (hs_orders st h))\<rparr> in
        (True,
         if (h, ho_order_id order) \<in> fst ` set (wakeups (hs_bus st')) then st'
         else st'\<lparr>hs_bus := add_wakeup h (ho_order_id order) (ho_hold_deadline order) (hs_bus st')\<rparr>))"

definition hold_order_ids :: "hub \<Rightarrow> hold_store \<Rightarrow> uuid list" where
  "hold_order_ids h st = map fst (hs_orders st h)"

definition hold_remove :: "hub \<Rightarrow> uuid \<Rightarrow> hold_store \<Rightarrow> hold_store" where
  "hold_remove h i st =
     st\<lparr>hs_orders := (hs_orders st)(h := del_key i (hs_orders st h)),
        hs_bus := remove_wakeup h i (hs_bus st)\<rparr>"

text \<open>\<open>None\<close> when a row does not decode: the list comprehension raises.\<close>

fun decode_all :: "json_object list \<Rightarrow> held_order list option" where
  "decode_all [] = Some []"
| "decode_all (r # rs) =
     Option.bind (deserialize r) (\<lambda>q. Option.bind (decode_all rs) (\<lambda>qs. Some (q # qs)))"

definition hold_get_all :: "hub \<Rightarrow> hold_store \<Rightarrow> held_order list option" where
  "hold_get_all h st = decode_all (map snd (hs_orders st h))"

definition hold_depth :: "hub \<Rightarrow> hold_store \<Rightarrow> nat" where
  "hold_depth h st = length (hs_orders st h)"

section \<open>Lemmas on the store\<close>

lemma get_float_json_opt [simp]: "get_float (Some (json_opt x)) = x"
  by (cases x) simp_all

lemma deserialize_serialize [simp]: "deserialize (serialize q) = Some q"
  by (simp add: deserialize_def serialize_def)

text \<open>
  What the clients of the queue rely on: which orders a hub holds, after an order is put or taken
  out. The lemmas below the laws are the ones the requeue and the cancellation use.
\<close>

locale hold_pool =
  fixes members :: "'s \<Rightarrow> hub \<Rightarrow> uuid set" and put :: "hub \<Rightarrow> held_order \<Rightarrow> bool \<Rightarrow> 's \<Rightarrow> 's"
    and take :: "hub \<Rightarrow> uuid \<Rightarrow> 's \<Rightarrow> 's"
  assumes members_put: "members (put h q w s) g = (if g = h then insert (ho_order_id q) (members s g) else members s g)"
    and members_take: "members (take h i s) g = (if g = h then members s g - {i} else members s g)"
begin

lemma members_put_all:
  "members (fold (\<lambda>q s. put h q (w q) s) qs s) g =
     (if g = h then members s g \<union> ho_order_id ` set qs else members s g)"
  by (induction qs arbitrary: s) (auto simp: members_put)

lemma taken_not_member: "i \<notin> members (take h i s) h"
  by (simp add: members_take)

lemma put_take_other: "ho_order_id q \<noteq> i \<Longrightarrow> ho_order_id q \<in> members (take h i (put h q w s)) h"
  by (simp add: members_take members_put)

end

definition queued_ids :: "hold_store \<Rightarrow> hub \<Rightarrow> uuid set" where
  "queued_ids st h = fst ` set (hs_orders st h)"

interpretation hq: hold_pool queued_ids hold_add hold_remove
  by unfold_locales
    (simp_all add: queued_ids_def hold_add_def hold_remove_def Let_def keys_put_key keys_del_key)

text \<open>Every row of the store decodes and is filed under its own identifier, once.\<close>

definition store_ok :: "hold_store \<Rightarrow> bool" where
  "store_ok st \<longleftrightarrow> (\<forall>h. distinct (map fst (hs_orders st h)) \<and>
     (\<forall>p \<in> set (hs_orders st h). map_option ho_order_id (deserialize (snd p)) = Some (fst p)))"

lemma set_put_key: "distinct (map fst kvs) \<Longrightarrow> set (put_key k v kvs) = insert (k, v) {p \<in> set kvs. fst p \<noteq> k}"
  by (induction k v kvs rule: put_key.induct) (auto simp: image_iff)

lemma store_ok_put:
  assumes "store_ok st"
  shows "store_ok (st\<lparr>hs_orders := (hs_orders st)(h := put_key (ho_order_id q) (serialize q) (hs_orders st h))\<rparr>)"
  using assms by (fastforce simp: store_ok_def distinct_put_key set_put_key)

lemma store_ok_bus [simp]: "store_ok (st\<lparr>hs_bus := b\<rparr>) = store_ok st"
  by (simp add: store_ok_def)

lemma store_ok_add: "store_ok st \<Longrightarrow> store_ok (hold_add h q w st)"
  by (simp add: hold_add_def Let_def store_ok_put)

lemma store_ok_add_if_absent: "store_ok st \<Longrightarrow> store_ok (snd (hold_add_if_absent h q st))"
  by (simp add: hold_add_if_absent_def Let_def store_ok_put)

lemma store_ok_remove: "store_ok st \<Longrightarrow> store_ok (hold_remove h i st)"
  by (fastforce simp: hold_remove_def store_ok_def distinct_del_key del_key_def distinct_map_filter)

lemma decode_all_ok:
  "(\<And>r. r \<in> set rs \<Longrightarrow> deserialize r \<noteq> None) \<Longrightarrow>
     decode_all rs = Some (map (\<lambda>r. the (deserialize r)) rs)"
proof (induction rs)
  case (Cons r rs)
  from Cons.prems [of r] obtain q where "deserialize r = Some q" by auto
  with Cons show ?case by simp
qed simp

lemma hold_get_all_ok:
  assumes "store_ok st"
  shows "hold_get_all h st = Some (map (\<lambda>p. the (deserialize (snd p))) (hs_orders st h))"
proof -
  have "decode_all (map snd (hs_orders st h)) =
      Some (map (\<lambda>r. the (deserialize r)) (map snd (hs_orders st h)))"
    using assms by (intro decode_all_ok) (fastforce simp: store_ok_def)
  then show ?thesis by (simp add: hold_get_all_def comp_def)
qed

lemma hold_get_all_add:
  assumes "store_ok st"
  shows "\<exists>qs. hold_get_all h (hold_add h q w st) = Some qs \<and> q \<in> set qs"
proof -
  let ?kvs = "put_key (ho_order_id q) (serialize q) (hs_orders st h)"
  have "(ho_order_id q, serialize q) \<in> set ?kvs"
    using assms by (simp add: store_ok_def set_put_key)
  then have "q \<in> (\<lambda>p. the (deserialize (snd p))) ` set ?kvs"
    by (force intro: image_eqI [of _ _ "(ho_order_id q, serialize q)"])
  then show ?thesis
    using hold_get_all_ok [OF store_ok_add [OF assms], of h h q w] by (simp add: hold_add_def Let_def)
qed

section \<open>The store as a map\<close>

definition held_at :: "hold_store \<Rightarrow> hub \<Rightarrow> uuid \<Rightarrow> held_order option" where
  "held_at st h i = Option.bind (map_of (hs_orders st h) i) deserialize"

section \<open>The decision, declaratively\<close>

definition is_mate :: "distance \<Rightarrow> rat \<Rightarrow> held_order \<Rightarrow> held_order \<Rightarrow> bool" where
  "is_mate miles radius o1 m \<longleftrightarrow> ho_order_id m \<noteq> ho_order_id o1 \<and> ho_sla_tier m \<noteq> ''HOT_SHOT'' \<and>
     miles (ho_shop_lat o1) (ho_shop_lng o1) (ho_shop_lat m) (ho_shop_lng m) \<le> radius"

lemma cluster_mates_filter:
  "cluster_mates miles radius q others = map ho_order_id (filter (is_mate miles radius q) others)"
  by (induction others) (simp_all add: cluster_mates_def cluster_members_def is_mate_def)

lemma set_cluster_mates:
  "set (cluster_mates miles radius q others) = ho_order_id ` {m \<in> set others. is_mate miles radius q m}"
  by (auto simp: cluster_mates_filter)

lemma cluster_mates_empty:
  "cluster_mates miles radius q others = [] \<longleftrightarrow> \<not> (\<exists>m \<in> set others. is_mate miles radius q m)"
  using set_cluster_mates [of miles radius q others] by (auto simp flip: set_empty)

text \<open>A more urgent order outside the cluster, with its deadline inside the risk window.\<close>

definition strands :: "distance \<Rightarrow> rat \<Rightarrow> held_order list \<Rightarrow> instant \<Rightarrow> held_order \<Rightarrow> held_order \<Rightarrow> bool" where
  "strands miles radius held now q x \<longleftrightarrow> ho_order_id x \<noteq> ho_order_id q \<and> \<not> is_mate miles radius q x \<and>
     tier_urgency (ho_sla_tier x) < tier_urgency (ho_sla_tier q) \<and>
     ho_hold_deadline x \<le> now + minutes CONFLICT_RISK_WINDOW_MINUTES"

lemma conflict_iff:
  assumes "inj_on ho_order_id (set held)"
  shows "would_conflict_with_a_more_urgent_order q held (cluster_mates miles radius q held) drivers now \<longleftrightarrow>
    drivers \<le> 1 \<and> (\<exists>x \<in> set held. strands miles radius held now q x)"
proof -
  have "ho_order_id x \<notin> set (cluster_mates miles radius q held) \<longleftrightarrow> \<not> is_mate miles radius q x"
    if "x \<in> set held" for x
    using assms that by (auto simp: set_cluster_mates dest: inj_onD)
  then show ?thesis
    by (auto simp: would_conflict_with_a_more_urgent_order_def strands_def Let_def)
qed

definition releases :: "distance \<Rightarrow> rat \<Rightarrow> held_order list \<Rightarrow> nat \<Rightarrow> instant \<Rightarrow> uuid list \<Rightarrow> uuid list \<Rightarrow> held_order \<Rightarrow> bool" where
  "releases miles radius held drivers now released passing q \<longleftrightarrow>
     ho_sla_tier q = ''HOT_SHOT'' \<or> ho_hold_deadline q \<le> now \<or> ho_order_id q \<in> set released \<or>
     (if drivers > 0 \<and> (\<exists>m \<in> set held. is_mate miles radius q m)
      then drivers > 1 \<or> \<not> (\<exists>x \<in> set held. strands miles radius held now q x)
      else ho_order_id q \<in> set passing)"

lemma evaluate_releases:
  assumes "inj_on ho_order_id (set held)"
  shows "bd_action (evaluate_held_order miles dr q held drivers now given
      (ho_order_id q \<in> set released) (ho_order_id q \<in> set passing)) = Release \<longleftrightarrow>
    releases miles (effective_radius dr given) held drivers now released passing q"
  by (auto simp: evaluate_held_order_def releases_def decision_def Let_def cluster_mates_empty conflict_iff [OF assms])

text \<open>
  (C33) One cycle decides every held order once, in order, and releases an order exactly when it is
  \<open>HOT_SHOT\<close>, past its hold deadline, or released by a dispatcher; or when another held order that is
  not \<open>HOT_SHOT\<close> is within the radius and a driver is free, unless with a single driver that would
  strand a more urgent order outside the cluster due within ten minutes; or, with no such batch to
  send, when a driver passes.
\<close>

theorem hold_cycle_releases_exactly:
  assumes "distinct (map ho_order_id held)"
  shows "map bd_order_id (run_hold_cycle miles dr held drivers now given released passing) = map ho_order_id held \<and>
    map (\<lambda>d. bd_action d = Release) (run_hold_cycle miles dr held drivers now given released passing) =
      map (releases miles (effective_radius dr given) held drivers now released passing) held"
proof -
  have inj: "inj_on ho_order_id (set held)" using assms by (simp add: distinct_map)
  have "bd_order_id (evaluate_held_order miles dr q held drivers now given r p) = ho_order_id q" for q r p
    by (simp add: evaluate_held_order_def decision_def Let_def)
  then show ?thesis by (simp add: run_hold_cycle_def evaluate_releases [OF inj])
qed

text \<open>
  With two or more free drivers, a batch goes together: when an order is released because a
  cluster mate was found, each of its mates is released in the same cycle, for any symmetric
  distance.
\<close>

theorem hold_cycle_batches_together:
  assumes "distinct (map ho_order_id held)" "q \<in> set held" "drivers > 1"
    and "\<And>a b c d. miles a b c d = miles c d a b"
    and "evaluate_held_order miles dr q held drivers now given released passing = d"
    and "bd_reason d = Cluster_mate_found" "m \<in> set held" "ho_order_id m \<in> set (bd_cluster_mate_ids d)"
  shows "bd_action (evaluate_held_order miles dr m held drivers now given r p) = Release"
proof -
  have inj: "inj_on ho_order_id (set held)" using assms(1) by (simp add: distinct_map)
  let ?R = "effective_radius dr given"
  have q: "ho_sla_tier q \<noteq> ''HOT_SHOT''" and mates: "bd_cluster_mate_ids d = cluster_mates miles ?R q held"
    using assms(5,6) by (auto simp: evaluate_held_order_def decision_def Let_def split: if_splits)
  have "is_mate miles ?R q m"
    using assms(7,8) inj by (auto simp: mates set_cluster_mates dest: inj_onD)
  with q assms(4) have "is_mate miles ?R m q" by (auto simp: is_mate_def)
  with assms(2) have "cluster_mates miles ?R m held \<noteq> []" by (auto simp: cluster_mates_empty)
  with assms(3) show ?thesis
    by (auto simp: evaluate_held_order_def decision_def Let_def would_conflict_with_a_more_urgent_order_def)
qed

definition sample_held :: "uuid \<Rightarrow> rat \<Rightarrow> string \<Rightarrow> instant \<Rightarrow> held_order" where
  "sample_held i lat tier due =
     \<lparr>ho_order_id = i, ho_shop_lat = lat, ho_shop_lng = 0, ho_sla_tier = tier, ho_hold_deadline = due,
      ho_held_since = 0, ho_shop_name = ''S'', ho_delivery_lat = Some 2, ho_delivery_lng = None\<rparr>"

definition plane_miles :: distance where
  "plane_miles a b c d = \<bar>a - c\<bar> + \<bar>b - d\<bar>"

lemmas sample_held_defs = sample_held_def plane_miles_def

text \<open>
  With a single free driver the cycle may send part of a cluster: a T1 order and a T2 order at
  one shop are each other's mates, yet with another T1 order due soon elsewhere the first is released
  for the batch and its mate is kept.
\<close>

theorem hold_cycle_splits_a_cluster_with_one_driver:
  "map (\<lambda>d. (bd_order_id d, bd_action d, bd_reason d, bd_cluster_mate_ids d))
     (run_hold_cycle plane_miles (4/5)
       [sample_held 1 0 ''T1'' (minutes 60), sample_held 2 0 ''T2'' (minutes 60), sample_held 3 50 ''T1'' (minutes 5)]
       1 0 None [] []) =
   [(1, Release, Cluster_mate_found, [2]),
    (2, Keep_holding, Would_conflict_with_higher_priority_order, [1]),
    (3, Keep_holding, Waiting_for_cluster_mate, [])]"
  by code_simp

text \<open>
  (C34) The store is a map from hub and order to the held order: adding binds exactly that order and
  decodes to exactly what was written, removing unbinds it, \<open>add_if_absent\<close> never replaces, and
  reading a hub returns the bound orders. Every operation keeps the rows decodable.
\<close>

theorem hold_store_is_a_map:
  assumes "store_ok st"
  shows "held_at (hold_add h q w st) = (held_at st)(h := (held_at st h)(ho_order_id q \<mapsto> q)) \<and>
    held_at (hold_remove h i st) = (held_at st)(h := (held_at st h)(i := None)) \<and>
    held_at (snd (hold_add_if_absent h q st)) =
      (if held_at st h (ho_order_id q) = None then (held_at st)(h := (held_at st h)(ho_order_id q \<mapsto> q)) else held_at st) \<and>
    (\<exists>qs. hold_get_all h st = Some qs \<and> set qs = ran (held_at st h) \<and> length qs = hold_depth h st) \<and>
    store_ok (hold_add h q w st) \<and> store_ok (hold_remove h i st) \<and> store_ok (snd (hold_add_if_absent h q st))"
proof -
  have dec: "deserialize v \<noteq> None" if "(k, v) \<in> set (hs_orders st h)" for k v
    using assms that by (fastforce simp: store_ok_def)
  have dist: "distinct (map fst (hs_orders st h))" using assms by (simp add: store_ok_def)
  have absent: "held_at st h i = None \<longleftrightarrow> i \<notin> fst ` set (hs_orders st h)" for i
  proof (cases "map_of (hs_orders st h) i")
    case None
    moreover from None have "i \<notin> fst ` set (hs_orders st h)" by (simp add: map_of_eq_None_iff)
    ultimately show ?thesis by (simp add: held_at_def)
  next
    case (Some v)
    then have "i \<in> fst ` set (hs_orders st h)" by (metis domI dom_map_of_conv_image_fst)
    with Some dec [OF map_of_SomeD [OF Some]] show ?thesis by (simp add: held_at_def)
  qed
  have "set (map (\<lambda>p. the (deserialize (snd p))) (hs_orders st h)) = ran (held_at st h)"
  proof -
    have "v \<in> ran (held_at st h) \<longleftrightarrow> (\<exists>p \<in> set (hs_orders st h). deserialize (snd p) = Some v)" for v
      using dist by (force simp: ran_def held_at_def bind_eq_Some_conv map_of_eq_Some_iff)
    then show ?thesis using dec by (force simp: set_eq_iff)
  qed
  then have all: "\<exists>qs. hold_get_all h st = Some qs \<and> set qs = ran (held_at st h) \<and> length qs = hold_depth h st"
    using hold_get_all_ok [OF assms] by (simp add: hold_depth_def)
  have add: "held_at (hold_add h q w st) = (held_at st)(h := (held_at st h)(ho_order_id q \<mapsto> q))" for w
    by (auto simp: held_at_def hold_add_def Let_def fun_eq_iff)
  have rem: "held_at (hold_remove h i st) = (held_at st)(h := (held_at st h)(i := None))"
    by (auto simp: held_at_def hold_remove_def fun_eq_iff)
  have ifa: "held_at (snd (hold_add_if_absent h q st)) = (if held_at st h (ho_order_id q) = None
      then (held_at st)(h := (held_at st h)(ho_order_id q \<mapsto> q)) else held_at st)"
  proof (cases "ho_order_id q \<in> fst ` set (hs_orders st h)")
    case True
    then show ?thesis by (simp add: absent hold_add_if_absent_def)
  next
    case False
    have "held_at (snd (hold_add_if_absent h q st)) = held_at (hold_add h q True st)"
      using False by (auto simp: hold_add_if_absent_def hold_add_def held_at_def Let_def fun_eq_iff)
    with False show ?thesis by (simp add: absent add)
  qed
  show ?thesis
    using all add rem ifa store_ok_add [OF assms] store_ok_remove [OF assms] store_ok_add_if_absent [OF assms] by blast
qed

text \<open>
  A row written before the shop name and the delivery point were stored still decodes, to the
  same order with those three fields empty.
\<close>

theorem legacy_hold_rows_decode:
  "deserialize (filter (\<lambda>p. fst p \<notin> {''shop_name'', ''delivery_lat'', ''delivery_lng''}) (serialize q)) =
     Some (q\<lparr>ho_shop_name := '''', ho_delivery_lat := None, ho_delivery_lng := None\<rparr>)"
  by (simp add: serialize_def deserialize_def)


theorem hold_cycle_releases_exactly_witness:
  "map (\<lambda>d. bd_action d = Release)
     (run_hold_cycle plane_miles (4/5) [sample_held 1 0 ''T1'' 60, sample_held 2 0 ''T2'' 60, sample_held 3 50 ''T2'' 60]
       2 0 None [] []) = [True, True, False]"
  using hold_cycle_releases_exactly [of "[sample_held 1 0 ''T1'' 60, sample_held 2 0 ''T2'' 60, sample_held 3 50 ''T2'' 60]"
      plane_miles "4/5" 2 0 None "[]" "[]"]
  by (simp add: sample_held_def releases_def is_mate_def plane_miles_def effective_radius_def)

theorem hold_cycle_batches_together_witness:
  "bd_action (evaluate_held_order plane_miles (4/5) (sample_held 2 0 ''T2'' 60)
     [sample_held 1 0 ''T1'' 60, sample_held 2 0 ''T2'' 60] 2 0 None False False) = Release"
  by (rule hold_cycle_batches_together [where q = "sample_held 1 0 ''T1'' 60" and released = False and passing = False, OF _ _ _ _ refl])
    (simp_all add: sample_held_def plane_miles_def evaluate_held_order_def effective_radius_def decision_def Let_def
      cluster_mates_filter is_mate_def would_conflict_with_a_more_urgent_order_def abs_minus_commute)

definition empty_store :: hold_store where
  "empty_store = \<lparr>hs_orders = (\<lambda>h. []), hs_bus = \<lparr>dirty_hubs = [], wakeups = [], hub_locks = []\<rparr>\<rparr>"

theorem hold_store_is_a_map_witness:
  "held_at (hold_add 4 (sample_held 1 0 ''T1'' 60) True empty_store) 4 1 = Some (sample_held 1 0 ''T1'' 60)"
proof -
  have "store_ok empty_store" by (simp add: store_ok_def empty_store_def)
  from hold_store_is_a_map [OF this, of 4 "sample_held 1 0 ''T1'' 60" True 1] show ?thesis
    by (simp add: sample_held_def)
qed

end
