(* ===== verification/Fleet.thy ===== *)
theory Fleet
  imports Event_Bus
begin

text \<open>
  The fleet state manager (\<open>src/app/fleet_state/manager.py\<close>): the per-driver state and location
  hashes, the set of available drivers and the set of all drivers of a hub. Each method is one Redis
  transaction or one Lua script, so it is one atomic step; a trace of such steps by any number of
  callers is a list of operations. A hash that does not exist is \<open>None\<close>; \<open>current_route_id\<close> is stored
  as the empty string for no route and read back as such, so it is an option throughout.
\<close>

section \<open>State\<close>

datatype driver_status = Available | Offered | En_route | On_break | Off_shift

record driver_hash =
  dh_status :: driver_status
  dh_capacity_units :: int
  dh_load_units :: rat
  dh_current_route_id :: "uuid option"

record driver_state =
  ds_driver_id :: uuid
  ds_hub_id :: hub
  ds_status :: driver_status
  ds_capacity_units :: int
  ds_load_units :: rat
  ds_current_route_id :: "uuid option"

record driver_location =
  loc_driver_id :: uuid
  loc_lat :: rat
  loc_lng :: rat
  loc_recorded_at :: string

record fleet =
  fl_state :: "hub \<Rightarrow> uuid \<Rightarrow> driver_hash option"
  fl_location :: "hub \<Rightarrow> uuid \<Rightarrow> (rat \<times> rat \<times> string) option"
  fl_available :: "hub \<Rightarrow> uuid list"
  fl_all :: "hub \<Rightarrow> uuid list"

definition put_state :: "hub \<Rightarrow> uuid \<Rightarrow> driver_hash \<Rightarrow> fleet \<Rightarrow> fleet" where
  "put_state h d x f = f\<lparr>fl_state := (fl_state f)(h := (fl_state f h)(d \<mapsto> x))\<rparr>"

text \<open>The tail every script shares: the driver is in the available set exactly when available.\<close>

definition sync_available :: "hub \<Rightarrow> uuid \<Rightarrow> driver_status \<Rightarrow> fleet \<Rightarrow> fleet" where
  "sync_available h d st f =
     f\<lparr>fl_available := (fl_available f)(h :=
         (if st = Available then sadd d (fl_available f h) else srem d (fl_available f h)))\<rparr>"

definition join_all :: "hub \<Rightarrow> uuid \<Rightarrow> fleet \<Rightarrow> fleet" where
  "join_all h d f = f\<lparr>fl_all := (fl_all f)(h := sadd d (fl_all f h))\<rparr>"

definition hash_of :: "driver_state \<Rightarrow> driver_hash" where
  "hash_of s = \<lparr>dh_status = ds_status s, dh_capacity_units = ds_capacity_units s,
     dh_load_units = ds_load_units s, dh_current_route_id = ds_current_route_id s\<rparr>"

definition state_of :: "hub \<Rightarrow> uuid \<Rightarrow> driver_hash \<Rightarrow> driver_state" where
  "state_of h d x = \<lparr>ds_driver_id = d, ds_hub_id = h, ds_status = dh_status x,
     ds_capacity_units = dh_capacity_units x, ds_load_units = dh_load_units x,
     ds_current_route_id = dh_current_route_id x\<rparr>"

section \<open>Operations\<close>

definition upsert_driver_state :: "driver_state \<Rightarrow> fleet \<Rightarrow> fleet" where
  "upsert_driver_state s f =
     join_all (ds_hub_id s) (ds_driver_id s)
       (sync_available (ds_hub_id s) (ds_driver_id s) (ds_status s)
         (put_state (ds_hub_id s) (ds_driver_id s) (hash_of s) f))"

definition seed_driver_state_if_absent :: "driver_state \<Rightarrow> fleet \<Rightarrow> bool \<times> fleet" where
  "seed_driver_state_if_absent s f =
     (if fl_state f (ds_hub_id s) (ds_driver_id s) \<noteq> None then (False, f)
      else (True, upsert_driver_state s f))"

definition correct_status_if ::
    "hub \<Rightarrow> uuid \<Rightarrow> driver_status \<Rightarrow> driver_status \<Rightarrow> fleet \<Rightarrow> bool \<times> fleet" where
  "correct_status_if h d expect new f =
     (case fl_state f h d of
        None \<Rightarrow> (False, f)
      | Some x \<Rightarrow> if dh_status x \<noteq> expect then (False, f)
          else (True, sync_available h d new
            (put_state h d (x\<lparr>dh_status := new, dh_current_route_id := None, dh_load_units := 0\<rparr>) f)))"

text \<open>The state before and after the claim, or \<open>None\<close> when the driver was not available.\<close>

definition claim_for_offer :: "hub \<Rightarrow> uuid \<Rightarrow> fleet \<Rightarrow> (driver_state \<times> driver_state) option \<times> fleet" where
  "claim_for_offer h d f =
     (case fl_state f h d of
        None \<Rightarrow> (None, f)
      | Some x \<Rightarrow> if dh_status x \<noteq> Available then (None, f)
          else let before = (state_of h d x)\<lparr>ds_status := Available\<rparr> in
            (Some (before, before\<lparr>ds_status := Offered\<rparr>),
             (put_state h d (x\<lparr>dh_status := Offered\<rparr>) f)\<lparr>fl_available :=
                (fl_available f)(h := srem d (fl_available f h))\<rparr>))"

definition set_status_if ::
    "hub \<Rightarrow> uuid \<Rightarrow> driver_status \<Rightarrow> driver_status \<Rightarrow> fleet \<Rightarrow> bool \<times> fleet" where
  "set_status_if h d expect new f =
     (case fl_state f h d of
        None \<Rightarrow> (False, f)
      | Some x \<Rightarrow> if dh_status x \<noteq> expect then (False, f)
          else (True, sync_available h d new (put_state h d (x\<lparr>dh_status := new\<rparr>) f)))"

definition give_back_claim :: "driver_state \<Rightarrow> fleet \<Rightarrow> bool \<times> fleet" where
  "give_back_claim before f =
     set_status_if (ds_hub_id before) (ds_driver_id before) Offered (ds_status before) f"

definition get_driver_state :: "hub \<Rightarrow> uuid \<Rightarrow> fleet \<Rightarrow> driver_state option" where
  "get_driver_state h d f = map_option (state_of h d) (fl_state f h d)"

definition update_driver_location :: "driver_location \<Rightarrow> hub \<Rightarrow> fleet \<Rightarrow> fleet" where
  "update_driver_location l h f =
     f\<lparr>fl_location := (fl_location f)(h := (fl_location f h)(loc_driver_id l \<mapsto>
         (loc_lat l, loc_lng l, loc_recorded_at l)))\<rparr>"

definition seed_location_if_absent :: "driver_location \<Rightarrow> hub \<Rightarrow> fleet \<Rightarrow> bool \<times> fleet" where
  "seed_location_if_absent l h f =
     (if fl_location f h (loc_driver_id l) \<noteq> None then (False, f)
      else (True, update_driver_location l h f))"

definition get_driver_location :: "hub \<Rightarrow> uuid \<Rightarrow> fleet \<Rightarrow> driver_location option" where
  "get_driver_location h d f =
     map_option (\<lambda>(lat, lng, t). \<lparr>loc_driver_id = d, loc_lat = lat, loc_lng = lng, loc_recorded_at = t\<rparr>)
       (fl_location f h d)"

definition get_available_driver_ids :: "hub \<Rightarrow> fleet \<Rightarrow> uuid list" where
  "get_available_driver_ids h f = fl_available f h"

definition get_all_driver_ids :: "hub \<Rightarrow> fleet \<Rightarrow> uuid list" where
  "get_all_driver_ids h f = fl_all f h"

definition bulk_read_states :: "hub \<Rightarrow> uuid list \<Rightarrow> fleet \<Rightarrow> driver_state list" where
  "bulk_read_states h ds f = List.map_filter (\<lambda>d. get_driver_state h d f) ds"

definition get_fleet_snapshot :: "hub \<Rightarrow> fleet \<Rightarrow> driver_state list" where
  "get_fleet_snapshot h f = bulk_read_states h (get_available_driver_ids h f) f"

definition get_fleet_overview :: "hub \<Rightarrow> fleet \<Rightarrow> driver_state list" where
  "get_fleet_overview h f = bulk_read_states h (get_all_driver_ids h f) f"

section \<open>The pool as its users see it\<close>

definition status_of :: "fleet \<Rightarrow> hub \<Rightarrow> uuid \<Rightarrow> driver_status option" where
  "status_of f h d = map_option dh_status (fl_state f h d)"

lemma status_of_put [simp]:
  "status_of (put_state h d x f) g e = (if g = h \<and> e = d then Some (dh_status x) else status_of f g e)"
  by (simp add: status_of_def put_state_def)

lemma status_of_others [simp]:
  "status_of (sync_available h d st f) = status_of f" "status_of (join_all h d f) = status_of f"
  "status_of (f\<lparr>fl_available := a\<rparr>) = status_of f" "status_of (f\<lparr>fl_location := l\<rparr>) = status_of f"
  by (simp_all add: fun_eq_iff status_of_def sync_available_def join_all_def)

lemma status_of_upsert:
  "status_of (upsert_driver_state s f) h d =
     (if h = ds_hub_id s \<and> d = ds_driver_id s then Some (ds_status s) else status_of f h d)"
  by (simp add: upsert_driver_state_def hash_of_def)

lemma status_of_set_if:
  "fst (set_status_if h d expect new f) \<longleftrightarrow> status_of f h d = Some expect"
  "status_of (snd (set_status_if h d expect new f)) g e =
     (if g = h \<and> e = d \<and> status_of f h d = Some expect then Some new else status_of f g e)"
  by (auto simp: set_status_if_def status_of_def [of f] split: option.split)

lemma status_of_correct_if:
  "status_of (snd (correct_status_if h d expect new f)) g e =
     (if g = h \<and> e = d \<and> status_of f h d = Some expect then Some new else status_of f g e)"
  by (auto simp: correct_status_if_def status_of_def [of f] split: option.split)

lemma status_of_claim:
  "fst (claim_for_offer h d f) = None \<longleftrightarrow> status_of f h d \<noteq> Some Available"
  "status_of (snd (claim_for_offer h d f)) g e =
     (if g = h \<and> e = d \<and> status_of f h d = Some Available then Some Offered else status_of f g e)"
  by (auto simp: claim_for_offer_def status_of_def [of f] Let_def split: option.split)

text \<open>
  The contract between the pool and those who make offers (the dispatch cycle, a dispatcher, the
  requeue): a claim succeeds exactly on an available driver and takes it; a conditional write acts
  only on the expected status.
\<close>

locale driver_pool =
  fixes stat :: "'s \<Rightarrow> hub \<Rightarrow> uuid \<Rightarrow> driver_status option"
    and claim :: "hub \<Rightarrow> uuid \<Rightarrow> 's \<Rightarrow> 'c option \<times> 's"
    and set_if :: "hub \<Rightarrow> uuid \<Rightarrow> driver_status \<Rightarrow> driver_status \<Rightarrow> 's \<Rightarrow> bool \<times> 's"
  assumes claim_iff: "fst (claim h d s) = None \<longleftrightarrow> stat s h d \<noteq> Some Available"
    and claim_stat: "stat (snd (claim h d s)) g e =
      (if g = h \<and> e = d \<and> stat s h d = Some Available then Some Offered else stat s g e)"
    and set_if_iff: "fst (set_if h d x y s) \<longleftrightarrow> stat s h d = Some x"
    and set_if_stat: "stat (snd (set_if h d x y s)) g e =
      (if g = h \<and> e = d \<and> stat s h d = Some x then Some y else stat s g e)"
begin

lemma claim_once: "fst (claim h d (snd (claim h d s))) = None"
  by (simp add: claim_iff claim_stat)

lemma give_back:
  "fst (claim h d s) \<noteq> None \<Longrightarrow>
     stat (snd (set_if h d Offered Available (snd (claim h d s)))) = stat s"
  by (simp add: fun_eq_iff claim_iff set_if_stat claim_stat)

lemma break_survives_give_back:
  "stat s h d \<noteq> Some Offered \<Longrightarrow> stat (snd (set_if h d Offered Available s)) = stat s"
  by (auto simp: fun_eq_iff set_if_stat)

end

interpretation pool: driver_pool status_of claim_for_offer set_status_if
  by unfold_locales (simp_all add: status_of_claim status_of_set_if)

section \<open>The available set agrees with the states\<close>

definition fleet_ok :: "fleet \<Rightarrow> bool" where
  "fleet_ok f \<longleftrightarrow> (\<forall>h. distinct (fl_available f h) \<and>
     (\<forall>d. d \<in> set (fl_available f h) \<longleftrightarrow> status_of f h d = Some Available) \<and>
     (\<forall>d. status_of f h d \<noteq> None \<longrightarrow> d \<in> set (fl_all f h)))"

lemma fleet_ok_put_sync:
  assumes "fleet_ok f" "d \<in> set (fl_all f h)"
  shows "fleet_ok (sync_available h d (dh_status x) (put_state h d x f))"
  using assms by (auto simp: fleet_ok_def sync_available_def put_state_def status_of_def)

lemma fleet_ok_claim:
  assumes "fleet_ok f" shows "fleet_ok (snd (claim_for_offer h d f))"
  using assms
  by (auto simp: fleet_ok_def claim_for_offer_def put_state_def status_of_def Let_def split: option.split)

lemma fleet_ok_join: "fleet_ok f \<Longrightarrow> fleet_ok (join_all h d f)"
  by (auto simp: fleet_ok_def join_all_def status_of_def)

lemma fleet_ok_member: "fleet_ok f \<Longrightarrow> fl_state f h d = Some x \<Longrightarrow> d \<in> set (fl_all f h)"
  by (simp add: fleet_ok_def status_of_def)

lemma fleet_ok_set_if:
  assumes "fleet_ok f" shows "fleet_ok (snd (set_status_if h d x y f))"
proof (cases "fl_state f h d")
  case (Some z)
  with fleet_ok_put_sync [OF assms fleet_ok_member [OF assms Some], of "z\<lparr>dh_status := y\<rparr>"] assms
  show ?thesis by (simp add: set_status_if_def)
qed (simp add: set_status_if_def assms)

lemma fleet_ok_correct_if:
  assumes "fleet_ok f" shows "fleet_ok (snd (correct_status_if h d x y f))"
proof (cases "fl_state f h d")
  case (Some z)
  with fleet_ok_put_sync [OF assms fleet_ok_member [OF assms Some],
      of "z\<lparr>dh_status := y, dh_current_route_id := None, dh_load_units := 0\<rparr>"] assms
  show ?thesis by (simp add: correct_status_if_def)
qed (simp add: correct_status_if_def assms)

lemma fleet_ok_upsert:
  assumes "fleet_ok f" shows "fleet_ok (upsert_driver_state s f)"
proof -
  let ?h = "ds_hub_id s" and ?d = "ds_driver_id s"
  have "upsert_driver_state s f = sync_available ?h ?d (dh_status (hash_of s)) (put_state ?h ?d (hash_of s) (join_all ?h ?d f))"
    by (cases f) (simp add: upsert_driver_state_def sync_available_def put_state_def join_all_def hash_of_def)
  moreover have "?d \<in> set (fl_all (join_all ?h ?d f) ?h)" by (simp add: join_all_def)
  ultimately show ?thesis using fleet_ok_put_sync [OF fleet_ok_join [OF assms]] by simp
qed

lemma fleet_ok_location: "fleet_ok (update_driver_location l h f) = fleet_ok f"
  by (simp add: fleet_ok_def update_driver_location_def status_of_def)

section \<open>Traces\<close>

text \<open>Any caller's atomic operation on the fleet, and a run of them.\<close>

datatype fleet_op =
    Upsert driver_state
  | Seed driver_state
  | Correct hub uuid driver_status driver_status
  | Claim hub uuid
  | Set_if hub uuid driver_status driver_status
  | Give_back driver_state
  | Ping driver_location hub
  | Seed_location driver_location hub

fun apply_op :: "fleet_op \<Rightarrow> fleet \<Rightarrow> fleet" where
  "apply_op (Upsert s) f = upsert_driver_state s f"
| "apply_op (Seed s) f = snd (seed_driver_state_if_absent s f)"
| "apply_op (Correct h d x y) f = snd (correct_status_if h d x y f)"
| "apply_op (Claim h d) f = snd (claim_for_offer h d f)"
| "apply_op (Set_if h d x y) f = snd (set_status_if h d x y f)"
| "apply_op (Give_back s) f = snd (give_back_claim s f)"
| "apply_op (Ping l h) f = update_driver_location l h f"
| "apply_op (Seed_location l h) f = snd (seed_location_if_absent l h f)"

text \<open>The operations that write \<open>available\<close> for this driver, when they write.\<close>

fun frees :: "hub \<Rightarrow> uuid \<Rightarrow> fleet_op \<Rightarrow> bool" where
  "frees h d (Upsert s) \<longleftrightarrow> ds_hub_id s = h \<and> ds_driver_id s = d \<and> ds_status s = Available"
| "frees h d (Seed s) \<longleftrightarrow> ds_hub_id s = h \<and> ds_driver_id s = d \<and> ds_status s = Available"
| "frees h d (Correct g e x y) \<longleftrightarrow> g = h \<and> e = d \<and> y = Available"
| "frees h d (Claim g e) \<longleftrightarrow> False"
| "frees h d (Set_if g e x y) \<longleftrightarrow> g = h \<and> e = d \<and> y = Available"
| "frees h d (Give_back s) \<longleftrightarrow> ds_hub_id s = h \<and> ds_driver_id s = d \<and> ds_status s = Available"
| "frees h d (Ping l g) \<longleftrightarrow> False"
| "frees h d (Seed_location l g) \<longleftrightarrow> False"

definition run_ops :: "fleet_op list \<Rightarrow> fleet \<Rightarrow> fleet" where
  "run_ops ops f = fold apply_op ops f"

lemma status_of_apply:
  "\<not> frees h d op \<Longrightarrow> status_of f h d \<noteq> Some Available \<Longrightarrow> status_of (apply_op op f) h d \<noteq> Some Available"
  by (cases op)
    (auto simp: status_of_upsert status_of_correct_if status_of_claim status_of_set_if give_back_claim_def
      seed_driver_state_if_absent_def seed_location_if_absent_def update_driver_location_def)

lemma status_of_run_ops:
  "\<forall>op \<in> set ops. \<not> frees h d op \<Longrightarrow> status_of f h d \<noteq> Some Available \<Longrightarrow>
     status_of (run_ops ops f) h d \<noteq> Some Available"
  unfolding run_ops_def by (induction ops arbitrary: f) (auto simp: status_of_apply)

lemma fleet_ok_apply: "fleet_ok f \<Longrightarrow> fleet_ok (apply_op op f)"
  by (cases op)
    (auto simp: fleet_ok_upsert fleet_ok_correct_if fleet_ok_claim fleet_ok_set_if give_back_claim_def
      seed_driver_state_if_absent_def seed_location_if_absent_def fleet_ok_location)

lemma set_map_filter_Some: "set (List.map_filter g xs) = {y. \<exists>x \<in> set xs. g x = Some y}"
  by (induction xs) (auto simp: List.map_filter_simps split: option.split)

section \<open>Properties\<close>

text \<open>
  (C35) After any sequence of operations by any callers, the available set of each hub holds exactly
  the drivers whose state says available, without repetition, and every known driver is in the
  roster; so the snapshot the optimizer reads is the states of exactly the available drivers.
\<close>

theorem fleet_available_set_agrees:
  assumes "fleet_ok f"
  shows "fleet_ok (run_ops ops f) \<and>
    set (get_fleet_snapshot h (run_ops ops f)) =
      {s. \<exists>d. get_driver_state h d (run_ops ops f) = Some s \<and> ds_status s = Available}"
proof -
  have ok: "fleet_ok (run_ops ops f)"
    unfolding run_ops_def using assms by (induction ops arbitrary: f) (auto simp: fleet_ok_apply)
  then have avail: "d \<in> set (fl_available (run_ops ops f) h) \<longleftrightarrow>
      (\<exists>s. get_driver_state h d (run_ops ops f) = Some s \<and> ds_status s = Available)" for d
    by (auto simp: fleet_ok_def get_driver_state_def status_of_def state_of_def)
  have "set (get_fleet_snapshot h (run_ops ops f)) =
      {s. \<exists>d. get_driver_state h d (run_ops ops f) = Some s \<and> ds_status s = Available}"
    unfolding get_fleet_snapshot_def bulk_read_states_def get_available_driver_ids_def set_map_filter_Some
    using avail by (metis (no_types, lifting) option.inject)
  with ok show ?thesis by blast
qed

text \<open>
  Two callers never hold a claim on one driver: between two successful claims of the same
  driver some operation must have written \<open>available\<close> for that driver again.
\<close>

theorem driver_claims_do_not_overlap:
  assumes "f1 = snd (claim_for_offer h d f0)" "fst (claim_for_offer h d f0) \<noteq> None"
    and "fst (claim_for_offer h d (run_ops ops f1)) \<noteq> None"
  shows "\<exists>op \<in> set ops. frees h d op"
proof (rule ccontr)
  assume "\<not> ?thesis"
  moreover have "status_of f1 h d \<noteq> Some Available" by (simp add: assms(1) status_of_claim)
  ultimately have "status_of (run_ops ops f1) h d \<noteq> Some Available" by (intro status_of_run_ops) auto
  with assms(3) show False by (simp add: status_of_claim)
qed

text \<open>
  Giving a claim back restores the pool, state and available set alike, when nothing happened
  in between; and if the driver has left \<open>offered\<close> since (a break, the end of a shift), it changes
  nothing.
\<close>

theorem give_back_claim_restores:
  assumes "fleet_ok f" "claim_for_offer h d f = (Some (before, after), f1)"
  shows "fl_state (snd (give_back_claim before f1)) = fl_state f \<and>
    set (fl_available (snd (give_back_claim before f1)) h) = set (fl_available f h) \<and>
    (\<forall>g. status_of g h d \<noteq> Some Offered \<longrightarrow> give_back_claim before g = (False, g))"
proof -
  obtain x where x: "fl_state f h d = Some x" "dh_status x = Available" "before = (state_of h d x)\<lparr>ds_status := Available\<rparr>"
    "f1 = (put_state h d (x\<lparr>dh_status := Offered\<rparr>) f)\<lparr>fl_available := (fl_available f)(h := srem d (fl_available f h))\<rparr>"
    using assms(2) by (auto simp: claim_for_offer_def Let_def split: option.splits if_splits)
  have same: "x\<lparr>dh_status := Offered, dh_status := Available\<rparr> = x" using x(2) by (cases x) simp
  have mem: "d \<in> set (fl_available f h)" using assms(1) x(1,2) by (simp add: fleet_ok_def status_of_def)
  have "give_back_claim before g = (False, g)" if "status_of g h d \<noteq> Some Offered" for g
    using that by (auto simp: give_back_claim_def x(3) state_of_def set_status_if_def status_of_def split: option.split)
  moreover have "give_back_claim before f1 =
      (True, sync_available h d Available (put_state h d (x\<lparr>dh_status := Available\<rparr>) f1))"
    by (simp add: give_back_claim_def set_status_if_def x(3,4) state_of_def put_state_def)
  ultimately show ?thesis
    using mem same x(1,2) by (auto simp: x(4) sync_available_def put_state_def fun_eq_iff)
qed

definition sample_fleet :: fleet where
  "sample_fleet = upsert_driver_state
     \<lparr>ds_driver_id = 8, ds_hub_id = 1, ds_status = Available, ds_capacity_units = 20, ds_load_units = 0,
      ds_current_route_id = None\<rparr>
     \<lparr>fl_state = (\<lambda>h d. None), fl_location = (\<lambda>h d. None), fl_available = (\<lambda>h. []), fl_all = (\<lambda>h. [])\<rparr>"

lemma sample_fleet_ok: "fleet_ok sample_fleet"
  unfolding sample_fleet_def by (rule fleet_ok_upsert) (simp add: fleet_ok_def status_of_def)

lemmas sample_fleet_defs = sample_fleet_def upsert_driver_state_def put_state_def sync_available_def join_all_def
  hash_of_def state_of_def status_of_def sadd_def srem_def

theorem fleet_available_set_agrees_witness:
  "fleet_ok (run_ops [Claim 1 8, Set_if 1 8 Offered Available] sample_fleet)"
  using fleet_available_set_agrees [OF sample_fleet_ok] by blast

theorem driver_claims_do_not_overlap_witness:
  "\<exists>op \<in> set [Set_if 1 8 Offered Available]. frees 1 8 op"
  by (rule driver_claims_do_not_overlap [OF refl, where ?f0.0 = sample_fleet])
    (simp_all add: run_ops_def claim_for_offer_def set_status_if_def Let_def sample_fleet_defs)

theorem give_back_claim_restores_witness:
  "fl_state (snd (give_back_claim (fst (the (fst (claim_for_offer 1 8 sample_fleet))))
     (snd (claim_for_offer 1 8 sample_fleet)))) = fl_state sample_fleet"
proof -
  obtain b a f1 where c: "claim_for_offer 1 8 sample_fleet = (Some (b, a), f1)"
    by (simp add: claim_for_offer_def Let_def sample_fleet_defs)
  from give_back_claim_restores [OF sample_fleet_ok c] show ?thesis by (simp only: c fst_conv snd_conv option.sel)
qed

end
