(* ===== verification/Requeue.thy ===== *)
theory Requeue
  imports Route_Stops Hold_Queue Fleet
begin

text \<open>
  Putting an offer's orders back when the offer goes nowhere (\<open>src/app/orders/requeue.py\<close>): one
  conditional UPDATE from \<open>assigned\<close> to \<open>held\<close>, the events for the orders it moved, and their return
  to the hold queue; and the sweep that sends back orders assigned to nobody. The world is the
  session, the Redis hold queue with its bus, the fleet and the messages published to drivers.
\<close>

section \<open>The world\<close>

record notice =
  nt_driver_id :: uuid
  nt_route_id :: uuid
  nt_plan_version :: int
  nt_affected_stop_ids :: "uuid list"

record world =
  sess :: session
  queue :: hold_store
  fleet_of :: fleet
  notices :: "notice list"

section \<open>Requeueing\<close>

definition requeue_update :: "uuid list \<Rightarrow> session \<Rightarrow> uuid list \<times> session" where
  "requeue_update order_ids s =
     (let hit = (\<lambda>r. ord_id r \<in> set order_ids \<and> ord_status r = Assigned) in
      (map ord_id (filter hit (orders (db s))),
       s\<lparr>db := (db s)\<lparr>orders := update_where hit
           (\<lambda>r. r\<lparr>ord_status := Held, ord_updated_at := txn_now s\<rparr>) (orders (db s))\<rparr>\<rparr>))"

fun emit_requeued :: "instant \<Rightarrow> order_row list \<Rightarrow> session \<Rightarrow> session" where
  "emit_requeued now [] s = s"
| "emit_requeued now (o1 # os) s =
     emit_requeued now os
       (emit_status_change True (ord_id o1) (ord_client_id o1) (ord_source_system o1)
          (ord_source_order_ref o1) Assigned Held now s)"

definition held_order_of :: "instant \<Rightarrow> payload_stop \<Rightarrow> order_row \<Rightarrow> held_order" where
  "held_order_of now stop order =
     \<lparr>ho_order_id = ps_order_id stop, ho_shop_lat = ps_lat stop, ho_shop_lng = ps_lng stop,
      ho_sla_tier = ps_sla_tier stop,
      ho_hold_deadline = (case ord_hold_deadline order of None \<Rightarrow> now + minutes 5 | Some t \<Rightarrow> t),
      ho_held_since = now,
      ho_shop_name = (case ps_shop_name stop of None \<Rightarrow> '''' | Some n \<Rightarrow> n),
      ho_delivery_lat = map_option fl (ord_delivery_lat order),
      ho_delivery_lng = map_option fl (ord_delivery_lng order)\<rparr>"

text \<open>The loop over the payload: an order this offer no longer has, or one of history, is skipped.\<close>

fun requeue_stops ::
    "hub \<Rightarrow> bool \<Rightarrow> instant \<Rightarrow> (uuid \<rightharpoonup> order_row) \<Rightarrow> payload_stop list \<Rightarrow> hold_store \<Rightarrow> hold_store" where
  "requeue_stops h wake now by_id [] q = q"
| "requeue_stops h wake now by_id (stop # rest) q =
     requeue_stops h wake now by_id rest
       (case by_id (ps_order_id stop) of
          None \<Rightarrow> q
        | Some order \<Rightarrow>
            if ord_intake_mode order \<noteq> INTAKE_LIVE then q
            else let held = held_order_of now stop order in
              hold_add h held (wake \<or> now < ho_hold_deadline held) q)"

definition requeue_orders_from_offer ::
    "instant \<Rightarrow> hub \<Rightarrow> uuid \<Rightarrow> payload_stop list \<Rightarrow> bool \<Rightarrow> bool \<Rightarrow> world \<Rightarrow> world" where
  "requeue_orders_from_offer now h driver payload free_driver wake w =
     (let fleet1 = (if free_driver then snd (set_status_if h driver Offered Available (fleet_of w)) else fleet_of w);
          order_ids = map ps_order_id payload;
          (requeued, s1) = (if order_ids = [] then ([], sess w) else requeue_update order_ids (sess w));
          rows = (if requeued = [] then [] else filter (\<lambda>r. ord_id r \<in> set requeued) (orders (db s1)));
          by_id = dict_of (map (\<lambda>r. (ord_id r, r)) rows);
          s2 = emit_requeued now rows s1;
          q1 = requeue_stops h wake now by_id payload (queue w);
          q2 = (if wake then q1\<lparr>hs_bus := publish h (hs_bus q1)\<rparr> else q1)
      in w\<lparr>sess := s2, queue := q2, fleet_of := fleet1\<rparr>)"

section \<open>The stranded sweep\<close>

text \<open>
  \<open>locked\<close> says which rows somebody else is writing (they are skipped), \<open>grace\<close> is
  \<open>stranded_assignment_grace_seconds\<close>; \<open>now\<close> is the sweep's reference time and \<open>wall\<close> the clock the
  requeue reads.
\<close>

definition stranded_candidates :: "int \<Rightarrow> (uuid \<Rightarrow> bool) \<Rightarrow> hub \<Rightarrow> instant \<Rightarrow> db \<Rightarrow> order_row list" where
  "stranded_candidates grace locked h now d =
     sort_key ord_id (filter (\<lambda>r. ord_hub_id r = h \<and> ord_status r = Assigned \<and> ord_intake_mode r = INTAKE_LIVE \<and>
       ord_updated_at r < now - seconds grace \<and> \<not> locked (ord_id r)) (orders d))"

definition on_an_offer :: "hub \<Rightarrow> db \<Rightarrow> uuid list" where
  "on_an_offer h d =
     concat (map (\<lambda>f. map ps_order_id (offer_stop_payload f))
       (filter (\<lambda>f. offer_hub_id f = h \<and> offer_status_of f = Offer_offered) (offers d)))"

definition on_a_stop :: "uuid list \<Rightarrow> db \<Rightarrow> uuid list" where
  "on_a_stop ids d =
     map so_order_id (filter (\<lambda>l. so_order_id l \<in> set ids \<and>
       (\<exists>t \<in> set (stops d). stop_id t = so_stop_id l \<and> stop_status_of t \<notin> set FINISHED_STOP_STATUSES)) (stop_orders d))"

definition stranded_orders :: "int \<Rightarrow> (uuid \<Rightarrow> bool) \<Rightarrow> hub \<Rightarrow> instant \<Rightarrow> db \<Rightarrow> order_row list" where
  "stranded_orders grace locked h now d =
     (let candidates = stranded_candidates grace locked h now d in
      filter (\<lambda>r. ord_id r \<notin> set (on_an_offer h d) \<and> ord_id r \<notin> set (on_a_stop (map ord_id candidates) d)) candidates)"

definition stranded_payload :: "db \<Rightarrow> order_row \<Rightarrow> payload_stop option" where
  "stranded_payload d order =
     map_option (\<lambda>shop.
         \<lparr>ps_order_id = ord_id order, ps_lat = shop_lat shop, ps_lng = shop_lng shop,
          ps_sla_tier = (case ord_sla_tier order of None \<Rightarrow> ''T2'' | Some t \<Rightarrow> tier_value t),
          ps_shop_name = Some (shop_name shop)\<rparr>)
       (Option.bind (ord_shop_id order) (\<lambda>i. lookup_by shop_id i (shops d)))"

definition return_stranded_assignments ::
    "int \<Rightarrow> (uuid \<Rightarrow> bool) \<Rightarrow> instant \<Rightarrow> instant \<Rightarrow> hub \<Rightarrow> world \<Rightarrow> nat \<times> world" where
  "return_stranded_assignments grace locked now wall h w =
     (let d = db (sess w);
          payload = List.map_filter (stranded_payload d) (stranded_orders grace locked h now d) in
      if payload = [] then (0, w)
      else (length payload, requeue_orders_from_offer wall h 0 payload False False w))"

section \<open>Lemmas\<close>

definition requeue_event :: "instant \<Rightarrow> order_row \<Rightarrow> status_event" where
  "requeue_event now r = status_event_of (ord_id r) (ord_client_id r) (ord_source_system r)
     (ord_source_order_ref r) Assigned Held now"

lemma emit_requeued_ok:
  "session_ok s \<Longrightarrow> emit_requeued now rows s = fold emitted (map (requeue_event now) rows) s"
  by (induction rows arbitrary: s)
    (simp_all add: emit_status_change_ok requeue_event_def session_ok_emitted)

lemma fold_emitted:
  "session_ok s \<Longrightarrow> session_ok (fold emitted es s) \<and> orders (db (fold emitted es s)) = orders (db s) \<and>
     base (fold emitted es s) = base s \<and> status_log (fold emitted es s) = status_log s @ es"
  by (induction es arbitrary: s) (simp_all add: session_ok_emitted)

lemma queued_ids_bus [simp]: "queued_ids (q\<lparr>hs_bus := b\<rparr>) = queued_ids q"
  by (simp add: fun_eq_iff queued_ids_def)

lemma requeue_stops_queued:
  "queued_ids (requeue_stops h wake now by_id payload q) g =
     (if g = h then queued_ids q g \<union>
        {ps_order_id p | p. p \<in> set payload \<and>
           (\<exists>r. by_id (ps_order_id p) = Some r \<and> ord_intake_mode r = INTAKE_LIVE)}
      else queued_ids q g)"
proof (induction payload arbitrary: q)
  case (Cons p payload)
  show ?case
    by (cases "by_id (ps_order_id p)") (auto simp: Cons.IH hq.members_put Let_def held_order_of_def)
qed simp

lemma requeue_stops_ok:
  "store_ok q \<Longrightarrow> store_ok (requeue_stops h wake now by_id payload q)"
  by (induction payload arbitrary: q) (auto simp: store_ok_add Let_def split: option.split)

text \<open>The rows the update moved, read back and keyed, are the moved rows.\<close>

definition moved_back :: "uuid list \<Rightarrow> session \<Rightarrow> order_row list" where
  "moved_back ids s = map (\<lambda>r. r\<lparr>ord_status := Held, ord_updated_at := txn_now s\<rparr>)
     (filter (\<lambda>r. ord_id r \<in> set ids \<and> ord_status r = Assigned) (orders (db s)))"

lemma requeue_read_back:
  assumes "distinct (map ord_id (orders (db s)))"
  shows "filter (\<lambda>r. ord_id r \<in> set (fst (requeue_update ids s))) (orders (db (snd (requeue_update ids s)))) = moved_back ids s"
proof -
  let ?hit = "\<lambda>r. ord_id r \<in> set ids \<and> ord_status r = Assigned"
  let ?f = "\<lambda>r. r\<lparr>ord_status := Held, ord_updated_at := txn_now s\<rparr>"
  have key: "ord_id r \<in> ord_id ` {q \<in> set (orders (db s)). ?hit q} \<longleftrightarrow> ?hit r" if "r \<in> set (orders (db s))" for r
    using assms that by (auto simp: distinct_map dest: inj_onD)
  have "filter (\<lambda>r. ord_id r \<in> K) (update_where ?hit ?f rows) = map ?f (filter ?hit rows)"
    if "\<And>r. r \<in> set rows \<Longrightarrow> ord_id r \<in> K \<longleftrightarrow> ?hit r" for K rows
    using that by (induction rows) auto
  from this [of "orders (db s)" "ord_id ` {q \<in> set (orders (db s)). ?hit q}"] key
  show ?thesis by (simp add: requeue_update_def Let_def moved_back_def)
qed

lemma dict_of_rows:
  assumes "distinct (map key rows)"
  shows "dict_of (map (\<lambda>r. (key r, r)) rows) k = Some r \<longleftrightarrow> r \<in> set rows \<and> key r = k"
  using assms by (auto simp: dict_of_distinct comp_def map_of_eq_Some_iff)

lemma moved_back_ids: "distinct (map ord_id (orders (db s))) \<Longrightarrow> distinct (map ord_id (moved_back ids s))"
  by (simp add: moved_back_def comp_def distinct_map_filter)

lemma requeue_unfold:
  assumes "session_ok (sess w)" "distinct (map ord_id (orders (db (sess w))))"
    and ids_def: "ids = map ps_order_id payload"
  shows "requeue_orders_from_offer now h driver payload free wake w =
    w\<lparr>sess := fold emitted (map (requeue_event now) (moved_back ids (sess w))) (snd (requeue_update ids (sess w))),
      queue := (let q = requeue_stops h wake now (dict_of (map (\<lambda>r. (ord_id r, r)) (moved_back ids (sess w)))) payload (queue w)
                in if wake then q\<lparr>hs_bus := publish h (hs_bus q)\<rparr> else q),
      fleet_of := (if free then snd (set_status_if h driver Offered Available (fleet_of w)) else fleet_of w)\<rparr>"
proof -
  have ok: "session_ok (snd (requeue_update ids (sess w)))"
    using assms(1) by (simp add: requeue_update_def Let_def session_ok_def)
  show ?thesis
  proof (cases "ids = []")
    case True
    have "requeue_update [] s = ([], s)" for s by (simp add: requeue_update_def Let_def update_where_def)
    with True show ?thesis
      by (simp add: requeue_orders_from_offer_def ids_def [symmetric] moved_back_def dict_of_def Let_def)
  next
    case False
    have rows: "(if fst (requeue_update ids (sess w)) = [] then [] else
        filter (\<lambda>r. ord_id r \<in> set (fst (requeue_update ids (sess w)))) (orders (db (snd (requeue_update ids (sess w)))))) =
        moved_back ids (sess w)"
      using requeue_read_back [OF assms(2), of ids] by auto
    show ?thesis
      unfolding requeue_orders_from_offer_def ids_def [symmetric]
      by (simp only: Let_def split_beta if_not_P [OF False] rows emit_requeued_ok [OF ok])
  qed
qed

lemma requeue_effect:
  assumes "session_ok (sess w)" "distinct (map ord_id (orders (db (sess w))))"
    and "w' = requeue_orders_from_offer now h driver payload free wake w" "ids = map ps_order_id payload"
    and "back = filter (\<lambda>r. ord_id r \<in> set ids \<and> ord_status r = Assigned) (orders (db (sess w)))"
  shows "orders (db (sess w')) = update_where (\<lambda>r. ord_id r \<in> set ids \<and> ord_status r = Assigned)
        (\<lambda>r. r\<lparr>ord_status := Held, ord_updated_at := txn_now (sess w)\<rparr>) (orders (db (sess w))) \<and>
    queued_ids (queue w') h = queued_ids (queue w) h \<union> ord_id ` {r \<in> set back. ord_intake_mode r = INTAKE_LIVE} \<and>
    (\<forall>g. g \<noteq> h \<longrightarrow> queued_ids (queue w') g = queued_ids (queue w) g) \<and>
    status_log (sess w') = status_log (sess w) @ map (requeue_event now) back \<and>
    (\<forall>g d. status_of (fleet_of w') g d =
       (if free \<and> g = h \<and> d = driver \<and> status_of (fleet_of w) g d = Some Offered then Some Available
        else status_of (fleet_of w) g d))"
proof -
  note u = requeue_unfold [OF assms(1,2,4), of now h driver free wake]
  have ok: "session_ok (snd (requeue_update ids (sess w)))"
    using assms(1) by (simp add: requeue_update_def Let_def session_ok_def)
  note f = fold_emitted [OF ok, of "map (requeue_event now) (moved_back ids (sess w))"]
  have mb: "moved_back ids (sess w) = map (\<lambda>r. r\<lparr>ord_status := Held, ord_updated_at := txn_now (sess w)\<rparr>) back"
    by (simp add: moved_back_def assms(5))
  have ev: "map (requeue_event now) (moved_back ids (sess w)) = map (requeue_event now) back"
    by (simp add: mb requeue_event_def)
  have keyed: "{ps_order_id p | p. p \<in> set payload \<and> (\<exists>r. dict_of (map (\<lambda>r. (ord_id r, r)) (moved_back ids (sess w)))
        (ps_order_id p) = Some r \<and> ord_intake_mode r = INTAKE_LIVE)} = ord_id ` {r \<in> set back. ord_intake_mode r = INTAKE_LIVE}"
  proof -
    have "(\<exists>r. dict_of (map (\<lambda>r. (ord_id r, r)) (moved_back ids (sess w))) k = Some r \<and> ord_intake_mode r = INTAKE_LIVE) \<longleftrightarrow>
        (\<exists>r \<in> set back. ord_id r = k \<and> ord_intake_mode r = INTAKE_LIVE)" for k
      by (simp only: dict_of_rows [OF moved_back_ids [OF assms(2)]]) (auto simp: mb)
    then have "?thesis \<longleftrightarrow> {ps_order_id p | p. p \<in> set payload \<and> (\<exists>r \<in> set back. ord_id r = ps_order_id p \<and>
        ord_intake_mode r = INTAKE_LIVE)} = ord_id ` {r \<in> set back. ord_intake_mode r = INTAKE_LIVE}" by simp
    moreover have "ord_id r \<in> ps_order_id ` set payload" if "r \<in> set back" for r
      using that by (auto simp: assms(4,5))
    ultimately show ?thesis by (force simp: image_iff)
  qed
  have orders: "orders (db (sess w')) = update_where (\<lambda>r. ord_id r \<in> set ids \<and> ord_status r = Assigned)
        (\<lambda>r. r\<lparr>ord_status := Held, ord_updated_at := txn_now (sess w)\<rparr>) (orders (db (sess w)))"
    using f by (simp add: assms(3) u requeue_update_def Let_def)
  moreover have "queued_ids (queue w') g = (if g = h then queued_ids (queue w) g \<union>
      ord_id ` {r \<in> set back. ord_intake_mode r = INTAKE_LIVE} else queued_ids (queue w) g)" for g
    by (simp add: assms(3) u Let_def requeue_stops_queued keyed)
  moreover have "status_log (sess w') = status_log (sess w) @ map (requeue_event now) back"
    using f by (simp add: assms(3) u ev) (simp add: requeue_update_def Let_def)
  moreover have "status_of (fleet_of w') g d =
       (if free \<and> g = h \<and> d = driver \<and> status_of (fleet_of w) g d = Some Offered then Some Available
        else status_of (fleet_of w) g d)" for g d
    by (auto simp: assms(3) u status_of_set_if)
  ultimately show ?thesis by simp
qed

section \<open>Properties\<close>

text \<open>
  (C5) Requeueing an offer's orders moves exactly those still \<open>assigned\<close> back to \<open>held\<close>, and no other
  row; it queues exactly the live ones among them and logs one event for each; and it touches at
  most the offer's driver, and only if still \<open>offered\<close>. An order cancelled or given to somebody else
  meanwhile is neither moved nor queued, nor is an order of history.
\<close>

theorem requeue_sends_back_only_assigned_orders:
  assumes "session_ok (sess w)" "distinct (map ord_id (orders (db (sess w))))"
    and "w' = requeue_orders_from_offer now h driver payload free wake w" "ids = map ps_order_id payload"
    and "back = filter (\<lambda>r. ord_id r \<in> set ids \<and> ord_status r = Assigned) (orders (db (sess w)))"
  shows "orders (db (sess w')) = update_where (\<lambda>r. ord_id r \<in> set ids \<and> ord_status r = Assigned)
        (\<lambda>r. r\<lparr>ord_status := Held, ord_updated_at := txn_now (sess w)\<rparr>) (orders (db (sess w))) \<and>
    queued_ids (queue w') h = queued_ids (queue w) h \<union> ord_id ` {r \<in> set back. ord_intake_mode r = INTAKE_LIVE} \<and>
    (\<forall>g. g \<noteq> h \<longrightarrow> queued_ids (queue w') g = queued_ids (queue w) g) \<and>
    status_log (sess w') = status_log (sess w) @ map (requeue_event now) back \<and>
    (\<forall>g d. status_of (fleet_of w') g d =
       (if free \<and> g = h \<and> d = driver \<and> status_of (fleet_of w) g d = Some Offered then Some Available
        else status_of (fleet_of w) g d))"
  using assms by (rule requeue_effect)

text \<open>
  The sweep returns only orders nobody has: each order it puts back was \<open>assigned\<close>, live,
  unchanged for the grace, on no open offer of the hub and on no stop still to be done; the hub is
  not woken for it and no driver changes.
\<close>

theorem stranded_sweep_returns_only_stranded_orders:
  assumes "session_ok (sess w)" "distinct (map ord_id (orders (db (sess w))))"
    and "w' = snd (return_stranded_assignments grace locked now wall h w)" "d = db (sess w)"
    and "i \<in> queued_ids (queue w') g" "i \<notin> queued_ids (queue w) g"
  shows "g = h \<and> fleet_of w' = fleet_of w \<and> dirty_hubs (hs_bus (queue w')) = dirty_hubs (hs_bus (queue w)) \<and>
    (\<exists>r \<in> set (orders d). ord_id r = i \<and> ord_hub_id r = h \<and> ord_status r = Assigned \<and>
       ord_intake_mode r = INTAKE_LIVE \<and> ord_updated_at r < now - seconds grace \<and>
       (\<forall>f \<in> set (offers d). offer_hub_id f = h \<longrightarrow> offer_status_of f = Offer_offered \<longrightarrow>
          i \<notin> ps_order_id ` set (offer_stop_payload f)) \<and>
       (\<forall>l \<in> set (stop_orders d). \<forall>t \<in> set (stops d). so_order_id l = i \<longrightarrow> stop_id t = so_stop_id l \<longrightarrow>
          stop_status_of t \<in> set FINISHED_STOP_STATUSES))"
proof -
  let ?payload = "List.map_filter (stranded_payload d) (stranded_orders grace locked h now d)"
  have ne: "?payload \<noteq> []" using assms(3,5,6) by (auto simp: return_stranded_assignments_def Let_def assms(4))
  then have w': "w' = requeue_orders_from_offer wall h 0 ?payload False False w"
    by (simp add: assms(3) return_stranded_assignments_def Let_def assms(4))
  note u = requeue_unfold [OF assms(1,2) refl, of wall h 0 ?payload False False]
  have dirty: "dirty_hubs (hs_bus (requeue_stops h False wall by_id ps q)) = dirty_hubs (hs_bus q)" for by_id ps q
    by (induction ps arbitrary: q) (auto simp: hold_add_def Let_def split: option.split)
  note e = requeue_effect [OF assms(1,2) w' refl refl]
  have g: "g = h" using e assms(5,6) by (metis (no_types))
  have "i \<in> set (map ps_order_id ?payload)"
    using e assms(5,6) g by auto
  then obtain r where r: "r \<in> set (stranded_orders grace locked h now d)" "ord_id r = i"
    by (auto simp: set_map_filter_Some stranded_payload_def)
  then have "ord_id r \<notin> set (on_an_offer h d)"
    "ord_id r \<notin> set (on_a_stop (map ord_id (stranded_candidates grace locked h now d)) d)"
    and cand: "r \<in> set (stranded_candidates grace locked h now d)"
    by (auto simp: stranded_orders_def Let_def)
  with r(2) have "\<forall>f \<in> set (offers d). offer_hub_id f = h \<longrightarrow> offer_status_of f = Offer_offered \<longrightarrow>
          i \<notin> ps_order_id ` set (offer_stop_payload f)"
    "\<forall>l \<in> set (stop_orders d). \<forall>t \<in> set (stops d). so_order_id l = i \<longrightarrow> stop_id t = so_stop_id l \<longrightarrow>
          stop_status_of t \<in> set FINISHED_STOP_STATUSES"
    by (auto simp: on_an_offer_def) (use cand in \<open>auto simp: on_a_stop_def image_iff\<close>)
  with cand r(2) g show ?thesis by (auto simp: stranded_candidates_def w' u dirty)
qed

definition sample_payload :: "uuid \<Rightarrow> payload_stop" where
  "sample_payload i = \<lparr>ps_order_id = i, ps_lat = 1, ps_lng = 2, ps_sla_tier = ''T2'', ps_shop_name = None\<rparr>"

definition sample_world :: "order_row list \<Rightarrow> world" where
  "sample_world rows = \<lparr>sess = sample_session rows, queue = empty_store, fleet_of = sample_fleet, notices = []\<rparr>"

theorem requeue_sends_back_only_assigned_orders_witness:
  "queued_ids (queue (requeue_orders_from_offer 9 1 8 [sample_payload 6, sample_payload 7] True True
     (sample_world [sample_order 6 Cancelled, sample_order 7 Assigned]))) 1 = {7}"
proof -
  let ?w = "sample_world [sample_order 6 Cancelled, sample_order 7 Assigned]"
  have 1: "session_ok (sess ?w)" "distinct (map ord_id (orders (db (sess ?w))))" by (simp_all add: sample_world_def)
  have "queued_ids (queue (requeue_orders_from_offer 9 1 8 [sample_payload 6, sample_payload 7] True True ?w)) 1 =
      queued_ids (queue ?w) 1 \<union> ord_id ` {r \<in> set (filter (\<lambda>r. ord_id r \<in> set (map ps_order_id [sample_payload 6, sample_payload 7]) \<and>
        ord_status r = Assigned) (orders (db (sess ?w)))). ord_intake_mode r = INTAKE_LIVE}"
    by (rule requeue_sends_back_only_assigned_orders [OF 1 refl refl refl, THEN conjunct2, THEN conjunct1])
  also have "\<dots> = {7}"
    by (auto simp: sample_world_def empty_store_def queued_ids_def sample_payload_def)
  finally show ?thesis .
qed

definition sample_stranded_world :: world where
  "sample_stranded_world =
     (sample_world [sample_order 7 Assigned])\<lparr>sess := (sample_session [sample_order 7 Assigned])\<lparr>db :=
        (sample_tables [sample_order 7 Assigned])\<lparr>shops := [sample_shop 3 1 2]\<rparr>\<rparr>\<rparr>"

theorem stranded_sweep_returns_only_stranded_orders_witness:
  "\<exists>r \<in> set (orders (db (sess sample_stranded_world))). ord_id r = 7 \<and> ord_status r = Assigned \<and>
     ord_updated_at r < 200000000 - seconds 120"
proof -
  have 1: "session_ok (sess sample_stranded_world)" "distinct (map ord_id (orders (db (sess sample_stranded_world))))"
    by (simp_all add: sample_stranded_world_def session_ok_def sample_tables_def)
  have 2: "7 \<in> queued_ids (queue (snd (return_stranded_assignments 120 (\<lambda>_. False) 200000000 200000000 1 sample_stranded_world))) 1"
    by code_simp
  have 3: "7 \<notin> queued_ids (queue sample_stranded_world) 1" by code_simp
  from stranded_sweep_returns_only_stranded_orders [OF 1 refl refl 2 3] show ?thesis by blast
qed

end
