(* ===== verification/Interference.thy ===== *)
theory Interference
  imports Requeue
begin

text \<open>
  What the operations of an order's life keep of a session while other transactions commit: unique
  primary keys and fresh identifiers (\<open>sane\<close>). Every operation keeps it as long as what the others do
  keeps it, and \<open>advance_single\<close> is what \<open>advance_orders\<close> does to one order then.
\<close>

section \<open>Sessions that stay in order\<close>

definition sane :: "session \<Rightarrow> bool" where
  "sane s \<longleftrightarrow> session_ok s \<and> distinct (map ord_id (orders (db s)))"

definition keeps_keys :: "interference \<Rightarrow> bool" where
  "keeps_keys env \<longleftrightarrow> (\<forall>k rows. distinct (map ord_id rows) \<longrightarrow> distinct (map ord_id (env k rows)))"

definition keeps_sane :: "(db \<Rightarrow> db) \<Rightarrow> bool" where
  "keeps_sane f \<longleftrightarrow> (\<forall>s. sane s \<longrightarrow> sane (interfere_db f s))"

lemma map_ord_id_update [simp]:
  "map ord_id (update_where p (\<lambda>r. r\<lparr>ord_status := x, ord_updated_at := y\<rparr>) rows) = map ord_id rows"
  "map ord_id (update_where p (\<lambda>r. r\<lparr>ord_delivered_at := z\<rparr>) rows) = map ord_id rows"
  by (simp_all add: map_update_where_inv)

lemma advance_rows_keys:
  assumes "keeps_keys env"
  shows "sane s \<Longrightarrow> sane (snd (advance_rows env k pre new t rows s))"
proof (induction rows arbitrary: k s)
  case (Cons r rows)
  let ?s1 = "interfere (env k) s"
  have s1: "sane ?s1" using Cons.prems assms by (simp add: sane_def keeps_keys_def)
  show ?case
  proof (cases "conditional_update (ord_id r) pre new ?s1")
    case None
    then show ?thesis using Cons.IH [OF s1, of "Suc k"] Cons.IH [OF Cons.prems, of "Suc k"] by (simp add: Let_def)
  next
    case (Some s2)
    have s2: "sane (stamp_delivered r new t s2)"
      using conditional_update_Some [OF Some] s1 by (simp add: sane_def session_ok_def stamp_delivered_def)
    then have "sane (emit_for r new t (stamp_delivered r new t s2))"
      using emit_for_contract [of "stamp_delivered r new t s2" r new t] by (simp add: sane_def)
    from Cons.IH [OF this, of "Suc k"] show ?thesis
      using Some Cons.IH [OF Cons.prems, of "Suc k"] by (simp add: Let_def split_beta)
  qed
qed simp

lemma sane_advance: "keeps_keys env \<Longrightarrow> sane s \<Longrightarrow> sane (snd (advance_orders env now t pre ids new s))"
  by (simp add: advance_orders_def advance_rows_keys)

lemma sane_requeue:
  assumes "sane (sess w)"
  shows "sane (sess (requeue_orders_from_offer now h d payload free wake w))"
proof -
  have ok: "session_ok (sess w)" "distinct (map ord_id (orders (db (sess w))))" using assms by (simp_all add: sane_def)
  have "session_ok (snd (requeue_update ids (sess w)))" for ids
    using ok(1) by (simp add: requeue_update_def Let_def session_ok_def)
  then show ?thesis
    using fold_emitted ok(2) unfolding requeue_unfold [OF ok refl]
    by (simp add: sane_def) (simp add: requeue_update_def Let_def)
qed

lemma sane_others: "keeps_sane f \<Longrightarrow> sane s \<Longrightarrow> sane (interfere_db f s)"
  by (simp add: keeps_sane_def)

lemma sane_db:
  "sane s \<Longrightarrow> orders d = orders (db s) \<Longrightarrow> deliveries d = deliveries (db s) \<Longrightarrow> endpoints d = endpoints (db s) \<Longrightarrow>
     sane (s\<lparr>db := d\<rparr>)"
  by (simp add: sane_def session_ok_def)

lemma take_orders_off_stop_tables:
  "orders (snd (take_orders_off_stop lv st d)) = orders d \<and> deliveries (snd (take_orders_off_stop lv st d)) = deliveries d \<and>
   endpoints (snd (take_orders_off_stop lv st d)) = endpoints d"
  by (simp add: take_orders_off_stop_def Let_def update_stop_def)

lemma take_orders_off_stops_tables:
  "orders (snd (take_orders_off_stops lv sts d)) = orders d \<and> deliveries (snd (take_orders_off_stops lv sts d)) = deliveries d \<and>
   endpoints (snd (take_orders_off_stops lv sts d)) = endpoints d"
proof (induction sts arbitrary: d)
  case (Cons st sts)
  then show ?case using take_orders_off_stop_tables [of lv st d] by (simp add: Let_def split_beta)
qed simp

lemma sane_mark_current:
  assumes "keeps_sane others" "keeps_keys env" "sane s"
  shows "sane (snd (mark_current_stop_en_route others env now rid s))"
proof -
  have drop: "sane q \<Longrightarrow> sane (advance_dropoff env now c q)" for c q
    using assms(2) by (simp add: advance_dropoff_def Let_def sane_advance)
  have s1: "sane (interfere_db others s)" using assms by (intro sane_others)
  then have "sane ((interfere_db others s)\<lparr>db := (db (interfere_db others s))\<lparr>stops := x\<rparr>\<rparr>)" for x
    by (intro sane_db) simp_all
  with s1 assms(3) drop show ?thesis
    by (auto simp: mark_current_stop_en_route_def Let_def split: option.split)
qed

lemma advance_single:
  assumes "sane s" "pre = precondition_of only new" "t = (case occ of None \<Rightarrow> now | Some u \<Rightarrow> u)"
  shows "advance_orders env now occ only [i] new s =
    (case lookup_by ord_id i (orders (db s)) of
       None \<Rightarrow> ([], s)
     | Some r \<Rightarrow>
         if \<not> may_move pre new r then ([], s)
         else case conditional_update i pre new (interfere (env 0) s) of
           None \<Rightarrow> ([], interfere (env 0) s)
         | Some s2 \<Rightarrow> ([moved_order r new t (txn_now s2)], emit_for r new t (stamp_delivered r new t s2)))"
proof (cases "lookup_by ord_id i (orders (db s))")
  case None
  then have "set (read_rows [i] s) = {}" by (auto simp: set_read_rows lookup_by_None)
  then have "read_rows [i] s = []" by simp
  with None show ?thesis by (simp add: advance_orders_def)
next
  case (Some r)
  then have r: "r \<in> set (orders (db s))" "ord_id r = i" using lookup_by_Some by force+
  have "set (read_rows [i] s) = {r}"
    using r assms(1) by (auto simp: set_read_rows sane_def distinct_map dest: inj_onD)
  then have "read_rows [i] s = [r]"
    using assms(1) by (intro distinct_set_single distinct_read_rows) (simp_all add: sane_def)
  with Some r(2) show ?thesis
    by (auto simp: advance_orders_def assms(2,3) may_move_def Let_def split: option.split)
qed

text \<open>
  The guarded write of one order to any status but delivered: the row it met had a status of the
  precondition, and nothing else in the table changed.
\<close>

definition moved_in :: "order_status list \<Rightarrow> order_status \<Rightarrow> uuid \<Rightarrow> instant \<Rightarrow> order_row list \<Rightarrow> order_row list" where
  "moved_in pre new i t rows = update_where (\<lambda>r. ord_id r = i \<and> ord_status r \<in> set pre)
     (\<lambda>r. r\<lparr>ord_status := new, ord_updated_at := t\<rparr>) rows"

lemma single_write:
  assumes "sane s" "advance_orders env now occ only [i] new s = (moved, s')" "moved \<noteq> []" "new \<noteq> Delivered"
    "pre = precondition_of only new"
  shows "(\<exists>r \<in> set (env 0 (orders (db s))). ord_id r = i \<and> ord_status r \<in> set pre) \<and>
    orders (db s') = moved_in pre new i (txn_now s) (env 0 (orders (db s))) \<and>
    (\<exists>ds. db s' = (db s)\<lparr>orders := moved_in pre new i (txn_now s) (env 0 (orders (db s))),
      deliveries := deliveries (db s) @ ds\<rparr>)"
proof -
  let ?t = "case occ of None \<Rightarrow> now | Some u \<Rightarrow> u"
  obtain r where r: "lookup_by ord_id i (orders (db s)) = Some r" "may_move pre new r"
    using assms by (auto simp: advance_single [OF assms(1) refl refl] split: option.splits if_splits)
  obtain s2 where s2: "conditional_update i pre new (interfere (env 0) s) = Some s2"
    "s' = emit_for r new ?t (stamp_delivered r new ?t s2)"
    using assms(2,3,5) r by (auto simp: advance_single [OF assms(1) refl refl] split: option.splits)
  have ok: "session_ok s2"
    using assms(1) conditional_update_Some [OF s2(1)] by (simp add: sane_def session_ok_def interfere_def)
  have st: "stamp_delivered r new ?t s2 = s2" using assms(4) by (simp add: stamp_delivered_def)
  have "\<exists>r \<in> set (env 0 (orders (db s))). ord_id r = i \<and> ord_status r \<in> set pre"
    using s2(1) by (auto simp: conditional_update_def split: if_splits)
  moreover obtain ds where "db s' = (db s2)\<lparr>deliveries := deliveries (db s2) @ ds\<rparr>"
    unfolding s2(2) st using emit_for_deliveries [OF ok] by blast
  moreover have "db s2 = (db s)\<lparr>orders := moved_in pre new i (txn_now s) (env 0 (orders (db s)))\<rparr>"
    using conditional_update_Some [OF s2(1)] by (simp add: interfere_def moved_in_def)
  ultimately show ?thesis by auto
qed

section \<open>What stays\<close>

definition ignores_stops :: "(db \<Rightarrow> 'a) \<Rightarrow> bool" where
  "ignores_stops view \<longleftrightarrow> (\<forall>d x. view (d\<lparr>stops := x\<rparr>) = view d)"

lemma fold_emitted_frame: "ignores_orders view \<Longrightarrow> view (db (fold emitted es s)) = view (db s)"
  by (induction es arbitrary: s) (simp_all add: emitted_frame)

lemma requeue_frame:
  assumes "sane (sess w)" "ignores_orders view"
  shows "view (db (sess (requeue_orders_from_offer now h d payload free wake w))) = view (db (sess w))"
proof -
  have ok: "session_ok (sess w)" "distinct (map ord_id (orders (db (sess w))))" using assms(1) by (simp_all add: sane_def)
  show ?thesis
    unfolding requeue_unfold [OF ok refl] using assms(2)
    by (simp add: fold_emitted_frame requeue_update_def Let_def ignores_orders_def)
qed

lemma mark_current_frame:
  assumes "sane s" "keeps_sane others" "ignores_orders view" "ignores_stops view" "\<And>d. view (others d) = view d"
  shows "view (db (snd (mark_current_stop_en_route others env now rid s))) = view (db s)"
proof -
  have drop: "view (db (advance_dropoff env now c q)) = view (db q)" if "session_ok q" for c q
    using advance_orders_frame [OF that assms(3)] by (simp add: advance_dropoff_def Let_def)
  have s1: "session_ok (interfere_db others s)" using sane_others [OF assms(2,1)] by (simp add: sane_def)
  then have "session_ok ((interfere_db others s)\<lparr>db := (db (interfere_db others s))\<lparr>stops := x\<rparr>\<rparr>)" for x
    by (simp add: session_ok_def)
  note drop2 = drop [OF this]
  show ?thesis
    using assms(1,4,5) drop drop2
    by (auto simp: mark_current_stop_en_route_def Let_def sane_def ignores_stops_def interfere_db_def split: option.split)
qed

end
