(* ===== verification/Dwell.thy ===== *)
theory Dwell
  imports Tables Py_Float
begin

text \<open>
  How long to plan on spending at a dock (\<open>src/app/identity/inherited_dwell.py\<close>) and the alias chain
  of merged docks it is looked up through (\<open>canonical_location\<close> in
  \<open>src/app/identity/resolution.py\<close>). The loop over the chain is the code's own, bounded by
  \<open>_MAX_ALIAS_DEPTH\<close>.
\<close>

section \<open>The alias chain\<close>

datatype alias_error = Alias_cycle uuid | Alias_chain_too_long uuid

definition MAX_ALIAS_DEPTH :: nat where
  "MAX_ALIAS_DEPTH = 16"

fun follow_alias :: "location_row list \<Rightarrow> uuid \<Rightarrow> nat \<Rightarrow> uuid list \<Rightarrow> location_row \<Rightarrow> alias_error + location_row" where
  "follow_alias locs start 0 seen current = Inl (Alias_chain_too_long start)"
| "follow_alias locs start (Suc n) seen current =
     (case location_merged_into_id current of
        None \<Rightarrow> Inr current
      | Some target \<Rightarrow>
          (case lookup_by location_id target locs of
             None \<Rightarrow> Inr current
           | Some nxt \<Rightarrow>
               if location_id nxt \<in> set seen then Inl (Alias_cycle (location_id nxt))
               else follow_alias locs start n (location_id nxt # seen) nxt))"

definition canonical_location :: "location_row list \<Rightarrow> location_row \<Rightarrow> alias_error + location_row" where
  "canonical_location locs loc = follow_alias locs (location_id loc) MAX_ALIAS_DEPTH [location_id loc] loc"

section \<open>The dwell figure\<close>

definition MIN_OWN_SAMPLES :: int where "MIN_OWN_SAMPLES = 10"
definition THIN_SAMPLE_COUNT :: int where "THIN_SAMPLE_COUNT = 5"
definition PLANNING_FLOOR_MINUTES :: rat where "PLANNING_FLOOR_MINUTES = 1"
definition PLACEHOLDER_STOP_SERVICE_MINUTES :: rat where "PLACEHOLDER_STOP_SERVICE_MINUTES = 8"

datatype dwell_source = SOURCE_OBSERVED | SOURCE_INHERITED

text \<open>\<open>DwellEstimate\<close> without its sentence \<open>why\<close>, which nothing reads back.\<close>

record dwell_estimate_rec =
  de_p50_seconds :: "int option"
  de_sample_count :: int
  de_source :: "dwell_source option"

definition is_thin :: "dwell_estimate_rec \<Rightarrow> bool" where
  "is_thin e \<longleftrightarrow> de_p50_seconds e \<noteq> None \<and> 0 < de_sample_count e \<and> de_sample_count e < THIN_SAMPLE_COUNT"

definition or_zero :: "int option \<Rightarrow> int" where
  "or_zero n = (case n of None \<Rightarrow> 0 | Some k \<Rightarrow> k)"

definition dwell_estimate :: "profile_row option \<Rightarrow> dwell_estimate_rec" where
  "dwell_estimate profile =
     (let nothing = \<lparr>de_p50_seconds = None, de_sample_count = 0, de_source = None\<rparr> in
      case profile of
        None \<Rightarrow> nothing
      | Some p \<Rightarrow>
          let own = profile_dwell_sample_count p in
          if MIN_OWN_SAMPLES \<le> own \<and> profile_dwell_p50_seconds p \<noteq> None then
            \<lparr>de_p50_seconds = profile_dwell_p50_seconds p, de_sample_count = own, de_source = Some SOURCE_OBSERVED\<rparr>
          else if profile_inherited_dwell_p50_seconds p \<noteq> None then
            \<lparr>de_p50_seconds = profile_inherited_dwell_p50_seconds p,
             de_sample_count = or_zero (profile_inherited_dwell_sample_count p), de_source = Some SOURCE_INHERITED\<rparr>
          else if own \<noteq> 0 \<and> profile_dwell_p50_seconds p \<noteq> None then
            \<lparr>de_p50_seconds = profile_dwell_p50_seconds p, de_sample_count = own, de_source = Some SOURCE_OBSERVED\<rparr>
          else nothing)"

definition planning_seconds :: "profile_row option \<Rightarrow> int option" where
  "planning_seconds profile =
     (let estimate = dwell_estimate profile;
          secs = (if \<not> is_thin estimate then de_p50_seconds estimate else None) in
      case (secs, profile) of
        (None, Some p) \<Rightarrow>
          (if profile_dwell_p50_seconds p \<noteq> None \<and> THIN_SAMPLE_COUNT \<le> profile_dwell_sample_count p
           then profile_dwell_p50_seconds p else None)
      | (s, _) \<Rightarrow> s)"

definition planning_service_minutes :: "profile_row option \<Rightarrow> rat" where
  "planning_service_minutes profile =
     (case planning_seconds profile of
        None \<Rightarrow> PLACEHOLDER_STOP_SERVICE_MINUTES
      | Some s \<Rightarrow> max (fdiv (of_py_int s) 60) PLANNING_FLOOR_MINUTES)"

text \<open>
  The profile found for a dock asked about: the surviving dock's, absent for an unknown dock or a
  corrupt chain.
\<close>

definition profiles_by_location :: "db \<Rightarrow> uuid \<Rightarrow> profile_row option" where
  "profiles_by_location d asked =
     (case lookup_by location_id asked (locations d) of
        None \<Rightarrow> None
      | Some loc \<Rightarrow>
          (case canonical_location (locations d) loc of
             Inl _ \<Rightarrow> None
           | Inr dock \<Rightarrow> dict_of (map (\<lambda>p. (profile_location_id p, p)) (profiles d)) (location_id dock)))"

definition service_minutes_at :: "db \<Rightarrow> uuid option \<Rightarrow> rat" where
  "service_minutes_at d loc =
     (case loc of
        None \<Rightarrow> PLACEHOLDER_STOP_SERVICE_MINUTES
      | Some l \<Rightarrow> planning_service_minutes (profiles_by_location d l))"

section \<open>Properties\<close>

inductive alias_step :: "location_row list \<Rightarrow> location_row \<Rightarrow> location_row \<Rightarrow> bool" for locs where
  "location_merged_into_id x = Some t \<Longrightarrow> lookup_by location_id t locs = Some y \<Longrightarrow> alias_step locs x y"

inductive_simps alias_step_iff: "alias_step locs x y"

fun alias_path :: "location_row list \<Rightarrow> location_row \<Rightarrow> location_row list \<Rightarrow> bool" where
  "alias_path locs x [] = True"
| "alias_path locs x (y # ys) = (alias_step locs x y \<and> alias_path locs y ys)"

lemma follow_alias_end:
  "follow_alias locs start n seen c = Inr r \<Longrightarrow> (alias_step locs)\<^sup>*\<^sup>* c r \<and> (\<forall>y. \<not> alias_step locs r y)"
proof (induction n arbitrary: seen c)
  case (Suc n)
  show ?case
  proof (cases "\<exists>y. alias_step locs c y")
    case True
    then obtain y where y: "alias_step locs c y" ..
    then obtain t where t: "location_merged_into_id c = Some t" "lookup_by location_id t locs = Some y"
      by (auto simp: alias_step_iff)
    with Suc.prems have "follow_alias locs start n (location_id y # seen) y = Inr r"
      by (simp split: if_splits)
    from Suc.IH [OF this] y show ?thesis by (auto intro: converse_rtranclp_into_rtranclp)
  next
    case False
    with Suc.prems show ?thesis by (auto simp: alias_step_iff split: option.splits)
  qed
qed simp

lemma follow_alias_complete:
  "alias_path locs c cs \<Longrightarrow> (\<forall>y. \<not> alias_step locs (last (c # cs)) y) \<Longrightarrow> length cs < n \<Longrightarrow>
     distinct (map location_id cs) \<Longrightarrow> location_id ` set cs \<inter> set seen = {} \<Longrightarrow>
     follow_alias locs start n seen c = Inr (last (c # cs))"
proof (induction cs arbitrary: n seen c)
  case Nil
  then obtain m where "n = Suc m" by (cases n) auto
  with Nil show ?case by (auto simp: alias_step_iff split: option.split)
next
  case (Cons y cs)
  then obtain m where m: "n = Suc m" by (cases n) auto
  have step: "alias_step locs c y" "alias_path locs y cs" using Cons.prems(1) by simp_all
  have "follow_alias locs start m (location_id y # seen) y = Inr (last (y # cs))"
    using Cons.prems m by (intro Cons.IH step(2)) auto
  with step(1) Cons.prems(5) m show ?case by (auto simp: alias_step_iff)
qed

text \<open>
  Following the alias chain of a merged dock returns its end, a dock on the chain that is merged
  into nothing; and whenever the chain is free of repetition and shorter than the bound, it is found
  (the error cases are a cycle or an over-long chain only).
\<close>

theorem canonical_location_finds_the_surviving_dock:
  "(canonical_location locs l = Inr r \<longrightarrow> (alias_step locs)\<^sup>*\<^sup>* l r \<and> (\<forall>y. \<not> alias_step locs r y)) \<and>
   (alias_path locs l cs \<and> distinct (map location_id (l # cs)) \<and> length cs < MAX_ALIAS_DEPTH \<and>
      (\<forall>y. \<not> alias_step locs (last (l # cs)) y) \<longrightarrow> canonical_location locs l = Inr (last (l # cs)))"
proof (intro conjI impI)
  assume "canonical_location locs l = Inr r"
  from follow_alias_end [OF this [unfolded canonical_location_def]]
  show "(alias_step locs)\<^sup>*\<^sup>* l r" "\<forall>y. \<not> alias_step locs r y" by simp_all
next
  assume "alias_path locs l cs \<and> distinct (map location_id (l # cs)) \<and> length cs < MAX_ALIAS_DEPTH \<and>
      (\<forall>y. \<not> alias_step locs (last (l # cs)) y)"
  then show "canonical_location locs l = Inr (last (l # cs))"
    unfolding canonical_location_def by (intro follow_alias_complete) auto
qed

theorem canonical_location_finds_the_surviving_dock_witness:
  "canonical_location [sample_dock 1 (Some 2), sample_dock 2 None] (sample_dock 1 (Some 2)) = Inr (sample_dock 2 None)"
  using canonical_location_finds_the_surviving_dock [of "[sample_dock 1 (Some 2),
      sample_dock 2 None]" "sample_dock 1 (Some 2)"
      _ "[sample_dock 2 None]"]
  by (simp add: alias_step_iff MAX_ALIAS_DEPTH_def)

text \<open>
  A planned stop time is never below the floor of one minute, and it rests on our own median over
  five or more stops or on an inherited one over five or more visits, with one exception: an inherited
  figure whose count is missing or zero is used as well. Otherwise it is the flat placeholder.
\<close>

theorem planned_dwell_rests_on_enough_visits:
  assumes "0 \<le> profile_dwell_sample_count p"
  shows "PLANNING_FLOOR_MINUTES \<le> planning_service_minutes (Some p) \<and>
    (case planning_seconds (Some p) of
       None \<Rightarrow> planning_service_minutes (Some p) = PLACEHOLDER_STOP_SERVICE_MINUTES
     | Some s \<Rightarrow>
         profile_dwell_p50_seconds p = Some s \<and> THIN_SAMPLE_COUNT \<le> profile_dwell_sample_count p \<or>
         profile_inherited_dwell_p50_seconds p = Some s \<and>
           (THIN_SAMPLE_COUNT \<le> or_zero (profile_inherited_dwell_sample_count p) \<or>
            or_zero (profile_inherited_dwell_sample_count p) \<le> 0))"
proof -
  have floor: "PLANNING_FLOOR_MINUTES \<le> planning_service_minutes (Some p)"
    by (simp add: planning_service_minutes_def PLACEHOLDER_STOP_SERVICE_MINUTES_def PLANNING_FLOOR_MINUTES_def
        split: option.split)
  show ?thesis
  proof (cases "planning_seconds (Some p)")
    case None
    then show ?thesis using floor by (simp add: planning_service_minutes_def)
  next
    case (Some s)
    then show ?thesis using floor assms
      by (auto simp: planning_seconds_def dwell_estimate_def is_thin_def Let_def MIN_OWN_SAMPLES_def THIN_SAMPLE_COUNT_def
          split: if_splits option.splits)
  qed
qed

theorem planned_dwell_rests_on_enough_visits_witness:
  "PLANNING_FLOOR_MINUTES \<le> planning_service_minutes (Some \<lparr>profile_location_id = 1, profile_dwell_sample_count = 3,
     profile_dwell_p50_seconds = Some 0, profile_inherited_dwell_p50_seconds = Some 240,
     profile_inherited_dwell_sample_count = Some 7\<rparr>)"
  using planned_dwell_rests_on_enough_visits [of "\<lparr>profile_location_id = 1, profile_dwell_sample_count = 3,
     profile_dwell_p50_seconds = Some 0, profile_inherited_dwell_p50_seconds = Some 240,
     profile_inherited_dwell_sample_count = Some 7\<rparr>"] by simp

end
