(* ===== verification/Eta.thy ===== *)
theory Eta
  imports Dwell Hold_Queue
begin

text \<open>
  Per-stop arrival times (\<open>src/app/delivery/eta.py\<close>) over the shared travel model
  (\<open>src/app/travel.py\<close>). The geodesic is the parameter \<open>miles\<close>, as in the hold queue; the properties
  assume only that it is never negative. A \<open>Numeric\<close> column holds the decimal and \<open>float\<close> of it is
  the nearest float.
\<close>

section \<open>Travel\<close>

definition PLACEHOLDER_AVERAGE_SPEED_MPH :: rat where "PLACEHOLDER_AVERAGE_SPEED_MPH = 18"

definition minutes_for_miles :: "rat \<Rightarrow> rat" where
  "minutes_for_miles m =
     (if PLACEHOLDER_AVERAGE_SPEED_MPH \<le> 0 then 0 else fmul (fdiv m PLACEHOLDER_AVERAGE_SPEED_MPH) 60)"

section \<open>Points\<close>

definition REACHED :: "stop_status list" where
  "REACHED = [Stop_arrived, Stop_completed, Stop_failed, Stop_cancelled]"

record point =
  pt_stop_id :: uuid
  pt_sequence :: int
  pt_status :: stop_status
  pt_at :: "(rat \<times> rat) option"
  pt_arrived_at :: "instant option"
  pt_completed_at :: "instant option"
  pt_flagged_at :: "instant option"
  pt_service_minutes :: rat

definition reached :: "point \<Rightarrow> bool" where
  "reached p \<longleftrightarrow> pt_status p \<in> set REACHED"

definition observed_at :: "point \<Rightarrow> instant option" where
  "observed_at p =
     (case pt_completed_at p of Some t \<Rightarrow> Some t
      | None \<Rightarrow> (case pt_flagged_at p of Some t \<Rightarrow> Some t | None \<Rightarrow> pt_arrived_at p))"

text \<open>Where a stop is, and its dock: a pickup's shop, a drop-off's order.\<close>

definition stop_place :: "db \<Rightarrow> stop_row \<Rightarrow> (rat \<times> rat) option \<times> uuid option" where
  "stop_place d stop =
     (if stop_type_of stop = Pickup then
        (case Option.bind (stop_shop_id stop) (\<lambda>i. lookup_by shop_id i (shops d)) of
           None \<Rightarrow> (None, None)
         | Some shop \<Rightarrow> (Some (shop_lat shop, shop_lng shop), shop_location_id shop))
      else
        (case Option.bind (map_option so_order_id (lookup_by so_stop_id (stop_id stop) (stop_orders d)))
                (\<lambda>i. order_by_id i d) of
           None \<Rightarrow> (None, None)
         | Some order \<Rightarrow>
             ((case (ord_delivery_lat order, ord_delivery_lng order) of
                 (Some lat, Some lng) \<Rightarrow> Some (fl lat, fl lng)
               | _ \<Rightarrow> None),
              ord_delivery_location_id order)))"

definition point_of :: "db \<Rightarrow> stop_row \<Rightarrow> point" where
  "point_of d stop =
     \<lparr>pt_stop_id = stop_id stop, pt_sequence = stop_sequence stop, pt_status = stop_status_of stop,
      pt_at = fst (stop_place d stop), pt_arrived_at = stop_arrived_at stop,
      pt_completed_at = stop_completed_at stop, pt_flagged_at = stop_flagged_at stop,
      pt_service_minutes = service_minutes_at d (snd (stop_place d stop))\<rparr>"

definition points :: "db \<Rightarrow> uuid \<Rightarrow> point list" where
  "points d rid =
     map (point_of d)
       (sort_key stop_sequence (filter (\<lambda>s. stop_route_id s = rid \<and> stop_type_of s \<noteq> Visit) (stops d)))"

section \<open>The anchor\<close>

text \<open>\<open>max(xs, key=...)\<close>: the first of the largest.\<close>

fun max_by :: "('a \<Rightarrow> int) \<Rightarrow> 'a list \<Rightarrow> 'a option" where
  "max_by key [] = None"
| "max_by key (x # xs) =
     (case max_by key xs of None \<Rightarrow> Some x | Some y \<Rightarrow> if key y \<le> key x then Some x else Some y)"

definition anchor :: "db \<Rightarrow> route_row \<Rightarrow> point list \<Rightarrow> instant \<Rightarrow> ((rat \<times> rat) \<times> instant) option" where
  "anchor d route ps now =
     (let ping = max_by ping_recorded_at (filter (\<lambda>g. ping_driver_id g = route_driver_id route) (pings d));
          seen = List.map_filter (\<lambda>p. if reached p then
             (case (pt_at p, observed_at p) of (Some xy, Some t) \<Rightarrow> Some (xy, t) | _ \<Rightarrow> None) else None) ps;
          candidates = (case ping of None \<Rightarrow> [] | Some g \<Rightarrow> [((ping_lat g, ping_lng g), ping_recorded_at g)])
             @ (if seen = [] then [] else [last seen]) in
      case max_by snd candidates of
        Some c \<Rightarrow> Some c
      | None \<Rightarrow> map_option (\<lambda>h. ((hub_lat h, hub_lng h), now)) (lookup_by hub_id (route_hub_id route) (hubs d)))"

section \<open>The walk\<close>

datatype eta_reason = Eta_ok | Eta_no_route | Eta_no_stops | Eta_no_anchor | Eta_unlocated int

text \<open>The arrival time of each stop not yet reached, up to the first that has no place.\<close>

fun walk :: "distance \<Rightarrow> rat \<times> rat \<Rightarrow> instant \<Rightarrow> point list \<Rightarrow> (uuid \<times> instant) list \<times> eta_reason" where
  "walk miles xy cursor [] = ([], Eta_ok)"
| "walk miles xy cursor (p # ps) =
     (if reached p then walk miles xy cursor ps
      else case pt_at p of
        None \<Rightarrow> ([], Eta_unlocated (pt_sequence p))
      | Some pq \<Rightarrow>
          let eta = cursor + timedelta_minutes (minutes_for_miles (miles (fst xy) (snd xy) (fst pq) (snd pq)));
              (rest, why) = walk miles pq (eta + timedelta_minutes (pt_service_minutes p)) ps
          in ((pt_stop_id p, eta) # rest, why))"

text \<open>When the driver leaves where they are: not before now, nor before the dwell at the door ends.\<close>

definition start_cursor :: "point list \<Rightarrow> instant \<Rightarrow> instant \<Rightarrow> instant" where
  "start_cursor ps seen_at now =
     (let cursor = max seen_at now;
          seen = List.map_filter (\<lambda>p. if reached p then map_option (\<lambda>t. (t, p)) (observed_at p) else None) ps in
      case max_by fst seen of
        None \<Rightarrow> cursor
      | Some (_, current) \<Rightarrow>
          (case pt_arrived_at current of
             Some t \<Rightarrow> if pt_status current = Stop_arrived \<and> pt_completed_at current = None
               then max cursor (t + timedelta_minutes (pt_service_minutes current)) else cursor
           | None \<Rightarrow> cursor))"

definition write_eta :: "uuid \<times> instant \<Rightarrow> stop_row list \<Rightarrow> stop_row list" where
  "write_eta w rows = update_where (\<lambda>r. stop_id r = fst w)
     (\<lambda>r. r\<lparr>stop_eta := Some (snd w),
        stop_planned_eta := (case stop_planned_eta r of None \<Rightarrow> Some (snd w) | p \<Rightarrow> p)\<rparr>) rows"

definition refresh_route_etas :: "distance \<Rightarrow> instant \<Rightarrow> uuid \<Rightarrow> db \<Rightarrow> (nat \<times> eta_reason) \<times> db" where
  "refresh_route_etas miles now rid d =
     (case lookup_by route_id rid (routes d) of
        None \<Rightarrow> ((0, Eta_no_route), d)
      | Some route \<Rightarrow>
          let ps = points d rid in
          if ps = [] then ((0, Eta_no_stops), d)
          else case anchor d route ps now of
            None \<Rightarrow> ((0, Eta_no_anchor), d)
          | Some (xy, seen_at) \<Rightarrow>
              let (ws, why) = walk miles xy (start_cursor ps seen_at now) ps
              in ((length ws, why), d\<lparr>stops := fold write_eta ws (stops d)\<rparr>))"

section \<open>Estimates before and after\<close>

definition straight_line_delivery_estimate :: "distance \<Rightarrow> db \<Rightarrow> order_row \<Rightarrow> instant option" where
  "straight_line_delivery_estimate miles d order =
     (case (ord_hold_deadline order, ord_delivery_lat order, ord_delivery_lng order) of
        (Some hold, Some lat, Some lng) \<Rightarrow>
          (case Option.bind (ord_shop_id order) (\<lambda>i. lookup_by shop_id i (shops d)) of
             None \<Rightarrow> None
           | Some shop \<Rightarrow> Some (hold + timedelta_minutes (minutes_for_miles
               (miles (shop_lat shop) (shop_lng shop) (fl lat) (fl lng)))))
      | _ \<Rightarrow> None)"

definition NOTHING_ARRIVING :: "order_status list" where
  "NOTHING_ARRIVING = [Cancelled, Delivery_failed, Returned]"

definition STOP_NO_LONGER_LIVE :: "stop_status list" where
  "STOP_NO_LONGER_LIVE = [Stop_failed, Stop_cancelled]"

definition order_arrival_estimate ::
    "distance \<Rightarrow> db \<Rightarrow> order_row \<Rightarrow> stop_status option \<Rightarrow> instant option \<Rightarrow> instant option" where
  "order_arrival_estimate miles d order st eta =
     (if ord_status order \<in> set NOTHING_ARRIVING then None
      else case st of
        Some x \<Rightarrow> if x \<notin> set STOP_NO_LONGER_LIVE then eta else straight_line_delivery_estimate miles d order
      | None \<Rightarrow> straight_line_delivery_estimate miles d order)"

section \<open>Lemmas\<close>

lemma minutes_for_miles_nonneg: "0 \<le> m \<Longrightarrow> 0 \<le> minutes_for_miles m"
  by (simp add: minutes_for_miles_def PLACEHOLDER_AVERAGE_SPEED_MPH_def fmul_nonneg fdiv_nonneg)

lemma planning_service_minutes_floor: "PLANNING_FLOOR_MINUTES \<le> planning_service_minutes p"
  by (simp add: planning_service_minutes_def PLACEHOLDER_STOP_SERVICE_MINUTES_def PLANNING_FLOOR_MINUTES_def
      split: option.split)

lemma service_minutes_at_floor: "PLANNING_FLOOR_MINUTES \<le> service_minutes_at d l"
  by (simp add: service_minutes_at_def planning_service_minutes_floor split: option.split)
    (simp add: PLACEHOLDER_STOP_SERVICE_MINUTES_def PLANNING_FLOOR_MINUTES_def)

lemma timedelta_service_nonneg: "PLANNING_FLOOR_MINUTES \<le> m \<Longrightarrow> 0 \<le> timedelta_minutes m"
  by (rule timedelta_minutes_nonneg) (simp add: PLANNING_FLOOR_MINUTES_def)

text \<open>The stops a walk dates: those not reached, up to the first that has no place.\<close>

definition dated :: "point list \<Rightarrow> point list" where
  "dated ps = takeWhile (\<lambda>p. pt_at p \<noteq> None) (filter (\<lambda>p. \<not> reached p) ps)"

lemma walk_ids: "map fst (fst (walk miles xy cursor ps)) = map pt_stop_id (dated ps)"
  by (induction ps arbitrary: xy cursor)
    (auto simp: dated_def Let_def split_beta split: option.split)

lemma walk_forward:
  assumes "\<And>a b c e. 0 \<le> miles a b c e" "\<And>p. p \<in> set ps \<Longrightarrow> PLANNING_FLOOR_MINUTES \<le> pt_service_minutes p"
  shows "sorted (map snd (fst (walk miles xy cursor ps))) \<and>
    (\<forall>w \<in> set (fst (walk miles xy cursor ps)). cursor \<le> snd w)"
  using assms(2)
proof (induction ps arbitrary: xy cursor)
  case (Cons p ps)
  show ?case
  proof (cases "reached p \<or> pt_at p = None")
    case True
    then show ?thesis using Cons by (auto split: option.split)
  next
    case False
    then obtain pq where pq: "pt_at p = Some pq" by auto
    let ?eta = "cursor + timedelta_minutes (minutes_for_miles (miles (fst xy) (snd xy) (fst pq) (snd pq)))"
    let ?next = "?eta + timedelta_minutes (pt_service_minutes p)"
    have ge: "cursor \<le> ?eta" "?eta \<le> ?next"
      using assms(1) Cons.prems by (simp_all add: timedelta_minutes_nonneg minutes_for_miles_nonneg timedelta_service_nonneg)
    have IH: "sorted (map snd (fst (walk miles pq ?next ps)))"
      "\<And>w. w \<in> set (fst (walk miles pq ?next ps)) \<Longrightarrow> ?next \<le> snd w"
      using Cons.IH [of pq ?next] Cons.prems by auto
    have "?eta \<le> snd w \<and> cursor \<le> snd w" if "w \<in> set (fst (walk miles pq ?next ps))" for w
      using IH(2) [OF that] ge by linarith
    then show ?thesis using IH(1) ge(1) False pq by (auto simp: Let_def split_beta)
  qed
qed simp

definition with_eta :: "(uuid \<rightharpoonup> instant) \<Rightarrow> stop_row \<Rightarrow> stop_row" where
  "with_eta etas r =
     (case etas (stop_id r) of
        None \<Rightarrow> r
      | Some t \<Rightarrow> r\<lparr>stop_eta := Some t,
          stop_planned_eta := (case stop_planned_eta r of None \<Rightarrow> Some t | p \<Rightarrow> p)\<rparr>)"

lemma fold_write_eta:
  "distinct (map fst ws) \<Longrightarrow> fold write_eta ws rows = map (with_eta (map_of ws)) rows"
proof (induction ws arbitrary: rows)
  case Nil
  show ?case by (simp add: with_eta_def)
next
  case (Cons w ws)
  have "map_of ws (fst w) = None" using Cons.prems by (simp add: map_of_eq_None_iff)
  then have "with_eta (map_of ws) (if stop_id r = fst w then r\<lparr>stop_eta := Some (snd w),
        stop_planned_eta := (case stop_planned_eta r of None \<Rightarrow> Some (snd w) | p \<Rightarrow> p)\<rparr> else r) =
      with_eta (map_of (w # ws)) r" for r
    by (auto simp: with_eta_def split: option.split)
  then show ?case using Cons by (simp add: write_eta_def update_where_def fun_upd_def)
qed

lemma start_cursor_now: "now \<le> start_cursor ps seen now"
  by (auto simp: start_cursor_def Let_def split: option.split prod.split)

abbreviation route_stops :: "db \<Rightarrow> uuid \<Rightarrow> stop_row list" where
  "route_stops d rid \<equiv>
     sort_key stop_sequence (filter (\<lambda>s. stop_route_id s = rid \<and> stop_type_of s \<noteq> Visit) (stops d))"

lemma dated_points:
  "map pt_stop_id (dated (points d rid)) =
     map stop_id (takeWhile (\<lambda>s. fst (stop_place d s) \<noteq> None)
       (filter (\<lambda>s. stop_status_of s \<notin> set REACHED) (route_stops d rid)))"
  by (simp add: dated_def points_def filter_map takeWhile_map comp_def point_of_def reached_def)

text \<open>The route exists, has stops, and the driver's position or the hub is known.\<close>

definition walkable :: "db \<Rightarrow> uuid \<Rightarrow> instant \<Rightarrow> bool" where
  "walkable d rid now \<longleftrightarrow> (case lookup_by route_id rid (routes d) of None \<Rightarrow> False
     | Some r \<Rightarrow> points d rid \<noteq> [] \<and> anchor d r (points d rid) now \<noteq> None)"

lemma refresh_cases:
  obtains (none) "snd (refresh_route_etas miles now rid d) = d"
      "\<not> walkable d rid now"
  | (walked) xy cursor where "now \<le> cursor" "walkable d rid now"
      "snd (refresh_route_etas miles now rid d) =
         d\<lparr>stops := fold write_eta (fst (walk miles xy cursor (points d rid))) (stops d)\<rparr>"
proof (cases "lookup_by route_id rid (routes d)")
  case None
  then show thesis by (intro none) (simp_all add: refresh_route_etas_def walkable_def)
next
  case r: (Some r)
  show thesis
  proof (cases "points d rid = []")
    case True
    with r show thesis by (intro none) (simp_all add: refresh_route_etas_def walkable_def)
  next
    case ps: False
    show thesis
    proof (cases "anchor d r (points d rid) now")
      case None
      with r ps show thesis by (intro none) (simp_all add: refresh_route_etas_def walkable_def Let_def)
    next
      case (Some a)
      with r ps show thesis
        by (intro walked [of "start_cursor (points d rid) (snd a) now" "fst a"])
          (simp_all add: refresh_route_etas_def walkable_def Let_def split_beta start_cursor_now)
    qed
  qed
qed

lemma distinct_map_takeWhile: "distinct (map f xs) \<Longrightarrow> distinct (map f (takeWhile P xs))"
  by (subst takeWhile_eq_take) (simp flip: take_map)

lemma distinct_map_sort: "distinct (map f (sort_key k xs)) \<longleftrightarrow> distinct (map f xs)"
  by (simp add: distinct_map)

section \<open>Properties\<close>

text \<open>
  A refresh dates exactly the route's stops that are not reached, in sequence, up to the first
  with no place (or none, when there is no route, no stop or no anchor); no arrival time is in the
  past, and each is no earlier than the one before. Every other row is left as it was, and a stop's
  \<open>planned_eta\<close>, once written, is never changed.
\<close>

theorem eta_refresh_walks_forward:
  assumes "\<And>a b c e. 0 \<le> miles a b c e" "distinct (map stop_id (stops d))"
    and "d' = snd (refresh_route_etas miles now rid d)"
  shows "\<exists>ws. stops d' = map (with_eta (map_of ws)) (stops d) \<and>
    map fst ws = (if walkable d rid now then map stop_id (takeWhile (\<lambda>s. fst (stop_place d s) \<noteq> None)
        (filter (\<lambda>s. stop_status_of s \<notin> set REACHED) (route_stops d rid))) else []) \<and>
    sorted (map snd ws) \<and> (\<forall>w \<in> set ws. now \<le> snd w) \<and> d' = d\<lparr>stops := stops d'\<rparr>"
proof (cases rule: refresh_cases [of miles now rid d])
  case none
  then show ?thesis by (intro exI [of _ "[]"]) (simp_all add: assms(3) with_eta_def [abs_def])
next
  case (walked xy cursor)
  let ?ws = "fst (walk miles xy cursor (points d rid))"
  let ?todo = "takeWhile (\<lambda>s. fst (stop_place d s) \<noteq> None)
      (filter (\<lambda>s. stop_status_of s \<notin> set REACHED) (route_stops d rid))"
  have ids: "map fst ?ws = map stop_id ?todo" by (simp only: walk_ids dated_points)
  have "distinct (map stop_id ?todo)"
    using assms(2) by (intro distinct_map_takeWhile distinct_map_filter) (simp add: distinct_map_sort distinct_map_filter)
  then have "distinct (map fst ?ws)" by (simp only: ids)
  then have rows: "fold write_eta ?ws (stops d) = map (with_eta (map_of ?ws)) (stops d)" by (rule fold_write_eta)
  have floor: "p \<in> set (points d rid) \<Longrightarrow> PLANNING_FLOOR_MINUTES \<le> pt_service_minutes p" for p
    by (auto simp: points_def point_of_def service_minutes_at_floor)
  have "sorted (map snd ?ws) \<and> (\<forall>w \<in> set ?ws. cursor \<le> snd w)" by (rule walk_forward [OF assms(1) floor])
  with walked(1) rows ids show ?thesis
    by (intro exI [of _ ?ws]) (auto simp: assms(3) walked(2,3))
qed

definition sample_route_db :: db where
  "sample_route_db =
     (sample_tables [])\<lparr>
        routes := [\<lparr>route_id = 1, route_hub_id = 2, route_driver_id = 3, route_status_of = Route_active,
          route_plan_version = 1, route_created_at = 0\<rparr>],
        hubs := [\<lparr>hub_id = 2, hub_lat = 0, hub_lng = 0, hub_timezone = ''America/Los_Angeles'',
          hub_state_code = None\<rparr>],
        shops := [sample_shop 5 18 0],
        stops := [\<lparr>stop_id = 10, stop_route_id = 1, stop_shop_id = Some 5, stop_sequence = 1,
          stop_status_of = Stop_pending, stop_type_of = Pickup, stop_parcel_count = 1, stop_scanned_count = 0,
          stop_eta = None, stop_planned_eta = None, stop_arrived_at = None, stop_completed_at = None,
          stop_flagged_at = None, stop_evidence_of = no_evidence, stop_created_at = 0\<rparr>]\<rparr>"

theorem eta_refresh_walks_forward_witness:
  "\<exists>ws. stops (snd (refresh_route_etas plane_miles 7 1 sample_route_db)) =
     map (with_eta (map_of ws)) (stops sample_route_db) \<and> map fst ws = [10]"
proof -
  have "walkable sample_route_db 1 7" by code_simp
  moreover have "takeWhile (\<lambda>s. fst (stop_place sample_route_db s) \<noteq> None)
      (filter (\<lambda>s. stop_status_of s \<notin> set REACHED) (route_stops sample_route_db 1)) = stops sample_route_db"
    by code_simp
  moreover have "map stop_id (stops sample_route_db) = [10]" by code_simp
  ultimately show ?thesis
    using eta_refresh_walks_forward [OF _ _ refl, of plane_miles sample_route_db 7 1]
    by (auto simp: plane_miles_def)
qed

end
