(* ===== verification/Cancellation.thy ===== *)
theory Cancellation
  imports Interference Eta "HOL-Library.Product_Lexorder"
begin

text \<open>
  Cancelling an order before it is collected (\<open>src/app/orders/cancellation.py\<close>): the client's cancel,
  dispatch's cancel with its withdrawal of an open offer and its removal of stops from a live route,
  and the definition of an order nobody has (\<open>src/app/orders/unplaced.py\<close>). The refusals are the
  messages of \<open>OrderNotCancellable\<close>. What other transactions do while this one waits for a lock or
  between a read and a write is a parameter (\<open>cancel_env\<close>), one for each such point.
\<close>

section \<open>Statuses and refusals\<close>

definition CANCELLABLE_STATUSES :: "order_status list" where
  "CANCELLABLE_STATUSES = [Received, Classified, Held, Queued]"

definition LIVE_CANCELLABLE_STATUSES :: "order_status list" where
  "LIVE_CANCELLABLE_STATUSES = [Assigned, En_route_pickup]"

datatype cancel_how = BEFORE_COLLECTION | OFFER_WITHDRAWN | STOPS_REMOVED

datatype refusal =
    Already_cancelled | Finished_as order_status | Driver_has_it | Parts_on_the_van
  | Given_a_moment_ago | Driver_answering | Route_busy | At_the_shop_or_collected

definition TERMINAL_STOP_STATUSES :: "stop_status list" where
  "TERMINAL_STOP_STATUSES = [Stop_completed, Stop_failed, Stop_cancelled]"

definition why_not_cancellable :: "order_row \<Rightarrow> refusal" where
  "why_not_cancellable order =
     (if ord_status order = Cancelled then Already_cancelled
      else if ord_status order \<in> {Delivered, Returned} then Finished_as (ord_status order)
      else Driver_has_it)"

definition why_dispatch_cannot_cancel :: "order_row \<Rightarrow> refusal" where
  "why_dispatch_cannot_cancel order =
     (if ord_status order = Cancelled then Already_cancelled
      else if ord_status order \<in> {Delivered, Returned} then Finished_as (ord_status order)
      else Parts_on_the_van)"

record cancel_env =
  ce_offer :: "db \<Rightarrow> db"
  ce_route :: "db \<Rightarrow> db"
  ce_order :: "db \<Rightarrow> db"
  ce_offer2 :: "db \<Rightarrow> db"
  ce_offer_busy :: "uuid \<Rightarrow> bool"
  ce_route_busy :: bool
  ce_stop :: "db \<Rightarrow> db"
  ce_drop :: interference
  ce_write :: interference
  ce_fleet :: "fleet \<Rightarrow> fleet"

text \<open>The instance after a query with \<open>populate_existing\<close> read its row.\<close>

definition reread :: "order_row \<Rightarrow> session \<Rightarrow> order_row" where
  "reread order s = (case order_by_id (ord_id order) (db s) of None \<Rightarrow> order | Some r \<Rightarrow> r)"

section \<open>The client's cancel\<close>

definition cancel_before_collection ::
    "interference \<Rightarrow> instant \<Rightarrow> order_row \<Rightarrow> world \<Rightarrow> (refusal + unit) \<times> world" where
  "cancel_before_collection env now order w =
     (if ord_status order \<notin> set CANCELLABLE_STATUSES then (Inl (why_not_cancellable order), w)
      else let (moved, s1) = advance_orders env now None (Some CANCELLABLE_STATUSES) [ord_id order] Cancelled (sess w) in
        if moved = [] then (Inl (why_not_cancellable (reread order (sess w))), w\<lparr>sess := s1\<rparr>)
        else (Inr (), w\<lparr>sess := commit s1, queue := hold_remove (ord_hub_id order) (ord_id order) (queue w)\<rparr>))"

definition cancel_before_collection_for_dispatch ::
    "interference \<Rightarrow> instant \<Rightarrow> order_row \<Rightarrow> world \<Rightarrow> (refusal + unit) \<times> world" where
  "cancel_before_collection_for_dispatch env now order w =
     (case cancel_before_collection env now order w of
        (Inr _, w1) \<Rightarrow> (Inr (), w1)
      | (Inl why, w1) \<Rightarrow>
          let order1 = reread order (sess w1) in
          (Inl (if ord_status order1 \<in> set LIVE_CANCELLABLE_STATUSES then Given_a_moment_ago
                else if ord_status order1 \<in> set CANCELLABLE_STATUSES then why
                else why_dispatch_cannot_cancel order1), w1))"

section \<open>Dispatch's cancel\<close>

text \<open>\<open>between\<close> is what happens to the fleet between the read of the state and the write.\<close>

definition free_driver_of_route :: "(fleet \<Rightarrow> fleet) \<Rightarrow> hub \<times> uuid \<times> uuid \<Rightarrow> world \<Rightarrow> world" where
  "free_driver_of_route between fin w =
     (let (h, driver, rid) = fin in
      case get_driver_state h driver (fleet_of w) of
        None \<Rightarrow> w
      | Some st \<Rightarrow>
          if ds_current_route_id st = Some rid then
            let st1 = st\<lparr>ds_current_route_id := None,
                  ds_status := (if ds_status st = En_route then Available else ds_status st)\<rparr>
            in w\<lparr>fleet_of := upsert_driver_state st1 (between (fleet_of w)),
                 queue := (queue w)\<lparr>hs_bus := publish h (hs_bus (queue w))\<rparr>\<rparr>
          else w)"

definition open_offers :: "order_row \<Rightarrow> db \<Rightarrow> offer_row list" where
  "open_offers order d =
     filter (\<lambda>f. offer_hub_id f = ord_hub_id order \<and> offer_status_of f = Offer_offered \<and>
       ord_id order \<in> ps_order_id ` set (offer_stop_payload f)) (offers d)"

definition withdraw_offer ::
    "instant \<Rightarrow> (db \<Rightarrow> db) \<Rightarrow> (uuid \<Rightarrow> bool) \<Rightarrow> bool \<Rightarrow> order_row \<Rightarrow> world \<Rightarrow> (refusal + cancel_how option) \<times> world" where
  "withdraw_offer now others busy wait order w =
     (let s1 = interfere_db others (sess w);
          candidates = open_offers order (db s1);
          got = (if wait then candidates else filter (\<lambda>f. \<not> busy (offer_id f)) candidates);
          w1 = w\<lparr>sess := s1\<rparr> in
      case got of
        [] \<Rightarrow> if \<not> wait \<and> candidates \<noteq> [] then (Inl Driver_answering, w1) else (Inr None, w1)
      | offer # _ \<Rightarrow>
          let s2 = s1\<lparr>db := (db s1)\<lparr>offers := update_where (\<lambda>f. offer_id f = offer_id offer)
                 (\<lambda>f. f\<lparr>offer_status_of := Offer_withdrawn, offer_responded_at := Some now\<rparr>) (offers (db s1))\<rparr>\<rparr>;
              rest = filter (\<lambda>p. ps_order_id p \<noteq> ord_id order) (offer_stop_payload offer)
          in (Inr (Some OFFER_WITHDRAWN),
              requeue_orders_from_offer now (offer_hub_id offer) (offer_driver_id offer) rest True True (w\<lparr>sess := s2\<rparr>)))"

text \<open>The join of stops, links and active routes, one row per link.\<close>

definition stops_of_order :: "uuid \<Rightarrow> db \<Rightarrow> (stop_row \<times> route_row) list" where
  "stops_of_order oid d =
     concat (map (\<lambda>st. concat (map (\<lambda>rt.
         map (\<lambda>_. (st, rt)) (filter (\<lambda>l. so_stop_id l = stop_id st \<and> so_order_id l = oid) (stop_orders d)))
       (filter (\<lambda>rt. route_id rt = stop_route_id st \<and> route_status_of rt = Route_active) (routes d)))) (stops d))"

definition live_route_of :: "uuid \<Rightarrow> db \<Rightarrow> uuid option" where
  "live_route_of oid d =
     (case sort_key (\<lambda>p. (- stop_created_at (fst p), stop_id (fst p)))
             (filter (\<lambda>p. stop_status_of (fst p) \<notin> set TERMINAL_STOP_STATUSES) (stops_of_order oid d)) of
        [] \<Rightarrow> None | p # _ \<Rightarrow> Some (stop_route_id (fst p)))"

text \<open>The parts are on the van, or the driver is at the counter.\<close>

definition at_shop_or_collected :: "stop_row list \<Rightarrow> stop_row list \<Rightarrow> bool" where
  "at_shop_or_collected locked open_stops =
     (let pickup = find (\<lambda>st. stop_type_of st = Pickup) open_stops;
          dropoff = find (\<lambda>st. stop_type_of st = Dropoff) open_stops;
          collected = (case (pickup, dropoff) of
             (None, Some dr) \<Rightarrow>
               (let before = filter (\<lambda>st. stop_type_of st = Pickup \<and> stop_sequence st < stop_sequence dr) locked in
                before \<noteq> [] \<and> stop_status_of (last before) = Stop_completed)
           | _ \<Rightarrow> False)
      in (case pickup of Some p \<Rightarrow> stop_status_of p = Stop_arrived | None \<Rightarrow> False) \<or> collected)"

definition count_live_stops :: "uuid \<Rightarrow> db \<Rightarrow> nat" where
  "count_live_stops rid d =
     length (filter (\<lambda>st. stop_route_id st = rid \<and> stop_status_of st \<notin> set TERMINAL_STOP_STATUSES) (stops d))"

definition update_route :: "uuid \<Rightarrow> (route_row \<Rightarrow> route_row) \<Rightarrow> db \<Rightarrow> db" where
  "update_route rid f d = d\<lparr>routes := update_where (\<lambda>r. route_id r = rid) f (routes d)\<rparr>"

text \<open>The part of \<open>_remove_stops\<close> after the locks: take the stops off, close the route or move on.\<close>

definition take_off_route ::
    "distance \<Rightarrow> instant \<Rightarrow> (db \<Rightarrow> db) \<Rightarrow> interference \<Rightarrow> order_row \<Rightarrow> route_row \<Rightarrow> stop_row list \<Rightarrow> session
      \<Rightarrow> (hub \<times> uuid \<times> uuid) option \<times> notice \<times> session" where
  "take_off_route miles now stop_env drop_env order route open_stops s =
     (let (removed, d1) = take_orders_off_stops [ord_id order] open_stops (db s);
          rid = route_id route;
          d2 = update_route rid (\<lambda>r. r\<lparr>route_plan_version := route_plan_version route + 1\<rparr>) d1;
          s2 = s\<lparr>db := d2\<rparr>;
          note = \<lparr>nt_driver_id = route_driver_id route, nt_route_id = rid,
                  nt_plan_version = route_plan_version route + 1, nt_affected_stop_ids = removed\<rparr> in
      if count_live_stops rid d2 = 0 then
        (Some (route_hub_id route, route_driver_id route, rid), note,
         s2\<lparr>db := update_route rid (\<lambda>r. r\<lparr>route_status_of := Route_completed\<rparr>) d2\<rparr>)
      else
        let s3 = snd (mark_current_stop_en_route stop_env drop_env now rid s2)
        in (None, note, s3\<lparr>db := snd (refresh_route_etas miles now rid (db s3))\<rparr>))"

definition remove_stops ::
    "distance \<Rightarrow> instant \<Rightarrow> cancel_env \<Rightarrow> bool \<Rightarrow> order_row \<Rightarrow> world
      \<Rightarrow> (refusal + cancel_how \<times> (hub \<times> uuid \<times> uuid) option \<times> notice option) \<times> world" where
  "remove_stops miles now ce wait order w =
     (case live_route_of (ord_id order) (db (sess w)) of
        None \<Rightarrow> (Inr (STOPS_REMOVED, None, None), w)
      | Some rid \<Rightarrow>
          if \<not> wait \<and> ce_route_busy ce then (Inl Route_busy, w\<lparr>sess := rollback (sess w)\<rparr>)
          else
            let s1 = (if wait then interfere_db (ce_route ce) (sess w) else sess w);
                locked = sort_key (\<lambda>p. stop_sequence (fst p))
                  (filter (\<lambda>p. route_id (snd p) = rid) (stops_of_order (ord_id order) (db s1)));
                rows = filter (\<lambda>p. stop_status_of (fst p) \<notin> set TERMINAL_STOP_STATUSES) locked;
                w1 = w\<lparr>sess := s1\<rparr> in
            case rows of
              [] \<Rightarrow> (Inr (STOPS_REMOVED, None, None), w1)
            | (_, route) # _ \<Rightarrow>
                if at_shop_or_collected (map fst locked) (map fst rows) then (Inl At_the_shop_or_collected, w1)
                else let (fin, note, s2) = take_off_route miles now (ce_stop ce) (ce_drop ce) order route (map fst rows) s1
                  in (Inr (STOPS_REMOVED, fin, Some note), w1\<lparr>sess := s2\<rparr>))"

text \<open>
  \<open>cancel_live_order\<close> up to its guarded write: what is left to do. Either the order has not gone out and
  is cancelled as a client would, or it is written as live, with how it came off its driver, the route that
  left finished and the notice to send.
\<close>

datatype cancel_plan =
    Not_gone_out order_row
  | Taken_off order_row cancel_how "(hub \<times> uuid \<times> uuid) option" "notice option"

text \<open>The second attempt, on an order found on no offer and no route: holding the order's row.\<close>

definition plan_under_lock ::
    "distance \<Rightarrow> instant \<Rightarrow> cancel_env \<Rightarrow> order_row \<Rightarrow> world \<Rightarrow> (refusal + cancel_plan) \<times> world" where
  "plan_under_lock miles now ce order w =
     (let w3 = w\<lparr>sess := interfere_db (ce_order ce) (sess w)\<rparr>;
          order3 = reread order (sess w3) in
      if ord_status order3 \<in> set CANCELLABLE_STATUSES then (Inr (Not_gone_out order3), w3)
      else
        (case withdraw_offer now (ce_offer2 ce) (ce_offer_busy ce) False order3 w3 of
           (Inl why, w4) \<Rightarrow> (Inl why, w4)
         | (Inr (Some how4), w4) \<Rightarrow> (Inr (Taken_off order3 how4 None None), w4)
         | (Inr None, w4) \<Rightarrow>
             (case remove_stops miles now ce False order3 w4 of
                (Inl why, w5) \<Rightarrow> (Inl why, w5)
              | (Inr (how5, fin5, note5), w5) \<Rightarrow> (Inr (Taken_off order3 how5 fin5 note5), w5))))"

definition plan_live_cancel ::
    "distance \<Rightarrow> instant \<Rightarrow> cancel_env \<Rightarrow> order_row \<Rightarrow> world \<Rightarrow> (refusal + cancel_plan) \<times> world" where
  "plan_live_cancel miles now ce order w =
     (if ord_status order \<in> set CANCELLABLE_STATUSES then (Inr (Not_gone_out order), w)
      else if ord_status order \<notin> set LIVE_CANCELLABLE_STATUSES then (Inl (why_dispatch_cannot_cancel order), w)
      else
        (case withdraw_offer now (ce_offer ce) (ce_offer_busy ce) True order w of
           (Inl why, w1) \<Rightarrow> (Inl why, w1)
         | (Inr (Some how), w1) \<Rightarrow> (Inr (Taken_off order how None None), w1)
         | (Inr None, w1) \<Rightarrow>
             (case remove_stops miles now ce True order w1 of
                (Inl why, w2) \<Rightarrow> (Inl why, w2)
              | (Inr (how, fin, Some note), w2) \<Rightarrow> (Inr (Taken_off order how fin (Some note)), w2)
              | (Inr (how, fin, None), w2) \<Rightarrow> plan_under_lock miles now ce order w2)))"

text \<open>The guarded write, the commit, and what follows it.\<close>

definition finish_live_cancel ::
    "cancel_env \<Rightarrow> instant \<Rightarrow> order_row \<Rightarrow> cancel_how \<Rightarrow> (hub \<times> uuid \<times> uuid) option \<Rightarrow> notice option \<Rightarrow> world
      \<Rightarrow> (refusal + cancel_how) \<times> world" where
  "finish_live_cancel ce now order how fin note w =
     (let (moved, s1) = advance_orders (ce_write ce) now None (Some LIVE_CANCELLABLE_STATUSES) [ord_id order] Cancelled (sess w) in
      if moved = [] then (Inl (why_dispatch_cannot_cancel (reread order (sess w))), w\<lparr>sess := s1\<rparr>)
      else
        let w1 = w\<lparr>sess := commit s1, queue := hold_remove (ord_hub_id order) (ord_id order) (queue w)\<rparr>;
            w2 = (case note of None \<Rightarrow> w1 | Some n \<Rightarrow> w1\<lparr>notices := notices w1 @ [n]\<rparr>);
            w3 = (case fin of None \<Rightarrow> w2 | Some f \<Rightarrow> free_driver_of_route (ce_fleet ce) f w2)
        in (Inr how, w3))"

definition cancel_live_order ::
    "distance \<Rightarrow> instant \<Rightarrow> cancel_env \<Rightarrow> order_row \<Rightarrow> world \<Rightarrow> (refusal + cancel_how) \<times> world" where
  "cancel_live_order miles now ce order w =
     (case plan_live_cancel miles now ce order w of
        (Inl why, w1) \<Rightarrow> (Inl why, w1)
      | (Inr (Not_gone_out order1), w1) \<Rightarrow>
          (case cancel_before_collection_for_dispatch (ce_write ce) now order1 w1 of
             (Inl why, w2) \<Rightarrow> (Inl why, w2) | (Inr _, w2) \<Rightarrow> (Inr BEFORE_COLLECTION, w2))
      | (Inr (Taken_off order1 how fin note), w1) \<Rightarrow> finish_live_cancel ce now order1 how fin note w1)"

section \<open>Unplaced orders\<close>

definition unplaced_clause :: "int \<Rightarrow> instant \<Rightarrow> order_row \<Rightarrow> bool" where
  "unplaced_clause stuck_after now r \<longleftrightarrow>
     (let grace = seconds stuck_after in
      ord_intake_mode r = INTAKE_LIVE \<and>
      (ord_status r = Queued \<and> (case ord_requested_at r of Some t \<Rightarrow> t < now - grace | None \<Rightarrow> False) \<or>
       ord_status r = Held \<and> (case ord_hold_deadline r of Some t \<Rightarrow> t < now - grace | None \<Rightarrow> False)))"

section \<open>What a cancel keeps\<close>

text \<open>Other transactions keep primary keys and fresh identifiers.\<close>

definition env_sane :: "cancel_env \<Rightarrow> bool" where
  "env_sane ce \<longleftrightarrow> keeps_sane (ce_offer ce) \<and> keeps_sane (ce_route ce) \<and> keeps_sane (ce_order ce) \<and>
     keeps_sane (ce_offer2 ce) \<and> keeps_sane (ce_stop ce) \<and> keeps_keys (ce_drop ce) \<and> keeps_keys (ce_write ce)"

lemma sane_withdraw:
  assumes "keeps_sane others" "sane (sess w)"
  shows "sane (sess (snd (withdraw_offer now others busy wait order w)))"
proof -
  have s1: "sane (interfere_db others (sess w))" using assms by (rule sane_others)
  then have "sane ((interfere_db others (sess w))\<lparr>db := (db (interfere_db others (sess w)))\<lparr>offers := x\<rparr>\<rparr>)" for x
    by (intro sane_db) simp_all
  with s1 show ?thesis
    by (auto simp: withdraw_offer_def Let_def split: list.split intro!: sane_requeue)
qed

lemma refresh_tables:
  "orders (snd (refresh_route_etas m now rid d)) = orders d \<and> deliveries (snd (refresh_route_etas m now rid d)) = deliveries d \<and>
   endpoints (snd (refresh_route_etas m now rid d)) = endpoints d"
  by (cases rule: refresh_cases [of m now rid d]) simp_all

lemma sane_take_off:
  assumes "keeps_sane others" "keeps_keys env" "sane s"
  shows "sane (snd (snd (take_off_route m now others env order route sts s)))"
proof -
  let ?d1 = "snd (take_orders_off_stops [ord_id order] sts (db s))"
  let ?d2 = "update_route (route_id route) (\<lambda>r. r\<lparr>route_plan_version := route_plan_version route + 1\<rparr>) ?d1"
  have s2: "sane (s\<lparr>db := ?d2\<rparr>)" "sane (s\<lparr>db := update_route (route_id route) f ?d2\<rparr>)" for f
    using assms(3) take_orders_off_stops_tables [of "[ord_id order]" sts "db s"]
    by (auto intro!: sane_db simp: update_route_def)
  then have s3: "sane (snd (mark_current_stop_en_route others env now (route_id route) (s\<lparr>db := ?d2\<rparr>)))"
    using assms by (intro sane_mark_current)
  have "sane (q\<lparr>db := snd (refresh_route_etas m now rid (db q))\<rparr>)" if "sane q" for q rid
    using that refresh_tables [of m now rid "db q"] by (intro sane_db) simp_all
  with s2 s3 show ?thesis by (simp add: take_off_route_def Let_def split_beta)
qed

lemma sane_remove_stops:
  assumes "env_sane ce" "sane (sess w)" "fst (remove_stops m now ce wait order w) = Inr x"
  shows "sane (sess (snd (remove_stops m now ce wait order w)))"
proof -
  define s1 where "s1 = (if wait then interfere_db (ce_route ce) (sess w) else sess w)"
  have s1: "sane s1"
    using assms(1,2) by (simp add: env_sane_def sane_others s1_def)
  then have t: "sane (snd (snd (take_off_route m now (ce_stop ce) (ce_drop ce) order route sts s1)))" for route sts
    using assms(1) by (intro sane_take_off) (simp_all add: env_sane_def)
  show ?thesis
    using s1 t assms(2,3) unfolding remove_stops_def Let_def s1_def [symmetric]
    by (auto simp: split_beta split: option.split list.split if_splits)
qed

text \<open>
  The guarded write of a cancel, on the rows this transaction sees with what others committed up to
  the write.
\<close>

abbreviation cancelled_in :: "order_status list \<Rightarrow> uuid \<Rightarrow> instant \<Rightarrow> order_row list \<Rightarrow> order_row list" where
  "cancelled_in pre \<equiv> moved_in pre Cancelled"

lemma cancel_write:
  assumes "sane s" "advance_orders env now None (Some pre) [i] Cancelled s = (moved, s')" "moved \<noteq> []"
  shows "(\<exists>r \<in> set (env 0 (orders (db s))). ord_id r = i \<and> ord_status r \<in> set pre) \<and>
    orders (db s') = cancelled_in pre i (txn_now s) (env 0 (orders (db s)))"
  using single_write [OF assms] by (simp add: precondition_of_def)

lemma cancel_not_written:
  assumes "sane s" "advance_orders env now None (Some pre) [i] Cancelled s = ([], s')"
  shows "s' = s \<or> s' = interfere (env 0) s \<and> (\<forall>r \<in> set (env 0 (orders (db s))). ord_id r = i \<longrightarrow> ord_status r \<notin> set pre)"
  using assms(2)
  by (auto simp: advance_single [OF assms(1) refl refl] conditional_update_def precondition_of_def split: option.splits if_splits)

text \<open>
  An order is cancelled in the world over the table \<open>rows\<close> and the time \<open>t\<close> of the write: its row there had one
  of the statuses \<open>pre\<close>, the table is \<open>rows\<close> with that row cancelled, committed, and the order is out of the hold queue.
\<close>

definition cancelled_from :: "order_status list \<Rightarrow> order_row list \<Rightarrow> instant \<Rightarrow> order_row \<Rightarrow> world \<Rightarrow> bool" where
  "cancelled_from pre rows t order w' \<longleftrightarrow>
     (\<exists>r \<in> set rows. ord_id r = ord_id order \<and> ord_status r \<in> set pre) \<and>
     orders (db (sess w')) = cancelled_in pre (ord_id order) t rows \<and>
     base (sess w') = db (sess w') \<and> ord_id order \<notin> queued_ids (queue w') (ord_hub_id order)"

lemma cancel_before_collection_done:
  assumes "sane (sess w)" "cancel_before_collection env now order w = (Inr u, w')"
  shows "cancelled_from CANCELLABLE_STATUSES (env 0 (orders (db (sess w)))) (txn_now (sess w)) order w'"
proof -
  obtain moved s1 where adv: "advance_orders env now None (Some CANCELLABLE_STATUSES) [ord_id order] Cancelled (sess w) = (moved, s1)"
    by (cases "advance_orders env now None (Some CANCELLABLE_STATUSES) [ord_id order] Cancelled (sess w)")
  with assms(2) have "moved \<noteq> []" and w': "w' = w\<lparr>sess := commit s1, queue := hold_remove (ord_hub_id order) (ord_id order) (queue w)\<rparr>"
    by (auto simp: cancel_before_collection_def split: if_splits)
  with cancel_write [OF assms(1) adv] show ?thesis
    by (auto simp: cancelled_from_def commit_def hq.taken_not_member)
qed

lemma finish_live_cancel_done:
  assumes "sane (sess w)" "finish_live_cancel ce now order how fin nt w = (Inr how', w')"
  shows "cancelled_from LIVE_CANCELLABLE_STATUSES (ce_write ce 0 (orders (db (sess w)))) (txn_now (sess w)) order w' \<and> how' = how"
proof -
  obtain moved s1 where adv: "advance_orders (ce_write ce) now None (Some LIVE_CANCELLABLE_STATUSES) [ord_id order] Cancelled (sess w) = (moved, s1)"
    by (cases "advance_orders (ce_write ce) now None (Some LIVE_CANCELLABLE_STATUSES) [ord_id order] Cancelled (sess w)")
  with assms(2) have ne: "moved \<noteq> []" by (auto simp: finish_live_cancel_def split: if_splits)
  have free: "sess (free_driver_of_route b f v) = sess v \<and> queued_ids (queue (free_driver_of_route b f v)) = queued_ids (queue v)" for b f v
    by (auto simp: free_driver_of_route_def Let_def split: prod.split option.split)
  have "how' = how \<and> sess w' = commit s1 \<and> queued_ids (queue w') = queued_ids (hold_remove (ord_hub_id order) (ord_id order) (queue w))"
    using assms(2) ne adv by (auto simp: finish_live_cancel_def Let_def free split: option.splits)
  with cancel_write [OF assms(1) adv ne] show ?thesis
    by (auto simp: cancelled_from_def commit_def hq.taken_not_member)
qed

lemma cancel_for_dispatch_done:
  assumes "sane (sess w)" "cancel_before_collection_for_dispatch env now order w = (Inr u, w')"
  shows "cancelled_from CANCELLABLE_STATUSES (env 0 (orders (db (sess w)))) (txn_now (sess w)) order w'"
proof -
  obtain v where "cancel_before_collection env now order w = (Inr v, w')"
    using assms(2) by (auto simp: cancel_before_collection_for_dispatch_def Let_def split: prod.splits sum.splits)
  with assms(1) show ?thesis by (rule cancel_before_collection_done)
qed

lemma reread_id [simp]: "ord_id (reread order s) = ord_id order"
  by (auto simp: reread_def order_by_id_def split: option.split dest: lookup_by_Some)

text \<open>The plan keeps the session sane and is about the same order.\<close>

fun planned_order :: "cancel_plan \<Rightarrow> order_row" where
  "planned_order (Not_gone_out order) = order"
| "planned_order (Taken_off order _ _ _) = order"

lemma plan_under_lock_ok:
  assumes "env_sane ce" "sane (sess w)" "plan_under_lock miles now ce order w = (Inr plan, w1)"
  shows "sane (sess w1) \<and> ord_id (planned_order plan) = ord_id order"
proof -
  let ?w3 = "w\<lparr>sess := interfere_db (ce_order ce) (sess w)\<rparr>"
  let ?o3 = "reread order (sess ?w3)"
  have s3: "sane (sess ?w3)" using assms(1,2) by (simp add: env_sane_def sane_others)
  obtain r4 w4 where wd: "withdraw_offer now (ce_offer2 ce) (ce_offer_busy ce) False ?o3 ?w3 = (r4, w4)" by fastforce
  have s4: "sane (sess w4)"
    using sane_withdraw [of "ce_offer2 ce" ?w3 now "ce_offer_busy ce" False ?o3] assms(1) s3 wd by (simp add: env_sane_def)
  obtain r5 w5 where rs: "remove_stops miles now ce False ?o3 w4 = (r5, w5)" by fastforce
  have s5: "sane (sess w5)" if "r5 = Inr x" for x
    using sane_remove_stops [OF assms(1) s4, of miles now False ?o3 x] rs that by simp
  show ?thesis using assms(3) wd rs s3 s4 s5
    by (auto simp: plan_under_lock_def Let_def split: if_splits sum.splits option.splits prod.splits)
qed

lemma plan_live_cancel_ok:
  assumes "env_sane ce" "sane (sess w)" "plan_live_cancel miles now ce order w = (Inr plan, w1)"
  shows "sane (sess w1) \<and> ord_id (planned_order plan) = ord_id order"
proof -
  obtain r1 w2 where wd: "withdraw_offer now (ce_offer ce) (ce_offer_busy ce) True order w = (r1, w2)" by fastforce
  have s1: "sane (sess w2)"
    using sane_withdraw [of "ce_offer ce" w now "ce_offer_busy ce" True order] assms(1,2) wd by (simp add: env_sane_def)
  obtain r2 w3 where rs: "remove_stops miles now ce True order w2 = (r2, w3)" by fastforce
  have s2: "sane (sess w3)" if "r2 = Inr x" for x
    using sane_remove_stops [OF assms(1) s1, of miles now True order x] rs that by simp
  show ?thesis using assms(2,3) wd rs s1 s2 plan_under_lock_ok [OF assms(1) s2]
    by (auto simp: plan_live_cancel_def split: if_splits sum.splits option.splits prod.splits)
qed

section \<open>Properties\<close>

text \<open>
  A client's cancel, whatever else commits before its write: if it reports success, the row it
  wrote over was received, classified, held or queued at that moment, the order is cancelled and
  committed, and it is out of the hold queue; if it is refused, it wrote nothing, the hold queue is
  as before, and either the order as read or the row at the write was past that point.
\<close>

theorem client_cancel_only_before_assignment:
  assumes "sane (sess w)" "cancel_before_collection env now order w = (res, w')"
  shows "case res of
      Inr _ \<Rightarrow> cancelled_from CANCELLABLE_STATUSES (env 0 (orders (db (sess w)))) (txn_now (sess w)) order w'
    | Inl _ \<Rightarrow> queue w' = queue w \<and> (sess w' = sess w \<or> sess w' = interfere (env 0) (sess w) \<and>
        (\<forall>r \<in> set (env 0 (orders (db (sess w)))). ord_id r = ord_id order \<longrightarrow> ord_status r \<notin> set CANCELLABLE_STATUSES))"
proof (cases res)
  case (Inr u)
  with assms show ?thesis using cancel_before_collection_done by simp
next
  case (Inl why)
  obtain moved s1 where adv: "advance_orders env now None (Some CANCELLABLE_STATUSES) [ord_id order] Cancelled (sess w) = (moved, s1)"
    by (cases "advance_orders env now None (Some CANCELLABLE_STATUSES) [ord_id order] Cancelled (sess w)")
  show ?thesis
  proof (cases "ord_status order \<notin> set CANCELLABLE_STATUSES")
    case True
    with assms(2) Inl show ?thesis by (auto simp: cancel_before_collection_def)
  next
    case False
    with assms(2) Inl adv have "moved = []" "w' = w\<lparr>sess := s1\<rparr>"
      by (auto simp: cancel_before_collection_def split: if_splits)
    with cancel_not_written [OF assms(1)] adv Inl show ?thesis by auto
  qed
qed

text \<open>
  (C4) Dispatch's cancel succeeds only before collection: whatever other transactions do at every
  point where it waits or reads unlocked, if it reports success then the row it wrote over, in the table as the
  others had committed it by the moment of the write, was in one of the statuses from \<open>received\<close> to
  \<open>en_route_pickup\<close>: one a client may cancel when the plan was to cancel as a client does, \<open>assigned\<close> or
  \<open>en_route_pickup\<close> when the order had been taken off its offer or its stops. That table with this one order cancelled is what
  is committed, the order is out of the hold queue, and the answer is the way the plan took. An order picked up meanwhile is refused.
\<close>

theorem dispatch_cancel_only_before_collection:
  assumes "env_sane ce" "sane (sess w)" "cancel_live_order miles now ce order w = (Inr how, w')"
  shows "case plan_live_cancel miles now ce order w of
      (Inl _, _) \<Rightarrow> False
    | (Inr (Not_gone_out order1), w1) \<Rightarrow>
        cancelled_from [Received, Classified, Held, Queued] (ce_write ce 0 (orders (db (sess w1)))) (txn_now (sess w1)) order1 w' \<and>
        ord_id order1 = ord_id order \<and> how = BEFORE_COLLECTION
    | (Inr (Taken_off order1 how1 fin note), w1) \<Rightarrow>
        cancelled_from [Assigned, En_route_pickup] (ce_write ce 0 (orders (db (sess w1)))) (txn_now (sess w1)) order1 w' \<and>
        ord_id order1 = ord_id order \<and> how = how1"
proof -
  obtain r w1 where plan: "plan_live_cancel miles now ce order w = (r, w1)" by fastforce
  show ?thesis
  proof (cases r)
    case (Inl why)
    with assms(3) plan show ?thesis by (simp add: cancel_live_order_def)
  next
    case (Inr p)
    note ok = plan_live_cancel_ok [OF assms(1,2) plan [unfolded Inr]]
    show ?thesis
    proof (cases p)
      case (Not_gone_out order1)
      then have "cancel_before_collection_for_dispatch (ce_write ce) now order1 w1 = (Inr (), w')" "how = BEFORE_COLLECTION"
        using assms(3) plan Inr by (auto simp: cancel_live_order_def split: sum.splits prod.splits)
      then show ?thesis using cancel_for_dispatch_done [OF conjunct1 [OF ok]] ok plan Inr Not_gone_out
        by (simp add: CANCELLABLE_STATUSES_def)
    next
      case (Taken_off order1 how1 fin nt)
      then have "finish_live_cancel ce now order1 how1 fin nt w1 = (Inr how, w')"
        using assms(3) plan Inr by (simp add: cancel_live_order_def)
      then show ?thesis using finish_live_cancel_done [OF conjunct1 [OF ok]] ok plan Inr Taken_off
        by (simp add: LIVE_CANCELLABLE_STATUSES_def)
    qed
  qed
qed

definition quiet_env :: cancel_env where
  "quiet_env = \<lparr>ce_offer = id, ce_route = id, ce_order = id, ce_offer2 = id, ce_offer_busy = (\<lambda>_. False),
     ce_route_busy = False, ce_stop = id, ce_drop = no_interference, ce_write = no_interference, ce_fleet = id\<rparr>"

definition sample_offered_world :: world where
  "sample_offered_world = (sample_world [sample_order 6 Assigned, sample_order 7 Assigned])\<lparr>sess :=
     (sample_session [sample_order 6 Assigned, sample_order 7 Assigned])\<lparr>db :=
        (sample_tables [sample_order 6 Assigned, sample_order 7 Assigned])\<lparr>offers := [\<lparr>offer_id = 40, offer_hub_id = 1,
          offer_driver_id = 8, offer_status_of = Offer_offered, offer_stop_payload = [sample_payload 6, sample_payload 7],
          offer_visit_payload = None, offer_offered_at = 0, offer_expires_at = 100, offer_responded_at = None,
          offer_decline_reason = None, offer_route_id = None, offer_bonus_cents = None\<rparr>]\<rparr>\<rparr>\<rparr>"

theorem client_cancel_only_before_assignment_witness:
  "cancelled_from CANCELLABLE_STATUSES [sample_order 7 Queued] 900 (sample_order 7 Queued)
     (snd (cancel_before_collection no_interference 9 (sample_order 7 Queued) (sample_world [sample_order 7 Queued])))"
proof -
  let ?w = "sample_world [sample_order 7 Queued]"
  let ?r = "cancel_before_collection no_interference 9 (sample_order 7 Queued) ?w"
  have 1: "sane (sess ?w)" by (simp add: sane_def sample_world_def)
  have 2: "fst ?r = Inr ()" by code_simp
  from client_cancel_only_before_assignment [OF 1 prod.collapse [symmetric], of no_interference 9 "sample_order 7 Queued"]
  show ?thesis by (simp only: 2 sum.case) (simp add: sample_world_def no_interference_def sample_session_def sample_tables_def)
qed

theorem dispatch_cancel_only_before_collection_witness:
  "\<exists>w1. plan_live_cancel plane_miles 9 quiet_env (sample_order 7 Assigned) sample_offered_world =
       (Inr (Taken_off (sample_order 7 Assigned) OFFER_WITHDRAWN None None), w1) \<and>
     cancelled_from [Assigned, En_route_pickup] (orders (db (sess w1))) (txn_now (sess w1)) (sample_order 7 Assigned)
       (snd (cancel_live_order plane_miles 9 quiet_env (sample_order 7 Assigned) sample_offered_world))"
proof -
  let ?r = "cancel_live_order plane_miles 9 quiet_env (sample_order 7 Assigned) sample_offered_world"
  let ?p = "plan_live_cancel plane_miles 9 quiet_env (sample_order 7 Assigned) sample_offered_world"
  have 1: "env_sane quiet_env"
    by (simp add: env_sane_def quiet_env_def keeps_sane_def keeps_keys_def interfere_db_def no_interference_def)
  have 2: "sane (sess sample_offered_world)"
    by (simp add: sane_def sample_offered_world_def session_ok_def sample_tables_def sample_session_def)
  have 3: "fst ?r = Inr OFFER_WITHDRAWN" by code_simp
  have 4: "?r = (Inr OFFER_WITHDRAWN, snd ?r)" by (simp add: prod_eq_iff 3)
  have "fst ?p = Inr (Taken_off (sample_order 7 Assigned) OFFER_WITHDRAWN None None)" by code_simp
  then have p: "?p = (Inr (Taken_off (sample_order 7 Assigned) OFFER_WITHDRAWN None None), snd ?p)" by (simp add: prod_eq_iff)
  have quiet: "ce_write quiet_env 0 rows = rows" for rows by (simp add: quiet_env_def no_interference_def)
  show ?thesis using dispatch_cancel_only_before_collection [OF 1 2 4]
    by (subst (asm) p) (subst p, auto simp: quiet)
qed

text \<open>
  \<open>_free_driver\<close> reads the driver's state and writes the whole state back in two calls, so
  whatever happens to the fleet in between (\<open>between\<close>, any function), a driver read as en route on the
  finished route ends available: a break taken in between is lost.
\<close>

theorem free_driver_overwrites_what_came_between:
  assumes "get_driver_state h d (fleet_of w) = Some st" "ds_current_route_id st = Some rid" "ds_status st = En_route"
  shows "map_option ds_status (get_driver_state h d (fleet_of (free_driver_of_route between (h, d, rid) w))) = Some Available"
proof -
  have "ds_hub_id st = h" "ds_driver_id st = d"
    using assms(1) by (auto simp: get_driver_state_def state_of_def)
  with assms(2,3) have "fleet_of (free_driver_of_route between (h, d, rid) w) =
      upsert_driver_state (st\<lparr>ds_current_route_id := None, ds_status := Available\<rparr>) (between (fleet_of w))"
    by (simp add: free_driver_of_route_def assms(1))
  with \<open>ds_hub_id st = h\<close> \<open>ds_driver_id st = d\<close> show ?thesis
    by (simp add: get_driver_state_def upsert_driver_state_def put_state_def sync_available_def
        join_all_def hash_of_def state_of_def)
qed

theorem free_driver_overwrites_what_came_between_witness:
  "map_option ds_status (get_driver_state 1 8 (fleet_of (free_driver_of_route
      (upsert_driver_state \<lparr>ds_driver_id = 8, ds_hub_id = 1, ds_status = On_break, ds_capacity_units = 20,
         ds_load_units = 0, ds_current_route_id = Some 5\<rparr>) (1, 8, 5)
      ((sample_world [])\<lparr>fleet_of := upsert_driver_state \<lparr>ds_driver_id = 8, ds_hub_id = 1, ds_status = En_route,
         ds_capacity_units = 20, ds_load_units = 0, ds_current_route_id = Some 5\<rparr> sample_fleet\<rparr>)))) = Some Available"
  by (rule free_driver_overwrites_what_came_between
      [where st = "\<lparr>ds_driver_id = 8, ds_hub_id = 1, ds_status = En_route, ds_capacity_units = 20,
         ds_load_units = 0, ds_current_route_id = Some 5\<rparr>"]) code_simp+

end
