(* ===== verification/Py_Text.thy ===== *)
theory Py_Text
  imports Prelude
begin

text \<open>
  What the code uses of Python's strings: printing and reading integers, stripping, splitting,
  joining and case folding. A \<open>str\<close> is a list of characters up to U+00FF.
\<close>

section \<open>Printing and reading\<close>

definition digit_char :: "int \<Rightarrow> char" where
  "digit_char d = char_of (48 + nat d)"

function show_digits :: "int \<Rightarrow> string" where
  "show_digits n = (if n < 10 then [digit_char n] else show_digits (n div 10) @ [digit_char (n mod 10)])"
  by auto
termination by (relation "measure nat") auto

declare show_digits.simps [simp del]

definition show_int :: "int \<Rightarrow> string" where
  "show_int i = (if i < 0 then CHR ''-'' # show_digits (- i) else show_digits i)"

definition is_digit :: "char \<Rightarrow> bool" where
  "is_digit c \<longleftrightarrow> 48 \<le> (of_char c :: nat) \<and> (of_char c :: nat) \<le> 57"

definition is_space :: "char \<Rightarrow> bool" where
  "is_space c \<longleftrightarrow> (of_char c :: nat) \<in> {9, 10, 11, 12, 13, 28, 29, 30, 31, 32, 133, 160}"

text \<open>Digits with single underscores between them; \<open>ok\<close> says that a digit was just read.\<close>

fun read_digits :: "bool \<Rightarrow> int \<Rightarrow> string \<Rightarrow> int option" where
  "read_digits ok acc [] = (if ok then Some acc else None)"
| "read_digits ok acc (c # cs) =
     (if is_digit c then read_digits True (10 * acc + (int (of_char c) - 48)) cs
      else if c = CHR ''_'' \<and> ok then read_digits False acc cs
      else None)"

definition strip :: "string \<Rightarrow> string" where
  "strip s = rev (dropWhile is_space (rev (dropWhile is_space s)))"

definition MAX_STR_DIGITS :: nat where
  "MAX_STR_DIGITS = 4300"

text \<open>\<open>int(s)\<close>; \<open>None\<close> is \<open>ValueError\<close>.\<close>

definition int_of_str :: "string \<Rightarrow> int option" where
  "int_of_str s =
     (let t = strip s;
          (neg, ds) = (case t of
             c # cs \<Rightarrow> if c = CHR ''-'' then (True, cs) else if c = CHR ''+'' then (False, cs) else (False, t)
           | [] \<Rightarrow> (False, t))
      in if MAX_STR_DIGITS < length (filter is_digit ds) then None
         else map_option (\<lambda>n. if neg then - n else n) (read_digits False 0 ds))"

fun split_on :: "char \<Rightarrow> string \<Rightarrow> string list" where
  "split_on c [] = [[]]"
| "split_on c (x # xs) =
     (if x = c then [] # split_on c xs
      else case split_on c xs of [] \<Rightarrow> [[x]] | y # ys \<Rightarrow> (x # y) # ys)"

definition split_once :: "char \<Rightarrow> string \<Rightarrow> string \<times> string" where
  "split_once c s = (takeWhile (\<lambda>x. x \<noteq> c) s, tl (dropWhile (\<lambda>x. x \<noteq> c) s))"

text \<open>\<open>str.split()\<close> on runs of white space, and \<open>sep.join\<close>.\<close>

function split_words :: "string \<Rightarrow> string list" where
  "split_words [] = []"
| "split_words (c # cs) =
     (if is_space c then split_words cs
      else (c # takeWhile (\<lambda>x. \<not> is_space x) cs) # split_words (dropWhile (\<lambda>x. \<not> is_space x) cs))"
  by pat_completeness auto
termination by (relation "measure length") (auto simp: le_imp_less_Suc length_dropWhile_le)

fun join :: "string \<Rightarrow> string list \<Rightarrow> string" where
  "join sep [] = []"
| "join sep [x] = x"
| "join sep (x # y # xs) = x @ sep @ join sep (y # xs)"

text \<open>
  \<open>str.casefold\<close> on U+0000 to U+00FF; the micro sign, whose folding lies outside that range, stays.
\<close>

definition casefold_char :: "char \<Rightarrow> string" where
  "casefold_char c =
     (let n = (of_char c :: nat) in
      if 65 \<le> n \<and> n \<le> 90 \<or> 192 \<le> n \<and> n \<le> 222 \<and> n \<noteq> 215 then [char_of (n + 32)]
      else if n = 223 then ''ss'' else [c])"

definition casefold :: "string \<Rightarrow> string" where
  "casefold s = concat (map casefold_char s)"

definition replace_char :: "char \<Rightarrow> char \<Rightarrow> string \<Rightarrow> string" where
  "replace_char a b s = map (\<lambda>c. if c = a then b else c) s"

section \<open>Lemmas\<close>

lemma of_char_digit_char [simp]: "0 \<le> d \<Longrightarrow> d < 10 \<Longrightarrow> (of_char (digit_char d) :: nat) = 48 + nat d"
  by (simp add: digit_char_def of_char_of)

lemma is_digit_digit_char [simp]: "0 \<le> d \<Longrightarrow> d < 10 \<Longrightarrow> is_digit (digit_char d)"
  by (simp add: is_digit_def)

lemma digit_not_space [simp]: "is_digit c \<Longrightarrow> \<not> is_space c"
  by (auto simp: is_digit_def is_space_def)

lemma digit_not_mark [simp]:
  "is_digit c \<Longrightarrow> c \<noteq> CHR '',''" "is_digit c \<Longrightarrow> c \<noteq> CHR ''=''" "is_digit c \<Longrightarrow> c \<noteq> CHR ''-''" "is_digit c \<Longrightarrow> c \<noteq> CHR ''+''"
  by (auto simp: is_digit_def)

lemma show_digits_ne [simp]: "show_digits n \<noteq> []"
  by (subst show_digits.simps) simp

lemma show_digits_digits: "0 \<le> n \<Longrightarrow> c \<in> set (show_digits n) \<Longrightarrow> is_digit c"
proof (induction n rule: show_digits.induct)
  case (1 n)
  then show ?case
    by (subst (asm) show_digits.simps) (auto split: if_splits)
qed

lemma read_digits_append:
  "\<forall>c \<in> set xs. is_digit c \<Longrightarrow> xs \<noteq> [] \<Longrightarrow>
     read_digits ok acc (xs @ ys) = (case read_digits ok acc xs of None \<Rightarrow> None | Some n \<Rightarrow> read_digits True n ys)"
proof (induction xs arbitrary: ok acc)
  case (Cons x xs)
  show ?case
  proof (cases "xs = []")
    case False
    with Cons show ?thesis by (simp del: distrib_left_numeral)
  qed (use Cons.prems in simp)
qed simp

lemma read_show_digits: "0 \<le> n \<Longrightarrow> read_digits ok 0 (show_digits n) = Some n"
proof (induction n arbitrary: ok rule: show_digits.induct)
  case (1 n)
  show ?case
  proof (cases "n < 10")
    case True
    with 1(2) show ?thesis by (subst show_digits.simps) simp
  next
    case False
    have d: "\<forall>c \<in> set (show_digits (n div 10)). is_digit c"
      using 1(2) show_digits_digits [of "n div 10"] by (auto simp: pos_imp_zdiv_nonneg_iff)
    have "read_digits ok 0 (show_digits n) = read_digits ok 0 (show_digits (n div 10) @ [digit_char (n mod 10)])"
      using False by (subst show_digits.simps) simp
    also have "\<dots> = Some (10 * (n div 10) + n mod 10)"
      using 1 False d by (simp add: read_digits_append pos_imp_zdiv_nonneg_iff)
    finally show ?thesis by simp
  qed
qed

lemma length_show_digits: "0 \<le> n \<Longrightarrow> n < 10 ^ Suc k \<Longrightarrow> length (show_digits n) \<le> Suc k"
proof (induction n arbitrary: k rule: show_digits.induct)
  case (1 n)
  show ?case
  proof (cases "n < 10")
    case False
    then obtain j where k: "k = Suc j" using 1(3) by (cases k) auto
    have "n div 10 < 10 ^ Suc j" using 1(3) by (simp add: k div_less_iff_less_mult)
    then have "length (show_digits (n div 10)) \<le> Suc j"
      using 1 False by (simp add: pos_imp_zdiv_nonneg_iff)
    with False show ?thesis by (subst show_digits.simps) (simp add: k)
  qed (subst show_digits.simps, simp)
qed

lemma strip_ends:
  assumes "s \<noteq> []" "\<not> is_space (hd s)" "\<not> is_space (last s)"
  shows "strip s = s"
proof -
  have "dropWhile is_space s = s" using assms(1,2) by (cases s) auto
  moreover have "dropWhile is_space (rev s) = rev s" using assms(1,3) by (cases s rule: rev_cases) auto
  ultimately show ?thesis by (simp add: strip_def)
qed

lemma int_of_digits:
  assumes "0 \<le> n" "n < 10 ^ MAX_STR_DIGITS"
  shows "int_of_str (show_digits n) = Some n" "int_of_str (CHR ''-'' # show_digits n) = Some (- n)"
proof -
  have d: "\<And>c. c \<in> set (show_digits n) \<Longrightarrow> is_digit c" using assms(1) show_digits_digits by blast
  obtain k where k: "MAX_STR_DIGITS = Suc k" by (cases MAX_STR_DIGITS) (simp_all add: MAX_STR_DIGITS_def)
  have "length (show_digits n) \<le> MAX_STR_DIGITS"
    unfolding k by (rule length_show_digits) (use assms in \<open>simp_all only: k\<close>)
  then have len: "length (filter is_digit (show_digits n)) \<le> MAX_STR_DIGITS"
    using le_trans length_filter_le by blast
  have minus: "\<not> is_space (CHR ''-'')" by (simp add: is_space_def)
  have s1: "strip (show_digits n) = show_digits n"
    using d by (intro strip_ends) simp_all
  have s2: "strip (CHR ''-'' # show_digits n) = CHR ''-'' # show_digits n"
    using d minus by (intro strip_ends) simp_all
  obtain c cs where cs: "show_digits n = c # cs" by (cases "show_digits n") auto
  have "is_digit c" using d cs by simp
  with s1 len read_show_digits [OF assms(1)] show "int_of_str (show_digits n) = Some n"
    by (simp add: int_of_str_def cs) 
  from s2 len read_show_digits [OF assms(1)] show "int_of_str (CHR ''-'' # show_digits n) = Some (- n)"
    by (simp add: int_of_str_def)
qed

lemma int_of_show_int: "\<bar>ts\<bar> < 10 ^ MAX_STR_DIGITS \<Longrightarrow> int_of_str (show_int ts) = Some ts"
  by (simp add: show_int_def int_of_digits)

lemma show_int_no_mark: "c \<in> set (show_int ts) \<Longrightarrow> c \<noteq> CHR '','' \<and> c \<noteq> CHR ''=''"
  using show_digits_digits [of "- ts" c] show_digits_digits [of ts c] digit_not_mark [of c]
  by (auto simp: show_int_def simp del: digit_not_mark split: if_splits)

lemma show_int_ne [simp]: "show_int ts \<noteq> []"
  by (simp add: show_int_def)

lemma split_on_append:
  "c \<notin> set xs \<Longrightarrow> split_on c (xs @ c # ys) = xs # split_on c ys"
  by (induction xs) auto

lemma split_on_none: "c \<notin> set xs \<Longrightarrow> split_on c xs = [xs]"
  by (induction xs) auto

end
