(* ===== verification/Signing.thy ===== *)
theory Signing
  imports Py_Text "HOL-Library.Word"
begin

unbundle bit_operations_syntax

text \<open>
  The signature of an outbound webhook (\<open>src/app/webhooks/signing.py\<close>), with what it uses of Python's
  standard library written out: SHA-256 and HMAC on bytes, hexadecimal printing and \<open>hmac.compare_digest\<close>, which raises on a string with a character
  outside ASCII. A \<open>str\<close> is a list of characters up to U+00FF, which is what an HTTP header decodes to;
  a secret is given by its UTF-8 bytes.
\<close>

section \<open>SHA-256 and HMAC\<close>

type_synonym word32 = "32 word"
type_synonym byte = "8 word"

text \<open>The 64 constants of the standard, in decimal.\<close>

definition round_constants :: "word32 list" where
  "round_constants =
    [1116352408, 1899447441, 3049323471, 3921009573, 961987163, 1508970993, 2453635748,
     2870763221, 3624381080, 310598401, 607225278, 1426881987, 1925078388, 2162078206,
     2614888103, 3248222580, 3835390401, 4022224774, 264347078, 604807628, 770255983,
     1249150122, 1555081692, 1996064986, 2554220882, 2821834349, 2952996808, 3210313671,
     3336571891, 3584528711, 113926993, 338241895, 666307205, 773529912, 1294757372,
     1396182291, 1695183700, 1986661051, 2177026350, 2456956037, 2730485921, 2820302411,
     3259730800, 3345764771, 3516065817, 3600352804, 4094571909, 275423344, 430227734,
     506948616, 659060556, 883997877, 958139571, 1322822218, 1537002063, 1747873779,
     1955562222, 2024104815, 2227730452, 2361852424, 2428436474, 2756734187, 3204031479,
     3329325298]"

type_synonym hash_state =
  "word32 \<times> word32 \<times> word32 \<times> word32 \<times> word32 \<times> word32 \<times> word32 \<times> word32"

definition initial_state :: hash_state where
  "initial_state = (1779033703, 3144134277, 1013904242, 2773480762, 1359893119, 2600822924, 528734635, 1541459225)"

text \<open>The message schedule, newest word first: sixteen words of the block, then \<open>n\<close> more.\<close>

fun schedule :: "nat \<Rightarrow> word32 list \<Rightarrow> word32 list" where
  "schedule 0 ws = ws"
| "schedule (Suc n) ws =
     (let w15 = ws ! 14; w2 = ws ! 1;
          s0 = word_rotr 7 w15 XOR word_rotr 18 w15 XOR drop_bit 3 w15;
          s1 = word_rotr 17 w2 XOR word_rotr 19 w2 XOR drop_bit 10 w2
      in schedule n ((ws ! 15 + s0 + ws ! 6 + s1) # ws))"

fun hash_round :: "hash_state \<Rightarrow> word32 \<times> word32 \<Rightarrow> hash_state" where
  "hash_round (a, b, c, d, e, f, g, h) (k, w) =
     (let s1 = word_rotr 6 e XOR word_rotr 11 e XOR word_rotr 25 e;
          ch = (e AND f) XOR (NOT e AND g);
          t1 = h + s1 + ch + k + w;
          s0 = word_rotr 2 a XOR word_rotr 13 a XOR word_rotr 22 a;
          maj = (a AND b) XOR (a AND c) XOR (b AND c)
      in (t1 + (s0 + maj), a, b, c, d + t1, e, f, g))"

fun add_state :: "hash_state \<Rightarrow> hash_state \<Rightarrow> hash_state" where
  "add_state (a, b, c, d, e, f, g, h) (a', b', c', d', e', f', g', h') =
     (a + a', b + b', c + c', d + d', e + e', f + f', g + g', h + h')"

definition word_of_bytes :: "byte list \<Rightarrow> word32" where
  "word_of_bytes bs = foldl (\<lambda>acc b. push_bit 8 acc OR ucast b) 0 bs"

definition bytes_of_word :: "word32 \<Rightarrow> byte list" where
  "bytes_of_word w = [ucast (drop_bit 24 w), ucast (drop_bit 16 w), ucast (drop_bit 8 w), ucast w]"

fun chunks :: "nat \<Rightarrow> 'a list \<Rightarrow> 'a list list" where
  "chunks n xs = (if n = 0 \<or> xs = [] then [] else take n xs # chunks n (drop n xs))"

declare chunks.simps [simp del]

definition hash_block :: "hash_state \<Rightarrow> byte list \<Rightarrow> hash_state" where
  "hash_block st block =
     add_state st (foldl hash_round st
       (zip round_constants (rev (schedule 48 (rev (map word_of_bytes (chunks 4 block)))))))"

definition pad_message :: "byte list \<Rightarrow> byte list" where
  "pad_message msg =
     (let n = length msg in
      msg @ [0x80] @ replicate ((119 - n mod 64) mod 64) 0 @
        map (\<lambda>i. ucast (drop_bit (8 * i) (of_nat (8 * n) :: 64 word))) (rev [0..<8]))"

fun bytes_of_state :: "hash_state \<Rightarrow> byte list" where
  "bytes_of_state (a, b, c, d, e, f, g, h) = concat (map bytes_of_word [a, b, c, d, e, f, g, h])"

definition sha256 :: "byte list \<Rightarrow> byte list" where
  "sha256 msg = bytes_of_state (foldl hash_block initial_state (chunks 64 (pad_message msg)))"

definition hmac_key :: "byte list \<Rightarrow> byte list" where
  "hmac_key key = (let k = (if 64 < length key then sha256 key else key) in k @ replicate (64 - length k) 0)"

definition hmac_sha256 :: "byte list \<Rightarrow> byte list \<Rightarrow> byte list" where
  "hmac_sha256 key msg =
     sha256 (map ((XOR) 0x5c) (hmac_key key) @ sha256 (map ((XOR) 0x36) (hmac_key key) @ msg))"

definition hex_digit :: "nat \<Rightarrow> char" where
  "hex_digit n = (if n < 10 then char_of (48 + n) else char_of (87 + n))"

definition hexlify :: "byte list \<Rightarrow> string" where
  "hexlify bs = concat (map (\<lambda>b. [hex_digit (unat b div 16), hex_digit (unat b mod 16)]) bs)"

definition encode_ascii :: "string \<Rightarrow> byte list" where
  "encode_ascii s = map of_char s"

section \<open>signing.py\<close>

definition SIGNATURE_VERSION :: string where
  "SIGNATURE_VERSION = ''v1''"

definition digest :: "byte list \<Rightarrow> byte list \<Rightarrow> int \<Rightarrow> string" where
  "digest secret body timestamp =
     hexlify (hmac_sha256 secret (encode_ascii (show_int timestamp @ ''.'') @ body))"

definition sign :: "byte list \<Rightarrow> byte list \<Rightarrow> int \<Rightarrow> string" where
  "sign secret body timestamp =
     ''t='' @ show_int timestamp @ '','' @ SIGNATURE_VERSION @ ''='' @ digest secret body timestamp"

datatype py_error = TypeError

definition header_parts :: "string \<Rightarrow> (string \<times> string) list" where
  "header_parts header =
     map (split_once (CHR ''='')) (filter (\<lambda>piece. CHR ''='' \<in> set piece) (split_on (CHR '','') header))"

definition compare_digest :: "string \<Rightarrow> string \<Rightarrow> py_error + bool" where
  "compare_digest a b =
     (if \<exists>c \<in> set a \<union> set b. 128 \<le> (of_char c :: nat) then Inl TypeError else Inr (a = b))"

definition verify ::
    "byte list \<Rightarrow> byte list \<Rightarrow> string \<Rightarrow> int \<Rightarrow> int \<Rightarrow> py_error + bool" where
  "verify secret body header now tolerance_seconds =
     (let parts = dict_of (header_parts header) in
      case (parts SIGNATURE_VERSION, parts ''t'') of
        (Some provided, Some raw_timestamp) \<Rightarrow>
          if provided = [] \<or> raw_timestamp = [] then Inr False
          else (case int_of_str raw_timestamp of
             None \<Rightarrow> Inr False
           | Some timestamp \<Rightarrow>
               if tolerance_seconds < \<bar>now - timestamp\<bar> then Inr False
               else compare_digest provided (digest secret body timestamp))
      | _ \<Rightarrow> Inr False)"

section \<open>Lemmas\<close>

lemma hexlify_chars:
  assumes "c \<in> set (hexlify bs)"
  shows "(of_char c :: nat) \<in> {48..57} \<union> {97..102}"
proof -
  have "(of_char (hex_digit n) :: nat) \<in> {48..57} \<union> {97..102}" if "n < 16" for n
    using that by (auto simp: hex_digit_def of_char_of)
  moreover have "unat b div 16 < 16" for b :: byte
    using unsigned_less [of b] by (intro less_mult_imp_div_less) simp
  moreover have "unat b mod 16 < 16" for b :: byte by simp
  ultimately have "\<forall>b. \<forall>c \<in> set [hex_digit (unat (b :: byte) div 16), hex_digit (unat b mod 16)]. (of_char c :: nat) \<in> {48..57} \<union> {97..102}"
    by (metis empty_iff insert_iff list.set(1,2))
  with assms show ?thesis unfolding hexlify_def set_concat set_map by blast
qed

lemma length_hexlify: "length (hexlify bs) = 2 * length bs"
  by (induction bs) (simp_all add: hexlify_def)

lemma length_sha256 [simp]: "length (sha256 msg) = 32"
proof -
  have "length (bytes_of_state st) = 32" for st
    by (cases st rule: bytes_of_state.cases) (simp add: bytes_of_word_def)
  then show ?thesis by (simp add: sha256_def)
qed

lemma length_digest: "length (digest secret body ts) = 64"
  by (simp add: digest_def length_hexlify hmac_sha256_def)

lemma digest_chars: "c \<in> set (digest secret body ts) \<Longrightarrow> c \<noteq> CHR '','' \<and> c \<noteq> CHR ''='' \<and> (of_char c :: nat) < 128"
  using hexlify_chars [of c] unfolding digest_def by fastforce

lemma header_parts_sign:
  "header_parts (sign secret body ts) = [(''t'', show_int ts), (SIGNATURE_VERSION, digest secret body ts)]"
proof -
  have "CHR '','' \<notin> set (''t='' @ show_int ts)" "CHR '','' \<notin> set (SIGNATURE_VERSION @ ''='' @ digest secret body ts)"
    using show_int_no_mark [of "CHR '',''" ts] digest_chars [of "CHR '',''" secret body ts] by (auto simp: SIGNATURE_VERSION_def)
  then have "split_on (CHR '','') (sign secret body ts) = [''t='' @ show_int ts, SIGNATURE_VERSION @ ''='' @ digest secret body ts]"
    using split_on_append [of "CHR '',''" "''t='' @ show_int ts"] split_on_none
    by (simp add: sign_def)
  then show ?thesis by (simp add: header_parts_def split_once_def SIGNATURE_VERSION_def)
qed

lemma digest_ne [simp]: "digest secret body ts \<noteq> []"
  using length_digest [of secret body ts] by auto

lemma verify_sign:
  assumes "\<bar>timestamp\<bar> < 10 ^ MAX_STR_DIGITS"
  shows "verify secret body (sign secret body timestamp) now tolerance = Inr (\<bar>now - timestamp\<bar> \<le> tolerance)"
proof -
  have "\<forall>c \<in> set (digest secret body timestamp). (of_char c :: nat) < 128" using digest_chars by blast
  then have "compare_digest (digest secret body timestamp) (digest secret body timestamp) = Inr True"
    by (auto simp: compare_digest_def)
  then show ?thesis
    by (simp add: verify_def header_parts_sign dict_of_def SIGNATURE_VERSION_def int_of_show_int [OF assms])
qed

lemma small_timestamp: "0 \<le> ts \<Longrightarrow> ts < 10 ^ 10 \<Longrightarrow> \<bar>ts\<bar> < (10 :: int) ^ MAX_STR_DIGITS"
proof -
  have "10 \<le> MAX_STR_DIGITS" by (simp add: MAX_STR_DIGITS_def)
  then have "(10 :: int) ^ 10 \<le> 10 ^ MAX_STR_DIGITS" by (rule power_increasing) simp
  then show "0 \<le> ts \<Longrightarrow> ts < 10 ^ 10 \<Longrightarrow> \<bar>ts\<bar> < (10 :: int) ^ MAX_STR_DIGITS" by linarith
qed

text \<open>The published test vector.\<close>

lemma sha256_abc:
  "hexlify (sha256 (encode_ascii ''abc'')) = ''ba7816bf8f01cfea414140de5dae2223b00361a396177a9cb410ff61f20015ad''"
  by code_simp

section \<open>Properties\<close>

text \<open>
  (C38) What is signed verifies: for every secret, body and timestamp, the header \<open>sign\<close> writes is
  accepted by \<open>verify\<close> exactly while the clock is within the tolerance of the timestamp, and it never
  makes the verifier raise. The bound on the timestamp is the number of digits Python prints and reads.
\<close>

theorem signature_roundtrip:
  assumes "\<bar>timestamp\<bar> < 10 ^ MAX_STR_DIGITS"
  shows "verify secret body (sign secret body timestamp) now tolerance = Inr (\<bar>now - timestamp\<bar> \<le> tolerance)"
  by (rule verify_sign [OF assms])

text \<open>
  Nothing else verifies: a header that is accepted carries a timestamp within the tolerance and
  the digest of exactly this body with that timestamp under this secret, so neither the body nor
  the timestamp of a captured request can be changed without a digest of the changed string.
\<close>

theorem signature_acceptance_binds_the_timestamp:
  assumes "verify secret body header now tolerance = Inr True"
  shows "\<exists>raw timestamp. dict_of (header_parts header) ''t'' = Some raw \<and> int_of_str raw = Some timestamp \<and>
    \<bar>now - timestamp\<bar> \<le> tolerance \<and>
    dict_of (header_parts header) ''v1'' = Some (digest secret body timestamp)"
  using assms
  by (auto simp: verify_def SIGNATURE_VERSION_def compare_digest_def Let_def split: option.splits if_splits)

theorem signature_roundtrip_witness:
  "verify [115] [123, 125] (sign [115] [123, 125] 1754841600) 1754841700 300 = Inr True"
proof -
  have "\<bar>1754841600\<bar> < (10 :: int) ^ MAX_STR_DIGITS" by (rule small_timestamp) simp_all
  from signature_roundtrip [OF this, of "[115]" "[123, 125]" 1754841700 300] show ?thesis by simp
qed

theorem signature_acceptance_binds_the_timestamp_witness:
  "\<exists>raw timestamp. dict_of (header_parts (sign [115] [123, 125] 1754841600)) ''t'' = Some raw \<and>
    int_of_str raw = Some timestamp \<and> \<bar>1754841700 - timestamp\<bar> \<le> 300"
proof -
  have "\<bar>1754841600\<bar> < (10 :: int) ^ MAX_STR_DIGITS" by (rule small_timestamp) simp_all
  from verify_sign [OF this, of "[115]" "[123, 125]" 1754841700 300]
  have "verify [115] [123, 125] (sign [115] [123, 125] 1754841600) 1754841700 300 = Inr True" by simp
  from signature_acceptance_binds_the_timestamp [OF this] show ?thesis by blast
qed

end
