(* ===== verification/Webhook_Delivery.thy ===== *)
theory Webhook_Delivery
  imports Status_Service Signing "HOL-Library.Product_Lexorder"
begin

text \<open>
  Delivering the owed notifications (\<open>src/app/webhooks/delivery.py\<close>): one attempt with its branches,
  the immediate attempt after a commit and the sweep, run alone and overlapping. The consumer is a parameter: \<open>post\<close> answers
  each request with a status code or an exception, as it likes, and may depend on the endpoint and on
  the delivery with its attempt number; \<open>ticks\<close> are the clock readings of the attempts.
\<close>

section \<open>Retry policy\<close>

definition BACKOFF_MINUTES :: "int list" where
  "BACKOFF_MINUTES = [1, 5, 25, 120, 600, 2880]"

definition MAX_ATTEMPTS :: int where
  "MAX_ATTEMPTS = int (length BACKOFF_MINUTES)"

definition MAX_CONSECUTIVE_FAILURES :: int where
  "MAX_CONSECUTIVE_FAILURES = 20"

definition RETRYABLE_STATUSES :: "int set" where
  "RETRYABLE_STATUSES = {408, 425, 429}"

definition is_retryable_status :: "int \<Rightarrow> bool" where
  "is_retryable_status code \<longleftrightarrow> 500 \<le> code \<or> code \<in> RETRYABLE_STATUSES"

text \<open>A negative index would count from the end; \<open>attempts\<close> is never negative (\<open>delivery_ok\<close> below).\<close>

definition next_attempt_at :: "int \<Rightarrow> instant \<Rightarrow> instant option" where
  "next_attempt_at attempts now =
     (if MAX_ATTEMPTS \<le> attempts then None
      else Some (now + minutes (BACKOFF_MINUTES ! nat attempts)))"

section \<open>One attempt\<close>

datatype post_outcome = Response int | Raised string

type_synonym consumer = "endpoint_row \<Rightarrow> delivery_row \<Rightarrow> post_outcome"

definition record_failure ::
    "delivery_row \<Rightarrow> endpoint_row \<Rightarrow> instant \<Rightarrow> bool \<Rightarrow> delivery_row \<times> endpoint_row" where
  "record_failure delivery endpoint now retryable =
     (let next = (if retryable then next_attempt_at (wd_attempts delivery) now else None);
          delivery1 = delivery\<lparr>wd_next_attempt_at := next,
            wd_status := (if next = None then DELIVERY_FAILED else DELIVERY_PENDING)\<rparr>;
          failures = endpoint_consecutive_failures endpoint + 1;
          endpoint1 = endpoint\<lparr>endpoint_consecutive_failures := failures\<rparr>
      in (delivery1,
          if MAX_CONSECUTIVE_FAILURES \<le> failures \<and> endpoint_is_active endpoint
          then endpoint1\<lparr>endpoint_is_active := False, endpoint_disabled_at := Some now\<rparr>
          else endpoint1))"

text \<open>The part of \<open>attempt_delivery\<close> after the attempt was counted, for the consumer's answer.\<close>

definition record_outcome ::
    "post_outcome \<Rightarrow> instant \<Rightarrow> delivery_row \<Rightarrow> endpoint_row \<Rightarrow> delivery_row \<times> endpoint_row" where
  "record_outcome answer now delivery endpoint =
     (case answer of
        Raised msg \<Rightarrow> record_failure (delivery\<lparr>wd_last_error := Some (take 500 msg)\<rparr>) endpoint now True
      | Response code \<Rightarrow>
          let delivery1 = delivery\<lparr>wd_last_status_code := Some code\<rparr> in
          if 200 \<le> code \<and> code < 300 then
            (delivery1\<lparr>wd_status := DELIVERY_DELIVERED, wd_delivered_at := Some now, wd_next_attempt_at := None,
               wd_last_error := None\<rparr>,
             endpoint\<lparr>endpoint_consecutive_failures := 0, endpoint_last_success_at := Some now\<rparr>)
          else
            let delivery2 = delivery1\<lparr>wd_last_error := Some (''HTTP '' @ show_int code)\<rparr> in
            if \<not> is_retryable_status code then
              (delivery2\<lparr>wd_status := DELIVERY_REJECTED, wd_next_attempt_at := None\<rparr>, endpoint)
            else record_failure delivery2 endpoint now True)"

definition put_delivery :: "delivery_row \<Rightarrow> db \<Rightarrow> db" where
  "put_delivery x d = d\<lparr>deliveries := update_where (\<lambda>r. wd_id r = wd_id x) (\<lambda>_. x) (deliveries d)\<rparr>"

definition put_endpoint :: "endpoint_row \<Rightarrow> db \<Rightarrow> db" where
  "put_endpoint x d = d\<lparr>endpoints := update_where (\<lambda>r. endpoint_id r = endpoint_id x) (\<lambda>_. x) (endpoints d)\<rparr>"

definition attempt_delivery :: "consumer \<Rightarrow> instant \<Rightarrow> delivery_row \<Rightarrow> db \<Rightarrow> delivery_status \<times> db" where
  "attempt_delivery post now delivery d =
     (let inactive = delivery\<lparr>wd_status := DELIVERY_REJECTED, wd_next_attempt_at := None,
            wd_last_error := Some ''endpoint is inactive''\<rparr> in
      case lookup_by endpoint_id (wd_endpoint_id delivery) (endpoints d) of
        None \<Rightarrow> (DELIVERY_REJECTED, put_delivery inactive d)
      | Some endpoint \<Rightarrow>
          if \<not> endpoint_is_active endpoint then (DELIVERY_REJECTED, put_delivery inactive d)
          else
            let delivery1 = delivery\<lparr>wd_attempts := wd_attempts delivery + 1\<rparr>;
                (delivery2, endpoint2) = record_outcome (post endpoint delivery1) now delivery1 endpoint
            in (wd_status delivery2, put_endpoint endpoint2 (put_delivery delivery2 d)))"

section \<open>The two callers\<close>

text \<open>The rows were read before the first attempt; no attempt changes another delivery's row.\<close>

fun attempt_all :: "consumer \<Rightarrow> (nat \<Rightarrow> instant) \<Rightarrow> nat \<Rightarrow> delivery_row list \<Rightarrow> db \<Rightarrow> delivery_status list \<times> db" where
  "attempt_all post ticks k [] d = ([], d)"
| "attempt_all post ticks k (x # xs) d =
     (let (outcome, d1) = attempt_delivery post (ticks k) x d;
          (outcomes, d2) = attempt_all post ticks (Suc k) xs d1
      in (outcome # outcomes, d2))"

definition deliver_now :: "consumer \<Rightarrow> (nat \<Rightarrow> instant) \<Rightarrow> uuid list \<Rightarrow> session \<Rightarrow> session" where
  "deliver_now post ticks ids s =
     (if ids = [] then s
      else commit (s\<lparr>db := snd (attempt_all post ticks 0 (filter (\<lambda>x. wd_id x \<in> set ids) (deliveries (db s))) (db s))\<rparr>))"

definition is_due :: "instant \<Rightarrow> delivery_row \<Rightarrow> bool" where
  "is_due now x \<longleftrightarrow> wd_status x = DELIVERY_PENDING \<and>
     (case wd_next_attempt_at x of None \<Rightarrow> False | Some t \<Rightarrow> t \<le> now)"

definition due_deliveries :: "instant \<Rightarrow> nat \<Rightarrow> db \<Rightarrow> delivery_row list" where
  "due_deliveries now limit d = take limit (sort_key wd_sequence (filter (is_due now) (deliveries d)))"

fun count_outcomes :: "delivery_status list \<Rightarrow> (delivery_status \<times> nat) list \<Rightarrow> (delivery_status \<times> nat) list" where
  "count_outcomes [] counts = counts"
| "count_outcomes (x # xs) counts =
     count_outcomes xs (put_key x (Suc (case map_of counts x of None \<Rightarrow> 0 | Some n \<Rightarrow> n)) counts)"

definition deliver_pending ::
    "consumer \<Rightarrow> (nat \<Rightarrow> instant) \<Rightarrow> instant \<Rightarrow> nat \<Rightarrow> session \<Rightarrow> (delivery_status \<times> nat) list \<times> session" where
  "deliver_pending post ticks now limit s =
     (let (outcomes, d1) = attempt_all post ticks 0 (due_deliveries now limit (db s)) (db s)
      in (count_outcomes outcomes [], commit (s\<lparr>db := d1\<rparr>)))"

section \<open>Overlapping runs\<close>

text \<open>
  Neither caller locks the rows it read, and each attempt waits for the consumer, so runs overlap: an immediate one
  (\<open>run_immediate\<close> has the identifiers it was given) or a sweep. A run holds the rows as it read them, and the instances it has
  worked on beside the values it read: the deliveries attempted so far and the endpoints loaded for them, each loaded once. Its commit writes the columns it
  changed over whatever the rows are by then, and no others.
\<close>

record run =
  run_immediate :: "uuid list option"
  run_left :: "delivery_row list"
  run_done :: "(delivery_row \<times> delivery_row) list"
  run_ends :: "(endpoint_row \<times> endpoint_row) list"

definition begin_immediate :: "uuid list \<Rightarrow> db \<Rightarrow> run" where
  "begin_immediate ids d =
     \<lparr>run_immediate = Some ids, run_left = filter (\<lambda>x. wd_id x \<in> set ids) (deliveries d), run_done = [], run_ends = []\<rparr>"

definition begin_sweep :: "instant \<Rightarrow> nat \<Rightarrow> db \<Rightarrow> run" where
  "begin_sweep now limit d = \<lparr>run_immediate = None, run_left = due_deliveries now limit d, run_done = [], run_ends = []\<rparr>"

text \<open>\<open>session.get\<close>: the instance the run has, or the row as it is committed now.\<close>

definition load_endpoint :: "uuid \<Rightarrow> db \<Rightarrow> (endpoint_row \<times> endpoint_row) list \<Rightarrow> (endpoint_row \<times> endpoint_row) list" where
  "load_endpoint i d ends =
     (case lookup_by endpoint_id i (map snd ends) of
        Some _ \<Rightarrow> ends
      | None \<Rightarrow> (case lookup_by endpoint_id i (endpoints d) of None \<Rightarrow> ends | Some e \<Rightarrow> ends @ [(e, e)]))"

definition run_attempt :: "consumer \<Rightarrow> instant \<Rightarrow> db \<Rightarrow> run \<Rightarrow> run" where
  "run_attempt post now d r =
     (case run_left r of
        [] \<Rightarrow> r
      | x # rest \<Rightarrow>
          let ends = load_endpoint (wd_endpoint_id x) d (run_ends r);
              d1 = snd (attempt_delivery post now x (d\<lparr>deliveries := [x], endpoints := map snd ends\<rparr>))
          in r\<lparr>run_left := rest, run_done := run_done r @ [(x, hd (deliveries d1))], run_ends := zip (map fst ends) (endpoints d1)\<rparr>)"

text \<open>
  A column read as \<open>a\<close> and now \<open>b\<close> is written when it changed. An endpoint's count that came back to the value read is
  written too when the session flushed in between (\<open>flushed\<close>, any choice of endpoints).
\<close>

definition written :: "'a \<Rightarrow> 'a \<Rightarrow> 'a \<Rightarrow> 'a" where
  "written a b r = (if b = a then r else b)"

definition merge_delivery :: "delivery_row \<Rightarrow> delivery_row \<Rightarrow> delivery_row \<Rightarrow> delivery_row" where
  "merge_delivery a b r = r\<lparr>wd_status := written (wd_status a) (wd_status b) (wd_status r),
     wd_attempts := written (wd_attempts a) (wd_attempts b) (wd_attempts r),
     wd_next_attempt_at := written (wd_next_attempt_at a) (wd_next_attempt_at b) (wd_next_attempt_at r),
     wd_last_status_code := written (wd_last_status_code a) (wd_last_status_code b) (wd_last_status_code r),
     wd_last_error := written (wd_last_error a) (wd_last_error b) (wd_last_error r),
     wd_delivered_at := written (wd_delivered_at a) (wd_delivered_at b) (wd_delivered_at r)\<rparr>"

definition merge_endpoint :: "(uuid \<Rightarrow> bool) \<Rightarrow> endpoint_row \<Rightarrow> endpoint_row \<Rightarrow> endpoint_row \<Rightarrow> endpoint_row" where
  "merge_endpoint flushed a b r = r\<lparr>endpoint_is_active := written (endpoint_is_active a) (endpoint_is_active b) (endpoint_is_active r),
     endpoint_consecutive_failures := (if a \<noteq> b \<and> flushed (endpoint_id a) then endpoint_consecutive_failures b
       else written (endpoint_consecutive_failures a) (endpoint_consecutive_failures b) (endpoint_consecutive_failures r)),
     endpoint_disabled_at := written (endpoint_disabled_at a) (endpoint_disabled_at b) (endpoint_disabled_at r),
     endpoint_last_success_at := written (endpoint_last_success_at a) (endpoint_last_success_at b) (endpoint_last_success_at r)\<rparr>"

definition write_rows :: "('a \<Rightarrow> uuid) \<Rightarrow> ('a \<Rightarrow> 'a \<Rightarrow> 'a \<Rightarrow> 'a) \<Rightarrow> ('a \<times> 'a) list \<Rightarrow> 'a list \<Rightarrow> 'a list" where
  "write_rows key merge pairs rows =
     map (\<lambda>r. case find (\<lambda>p. key (fst p) = key r) pairs of None \<Rightarrow> r | Some p \<Rightarrow> merge (fst p) (snd p) r) rows"

definition commit_run :: "(uuid \<Rightarrow> bool) \<Rightarrow> run \<Rightarrow> session \<Rightarrow> session" where
  "commit_run flushed r s = commit (s\<lparr>db := (db s)\<lparr>deliveries := write_rows wd_id merge_delivery (run_done r) (deliveries (db s)),
     endpoints := write_rows endpoint_id (merge_endpoint flushed) (run_ends r) (endpoints (db s))\<rparr>\<rparr>)"

text \<open>
  The notifications of all clients as a step relation, over the committed tables, the immediate tasks scheduled and the runs under way. A
  transaction tells the sinks of its status changes and commits or is rolled back, and either way its session's end schedules the
  identifiers it enqueued (\<open>_schedule_enqueued_webhooks\<close>, \<open>src/app/db.py\<close>); a scheduled task begins or never runs; a sweep begins; a run makes its
  next attempt, with any consumer and clock; a run that has made them all commits; and a run is lost, with its process or
  with an error, at any point. A retry's new time is not, to the microsecond, the time the row carried before.
\<close>

record courier =
  co_session :: session
  co_scheduled :: "uuid list list"
  co_runs :: "run list"

definition emit_all :: "status_event list \<Rightarrow> session \<Rightarrow> session" where
  "emit_all events s = fold (\<lambda>e t. snd (webhook_emit True e t)) events s"

definition new_times :: "run \<Rightarrow> bool" where
  "new_times r \<longleftrightarrow> (\<forall>p \<in> set (run_done r). wd_next_attempt_at (snd p) \<noteq> None \<longrightarrow> wd_next_attempt_at (snd p) \<noteq> wd_next_attempt_at (fst p))"

inductive notify_step :: "courier \<Rightarrow> courier \<Rightarrow> bool" where
  transacted: "take_pending_delivery_ids (emit_all events (co_session c)) = (ids, s) \<Longrightarrow>
    notify_step c (c\<lparr>co_session := commit s, co_scheduled := co_scheduled c @ [ids]\<rparr>)"
| rolled_back: "take_pending_delivery_ids (emit_all events (co_session c)) = (ids, s) \<Longrightarrow>
    notify_step c (c\<lparr>co_session := rollback s, co_scheduled := co_scheduled c @ [ids]\<rparr>)"
| immediate: "co_scheduled c = as @ ids # bs \<Longrightarrow>
    notify_step c (c\<lparr>co_scheduled := as @ bs, co_runs := co_runs c @ [begin_immediate ids (db (co_session c))]\<rparr>)"
| never_run: "co_scheduled c = as @ ids # bs \<Longrightarrow> notify_step c (c\<lparr>co_scheduled := as @ bs\<rparr>)"
| sweep: "notify_step c (c\<lparr>co_runs := co_runs c @ [begin_sweep now limit (db (co_session c))]\<rparr>)"
| attempt: "co_runs c = as @ r # bs \<Longrightarrow> new_times (run_attempt post now (db (co_session c)) r) \<Longrightarrow>
    notify_step c (c\<lparr>co_runs := as @ run_attempt post now (db (co_session c)) r # bs\<rparr>)"
| finished: "co_runs c = as @ r # bs \<Longrightarrow> run_left r = [] \<Longrightarrow>
    notify_step c (c\<lparr>co_runs := as @ bs, co_session := commit_run flushed r (co_session c)\<rparr>)"
| lost: "co_runs c = as @ r # bs \<Longrightarrow> notify_step c (c\<lparr>co_runs := as @ bs\<rparr>)"

section \<open>Well-formed deliveries and endpoints\<close>

text \<open>
  A pending delivery has attempts left and a time for the next one; an active endpoint is below the
  cut-off.
\<close>

definition delivery_ok :: "uuid \<Rightarrow> delivery_row \<Rightarrow> bool" where
  "delivery_ok n x \<longleftrightarrow> wd_id x < n \<and> wd_event_id x < n \<and> 0 \<le> wd_attempts x \<and>
     (wd_status x = DELIVERY_PENDING \<longrightarrow> wd_attempts x < MAX_ATTEMPTS \<and> wd_next_attempt_at x \<noteq> None)"

definition endpoint_ok :: "endpoint_row \<Rightarrow> bool" where
  "endpoint_ok e \<longleftrightarrow> (endpoint_is_active e \<longrightarrow> endpoint_consecutive_failures e < MAX_CONSECUTIVE_FAILURES)"

definition owed_ok :: "uuid \<Rightarrow> db \<Rightarrow> bool" where
  "owed_ok n d \<longleftrightarrow> distinct (map wd_id (deliveries d)) \<and> distinct (map endpoint_id (endpoints d)) \<and>
     (\<forall>x \<in> set (deliveries d). delivery_ok n x) \<and>
     (\<forall>e \<in> set (endpoints d). endpoint_ok e)"

lemma record_failure_ok:
  assumes "record_failure x e now True = (x', e')" "0 \<le> wd_attempts x" "wd_id x < n" "wd_event_id x < n"
  shows "delivery_ok n x' \<and> endpoint_ok e' \<and> wd_id x' = wd_id x \<and> endpoint_id e' = endpoint_id e \<and>
    wd_attempts x' = wd_attempts x"
  using assms
  by (cases "wd_attempts x < MAX_ATTEMPTS")
    (auto simp: record_failure_def Let_def delivery_ok_def endpoint_ok_def next_attempt_at_def)

lemma record_outcome_ok:
  assumes "record_outcome answer now x e = (x', e')" "0 \<le> wd_attempts x" "wd_id x < n" "wd_event_id x < n" "endpoint_ok e"
  shows "delivery_ok n x' \<and> endpoint_ok e' \<and> wd_id x' = wd_id x \<and> endpoint_id e' = endpoint_id e \<and>
    wd_attempts x' = wd_attempts x"
proof (cases answer)
  case (Raised msg)
  then show ?thesis
    using assms record_failure_ok [of "x\<lparr>wd_last_error := Some (take 500 msg)\<rparr>" e now x' e'] by (simp add: record_outcome_def)
next
  case (Response code)
  consider "200 \<le> code \<and> code < 300" | "\<not> (200 \<le> code \<and> code < 300)" "\<not> is_retryable_status code"
    | "\<not> (200 \<le> code \<and> code < 300)" "is_retryable_status code" by blast
  then show ?thesis
  proof cases
    case 1
    with assms Response show ?thesis
      by (auto simp: record_outcome_def delivery_ok_def endpoint_ok_def MAX_CONSECUTIVE_FAILURES_def)
  next
    case 2
    with assms Response show ?thesis by (auto simp: record_outcome_def delivery_ok_def)
  next
    case 3
    let ?x = "x\<lparr>wd_last_status_code := Some code, wd_last_error := Some (''HTTP '' @ show_int code)\<rparr>"
    from 3 assms(1) Response have "record_failure ?x e now True = (x', e')"
      by (auto simp: record_outcome_def Let_def split: if_splits)
    from record_failure_ok [OF this] assms show ?thesis by simp
  qed
qed

text \<open>What one attempt does to the two tables: the delivery's row and at most its endpoint's row.\<close>

lemma attempt_cases:
  obtains (rejected) x' where "attempt_delivery post now x d = (DELIVERY_REJECTED, put_delivery x' d)"
      "wd_id x' = wd_id x" "wd_event_id x' = wd_event_id x" "wd_status x' = DELIVERY_REJECTED" "wd_attempts x' = wd_attempts x"
  | (posted) e x' e' where "lookup_by endpoint_id (wd_endpoint_id x) (endpoints d) = Some e" "endpoint_is_active e"
      "record_outcome (post e (x\<lparr>wd_attempts := wd_attempts x + 1\<rparr>)) now (x\<lparr>wd_attempts := wd_attempts x + 1\<rparr>) e = (x', e')"
      "attempt_delivery post now x d = (wd_status x', put_endpoint e' (put_delivery x' d))"
proof (cases "lookup_by endpoint_id (wd_endpoint_id x) (endpoints d)")
  case None
  with rejected show thesis by (auto simp: attempt_delivery_def Let_def)
next
  case (Some e)
  show thesis
  proof (cases "endpoint_is_active e")
    case True
    obtain x' e' where r: "record_outcome (post e (x\<lparr>wd_attempts := wd_attempts x + 1\<rparr>)) now
      (x\<lparr>wd_attempts := wd_attempts x + 1\<rparr>) e = (x', e')" by fastforce
    with Some True show thesis by (intro posted [OF Some True r]) (simp add: attempt_delivery_def)
  qed (use Some rejected in \<open>auto simp: attempt_delivery_def Let_def\<close>)
qed

lemma tables_put [simp]:
  "deliveries (put_delivery x d) = update_where (\<lambda>r. wd_id r = wd_id x) (\<lambda>_. x) (deliveries d)"
  "endpoints (put_delivery x d) = endpoints d"
  "deliveries (put_endpoint e d) = deliveries d"
  "endpoints (put_endpoint e d) = update_where (\<lambda>r. endpoint_id r = endpoint_id e) (\<lambda>_. e) (endpoints d)"
  by (simp_all add: put_delivery_def put_endpoint_def)

lemma map_id_put: "map wd_id (update_where (\<lambda>r. wd_id r = wd_id x) (\<lambda>_. x) rows) = map wd_id rows"
  "map endpoint_id (update_where (\<lambda>r. endpoint_id r = endpoint_id e) (\<lambda>_. e) es) = map endpoint_id es"
proof -
  show "map wd_id (update_where (\<lambda>r. wd_id r = wd_id x) (\<lambda>_. x) rows) = map wd_id rows" by (induction rows) auto
  show "map endpoint_id (update_where (\<lambda>r. endpoint_id r = endpoint_id e) (\<lambda>_. e) es) = map endpoint_id es"
    by (induction es) auto
qed

text \<open>One attempt of a run: what becomes of the row it takes and of the endpoints the run has loaded.\<close>

definition end_ok :: "endpoint_row \<times> endpoint_row \<Rightarrow> bool" where
  "end_ok p \<longleftrightarrow> endpoint_id (snd p) = endpoint_id (fst p) \<and> endpoint_ok (snd p) \<and> (\<not> endpoint_is_active (fst p) \<longrightarrow> snd p = fst p)"

definition ends_ok :: "(endpoint_row \<times> endpoint_row) list \<Rightarrow> bool" where
  "ends_ok ends \<longleftrightarrow> distinct (map (endpoint_id \<circ> snd) ends) \<and> (\<forall>p \<in> set ends. end_ok p)"

lemma load_endpoint_ok:
  assumes "ends_ok ends" "owed_ok n d"
  shows "ends_ok (load_endpoint i d ends)"
proof -
  have "endpoint_ok e \<and> endpoint_id e = i" if "lookup_by endpoint_id i (endpoints d) = Some e" for e
    using lookup_by_Some [OF that] assms(2) by (simp add: owed_ok_def)
  moreover have "i \<notin> (endpoint_id \<circ> snd) ` set ends" if "lookup_by endpoint_id i (map snd ends) = None"
    using that by (auto simp: lookup_by_None)
  ultimately show ?thesis using assms(1)
    by (auto simp: load_endpoint_def ends_ok_def end_ok_def split: option.split)
qed

definition attempted :: "delivery_row \<times> delivery_row \<Rightarrow> bool" where
  "attempted p \<longleftrightarrow> wd_id (snd p) = wd_id (fst p) \<and> wd_attempts (snd p) \<in> {wd_attempts (fst p), wd_attempts (fst p) + 1} \<and>
     (wd_status (snd p) = DELIVERY_PENDING \<longrightarrow> wd_attempts (snd p) \<noteq> wd_attempts (fst p) \<and> wd_attempts (snd p) < MAX_ATTEMPTS \<and>
        wd_next_attempt_at (snd p) \<noteq> None)"

lemma zip_update_where:
  "zip (map fst ps) (update_where p f (map snd ps)) = map (\<lambda>q. (fst q, if p (snd q) then f (snd q) else snd q)) ps"
  by (induction ps) auto

lemma run_attempt_cases:
  assumes "run_left r = x # rest" "ends_ok (run_ends r)" "owed_ok n d" "0 \<le> wd_attempts x" "wd_id x < n" "wd_event_id x < n"
  obtains y ends where "run_attempt post now d r = r\<lparr>run_left := rest, run_done := run_done r @ [(x, y)], run_ends := ends\<rparr>"
    "attempted (x, y)" "ends_ok ends"
proof -
  define ends where "ends = load_endpoint (wd_endpoint_id x) d (run_ends r)"
  let ?d = "d\<lparr>deliveries := [x], endpoints := map snd ends\<rparr>"
  have ends: "ends_ok ends" unfolding ends_def by (rule load_endpoint_ok [OF assms(2,3)])
  have run: "run_attempt post now d r = r\<lparr>run_left := rest, run_done := run_done r @ [(x, hd (deliveries (snd (attempt_delivery post now x ?d))))],
      run_ends := zip (map fst ends) (endpoints (snd (attempt_delivery post now x ?d)))\<rparr>"
    by (simp add: run_attempt_def assms(1) Let_def ends_def)
  show thesis
  proof (cases rule: attempt_cases [of post now x ?d])
    case (rejected x')
    then have "run_attempt post now d r = r\<lparr>run_left := rest, run_done := run_done r @ [(x, x')], run_ends := ends\<rparr>"
      by (simp add: run zip_map_fst_snd)
    moreover have "attempted (x, x')" using rejected by (simp add: attempted_def)
    ultimately show thesis using that ends by blast
  next
    case (posted e x' e')
    let ?x = "x\<lparr>wd_attempts := wd_attempts x + 1\<rparr>"
    have e: "e \<in> set (map snd ends)" using posted(1) lookup_by_Some by fastforce
    then have "endpoint_ok e" using ends by (auto simp: ends_ok_def end_ok_def)
    from record_outcome_ok [OF posted(3), of n] this assms(4-6)
    have ok: "delivery_ok n x'" "endpoint_ok e'" "wd_id x' = wd_id x" "endpoint_id e' = endpoint_id e" "wd_attempts x' = wd_attempts x + 1"
      by auto
    let ?ends = "map (\<lambda>q. (fst q, if endpoint_id (snd q) = endpoint_id e' then e' else snd q)) ends"
    have "run_attempt post now d r = r\<lparr>run_left := rest, run_done := run_done r @ [(x, x')], run_ends := ?ends\<rparr>"
      using posted(4) ok(3) by (simp add: run zip_update_where)
    moreover have "attempted (x, x')" using ok by (auto simp: attempted_def delivery_ok_def)
    moreover have "ends_ok ?ends"
      unfolding ends_ok_def
    proof
      have "map (endpoint_id \<circ> snd) ?ends = map (endpoint_id \<circ> snd) ends" by auto
      then show "distinct (map (endpoint_id \<circ> snd) ?ends)" using ends by (simp only: ends_ok_def)
      have same: "q = p" if "q \<in> set ends" "p \<in> set ends" "endpoint_id (snd q) = endpoint_id (snd p)" for p q
        using ends that unfolding ends_ok_def distinct_map inj_on_def comp_def by blast
      obtain p where p: "p \<in> set ends" "snd p = e" using e by auto
      show "\<forall>q \<in> set ?ends. end_ok q"
      proof (clarsimp, intro conjI impI)
        fix a b assume q: "(a, b) \<in> set ends"
        show "end_ok (a, b)" using ends q by (simp add: ends_ok_def)
        assume b: "endpoint_id b = endpoint_id e'"
        have "(a, b) = p" by (rule same [OF q p(1)]) (simp add: b p(2) ok(4))
        then have "end_ok (a, e)" using ends p by (auto simp: ends_ok_def)
        then show "end_ok (a, e')" using ok(2,4) posted(2) by (auto simp: end_ok_def)
      qed
    qed
    ultimately show thesis using that by blast
  qed
qed

text \<open>What a commit makes of a row it read, whatever the row is by then.\<close>

lemma write_rows_elem:
  assumes "r' \<in> set (write_rows key merge ps rows)"
  obtains r where "r \<in> set rows" "r' = r" "\<forall>p \<in> set ps. key (fst p) \<noteq> key r"
  | r p where "r \<in> set rows" "p \<in> set ps" "key (fst p) = key r" "r' = merge (fst p) (snd p) r"
proof -
  obtain r where r: "r \<in> set rows" "r' = (case find (\<lambda>p. key (fst p) = key r) ps of None \<Rightarrow> r | Some p \<Rightarrow> merge (fst p) (snd p) r)"
    using assms by (auto simp: write_rows_def)
  show thesis
  proof (cases "find (\<lambda>p. key (fst p) = key r) ps")
    case None
    have "r' = r" using r None by simp
    moreover have "\<forall>p \<in> set ps. key (fst p) \<noteq> key r" using None unfolding find_None_iff by blast
    ultimately show thesis using r(1) that(1) by blast
  next
    case (Some p)
    then have "p \<in> set ps" "key (fst p) = key r" by (auto simp: find_Some_iff)
    with r Some that(2) show thesis by simp
  qed
qed

lemma write_rows_keys:
  assumes "\<And>a b r. key (merge a b r) = key r"
  shows "map key (write_rows key merge ps rows) = map key rows"
  using assms by (auto simp: write_rows_def split: option.split)

lemma merge_delivery_same [simp]: "wd_id (merge_delivery a b r) = wd_id r" "wd_event_id (merge_delivery a b r) = wd_event_id r"
  by (simp_all add: merge_delivery_def)

lemma merge_endpoint_same [simp]: "endpoint_id (merge_endpoint f a b r) = endpoint_id r"
  by (simp add: merge_endpoint_def)

lemma merge_delivery_ok:
  assumes "attempted (a, b)" "delivery_ok n r" "0 \<le> wd_attempts a"
    "wd_next_attempt_at b \<noteq> None \<longrightarrow> wd_next_attempt_at b \<noteq> wd_next_attempt_at a"
    "wd_status a = DELIVERY_PENDING \<or> wd_status r \<noteq> DELIVERY_PENDING"
  shows "delivery_ok n (merge_delivery a b r)" "wd_attempts (merge_delivery a b r) \<in> {wd_attempts r, wd_attempts b}"
proof -
  show "delivery_ok n (merge_delivery a b r)"
    using assms by (cases "wd_status b = DELIVERY_PENDING") (auto simp: delivery_ok_def merge_delivery_def written_def attempted_def)
  show "wd_attempts (merge_delivery a b r) \<in> {wd_attempts r, wd_attempts b}" by (simp add: merge_delivery_def written_def)
qed

lemma merge_endpoint_ok:
  assumes "end_ok (a, b)" "endpoint_ok r"
  shows "endpoint_ok (merge_endpoint f a b r)"
  using assms by (cases "a = b") (auto simp: end_ok_def endpoint_ok_def merge_endpoint_def written_def)

lemma owed_rows_ok:
  "x \<in> set (owed_rows ev eid p es n q) \<Longrightarrow> eid < n \<Longrightarrow> delivery_ok (n + length es) x \<and> n \<le> wd_id x"
proof (induction es arbitrary: n q)
  case (Cons e es)
  show ?case
  proof (cases "x \<in> set (owed_rows ev eid p es (Suc n) (q + 1))")
    case True
    with Cons.IH [OF this] Cons.prems show ?thesis by simp
  next
    case False
    with Cons.prems show ?thesis
      by (simp add: delivery_ok_def new_delivery_def MAX_ATTEMPTS_def BACKOFF_MINUTES_def)
  qed
qed simp

lemma distinct_owed_rows: "eid < n \<Longrightarrow> distinct (map wd_id (owed_rows ev eid p es n q))"
proof (induction es arbitrary: n q)
  case (Cons e es)
  have "n \<notin> wd_id ` set (owed_rows ev eid p es (Suc n) (q + 1))"
    using owed_rows_ok [of _ ev eid p es "Suc n" "q + 1"] Cons.prems by force
  with Cons show ?case by (simp add: less_SucI)
qed simp

lemma delivery_ok_mono: "delivery_ok n x \<Longrightarrow> n \<le> m \<Longrightarrow> delivery_ok m x"
  by (auto simp: delivery_ok_def)

text \<open>What the sinks of a transaction do: new rows with new identifiers, the ones its end schedules.\<close>

definition enqueues :: "session \<Rightarrow> session \<Rightarrow> bool" where
  "enqueues s s' \<longleftrightarrow> owed_ok (fresh s') (db s') \<and> fresh s \<le> fresh s' \<and> base s' = base s \<and> endpoints (db s') = endpoints (db s) \<and>
     (\<exists>rows. deliveries (db s') = deliveries (db s) @ rows \<and> (\<forall>x \<in> set rows. wd_attempts x = 0 \<and> fresh s \<le> wd_id x)) \<and>
     (\<exists>ids. pending_deliveries s' = pending_deliveries s @ ids \<and> distinct ids \<and> (\<forall>i \<in> set ids. fresh s \<le> i \<and> i < fresh s'))"

lemma enqueues_refl: "owed_ok (fresh s) (db s) \<Longrightarrow> enqueues s s"
  by (simp add: enqueues_def)

lemma enqueues_trans:
  assumes "enqueues a b" "enqueues b c"
  shows "enqueues a c"
proof -
  obtain x i y j where 1: "deliveries (db b) = deliveries (db a) @ x" "\<forall>r \<in> set x. wd_attempts r = 0 \<and> fresh a \<le> wd_id r"
      "pending_deliveries b = pending_deliveries a @ i" "distinct i" "\<forall>k \<in> set i. fresh a \<le> k \<and> k < fresh b"
    and 2: "deliveries (db c) = deliveries (db b) @ y" "\<forall>r \<in> set y. wd_attempts r = 0 \<and> fresh b \<le> wd_id r"
      "pending_deliveries c = pending_deliveries b @ j" "distinct j" "\<forall>k \<in> set j. fresh b \<le> k \<and> k < fresh c"
    and le: "fresh a \<le> fresh b" "fresh b \<le> fresh c"
    using assms unfolding enqueues_def by metis
  have "\<forall>r \<in> set (x @ y). wd_attempts r = 0 \<and> fresh a \<le> wd_id r" using 1(2) 2(2) le by fastforce
  moreover have "set i \<inter> set j = {}" using 1(5) 2(5) by force
  then have "distinct (i @ j)" using 1(4) 2(4) by simp
  moreover have "\<forall>k \<in> set (i @ j). fresh a \<le> k \<and> k < fresh c" using 1(5) 2(5) le by fastforce
  moreover have "deliveries (db c) = deliveries (db a) @ x @ y" "pending_deliveries c = pending_deliveries a @ i @ j" using 1 2 by simp_all
  ultimately show ?thesis using assms le unfolding enqueues_def by (metis order_trans)
qed

lemma owed_session_ok: "owed_ok (fresh s) (db s) \<Longrightarrow> session_ok s"
  by (simp add: owed_ok_def session_ok_def delivery_ok_def)

lemma enqueues_one:
  assumes "owed_ok (fresh s) (db s)"
  shows "enqueues s (snd (webhook_emit True event s))"
proof -
  let ?es = "endpoints_for event (db s)" and ?n = "fresh s"
  let ?new = "owed_rows event ?n (build_payload event ?n) ?es (Suc ?n) (delivery_seq s)"
  let ?s = "snd (webhook_emit True event s)"
  note emit = webhook_emit_ok [OF owed_session_ok [OF assms], of event]
  have m: "fresh ?s = (if ?es = [] then ?n else Suc ?n + length ?es)" unfolding emit by (simp add: Let_def)
  have d: "deliveries (db ?s) = deliveries (db s) @ ?new" "endpoints (db ?s) = endpoints (db s)" "base ?s = base s"
    "pending_deliveries ?s = pending_deliveries s @ [Suc ?n ..< Suc ?n + length ?es]" unfolding emit by (simp_all add: Let_def)
  have new: "\<forall>x \<in> set ?new. delivery_ok (fresh ?s) x \<and> Suc ?n \<le> wd_id x"
    using owed_rows_ok [of _ event ?n "build_payload event ?n" ?es "Suc ?n" "delivery_seq s"] by (auto simp: m)
  have old: "\<forall>x \<in> set (deliveries (db s)). delivery_ok ?n x" using assms by (simp add: owed_ok_def)
  then have "\<forall>x \<in> set (deliveries (db s)). delivery_ok (fresh ?s) x" using delivery_ok_mono [of ?n _ "fresh ?s"] by (simp add: m)
  moreover have "wd_id ` set (deliveries (db s)) \<inter> wd_id ` set ?new = {}" using old new by (force simp: delivery_ok_def)
  moreover have "distinct (map wd_id ?new)" by (rule distinct_owed_rows) simp
  ultimately have "owed_ok (fresh ?s) (db ?s)" using assms new by (auto simp: owed_ok_def d)
  moreover have "\<forall>x \<in> set ?new. wd_attempts x = 0 \<and> ?n \<le> wd_id x" using new owed_rows_each by fastforce
  moreover have "\<forall>i \<in> set [Suc ?n ..< Suc ?n + length ?es]. ?n \<le> i \<and> i < fresh ?s" by (auto simp: m)
  moreover have "?n \<le> fresh ?s" by (simp add: m)
  ultimately show ?thesis unfolding enqueues_def using d distinct_upt by blast
qed

lemma enqueues_all: "owed_ok (fresh s) (db s) \<Longrightarrow> enqueues s (emit_all events s)"
proof (induction events arbitrary: s)
  case (Cons e events)
  note one = enqueues_one [OF Cons.prems, of e]
  then have "owed_ok (fresh (snd (webhook_emit True e s))) (db (snd (webhook_emit True e s)))" by (simp add: enqueues_def)
  from enqueues_trans [OF one Cons.IH [OF this]] show ?case by (simp add: emit_all_def)
qed (simp add: emit_all_def enqueues_refl)

text \<open>
  The invariant. An identifier is outstanding while its immediate attempt is scheduled or under way, and it is so once. A run of the
  sweep read pending rows; an immediate one may have read anything, but a row it read as no longer pending is not made pending by
  anybody else.
\<close>

definition run_ids :: "run \<Rightarrow> uuid list" where
  "run_ids r = (case run_immediate r of None \<Rightarrow> [] | Some ids \<Rightarrow> ids)"

definition outstanding :: "courier \<Rightarrow> uuid list" where
  "outstanding c = concat (co_scheduled c) @ concat (map run_ids (co_runs c))"

definition read_ok :: "uuid \<Rightarrow> db \<Rightarrow> uuid list option \<Rightarrow> delivery_row \<Rightarrow> bool" where
  "read_ok n d immediate a \<longleftrightarrow> delivery_ok n a \<and> wd_attempts a \<le> MAX_ATTEMPTS \<and>
     (case immediate of
        None \<Rightarrow> wd_status a = DELIVERY_PENDING
      | Some ids \<Rightarrow> wd_id a \<in> set ids \<and>
          (wd_status a = DELIVERY_PENDING \<or> (\<forall>x \<in> set (deliveries d). wd_id x = wd_id a \<longrightarrow> wd_status x \<noteq> DELIVERY_PENDING)))"

definition run_ok :: "uuid \<Rightarrow> db \<Rightarrow> run \<Rightarrow> bool" where
  "run_ok n d r \<longleftrightarrow> ends_ok (run_ends r) \<and> new_times r \<and> (\<forall>p \<in> set (run_done r). attempted p \<and> read_ok n d (run_immediate r) (fst p)) \<and>
     (\<forall>a \<in> set (run_left r). read_ok n d (run_immediate r) a)"

definition courier_ok :: "courier \<Rightarrow> bool" where
  "courier_ok c \<longleftrightarrow> owed_ok (fresh (co_session c)) (db (co_session c)) \<and> base (co_session c) = db (co_session c) \<and>
     pending_deliveries (co_session c) = [] \<and> distinct (outstanding c) \<and> (\<forall>i \<in> set (outstanding c). i < fresh (co_session c)) \<and>
     (\<forall>x \<in> set (deliveries (db (co_session c))). wd_attempts x \<le> MAX_ATTEMPTS + 1 \<and>
        (wd_id x \<in> set (outstanding c) \<longrightarrow> wd_attempts x \<le> MAX_ATTEMPTS)) \<and>
     (\<forall>r \<in> set (co_runs c). run_ok (fresh (co_session c)) (db (co_session c)) r)"

lemma read_ok_mono:
  assumes "read_ok n d im a" "n \<le> m"
    "\<And>x'. x' \<in> set (deliveries d') \<Longrightarrow> wd_id x' = wd_id a \<Longrightarrow> wd_status x' = DELIVERY_PENDING \<Longrightarrow> im \<noteq> None \<Longrightarrow>
       wd_status a \<noteq> DELIVERY_PENDING \<Longrightarrow> \<exists>x \<in> set (deliveries d). wd_id x = wd_id a \<and> wd_status x = DELIVERY_PENDING"
  shows "read_ok m d' im a"
  using assms delivery_ok_mono [of n a m] by (cases im) (auto simp: read_ok_def)

lemma run_ok_mono:
  assumes "run_ok n d r" "n \<le> m"
    "\<And>x' a. x' \<in> set (deliveries d') \<Longrightarrow> wd_status x' = DELIVERY_PENDING \<Longrightarrow> wd_id x' < n \<Longrightarrow>
       (case run_immediate r of None \<Rightarrow> False | Some ids \<Rightarrow> wd_id x' \<in> set ids) \<Longrightarrow>
       \<exists>x \<in> set (deliveries d). wd_id x = wd_id x' \<and> wd_status x = DELIVERY_PENDING"
  shows "run_ok m d' r"
proof -
  have "read_ok m d' (run_immediate r) a" if a: "read_ok n d (run_immediate r) a" for a
  proof (rule read_ok_mono [OF a assms(2)])
    fix x' assume x': "x' \<in> set (deliveries d')" "wd_id x' = wd_id a" "wd_status x' = DELIVERY_PENDING" "run_immediate r \<noteq> None"
    then have "wd_id x' < n" "case run_immediate r of None \<Rightarrow> False | Some ids \<Rightarrow> wd_id x' \<in> set ids"
      using a by (auto simp: read_ok_def delivery_ok_def)
    from assms(3) [OF x'(1,3) this] x'(2) show "\<exists>x \<in> set (deliveries d). wd_id x = wd_id a \<and> wd_status x = DELIVERY_PENDING" by simp
  qed
  then show ?thesis using assms(1) by (auto simp: run_ok_def)
qed

lemma transacted_ok:
  assumes "courier_ok c" "take_pending_delivery_ids (emit_all events (co_session c)) = (ids, s)"
  shows "courier_ok (c\<lparr>co_session := commit s, co_scheduled := co_scheduled c @ [ids]\<rparr>)"
    "courier_ok (c\<lparr>co_session := rollback s, co_scheduled := co_scheduled c @ [ids]\<rparr>)"
proof -
  let ?s = "co_session c" and ?e = "emit_all events (co_session c)"
  have inv: "owed_ok (fresh ?s) (db ?s)" "base ?s = db ?s" "pending_deliveries ?s = []" "distinct (outstanding c)"
      "\<forall>i \<in> set (outstanding c). i < fresh ?s" "\<forall>r \<in> set (co_runs c). run_ok (fresh ?s) (db ?s) r"
    and att: "\<And>x. x \<in> set (deliveries (db ?s)) \<Longrightarrow> wd_attempts x \<le> MAX_ATTEMPTS + 1 \<and> (wd_id x \<in> set (outstanding c) \<longrightarrow> wd_attempts x \<le> MAX_ATTEMPTS)"
    using assms(1) by (simp_all add: courier_ok_def)
  have s: "ids = pending_deliveries ?e" "s = ?e\<lparr>pending_deliveries := []\<rparr>"
    using assms(2) by (simp_all add: take_pending_delivery_ids_def)
  note enq = enqueues_all [OF inv(1), of events, unfolded enqueues_def inv(3) append_Nil]
  from enq obtain rows where e: "owed_ok (fresh ?e) (db ?e)" "fresh ?s \<le> fresh ?e" "base ?e = db ?s"
    "deliveries (db ?e) = deliveries (db ?s) @ rows" "\<forall>x \<in> set rows. wd_attempts x = 0 \<and> fresh ?s \<le> wd_id x"
    by (auto simp: inv(2))
  have ids: "distinct ids" "\<forall>i \<in> set ids. fresh ?s \<le> i \<and> i < fresh ?e" using enq by (auto simp: s(1))
  have "set ids \<inter> set (outstanding c) = {}" using inv(5) ids(2) by force
  then have out: "set (outstanding (c\<lparr>co_session := t, co_scheduled := co_scheduled c @ [ids]\<rparr>)) = set (outstanding c) \<union> set ids"
      "distinct (outstanding (c\<lparr>co_session := t, co_scheduled := co_scheduled c @ [ids]\<rparr>))" for t
    using inv(4) ids(1) by (auto simp: outstanding_def)
  have below: "\<forall>i \<in> set (outstanding c) \<union> set ids. i < fresh ?e" using inv(5) ids(2) e(2) by fastforce
  have old: "wd_id x < fresh ?s" if "x \<in> set (deliveries (db ?s))" for x using inv(1) that by (auto simp: owed_ok_def delivery_ok_def)
  have runs: "run_ok (fresh ?e) (db ?e) r" "run_ok (fresh ?e) (db ?s) r" if "r \<in> set (co_runs c)" for r
  proof -
    have r: "run_ok (fresh ?s) (db ?s) r" using inv(6) that by simp
    show "run_ok (fresh ?e) (db ?e) r" by (rule run_ok_mono [OF r e(2)]) (use e(4,5) in fastforce)
    show "run_ok (fresh ?e) (db ?s) r" by (rule run_ok_mono [OF r e(2)]) blast
  qed
  have att2: "wd_attempts x \<le> MAX_ATTEMPTS + 1 \<and> (wd_id x \<in> set (outstanding c) \<union> set ids \<longrightarrow> wd_attempts x \<le> MAX_ATTEMPTS)"
    if "x \<in> set (deliveries (db ?e))" for x
  proof (cases "x \<in> set rows")
    case True
    then show ?thesis using e(5) by (simp add: MAX_ATTEMPTS_def BACKOFF_MINUTES_def)
  next
    case False
    then have "x \<in> set (deliveries (db ?s))" using that e(4) by simp
    with att [OF this] old [OF this] ids(2) show ?thesis by auto
  qed
  have "owed_ok (fresh ?e) (db ?s)" using inv(1) delivery_ok_mono e(2) by (auto simp: owed_ok_def)
  then show "courier_ok (c\<lparr>co_session := commit s, co_scheduled := co_scheduled c @ [ids]\<rparr>)"
    "courier_ok (c\<lparr>co_session := rollback s, co_scheduled := co_scheduled c @ [ids]\<rparr>)"
    using e(1,3,4) runs below att2 unfolding courier_ok_def out by (simp_all add: out(2) s(2) commit_def rollback_def)
qed

lemma scheduled_ok:
  assumes "courier_ok c" "co_scheduled c = as @ ids # bs"
  shows "courier_ok (c\<lparr>co_scheduled := as @ bs\<rparr>)"
    "courier_ok (c\<lparr>co_scheduled := as @ bs, co_runs := co_runs c @ [begin_immediate ids (db (co_session c))]\<rparr>)"
proof -
  have less: "set (outstanding (c\<lparr>co_scheduled := as @ bs\<rparr>)) \<subseteq> set (outstanding c)" "distinct (outstanding (c\<lparr>co_scheduled := as @ bs\<rparr>))"
    using assms by (auto simp: outstanding_def courier_ok_def)
  then show "courier_ok (c\<lparr>co_scheduled := as @ bs\<rparr>)" using assms(1) by (auto simp: courier_ok_def)
  let ?c = "c\<lparr>co_scheduled := as @ bs, co_runs := co_runs c @ [begin_immediate ids (db (co_session c))]\<rparr>"
  have same: "set (outstanding ?c) = set (outstanding c)" "distinct (outstanding ?c)"
    using assms by (auto simp: outstanding_def courier_ok_def begin_immediate_def run_ids_def)
  have "read_ok (fresh (co_session c)) (db (co_session c)) (Some ids) a" if a: "a \<in> set (deliveries (db (co_session c)))" "wd_id a \<in> set ids" for a
  proof -
    have "wd_id a \<in> set (outstanding c)" using a(2) assms(2) by (simp add: outstanding_def)
    moreover have "x = a" if "x \<in> set (deliveries (db (co_session c)))" "wd_id x = wd_id a" for x
      using that a(1) assms(1) by (auto simp: courier_ok_def owed_ok_def distinct_map dest: inj_onD)
    ultimately show ?thesis using a assms(1) by (auto simp: read_ok_def courier_ok_def owed_ok_def)
  qed
  then have "run_ok (fresh (co_session c)) (db (co_session c)) (begin_immediate ids (db (co_session c)))"
    by (simp add: run_ok_def begin_immediate_def ends_ok_def new_times_def)
  then show "courier_ok ?c" using assms(1) same unfolding courier_ok_def by auto
qed

lemma sweep_begun_ok:
  assumes "courier_ok c"
  shows "courier_ok (c\<lparr>co_runs := co_runs c @ [begin_sweep now limit (db (co_session c))]\<rparr>)"
proof -
  let ?c = "c\<lparr>co_runs := co_runs c @ [begin_sweep now limit (db (co_session c))]\<rparr>"
  have same: "outstanding ?c = outstanding c" by (simp add: outstanding_def begin_sweep_def run_ids_def)
  have "read_ok (fresh (co_session c)) (db (co_session c)) None a" if "a \<in> set (due_deliveries now limit (db (co_session c)))" for a
    using that assms by (auto simp: read_ok_def courier_ok_def owed_ok_def due_deliveries_def is_due_def delivery_ok_def dest!: in_set_takeD)
  then have "run_ok (fresh (co_session c)) (db (co_session c)) (begin_sweep now limit (db (co_session c)))"
    by (simp add: run_ok_def begin_sweep_def ends_ok_def new_times_def)
  then show ?thesis using assms unfolding courier_ok_def same by auto
qed

lemma attempt_made_ok:
  assumes "courier_ok c" "co_runs c = as @ r # bs" "new_times (run_attempt post now (db (co_session c)) r)"
  shows "courier_ok (c\<lparr>co_runs := as @ run_attempt post now (db (co_session c)) r # bs\<rparr>)"
proof -
  let ?r = "run_attempt post now (db (co_session c)) r" and ?n = "fresh (co_session c)" and ?d = "db (co_session c)"
  have r: "run_ok ?n ?d r" "owed_ok ?n ?d" using assms(1,2) by (simp_all add: courier_ok_def)
  have "run_ok ?n ?d ?r \<and> run_immediate ?r = run_immediate r"
  proof (cases "run_left r")
    case Nil
    then show ?thesis using r by (simp add: run_attempt_def)
  next
    case (Cons x rest)
    then have x: "read_ok ?n ?d (run_immediate r) x" using r(1) by (simp add: run_ok_def)
    then have "0 \<le> wd_attempts x" "wd_id x < ?n" "wd_event_id x < ?n" by (simp_all add: read_ok_def delivery_ok_def)
    moreover have "ends_ok (run_ends r)" using r(1) by (simp add: run_ok_def)
    ultimately obtain y ends where "?r = r\<lparr>run_left := rest, run_done := run_done r @ [(x, y)], run_ends := ends\<rparr>"
      "attempted (x, y)" "ends_ok ends" using run_attempt_cases [OF Cons _ r(2)] by metis
    then show ?thesis using r(1) assms(3) x Cons by (auto simp: run_ok_def)
  qed
  moreover from this have "outstanding (c\<lparr>co_runs := as @ ?r # bs\<rparr>) = outstanding c" by (simp add: outstanding_def assms(2) run_ids_def)
  ultimately show ?thesis using assms(1,2) by (auto simp: courier_ok_def)
qed

lemma run_gone_ok:
  assumes "courier_ok c" "co_runs c = as @ r # bs"
  shows "courier_ok (c\<lparr>co_runs := as @ bs\<rparr>)"
proof -
  have "set (outstanding (c\<lparr>co_runs := as @ bs\<rparr>)) \<subseteq> set (outstanding c)" "distinct (outstanding (c\<lparr>co_runs := as @ bs\<rparr>))"
    using assms by (auto simp: outstanding_def courier_ok_def)
  then show ?thesis using assms by (auto simp: courier_ok_def)
qed

lemma committed_ok:
  assumes "courier_ok c" "co_runs c = as @ r # bs"
  shows "courier_ok (c\<lparr>co_runs := as @ bs, co_session := commit_run flushed r (co_session c)\<rparr>)"
proof -
  let ?n = "fresh (co_session c)" and ?d = "db (co_session c)" and ?s = "commit_run flushed r (co_session c)"
  let ?c = "c\<lparr>co_runs := as @ bs, co_session := ?s\<rparr>"
  have ok: "courier_ok (c\<lparr>co_runs := as @ bs\<rparr>)" by (rule run_gone_ok [OF assms])
  have r: "run_ok ?n ?d r" and owed: "owed_ok ?n ?d" using assms by (simp_all add: courier_ok_def)
  have out: "outstanding ?c = outstanding (c\<lparr>co_runs := as @ bs\<rparr>)" by (simp add: outstanding_def)
  have "set (run_ids r) \<inter> set (outstanding ?c) = {}" using assms by (auto simp: outstanding_def courier_ok_def)
  then have mine: "i \<notin> set (outstanding ?c)" if "run_immediate r = Some ids" "i \<in> set ids" for i ids
    using that by (auto simp: run_ids_def)
  have d: "fresh ?s = ?n" "base ?s = db ?s" "pending_deliveries ?s = pending_deliveries (co_session c)"
    "deliveries (db ?s) = write_rows wd_id merge_delivery (run_done r) (deliveries ?d)"
    "endpoints (db ?s) = write_rows endpoint_id (merge_endpoint flushed) (run_ends r) (endpoints ?d)"
    by (simp_all add: commit_run_def commit_def)
  have row: "\<exists>x \<in> set (deliveries ?d). wd_id x' = wd_id x \<and> delivery_ok ?n x' \<and>
      (wd_attempts x' = wd_attempts x \<or> wd_attempts x' \<le> MAX_ATTEMPTS \<or> wd_attempts x' \<le> MAX_ATTEMPTS + 1 \<and> wd_id x \<notin> set (outstanding ?c)) \<and>
      (wd_status x' = DELIVERY_PENDING \<longrightarrow> wd_status x = DELIVERY_PENDING \<or> wd_id x \<notin> set (outstanding ?c))"
    if "x' \<in> set (deliveries (db ?s))" for x'
    using that unfolding d(4)
  proof (cases rule: write_rows_elem)
    case (1 x)
    then show ?thesis using owed by (auto simp: owed_ok_def)
  next
    case (2 x p)
    obtain a b where p: "p = (a, b)" by (cases p)
    have ab: "attempted (a, b)" "read_ok ?n ?d (run_immediate r) a" "wd_id a = wd_id x"
      "wd_next_attempt_at b \<noteq> None \<longrightarrow> wd_next_attempt_at b \<noteq> wd_next_attempt_at a"
      using r 2 p by (auto simp: run_ok_def new_times_def)
    have x: "delivery_ok ?n x" using owed 2(1) by (simp add: owed_ok_def)
    have "0 \<le> wd_attempts a" "wd_status a = DELIVERY_PENDING \<or> wd_status x \<noteq> DELIVERY_PENDING"
      using ab(2,3) 2(1) by (auto simp: read_ok_def delivery_ok_def split: option.splits)
    note m = merge_delivery_ok [OF ab(1) x this(1) ab(4) this(2)]
    have bound: "wd_attempts b \<le> MAX_ATTEMPTS \<or> wd_attempts b \<le> MAX_ATTEMPTS + 1 \<and> wd_id x \<notin> set (outstanding ?c)"
      using ab mine by (cases "run_immediate r") (auto simp: read_ok_def attempted_def delivery_ok_def)
    have "wd_status x' = DELIVERY_PENDING \<longrightarrow> wd_status x = DELIVERY_PENDING \<or> wd_id x \<notin> set (outstanding ?c)"
      using ab mine by (cases "run_immediate r") (auto simp: 2(4) p merge_delivery_def written_def read_ok_def split: if_splits)
    then show ?thesis using m bound 2(1) by (intro bexI [OF _ 2(1)]) (auto simp: 2(4) p)
  qed
  have "endpoint_ok e'" if "e' \<in> set (endpoints (db ?s))" for e'
    using that unfolding d(5)
  proof (cases rule: write_rows_elem)
    case (1 e)
    then show ?thesis using owed by (simp add: owed_ok_def)
  next
    case (2 e p)
    then show ?thesis using merge_endpoint_ok [of "fst p" "snd p" e flushed] owed r by (auto simp: owed_ok_def run_ok_def ends_ok_def)
  qed
  then have owed2: "owed_ok ?n (db ?s)" using owed row by (auto simp: owed_ok_def d(4,5) write_rows_keys)
  have runs: "run_ok ?n (db ?s) q" if "q \<in> set (as @ bs)" for q
  proof (rule run_ok_mono [of ?n ?d q])
    show "run_ok ?n ?d q" using assms that by (auto simp: courier_ok_def)
    fix x' assume x': "x' \<in> set (deliveries (db ?s))" "wd_status x' = DELIVERY_PENDING"
      "case run_immediate q of None \<Rightarrow> False | Some ids \<Rightarrow> wd_id x' \<in> set ids"
    then have "wd_id x' \<in> set (outstanding ?c)" using that by (auto simp: outstanding_def run_ids_def split: option.splits)
    then show "\<exists>x \<in> set (deliveries ?d). wd_id x = wd_id x' \<and> wd_status x = DELIVERY_PENDING" using row [OF x'(1)] x'(2) by auto
  qed simp
  have "wd_attempts x' \<le> MAX_ATTEMPTS + 1 \<and> (wd_id x' \<in> set (outstanding ?c) \<longrightarrow> wd_attempts x' \<le> MAX_ATTEMPTS)"
    if "x' \<in> set (deliveries (db ?s))" for x'
    using row [OF that] ok by (auto simp: courier_ok_def out)
  then show ?thesis using ok owed2 runs d(1-3) by (simp add: courier_ok_def out)
qed

lemma notify_step_ok: "notify_step c c' \<Longrightarrow> courier_ok c \<Longrightarrow> courier_ok c'"
  by (induction rule: notify_step.induct) (simp_all add: transacted_ok scheduled_ok sweep_begun_ok attempt_made_ok run_gone_ok committed_ok)

lemma notify_reachable: "notify_step\<^sup>*\<^sup>* c c' \<Longrightarrow> courier_ok c \<Longrightarrow> courier_ok c'"
  by (induction rule: rtranclp_induct) (auto intro: notify_step_ok)

section \<open>A run on its own\<close>

text \<open>With nobody else at work a run does what \<open>deliver_now\<close> and \<open>deliver_pending\<close> do row by row.\<close>

fun run_through :: "consumer \<Rightarrow> (nat \<Rightarrow> instant) \<Rightarrow> nat \<Rightarrow> nat \<Rightarrow> db \<Rightarrow> run \<Rightarrow> run" where
  "run_through post ticks k 0 d r = r"
| "run_through post ticks k (Suc n) d r = run_through post ticks (Suc k) n d (run_attempt post (ticks k) d r)"

definition same_delivery :: "delivery_row \<Rightarrow> delivery_row \<Rightarrow> bool" where
  "same_delivery a b \<longleftrightarrow> wd_id b = wd_id a \<and> wd_endpoint_id b = wd_endpoint_id a \<and> wd_order_id b = wd_order_id a \<and>
     wd_event_id b = wd_event_id a \<and> wd_sequence b = wd_sequence a \<and> wd_payload b = wd_payload a"

definition same_endpoint :: "endpoint_row \<Rightarrow> endpoint_row \<Rightarrow> bool" where
  "same_endpoint a b \<longleftrightarrow> endpoint_id b = endpoint_id a \<and> endpoint_client_id b = endpoint_client_id a"

lemma merge_over_read: "same_delivery a b \<Longrightarrow> merge_delivery a b a = b" "same_endpoint e f \<Longrightarrow> merge_endpoint flushed e f e = f"
  by (auto simp: same_delivery_def merge_delivery_def written_def intro!: delivery_row.equality)
    (auto simp: same_endpoint_def merge_endpoint_def written_def intro!: endpoint_row.equality)

lemma merge_endpoint_none [simp]: "merge_endpoint flushed e e r = r"
  by (rule endpoint_row.equality) (simp_all add: merge_endpoint_def written_def)

lemma record_outcome_same:
  "record_outcome answer now x e = (x', e') \<Longrightarrow> same_delivery x x' \<and> same_endpoint e e'"
  by (auto simp: record_outcome_def record_failure_def Let_def same_delivery_def same_endpoint_def split: post_outcome.splits if_splits)

text \<open>An attempt depends on the tables through the endpoint it finds.\<close>

lemma attempt_two:
  assumes "lookup_by endpoint_id (wd_endpoint_id x) (endpoints d1) = lookup_by endpoint_id (wd_endpoint_id x) (endpoints d2)"
  obtains (rejected) y where "snd (attempt_delivery post now x d1) = put_delivery y d1" "snd (attempt_delivery post now x d2) = put_delivery y d2"
      "same_delivery x y"
  | (posted) y e e' where "snd (attempt_delivery post now x d1) = put_endpoint e' (put_delivery y d1)"
      "snd (attempt_delivery post now x d2) = put_endpoint e' (put_delivery y d2)" "same_delivery x y" "same_endpoint e e'"
      "lookup_by endpoint_id (wd_endpoint_id x) (endpoints d1) = Some e"
proof (cases rule: attempt_cases [of post now x d1])
  case rejected: (rejected x')
  let ?y = "x\<lparr>wd_status := DELIVERY_REJECTED, wd_next_attempt_at := None, wd_last_error := Some ''endpoint is inactive''\<rparr>"
  show thesis
  proof (cases "lookup_by endpoint_id (wd_endpoint_id x) (endpoints d1)")
    case None
    then show thesis using assms by (intro that(1) [of ?y]) (simp_all add: attempt_delivery_def same_delivery_def)
  next
    case (Some e)
    show thesis
    proof (cases "endpoint_is_active e")
      case False
      then show thesis using Some assms by (intro that(1) [of ?y]) (simp_all add: attempt_delivery_def same_delivery_def)
    next
      case True
      obtain y e' where r: "record_outcome (post e (x\<lparr>wd_attempts := wd_attempts x + 1\<rparr>)) now (x\<lparr>wd_attempts := wd_attempts x + 1\<rparr>) e = (y, e')"
        by fastforce
      have "same_delivery x y" "same_endpoint e e'" using record_outcome_same [OF r] by (simp_all add: same_delivery_def)
      then show thesis using True Some assms r by (intro that(2) [of e' y e]) (simp_all add: attempt_delivery_def)
    qed
  qed
next
  case (posted e y e')
  have "same_delivery x y" "same_endpoint e e'" using record_outcome_same [OF posted(3)] by (simp_all add: same_delivery_def)
  then show thesis using posted assms by (intro that(2) [of e' y e]) (simp_all add: attempt_delivery_def)
qed

lemma lookup_write_rows:
  assumes "\<And>a b r. key (merge a b r) = key r"
  shows "lookup_by key i (write_rows key merge ps rows) = map_option
    (\<lambda>r. case find (\<lambda>p. key (fst p) = i) ps of None \<Rightarrow> r | Some p \<Rightarrow> merge (fst p) (snd p) r) (lookup_by key i rows)"
  by (induction rows) (auto simp: write_rows_def assms split: option.split)

lemma find_pair_lookup:
  assumes "\<forall>p \<in> set ps. key (snd p) = key (fst p)"
  shows "lookup_by key i (map snd ps) = map_option snd (find (\<lambda>p. key (fst p) = i) ps)"
  using assms by (induction ps) auto

definition alone :: "db \<Rightarrow> run \<Rightarrow> bool" where
  "alone d r \<longleftrightarrow> distinct (map wd_id (map fst (run_done r) @ run_left r)) \<and> set (map fst (run_done r) @ run_left r) \<subseteq> set (deliveries d) \<and>
     (\<forall>p \<in> set (run_done r). same_delivery (fst p) (snd p)) \<and>
     (\<forall>p \<in> set (run_ends r). fst p \<in> set (endpoints d) \<and> same_endpoint (fst p) (snd p))"

abbreviation private_view :: "(uuid \<Rightarrow> bool) \<Rightarrow> db \<Rightarrow> run \<Rightarrow> db" where
  "private_view flushed d r \<equiv> d\<lparr>deliveries := write_rows wd_id merge_delivery (run_done r) (deliveries d),
     endpoints := write_rows endpoint_id (merge_endpoint flushed) (run_ends r) (endpoints d)\<rparr>"

lemma find_append: "find p (xs @ ys) = (case find p xs of None \<Rightarrow> find p ys | Some x \<Rightarrow> Some x)"
  by (induction xs) simp_all

lemma lookup_loaded:
  assumes "distinct (map endpoint_id (endpoints d))" "\<forall>p \<in> set ends. fst p \<in> set (endpoints d) \<and> same_endpoint (fst p) (snd p)"
  shows "lookup_by endpoint_id i (write_rows endpoint_id (merge_endpoint flushed) ends (endpoints d)) =
      lookup_by endpoint_id i (map snd (load_endpoint i d ends))"
    "write_rows endpoint_id (merge_endpoint flushed) (load_endpoint i d ends) (endpoints d) =
      write_rows endpoint_id (merge_endpoint flushed) ends (endpoints d)"
    "\<forall>p \<in> set (load_endpoint i d ends). fst p \<in> set (endpoints d) \<and> same_endpoint (fst p) (snd p)"
proof -
  have keys: "\<forall>p \<in> set ends. endpoint_id (snd p) = endpoint_id (fst p)" using assms(2) by (simp add: same_endpoint_def)
  note found = find_pair_lookup [OF keys]
  have row: "lookup_by endpoint_id (endpoint_id (fst p)) (endpoints d) = Some (fst p)" if "p \<in> set ends" for p
    using assms that by (auto simp: lookup_by_distinct)
  show "lookup_by endpoint_id i (write_rows endpoint_id (merge_endpoint flushed) ends (endpoints d)) =
      lookup_by endpoint_id i (map snd (load_endpoint i d ends))"
  proof (cases "find (\<lambda>p. endpoint_id (fst p) = i) ends")
    case None
    then have old: "lookup_by endpoint_id i (map snd ends) = None" by (simp add: found)
    have "lookup_by endpoint_id i (map snd ends @ [e]) = Some e" if "lookup_by endpoint_id i (endpoints d) = Some e" for e
      using old lookup_by_Some [OF that] by (simp add: lookup_by_def find_append)
    with None old show ?thesis
      by (cases "lookup_by endpoint_id i (endpoints d)") (simp_all add: lookup_write_rows load_endpoint_def)
  next
    case (Some p)
    then have p: "p \<in> set ends" "endpoint_id (fst p) = i" by (auto simp: find_Some_iff)
    then show ?thesis using Some row [OF p(1)] assms(2) merge_over_read(2) [of "fst p" "snd p" flushed]
      by (simp add: lookup_write_rows load_endpoint_def found)
  qed
  show "write_rows endpoint_id (merge_endpoint flushed) (load_endpoint i d ends) (endpoints d) =
      write_rows endpoint_id (merge_endpoint flushed) ends (endpoints d)"
    by (auto simp: load_endpoint_def write_rows_def find_append split: option.split)
  show "\<forall>p \<in> set (load_endpoint i d ends). fst p \<in> set (endpoints d) \<and> same_endpoint (fst p) (snd p)"
    using assms(2) lookup_by_Some [of endpoint_id i "endpoints d"] by (auto simp: load_endpoint_def same_endpoint_def split: option.split)
qed

text \<open>One attempt: the run's private tables follow the tables of \<open>attempt_all\<close>.\<close>

lemma write_one_more:
  assumes "distinct (map wd_id rows)" "x \<in> set rows" "wd_id x \<notin> wd_id ` fst ` set ps" "same_delivery x y"
  shows "update_where (\<lambda>r. wd_id r = wd_id y) (\<lambda>_. y) (write_rows wd_id merge_delivery ps rows) = write_rows wd_id merge_delivery (ps @ [(x, y)]) rows"
proof -
  have one: "r = x" if "r \<in> set rows" "wd_id r = wd_id x" for r using assms(1,2) that by (auto simp: distinct_map dest: inj_onD)
  have "find (\<lambda>p. wd_id (fst p) = wd_id x) ps = None" using assms(3) unfolding find_None_iff by (metis image_eqI)
  then show ?thesis using assms(4) one merge_over_read(1) [OF assms(4)]
    by (auto simp: update_where_def write_rows_def find_append same_delivery_def split: option.split)
qed

lemma write_end:
  assumes "distinct (map endpoint_id rows)" "\<forall>p \<in> set ends. fst p \<in> set rows \<and> same_endpoint (fst p) (snd p)"
    "lookup_by endpoint_id i (map snd ends) = Some e" "same_endpoint e e'"
    "ends' = map (\<lambda>q. (fst q, if endpoint_id (snd q) = endpoint_id e' then e' else snd q)) ends"
  shows "update_where (\<lambda>r. endpoint_id r = endpoint_id e') (\<lambda>_. e') (write_rows endpoint_id (merge_endpoint flushed) ends rows) =
      write_rows endpoint_id (merge_endpoint flushed) ends' rows"
    "\<forall>p \<in> set ends'. fst p \<in> set rows \<and> same_endpoint (fst p) (snd p)"
proof -
  have keys: "\<forall>p \<in> set ends. endpoint_id (snd p) = endpoint_id (fst p)" using assms(2) by (simp add: same_endpoint_def)
  have one: "a = b" if "a \<in> set rows" "b \<in> set rows" "endpoint_id a = endpoint_id b" for a b
    using assms(1) that by (auto simp: distinct_map dest: inj_onD)
  obtain p where p: "find (\<lambda>p. endpoint_id (fst p) = i) ends = Some p" "snd p = e"
    using assms(3) unfolding find_pair_lookup [OF keys] by auto
  then have pm: "p \<in> set ends" "endpoint_id (fst p) = i" by (auto simp: find_Some_iff)
  have i: "endpoint_id e' = i" "endpoint_id e = i" using assms(4) p(2) pm keys by (auto simp: same_endpoint_def)
  have same: "same_endpoint (fst p) e'" using assms(2,4) pm(1) p(2) by (auto simp: same_endpoint_def)
  show ends': "\<forall>p \<in> set ends'. fst p \<in> set rows \<and> same_endpoint (fst p) (snd p)"
  proof
    fix q' assume "q' \<in> set ends'"
    then obtain q where q: "q \<in> set ends" "q' = (fst q, if endpoint_id (snd q) = endpoint_id e' then e' else snd q)" by (auto simp: assms(5))
    have "fst q = fst p" if "endpoint_id (snd q) = endpoint_id e'"
      using one [of "fst q" "fst p"] assms(2) q(1) pm that i keys by auto
    then show "fst q' \<in> set rows \<and> same_endpoint (fst q') (snd q')" using q assms(2) same by auto
  qed
  have found: "find (\<lambda>p. endpoint_id (fst p) = j) ends' =
      map_option (\<lambda>q. (fst q, if endpoint_id (snd q) = endpoint_id e' then e' else snd q)) (find (\<lambda>p. endpoint_id (fst p) = j) ends)" for j
    unfolding assms(5) by (induction ends) auto
  show "update_where (\<lambda>r. endpoint_id r = endpoint_id e') (\<lambda>_. e') (write_rows endpoint_id (merge_endpoint flushed) ends rows) =
      write_rows endpoint_id (merge_endpoint flushed) ends' rows"
  proof -
    have "(case find (\<lambda>p. endpoint_id (fst p) = endpoint_id r) ends' of None \<Rightarrow> r | Some p \<Rightarrow> merge_endpoint flushed (fst p) (snd p) r) =
        (if endpoint_id r = i then e'
         else (case find (\<lambda>p. endpoint_id (fst p) = endpoint_id r) ends of None \<Rightarrow> r | Some p \<Rightarrow> merge_endpoint flushed (fst p) (snd p) r))"
      if r: "r \<in> set rows" for r
    proof (cases "endpoint_id r = i")
      case True
      have "r = fst p" using one [OF r] assms(2) pm True by auto
      then show ?thesis using True p pm(2) i merge_over_read(2) [OF same] by (simp add: found)
    next
      case False
      have "endpoint_id (snd q) \<noteq> i" if "find (\<lambda>p. endpoint_id (fst p) = endpoint_id r) ends = Some q" for q
      proof -
        have "q \<in> set ends" "endpoint_id (fst q) = endpoint_id r" using that by (auto simp: find_Some_iff)
        then show ?thesis using keys False by simp
      qed
      then show ?thesis using False i(1) by (cases "find (\<lambda>p. endpoint_id (fst p) = endpoint_id r) ends") (simp_all add: found)
    qed
    moreover have "endpoint_id (case find (\<lambda>p. endpoint_id (fst p) = endpoint_id r) ends of None \<Rightarrow> r
        | Some p \<Rightarrow> merge_endpoint flushed (fst p) (snd p) r) = endpoint_id r" for r by (simp split: option.split)
    ultimately show ?thesis by (auto simp: update_where_def write_rows_def i(1))
  qed
qed

lemma alone_step:
  assumes "alone d r" "run_left r = x # rest" "distinct (map wd_id (deliveries d))" "distinct (map endpoint_id (endpoints d))"
  shows "snd (attempt_delivery post now x (private_view flushed d r)) = private_view flushed d (run_attempt post now d r)"
    "alone d (run_attempt post now d r)" "run_left (run_attempt post now d r) = rest"
proof -
  define ends where "ends = load_endpoint (wd_endpoint_id x) d (run_ends r)"
  let ?v = "d\<lparr>deliveries := [x], endpoints := map snd ends\<rparr>"
  have read: "\<forall>p \<in> set (run_ends r). fst p \<in> set (endpoints d) \<and> same_endpoint (fst p) (snd p)" "x \<in> set (deliveries d)"
    "wd_id x \<notin> wd_id ` fst ` set (run_done r)" using assms(1,2) by (auto simp: alone_def)
  note loaded = lookup_loaded [OF assms(4) read(1), where i = "wd_endpoint_id x", folded ends_def]
  have run: "run_attempt post now d r = r\<lparr>run_left := rest, run_done := run_done r @ [(x, hd (deliveries (snd (attempt_delivery post now x ?v))))],
      run_ends := zip (map fst ends) (endpoints (snd (attempt_delivery post now x ?v)))\<rparr>"
    by (simp add: run_attempt_def assms(2) Let_def ends_def)
  have found: "lookup_by endpoint_id (wd_endpoint_id x) (endpoints (private_view flushed d r)) = lookup_by endpoint_id (wd_endpoint_id x) (endpoints ?v)"
    using loaded(1) by simp
  have "snd (attempt_delivery post now x (private_view flushed d r)) = private_view flushed d (run_attempt post now d r) \<and> alone d (run_attempt post now d r)"
  proof (cases rule: attempt_two [OF found, of post now])
    case (1 y)
    have r': "run_attempt post now d r = r\<lparr>run_left := rest, run_done := run_done r @ [(x, y)], run_ends := ends\<rparr>"
      using 1(2,3) by (simp add: run zip_map_fst_snd same_delivery_def)
    have "alone d (run_attempt post now d r)" using assms(1,2) 1(3) loaded(3) by (auto simp: alone_def r')
    then show ?thesis using write_one_more [OF assms(3) read(2,3) 1(3)] loaded(2) by (simp add: 1(1) r' put_delivery_def)
  next
    case (2 y e e')
    let ?ends = "map (\<lambda>q. (fst q, if endpoint_id (snd q) = endpoint_id e' then e' else snd q)) ends"
    have r': "run_attempt post now d r = r\<lparr>run_left := rest, run_done := run_done r @ [(x, y)], run_ends := ?ends\<rparr>"
      using 2(2,3) by (simp add: run zip_update_where same_delivery_def)
    have "lookup_by endpoint_id (wd_endpoint_id x) (map snd ends) = Some e" using 2(5) found by simp
    note w = write_end(1) [OF assms(4) loaded(3) this 2(4) refl, where flushed = flushed] write_end(2) [OF assms(4) loaded(3) this 2(4) refl]
    have "alone d (run_attempt post now d r)" using assms(1,2) 2(3) w(2) by (auto simp: alone_def r')
    then show ?thesis using write_one_more [OF assms(3) read(2,3) 2(3)] w(1) loaded(2) by (simp add: 2(1) r' put_delivery_def put_endpoint_def)
  qed
  then show "snd (attempt_delivery post now x (private_view flushed d r)) = private_view flushed d (run_attempt post now d r)"
    "alone d (run_attempt post now d r)" by simp_all
  show "run_left (run_attempt post now d r) = rest" by (simp add: run)
qed

lemma run_alone:
  assumes "alone d r" "distinct (map wd_id (deliveries d))" "distinct (map endpoint_id (endpoints d))"
  shows "snd (attempt_all post ticks k (run_left r) (private_view flushed d r)) =
      private_view flushed d (run_through post ticks k (length (run_left r)) d r)"
  using assms(1)
proof (induction "run_left r" arbitrary: r k)
  case (Cons x rest)
  note step = alone_step(1) [OF Cons.prems Cons.hyps(2) [symmetric] assms(2,3), where post = post and now = "ticks k" and flushed = flushed]
    alone_step(2,3) [OF Cons.prems Cons.hyps(2) [symmetric] assms(2,3), where post = post and now = "ticks k"]
  from Cons.hyps(1) [OF step(3) [symmetric] step(2), of "Suc k"] show ?case
    unfolding Cons.hyps(2) [symmetric] by (simp add: split_beta step(1,3))
qed simp

text \<open>The two callers are what their runs come to when nothing overlaps them.\<close>

lemma write_none [simp]: "write_rows key merge [] rows = rows"
  by (simp add: write_rows_def)

lemma runs_alone_are_the_callers:
  assumes "owed_ok n (db s)" "xs = due_deliveries now limit (db s)" "ys = filter (\<lambda>x. wd_id x \<in> set ids) (deliveries (db s))"
  shows "commit_run flushed (run_through post ticks 0 (length xs) (db s) (begin_sweep now limit (db s))) s = snd (deliver_pending post ticks now limit s)"
    "ids \<noteq> [] \<Longrightarrow> commit_run flushed (run_through post ticks 0 (length ys) (db s) (begin_immediate ids (db s))) s = deliver_now post ticks ids s"
proof -
  have d: "distinct (map wd_id (deliveries (db s)))" "distinct (map endpoint_id (endpoints (db s)))" using assms(1) by (simp_all add: owed_ok_def)
  have "distinct (map wd_id (sort_key wd_sequence (filter (is_due now) (deliveries (db s)))))"
    using d(1) by (simp add: distinct_map inj_on_filter_key_eq) (auto simp: inj_on_def)
  then have "alone (db s) (begin_sweep now limit (db s))"
    by (auto simp: alone_def begin_sweep_def due_deliveries_def take_map [symmetric] dest!: in_set_takeD)
  from run_alone [OF this d, where post = post and ticks = ticks and k = 0 and flushed = flushed]
  show "commit_run flushed (run_through post ticks 0 (length xs) (db s) (begin_sweep now limit (db s))) s = snd (deliver_pending post ticks now limit s)"
    by (simp add: commit_run_def deliver_pending_def split_beta begin_sweep_def assms(2))
  have "alone (db s) (begin_immediate ids (db s))" using d(1) by (auto simp: alone_def begin_immediate_def distinct_map_filter)
  from run_alone [OF this d, where post = post and ticks = ticks and k = 0 and flushed = flushed]
  show "ids \<noteq> [] \<Longrightarrow> commit_run flushed (run_through post ticks 0 (length ys) (db s) (begin_immediate ids (db s))) s = deliver_now post ticks ids s"
    by (simp add: commit_run_def deliver_now_def begin_immediate_def assms(3))
qed

section \<open>A consumer that answers\<close>

lemma lookup_put:
  "lookup_by key k (update_where (\<lambda>r. key r = key e) (\<lambda>_. e) rows) =
     (if k = key e \<and> k \<in> key ` set rows then Some e else lookup_by key k rows)"
  by (induction rows) auto

definition healthy :: "consumer \<Rightarrow> bool" where
  "healthy post \<longleftrightarrow> (\<forall>e x. case post e x of Response code \<Rightarrow> 200 \<le> code \<and> code < 300 | Raised _ \<Rightarrow> False)"

definition reaches :: "db \<Rightarrow> delivery_row \<Rightarrow> bool" where
  "reaches d x \<longleftrightarrow> (case lookup_by endpoint_id (wd_endpoint_id x) (endpoints d) of None \<Rightarrow> False | Some e \<Rightarrow> endpoint_is_active e)"

lemma attempt_healthy:
  assumes "healthy post" "reaches d x"
  obtains x' e' where "attempt_delivery post now x d = (DELIVERY_DELIVERED, put_endpoint e' (put_delivery x' d))"
    "wd_id x' = wd_id x" "wd_status x' = DELIVERY_DELIVERED" "endpoint_is_active e'"
proof -
  obtain e where e: "lookup_by endpoint_id (wd_endpoint_id x) (endpoints d) = Some e" "endpoint_is_active e"
    using assms(2) by (auto simp: reaches_def split: option.splits)
  let ?x = "x\<lparr>wd_attempts := wd_attempts x + 1\<rparr>"
  obtain code where code: "post e ?x = Response code" "200 \<le> code" "code < 300"
    using assms(1) by (cases "post e ?x") (auto simp: healthy_def split: post_outcome.splits dest: spec [of _ e])
  obtain x' e' where o1: "record_outcome (post e ?x) now ?x e = (x', e')" by fastforce
  with code have "wd_id x' = wd_id x" "wd_status x' = DELIVERY_DELIVERED" "endpoint_is_active e'"
    using e(2) by (auto simp: record_outcome_def)
  moreover have "attempt_delivery post now x d = (wd_status x', put_endpoint e' (put_delivery x' d))"
    using e o1 by (simp add: attempt_delivery_def)
  ultimately show thesis using that by simp
qed

lemma reaches_put:
  assumes "endpoint_is_active e'" "reaches d y"
  shows "reaches (put_endpoint e' (put_delivery x' d)) y"
  using assms by (auto simp: reaches_def lookup_put split: option.splits)

lemma attempt_all_healthy:
  assumes "healthy post" "\<And>x. x \<in> set xs \<Longrightarrow> reaches d x"
    "\<And>r. r \<in> set (deliveries d) \<Longrightarrow> wd_id r \<in> done1 \<Longrightarrow> wd_status r = DELIVERY_DELIVERED"
  shows "fst (attempt_all post ticks k xs d) = replicate (length xs) DELIVERY_DELIVERED \<and>
    (\<forall>r \<in> set (deliveries (snd (attempt_all post ticks k xs d))).
       wd_id r \<in> done1 \<union> wd_id ` set xs \<longrightarrow> wd_status r = DELIVERY_DELIVERED) \<and>
    map wd_id (deliveries (snd (attempt_all post ticks k xs d))) = map wd_id (deliveries d) \<and>
    filter (\<lambda>r. wd_id r \<notin> wd_id ` set xs) (deliveries (snd (attempt_all post ticks k xs d))) =
      filter (\<lambda>r. wd_id r \<notin> wd_id ` set xs) (deliveries d)"
  using assms(2,3)
proof (induction xs arbitrary: k d done1)
  case (Cons x xs)
  obtain x' e' where a: "attempt_delivery post (ticks k) x d = (DELIVERY_DELIVERED, put_endpoint e' (put_delivery x' d))"
    and x': "wd_id x' = wd_id x" "wd_status x' = DELIVERY_DELIVERED" and e': "endpoint_is_active e'"
    by (rule attempt_healthy [OF assms(1) Cons.prems(1), of x "ticks k"]) simp_all
  let ?d = "put_endpoint e' (put_delivery x' d)"
  have r: "reaches ?d y" if "y \<in> set xs" for y using that Cons.prems(1) e' by (auto intro: reaches_put)
  have "wd_status r = DELIVERY_DELIVERED" if "r \<in> set (deliveries ?d)" "wd_id r \<in> insert (wd_id x) done1" for r
    using that Cons.prems(2) x' by (auto simp: set_update_where split: if_splits)
  from Cons.IH [of ?d "insert (wd_id x) done1" "Suc k", OF r this] have ih:
    "fst (attempt_all post ticks (Suc k) xs ?d) = replicate (length xs) DELIVERY_DELIVERED"
    "\<forall>r \<in> set (deliveries (snd (attempt_all post ticks (Suc k) xs ?d))).
       wd_id r \<in> insert (wd_id x) done1 \<union> wd_id ` set xs \<longrightarrow> wd_status r = DELIVERY_DELIVERED"
    "map wd_id (deliveries (snd (attempt_all post ticks (Suc k) xs ?d))) = map wd_id (deliveries ?d)"
    "filter (\<lambda>r. wd_id r \<notin> wd_id ` set xs) (deliveries (snd (attempt_all post ticks (Suc k) xs ?d))) =
      filter (\<lambda>r. wd_id r \<notin> wd_id ` set xs) (deliveries ?d)" by blast+
  have keep: "filter (\<lambda>r. wd_id r \<notin> wd_id ` set (x # xs)) ys = filter (\<lambda>r. wd_id r \<noteq> wd_id x) (filter (\<lambda>r. wd_id r \<notin> wd_id ` set xs) ys)" for ys
    by (simp add: conj_commute)
  have "filter (\<lambda>r. wd_id r \<notin> wd_id ` set (x # xs)) (deliveries ?d) = filter (\<lambda>r. wd_id r \<notin> wd_id ` set (x # xs)) (deliveries d)"
    unfolding tables_put by (rule filter_update_where_notin) (auto simp: x')
  then have "filter (\<lambda>r. wd_id r \<notin> wd_id ` set (x # xs)) (deliveries (snd (attempt_all post ticks (Suc k) xs ?d))) =
      filter (\<lambda>r. wd_id r \<notin> wd_id ` set (x # xs)) (deliveries d)"
    unfolding keep ih(4) .
  with ih(1-3) show ?case by (simp add: a split_beta map_id_put)
qed simp

lemma count_replicate:
  "count_outcomes (replicate n x) [] = (case n of 0 \<Rightarrow> [] | Suc m \<Rightarrow> [(x, Suc m)])"
proof -
  have "count_outcomes (replicate n x) [(x, m)] = [(x, m + n)]" for m
    by (induction n arbitrary: m) simp_all
  then show ?thesis by (cases n) simp_all
qed

definition retryable_answer :: "post_outcome \<Rightarrow> bool" where
  "retryable_answer answer \<longleftrightarrow>
     (case answer of Raised _ \<Rightarrow> True | Response code \<Rightarrow> code \<in> {408, 425, 429} \<or> 500 \<le> code)"

lemma record_outcome_retryable:
  assumes "retryable_answer answer"
  obtains y where "record_outcome answer now x e = record_failure y e now True" "wd_id y = wd_id x" "wd_attempts y = wd_attempts x"
proof (cases answer)
  case (Raised msg)
  then show thesis by (intro that [of "x\<lparr>wd_last_error := Some (take 500 msg)\<rparr>"]) (simp_all add: record_outcome_def)
next
  case (Response code)
  with assms show thesis
    by (intro that [of "x\<lparr>wd_last_status_code := Some code, wd_last_error := Some (''HTTP '' @ show_int code)\<rparr>"])
      (auto simp: record_outcome_def retryable_answer_def is_retryable_status_def RETRYABLE_STATUSES_def)
qed

section \<open>Properties\<close>

text \<open>
  (C36) The retry discipline, for transactions, immediate attempts and sweeps overlapping in any way, lost or not, and any
  behaviour of the consumers: a notification that is still pending has attempts left out of six and a time for the next, so none is
  stranded; it counts at most six attempts until its immediate attempt is over, and at most seven ever, the seventh
  by an immediate attempt that came last; an endpoint at the cut-off of twenty consecutive failures is switched off; and identifiers stay unique.
\<close>

theorem webhook_retry_discipline:
  assumes "notify_step\<^sup>*\<^sup>* c c'" "courier_ok c"
  shows "distinct (map wd_id (deliveries (db (co_session c')))) \<and>
    (\<forall>x \<in> set (deliveries (db (co_session c'))). wd_attempts x \<le> 7 \<and> (wd_id x \<in> set (outstanding c') \<longrightarrow> wd_attempts x \<le> 6) \<and>
       (wd_status x = DELIVERY_PENDING \<longrightarrow> wd_attempts x < 6 \<and> wd_next_attempt_at x \<noteq> None)) \<and>
    (\<forall>e \<in> set (endpoints (db (co_session c'))). endpoint_is_active e \<longrightarrow> endpoint_consecutive_failures e < 20)"
  using notify_reachable [OF assms]
  by (auto simp: courier_ok_def owed_ok_def delivery_ok_def endpoint_ok_def MAX_CONSECUTIVE_FAILURES_def
      MAX_ATTEMPTS_def BACKOFF_MINUTES_def)


text \<open>
  The waits between attempts. A retryable failure of a pending delivery's attempt number \<open>k\<close>
  schedules the next one 5, 25, 120, 600 or 2880 minutes later for \<open>k\<close> from 1 to 5, and the sixth
  failure ends it: the table's first entry, one minute, is never a wait.
\<close>

theorem retry_waits:
  assumes "lookup_by endpoint_id (wd_endpoint_id x) (endpoints d) = Some e" "endpoint_is_active e"
    "retryable_answer (post e (x\<lparr>wd_attempts := wd_attempts x + 1\<rparr>))" "x \<in> set (deliveries d)"
    "0 \<le> wd_attempts x" "wd_attempts x < 6"
    "attempt_delivery post now x d = (outcome, d')"
  shows "\<exists>x' \<in> set (deliveries d'). wd_id x' = wd_id x \<and> wd_attempts x' = wd_attempts x + 1 \<and> wd_status x' = outcome \<and>
    (wd_attempts x, outcome, wd_next_attempt_at x') \<in>
      {(0, DELIVERY_PENDING, Some (now + minutes 5)), (1, DELIVERY_PENDING, Some (now + minutes 25)),
       (2, DELIVERY_PENDING, Some (now + minutes 120)), (3, DELIVERY_PENDING, Some (now + minutes 600)),
       (4, DELIVERY_PENDING, Some (now + minutes 2880)), (5, DELIVERY_FAILED, None)}"
proof -
  let ?x = "x\<lparr>wd_attempts := wd_attempts x + 1\<rparr>"
  obtain y where y: "record_outcome (post e ?x) now ?x e = record_failure y e now True" "wd_id y = wd_id x"
    "wd_attempts y = wd_attempts x + 1"
    by (rule record_outcome_retryable [OF assms(3), of now ?x e]) simp
  obtain x' e' where r: "record_failure y e now True = (x', e')" by fastforce
  have a: "outcome = wd_status x'" "d' = put_endpoint e' (put_delivery x' d)"
    using assms(1,2,7) r y(1) by (auto simp: attempt_delivery_def)
  have x': "wd_id x' = wd_id x" "wd_attempts x' = wd_attempts x + 1"
    "wd_next_attempt_at x' = next_attempt_at (wd_attempts x + 1) now"
    "wd_status x' = (if next_attempt_at (wd_attempts x + 1) now = None then DELIVERY_FAILED else DELIVERY_PENDING)"
    using r y(2,3) by (auto simp: record_failure_def Let_def)
  have mem: "x' \<in> set (deliveries d')" using assms(4) x'(1) by (force simp: a(2) set_update_where)
  have "wd_attempts x = 0 \<or> wd_attempts x = 1 \<or> wd_attempts x = 2 \<or> wd_attempts x = 3 \<or> wd_attempts x = 4 \<or> wd_attempts x = 5"
    using assms(5,6) by presburger
  then have "(wd_attempts x, outcome, wd_next_attempt_at x') \<in>
      {(0, DELIVERY_PENDING, Some (now + minutes 5)), (1, DELIVERY_PENDING, Some (now + minutes 25)),
       (2, DELIVERY_PENDING, Some (now + minutes 120)), (3, DELIVERY_PENDING, Some (now + minutes 600)),
       (4, DELIVERY_PENDING, Some (now + minutes 2880)), (5, DELIVERY_FAILED, None)}"
    by (elim disjE) (simp_all add: a(1) x' next_attempt_at_def MAX_ATTEMPTS_def BACKOFF_MINUTES_def)
  with mem x' a(1) show ?thesis by blast
qed

text \<open>A session that owes one notification, to an active endpoint.\<close>

definition sample_owing :: session where
  "sample_owing = snd (webhook_emit True (status_event_of 7 (Some 2) ''epicor'' None Held Assigned 0) (sample_session []))"

text \<open>
  One notification, and its immediate attempt overlapping a sweep: both read it untried, both post it, and both fail; it counts one attempt.
\<close>

definition sample_event :: status_event where
  "sample_event = status_event_of 7 (Some 2) ''epicor'' None Held Assigned 0"

definition quiet_courier :: courier where
  "quiet_courier = \<lparr>co_session = (let s = sample_session [] in s\<lparr>base := db s\<rparr>), co_scheduled = [], co_runs = []\<rparr>"

definition told_courier :: courier where
  "told_courier = (let (ids, s) = take_pending_delivery_ids (emit_all [sample_event] (co_session quiet_courier))
     in quiet_courier\<lparr>co_session := commit s, co_scheduled := [ids]\<rparr>)"

definition racing_runs :: "run list" where
  "racing_runs = (let d = db (co_session told_courier) in [begin_immediate [101] d, begin_sweep 1 100 d])"

definition tried_runs :: "run list" where
  "tried_runs = map (run_attempt (\<lambda>_ _. Response 500) 1 (db (co_session told_courier))) racing_runs"

definition raced_courier :: courier where
  "raced_courier = told_courier\<lparr>co_scheduled := [], co_runs := [], co_session :=
     commit_run (\<lambda>_. False) (tried_runs ! 1) (commit_run (\<lambda>_. False) (tried_runs ! 0) (co_session told_courier))\<rparr>"

lemma quiet_courier_ok: "courier_ok quiet_courier"
  by (simp add: courier_ok_def quiet_courier_def outstanding_def owed_ok_def sample_session_def sample_tables_def endpoint_ok_def
      MAX_CONSECUTIVE_FAILURES_def Let_def)

lemma raced: "notify_step\<^sup>*\<^sup>* quiet_courier raced_courier"
proof -
  let ?d = "db (co_session told_courier)" and ?post = "\<lambda>_ _. Response 500"
  let ?a = "begin_immediate [101] ?d" and ?b = "begin_sweep 1 100 ?d"
  let ?a' = "run_attempt ?post 1 ?d ?a" and ?b' = "run_attempt ?post 1 ?d ?b"
  have sched: "co_scheduled told_courier = [] @ [101] # []" "co_runs told_courier = []" by code_simp+
  have new: "new_times ?a'" "new_times ?b'" by (code_simp, code_simp)
  have left: "run_left ?a' = []" "run_left ?b' = []" by code_simp+
  have quiet: "co_scheduled quiet_courier = []" by (simp add: quiet_courier_def)
  have 1: "notify_step quiet_courier told_courier"
    using notify_step.transacted [of "[sample_event]" quiet_courier] by (simp add: told_courier_def quiet split: prod.split)
  let ?c1 = "told_courier\<lparr>co_scheduled := [], co_runs := [?a]\<rparr>"
  have 2: "notify_step told_courier ?c1" using notify_step.immediate [OF sched(1)] by (simp add: sched(2))
  let ?c2 = "?c1\<lparr>co_runs := [?a, ?b]\<rparr>"
  have 3: "notify_step ?c1 ?c2" using notify_step.sweep [of ?c1 1 100] by simp
  let ?c3 = "?c2\<lparr>co_runs := [?a', ?b]\<rparr>" let ?c4 = "?c2\<lparr>co_runs := [?a', ?b']\<rparr>"
  have 4: "notify_step ?c2 ?c3" using notify_step.attempt [of ?c2 "[]" ?a "[?b]" ?post 1] new by simp
  have 5: "notify_step ?c3 ?c4" using notify_step.attempt [of ?c3 "[?a']" ?b "[]" ?post 1] new by simp
  let ?c5 = "?c4\<lparr>co_runs := [?b'], co_session := commit_run (\<lambda>_. False) ?a' (co_session told_courier)\<rparr>"
  have 6: "notify_step ?c4 ?c5" using notify_step.finished [of ?c4 "[]" ?a' "[?b']" "\<lambda>_. False"] left by simp
  have "notify_step ?c5 (?c5\<lparr>co_runs := [], co_session := commit_run (\<lambda>_. False) ?b' (co_session ?c5)\<rparr>)"
    using notify_step.finished [of ?c5 "[]" ?b' "[]" "\<lambda>_. False"] left by simp
  then have 7: "notify_step ?c5 raced_courier" by (simp add: raced_courier_def tried_runs_def racing_runs_def sched(2) Let_def)
  from 1 2 3 4 5 6 7 show ?thesis by (meson r_into_rtranclp rtranclp.rtrancl_into_rtrancl)
qed

theorem webhook_retry_discipline_witness:
  "map wd_attempts (deliveries (db (co_session raced_courier))) = [1] \<and>
   map wd_status (deliveries (db (co_session raced_courier))) = [DELIVERY_PENDING] \<and>
   map (\<lambda>x. wd_next_attempt_at x \<noteq> None) (deliveries (db (co_session raced_courier))) = [True]"
proof -
  have tried: "map wd_attempts (deliveries (db (co_session raced_courier))) = [1]"
    "map wd_status (deliveries (db (co_session raced_courier))) = [DELIVERY_PENDING]" by code_simp+
  then show ?thesis using webhook_retry_discipline [OF raced quiet_courier_ok] by (auto simp: map_eq_Cons_conv)
qed

text \<open>
  An immediate attempt that comes after a sweep has delivered its notification posts it again, and when that fails the notification
  is owed once more.
\<close>

lemma late_attempt_reopens:
  "let delivered = snd (deliver_pending (\<lambda>_ _. Response 200) (\<lambda>_. 1) 1 100 sample_owing);
       again = deliver_now (\<lambda>_ _. Response 500) (\<lambda>_. 2) [101] delivered
   in map wd_status (deliveries (db delivered)) = [DELIVERY_DELIVERED] \<and>
      map wd_status (deliveries (db again)) = [DELIVERY_PENDING] \<and> map wd_attempts (deliveries (db again)) = [2]"
  by code_simp


theorem retry_waits_witness:
  "\<exists>x' \<in> set (deliveries (snd (attempt_delivery (\<lambda>_ _. Raised ''ReadTimeout: '') 0 (hd (deliveries (db sample_owing))) (db sample_owing)))).
     wd_next_attempt_at x' = Some (minutes 5)"
proof -
  let ?x = "hd (deliveries (db sample_owing))" and ?e = "hd (endpoints (db sample_owing))"
  let ?post = "\<lambda>_ _. Raised ''ReadTimeout: ''" and ?d = "db sample_owing"
  have 1: "lookup_by endpoint_id (wd_endpoint_id ?x) (endpoints ?d) = Some ?e" "endpoint_is_active ?e" by code_simp+
  have 2: "retryable_answer (?post ?e (?x\<lparr>wd_attempts := wd_attempts ?x + 1\<rparr>))" by (simp add: retryable_answer_def)
  have 3: "?x \<in> set (deliveries ?d)" by code_simp
  have 4: "wd_attempts ?x = 0" by code_simp
  have "0 \<le> wd_attempts ?x" "wd_attempts ?x < 6" by (simp_all add: 4)
  from retry_waits [OF 1 2 3 this prod.collapse [symmetric], of 0] 4 show ?thesis by auto
qed

end
