(* ===== verification/Hub_Calendar.thy ===== *)
theory Hub_Calendar
  imports Tables Py_Text
begin

text \<open>
  The hub's own calendar (\<open>src/app/hub_calendar.py\<close>). A \<open>ZoneInfo\<close> is the data of its zone: the
  offset before the first clock change and the list of changes, each an instant and the offset from
  then on. \<open>offset_at\<close> and \<open>wall_offset\<close> are the two lookups of \<open>zoneinfo\<close>: the offset in force at an
  instant, and the one that \<open>astimezone\<close> takes for a wall-clock time with \<open>fold = 0\<close>, which passes a
  change when the wall clock reads at least the later of the two readings of that instant. The rule a
  zone file gives for the years after its last change is taken as already unrolled into the list. The zone
  database, from the zone's key to its data, is the parameter \<open>tzdata\<close>; a key it lacks raises.
\<close>

section \<open>Dates and zones\<close>

type_synonym zone = "int \<times> (instant \<times> int) list"

definition day_micros :: int where
  "day_micros = 86400000000"

text \<open>\<open>date.toordinal\<close> of 1 January 1970.\<close>

definition EPOCH_ORDINAL :: int where
  "EPOCH_ORDINAL = 719163"

definition wall_midnight :: "date \<Rightarrow> int" where
  "wall_midnight d = (d - EPOCH_ORDINAL) * day_micros"

definition wall_date :: "int \<Rightarrow> date" where
  "wall_date wall = wall div day_micros + EPOCH_ORDINAL"

fun offset_at :: "int \<Rightarrow> (instant \<times> int) list \<Rightarrow> instant \<Rightarrow> int" where
  "offset_at off [] t = off"
| "offset_at off ((change, off') # zs) t = (if t < change then off else offset_at off' zs t)"

fun wall_offset :: "int \<Rightarrow> (instant \<times> int) list \<Rightarrow> int \<Rightarrow> int" where
  "wall_offset off [] wall = off"
| "wall_offset off ((change, off') # zs) wall =
     (if wall < change + max off off' then off else wall_offset off' zs wall)"

definition UTC :: zone where
  "UTC = (0, [])"

definition to_wall :: "zone \<Rightarrow> instant \<Rightarrow> int" where
  "to_wall z t = t + offset_at (fst z) (snd z) t"

definition from_wall :: "zone \<Rightarrow> int \<Rightarrow> instant" where
  "from_wall z wall = wall - wall_offset (fst z) (snd z) wall"

text \<open>The first of a month, as \<open>date(year, month, 1).toordinal()\<close>; \<open>None\<close> is \<open>ValueError\<close>.\<close>

definition is_leap :: "int \<Rightarrow> bool" where
  "is_leap y \<longleftrightarrow> y mod 4 = 0 \<and> (y mod 100 \<noteq> 0 \<or> y mod 400 = 0)"

definition days_before_year :: "int \<Rightarrow> int" where
  "days_before_year y = (y - 1) * 365 + (y - 1) div 4 - (y - 1) div 100 + (y - 1) div 400"

definition days_before_month :: "int \<Rightarrow> int \<Rightarrow> int" where
  "days_before_month y m =
     [0, 31, 59, 90, 120, 151, 181, 212, 243, 273, 304, 334] ! nat (m - 1) + (if 2 < m \<and> is_leap y then 1 else 0)"

definition first_of_month :: "int \<Rightarrow> int \<Rightarrow> date option" where
  "first_of_month y m =
     (if 1 \<le> y \<and> y \<le> 9999 \<and> 1 \<le> m \<and> m \<le> 12 then Some (days_before_year y + days_before_month y m + 1) else None)"

text \<open>\<open>date.fromordinal\<close> and \<open>date.isoformat\<close>.\<close>

definition month_days :: "int \<Rightarrow> bool \<Rightarrow> int" where
  "month_days m leap = [31, 28, 31, 30, 31, 30, 31, 31, 30, 31, 30, 31] ! nat (m - 1) + (if m = 2 \<and> leap then 1 else 0)"

definition date_parts :: "date \<Rightarrow> int \<times> int \<times> int" where
  "date_parts ord =
     (let n0 = ord - 1; n400 = n0 div 146097; r400 = n0 mod 146097;
          n100 = r400 div 36524; r100 = r400 mod 36524;
          n4 = r100 div 1461; r4 = r100 mod 1461;
          n1 = r4 div 365; n = r4 mod 365;
          year = n400 * 400 + 1 + n100 * 100 + n4 * 4 + n1 in
      if n1 = 4 \<or> n100 = 4 then (year - 1, 12, 31)
      else
        let leap = (n1 = 3 \<and> (n4 \<noteq> 24 \<or> n100 = 3));
            month = (n + 50) div 32;
            preceding = days_before_month 1 month + (if 2 < month \<and> leap then 1 else 0)
        in if n < preceding then (year, month - 1, n - (preceding - month_days (month - 1) leap) + 1)
           else (year, month, n - preceding + 1))"

definition pad_zeros :: "nat \<Rightarrow> string \<Rightarrow> string" where
  "pad_zeros n s = replicate (n - length s) (CHR ''0'') @ s"

definition date_isoformat :: "date \<Rightarrow> string" where
  "date_isoformat ord =
     (case date_parts ord of (y, m, d) \<Rightarrow>
        pad_zeros 4 (show_int y) @ ''-'' @ pad_zeros 2 (show_int m) @ ''-'' @ pad_zeros 2 (show_int d))"

section \<open>hub_calendar.py\<close>

type_synonym tz_database = "string \<Rightarrow> zone option"

definition midnight :: "date \<Rightarrow> zone \<Rightarrow> instant" where
  "midnight day z = from_wall z (wall_midnight day)"

definition hub_zone :: "tz_database \<Rightarrow> hub_row option \<Rightarrow> zone option" where
  "hub_zone tzdata hub = (case hub of None \<Rightarrow> Some UTC | Some h \<Rightarrow> tzdata (hub_timezone h))"

definition local_date :: "zone \<Rightarrow> instant \<Rightarrow> date" where
  "local_date z t = wall_date (to_wall z t)"

definition hub_local_date :: "tz_database \<Rightarrow> hub_row \<Rightarrow> instant \<Rightarrow> date option" where
  "hub_local_date tzdata hub t = map_option (\<lambda>z. local_date z t) (tzdata (hub_timezone hub))"

definition hub_day_bounds :: "tz_database \<Rightarrow> hub_row \<Rightarrow> date \<Rightarrow> (instant \<times> instant) option" where
  "hub_day_bounds tzdata hub day =
     map_option (\<lambda>z. (midnight day z, midnight (day + 1) z)) (tzdata (hub_timezone hub))"

text \<open>The loop of \<open>hub_days\<close> stops because the offsets of a zone are bounded.\<close>

definition max_offset :: "zone \<Rightarrow> int" where
  "max_offset z = Max (insert (fst z) (snd ` set (snd z)))"

lemma wall_offset_mem: "wall_offset off zs wall \<in> insert off (snd ` set zs)"
  by (induction off zs wall rule: wall_offset.induct) auto

lemma midnight_bound: "wall_midnight day - max_offset z \<le> midnight day z"
proof -
  have "wall_offset (fst z) (snd z) (wall_midnight day) \<le> max_offset z"
    unfolding max_offset_def using wall_offset_mem by (intro Max_ge) auto
  then show ?thesis by (simp add: midnight_def from_wall_def)
qed

function days_until :: "zone \<Rightarrow> instant \<Rightarrow> date \<Rightarrow> (instant \<times> instant) list" where
  "days_until z until day =
     (if midnight day z < until then (midnight day z, midnight (day + 1) z) # days_until z until (day + 1) else [])"
  by pat_completeness auto
termination
proof (relation "measure (\<lambda>(z, until, day). nat (until + max_offset z - wall_midnight day))")
  fix z until day
  assume "midnight day z < until"
  with midnight_bound [of day z] have "wall_midnight day < until + max_offset z" by linarith
  then show "((z, until, day + 1), z, until, day) \<in> measure (\<lambda>(z, until, day). nat (until + max_offset z - wall_midnight day))"
    by (simp add: wall_midnight_def day_micros_def)
qed simp

declare days_until.simps [simp del]

definition hub_days :: "tz_database \<Rightarrow> hub_row \<Rightarrow> instant \<Rightarrow> instant \<Rightarrow> (instant \<times> instant) list option" where
  "hub_days tzdata hub since until =
     map_option (\<lambda>z. days_until z until (local_date z since)) (tzdata (hub_timezone hub))"

definition hub_month :: "tz_database \<Rightarrow> hub_row \<Rightarrow> int \<Rightarrow> int \<Rightarrow> (instant \<times> instant) option" where
  "hub_month tzdata hub year month =
     (case tzdata (hub_timezone hub) of
        None \<Rightarrow> None
      | Some z \<Rightarrow>
          (case (first_of_month (year + month div 12) (month mod 12 + 1), first_of_month year month) of
             (Some following, Some first) \<Rightarrow> Some (midnight first z, midnight following z)
           | _ \<Rightarrow> None))"

definition is_hub_closed_on :: "db \<Rightarrow> uuid \<Rightarrow> date \<Rightarrow> bool" where
  "is_hub_closed_on d h day \<longleftrightarrow>
     (\<exists>c \<in> set (hub_closures (ops_of d)). closure_hub_id c = h \<and> closure_date c = day)"

text \<open>Fails open: a missing hub, or a time zone that does not resolve, is not closed.\<close>

definition is_hub_closed_at :: "tz_database \<Rightarrow> db \<Rightarrow> uuid \<Rightarrow> instant \<Rightarrow> bool" where
  "is_hub_closed_at tzdata d h t =
     (case lookup_by hub_id h (hubs d) of
        None \<Rightarrow> False
      | Some hub \<Rightarrow>
          (case hub_local_date tzdata hub t of
             None \<Rightarrow> False
           | Some day \<Rightarrow> is_hub_closed_on d h day))"

section \<open>What a clock promises\<close>

text \<open>
  The contract the calendar's users rely on: the local date never goes backwards at a midnight. A day
  begins at its midnight, and every instant from there on has that date or a later one.
\<close>

locale hub_clock =
  fixes begins :: "date \<Rightarrow> instant" and date_at :: "instant \<Rightarrow> date"
  assumes begins_iff: "begins d \<le> t \<longleftrightarrow> d \<le> date_at t"
begin

lemma in_day_iff: "begins d \<le> t \<and> t < begins (d + 1) \<longleftrightarrow> date_at t = d"
  using begins_iff [of d t] begins_iff [of "d + 1" t] by auto

lemma date_at_begins: "date_at (begins d) \<ge> d"
  using begins_iff [of d "begins d"] by simp

lemma begins_mono: "d \<le> e \<Longrightarrow> begins d \<le> begins e"
  using begins_iff [of d "begins e"] date_at_begins [of e] by simp

lemma date_at_mono: "t \<le> u \<Longrightarrow> date_at t \<le> date_at u"
  using begins_iff [of "date_at t" t] begins_iff [of "date_at t" u] by simp

end

text \<open>
  A zone whose clock changes are in order and none of which skips or repeats a midnight strictly
  inside the change. A change at midnight itself is allowed in either direction.
\<close>

fun after_change :: "instant \<Rightarrow> (instant \<times> int) list \<Rightarrow> bool" where
  "after_change t [] = True"
| "after_change t ((change, _) # zs) = (t < change)"

definition keeps_midnights :: "instant \<Rightarrow> int \<Rightarrow> int \<Rightarrow> bool" where
  "keeps_midnights change off off' \<longleftrightarrow>
     off = off' \<or> wall_date (change + max off off' - 1) = wall_date (change + min off off')"

fun changes_ok :: "int \<Rightarrow> (instant \<times> int) list \<Rightarrow> bool" where
  "changes_ok off [] = True"
| "changes_ok off ((change, off') # zs) =
     (keeps_midnights change off off' \<and> after_change change zs \<and> changes_ok off' zs)"

definition zone_ok :: "zone \<Rightarrow> bool" where
  "zone_ok z \<longleftrightarrow> changes_ok (fst z) (snd z)"

lemma le_div_int_iff: "0 < c \<Longrightarrow> a \<le> b div c \<longleftrightarrow> a * c \<le> (b :: int)"
proof
  assume c: "0 < c" and "a \<le> b div c"
  then have "a * c \<le> b div c * c" by (intro mult_right_mono) simp_all
  then show "a * c \<le> b" using div_mult_mod_eq [of b c] pos_mod_sign [OF c, of b] by linarith
next
  assume c: "0 < c" and "a * c \<le> b"
  then have "a * c div c \<le> b div c" by (intro zdiv_mono1)
  with c show "a \<le> b div c" by simp
qed

lemma wall_date_iff: "d \<le> wall_date w \<longleftrightarrow> wall_midnight d \<le> w"
  using le_div_int_iff [of day_micros "d - EPOCH_ORDINAL" w]
  by (auto simp: wall_date_def wall_midnight_def day_micros_def)

lemma keeps_midnights_outside:
  assumes "keeps_midnights change off off'"
  shows "wall_midnight d \<le> change + min off off' \<or> change + max off off' \<le> wall_midnight d"
proof (cases "off = off'")
  case False
  then have "wall_date (change + max off off' - 1) = wall_date (change + min off off')"
    using assms by (simp add: keeps_midnights_def)
  then have "wall_midnight d \<le> change + min off off' \<longleftrightarrow> wall_midnight d \<le> change + max off off' - 1"
    by (metis wall_date_iff)
  then show ?thesis by linarith
qed linarith

lemma from_wall_after:
  "changes_ok off zs \<Longrightarrow> after_change t zs \<Longrightarrow> t + off \<le> wall \<Longrightarrow> t \<le> wall - wall_offset off zs wall"
proof (induction off zs wall arbitrary: t rule: wall_offset.induct)
  case (2 off change off' zs wall)
  show ?case
  proof (cases "wall < change + max off off'")
    case False
    then have "change \<le> wall - wall_offset off' zs wall" using 2 by (intro 2(1)) auto
    with 2(3) False show ?thesis by simp
  qed (use 2 in simp)
qed simp

lemma from_wall_before:
  "after_change t zs \<Longrightarrow> wall \<le> t + off \<Longrightarrow> wall - wall_offset off zs wall \<le> t"
  by (induction off zs wall rule: wall_offset.induct) auto

lemma wall_clock_law:
  assumes "changes_ok off zs" "w = wall_midnight d"
  shows "w - wall_offset off zs w \<le> t \<longleftrightarrow> w \<le> t + offset_at off zs t"
  using assms(1)
proof (induction off zs t rule: offset_at.induct)
  case (2 off change off' zs t)
  then have ok: "keeps_midnights change off off'" "after_change change zs" "changes_ok off' zs" by simp_all
  have split: "w \<le> change + min off off' \<or> change + max off off' \<le> w"
    using keeps_midnights_outside [OF ok(1)] assms(2) by simp
  have late: "change \<le> w - wall_offset off' zs w" if "change + max off off' \<le> w"
    using that ok by (intro from_wall_after) auto
  have early: "w - wall_offset off' zs w \<le> change" if "w \<le> change + min off off'"
    using that ok by (intro from_wall_before) auto
  show ?case
  proof (cases "t < change")
    case True
    show ?thesis
    proof (cases "change + max off off' \<le> w")
      case big: True
      with True late show ?thesis by auto
    qed (use True in auto)
  next
    case False
    then have ih: "w - wall_offset off' zs w \<le> t \<longleftrightarrow> w \<le> t + offset_at off' zs t" using 2 ok by simp
    show ?thesis
    proof (cases "change + max off off' \<le> w")
      case True
      with False ih show ?thesis by simp
    next
      case less: False
      with split early have "w - wall_offset off' zs w \<le> change" "w \<le> change + min off off'" by auto
      with less False ih show ?thesis by auto
    qed
  qed
qed auto

lemma midnight_law: "zone_ok z \<Longrightarrow> midnight d z \<le> t \<longleftrightarrow> d \<le> local_date z t"
  using wall_clock_law [of "fst z" "snd z" _ d t]
  by (simp add: zone_ok_def midnight_def from_wall_def local_date_def wall_date_iff to_wall_def)

text \<open>Every zone with such changes keeps the contract, and so does UTC, the clock of a missing hub.\<close>

lemma zone_clock: "zone_ok z \<Longrightarrow> hub_clock (\<lambda>d. midnight d z) (local_date z)"
  by unfold_locales (rule midnight_law)

interpretation utc: hub_clock "\<lambda>d. midnight d UTC" "local_date UTC"
  by (rule zone_clock) (simp add: zone_ok_def UTC_def)

lemma midnight_mono: "zone_ok z \<Longrightarrow> d \<le> e \<Longrightarrow> midnight d z \<le> midnight e z"
  by (rule hub_clock.begins_mono [OF zone_clock])

section \<open>Days that cover an interval\<close>

lemma days_until_overlap:
  "zone_ok z \<Longrightarrow> sum_list (map (\<lambda>(a, b). min b until - a) (days_until z until day)) = max 0 (until - midnight day z)"
proof (induction z until day rule: days_until.induct)
  case (1 z until day)
  show ?case
  proof (cases "midnight day z < until")
    case True
    with 1 midnight_mono [of z day "day + 1"] show ?thesis by (subst days_until.simps) auto
  qed (subst days_until.simps, simp)
qed

lemma days_until_starts:
  "zone_ok z \<Longrightarrow> (a, b) \<in> set (days_until z until day) \<Longrightarrow> midnight day z \<le> a \<and> a < until \<and> a \<le> b"
proof (induction z until day rule: days_until.induct)
  case (1 z until day)
  note mono = midnight_mono [OF 1(2), of day "day + 1"]
  consider "midnight day z < until" "(a, b) = (midnight day z, midnight (day + 1) z)"
    | "midnight day z < until" "(a, b) \<in> set (days_until z until (day + 1))"
    using 1(3) by (subst (asm) days_until.simps) (auto split: if_splits)
  then show ?case
  proof cases
    case 2
    from 1(1) [OF this(1) 1(2) this(2)] mono show ?thesis by simp
  qed (use mono in simp)
qed

text \<open>Consecutive days meet: one ends where the next begins.\<close>

fun adjacent :: "(instant \<times> instant) list \<Rightarrow> bool" where
  "adjacent ((a, b) # (c, d) # xs) = (b = c \<and> adjacent ((c, d) # xs))"
| "adjacent _ = True"

lemma days_until_adjacent: "adjacent (days_until z until day)"
proof (induction z until day rule: days_until.induct)
  case (1 z until day)
  show ?case
  proof (cases "midnight day z < until \<and> midnight (day + 1) z < until")
    case True
    then have "days_until z until day = (midnight day z, midnight (day + 1) z) # days_until z until (day + 1)"
      "days_until z until (day + 1) = (midnight (day + 1) z, midnight (day + 1 + 1) z) # days_until z until (day + 1 + 1)"
      by (simp_all add: days_until.simps [of z until day] days_until.simps [of z until "day + 1"])
    with 1 True show ?thesis by simp
  next
    case False
    then show ?thesis
      by (subst days_until.simps) (auto simp: days_until.simps [of z until "day + 1"])
  qed
qed

lemma sum_list_split_first:
  assumes "zone_ok z" "since < until" "day = local_date z since"
  shows "sum_list (map (\<lambda>(a, b). min b until - max a since) (days_until z until day)) = until - since"
proof -
  have a: "midnight day z \<le> since" "since < midnight (day + 1) z"
    using hub_clock.in_day_iff [OF zone_clock [OF assms(1)], of day since] assms(3) by simp_all
  have rest: "map (\<lambda>(a, b). min b until - max a since) (days_until z until (day + 1)) =
      map (\<lambda>(a, b). min b until - a) (days_until z until (day + 1))"
    using a(2) days_until_starts [OF assms(1), of _ _ until "day + 1"] by (auto intro!: map_cong) fastforce
  show ?thesis
    using a assms(2) days_until_overlap [OF assms(1), of until "day + 1"]
    by (subst days_until.simps) (auto simp: rest)
qed

section \<open>Properties\<close>

text \<open>
  A closure closes the hub for exactly its local day: for a zone whose clock changes keep the
  midnights, \<open>is_hub_closed_at\<close> answers yes at an instant exactly when the instant lies between the
  two midnights of a day on the hub's list, on the hub's own clock; and those two midnights enclose
  exactly the instants whose local date is that day.
\<close>

theorem closed_exactly_on_the_local_day:
  assumes "lookup_by hub_id h (hubs d) = Some hub" "tzdata (hub_timezone hub) = Some z" "zone_ok z"
  shows "(is_hub_closed_at tzdata d h t \<longleftrightarrow>
      (\<exists>c \<in> set (hub_closures (ops_of d)). closure_hub_id c = h \<and>
         (\<exists>a b. hub_day_bounds tzdata hub (closure_date c) = Some (a, b) \<and> a \<le> t \<and> t < b))) \<and>
    (\<forall>day a b. hub_day_bounds tzdata hub day = Some (a, b) \<longrightarrow>
       (a \<le> t \<and> t < b \<longleftrightarrow> hub_local_date tzdata hub t = Some day))"
  using hub_clock.in_day_iff [OF zone_clock [OF assms(3)], of _ t] assms(1,2)
  by (auto simp: is_hub_closed_at_def is_hub_closed_on_def hub_local_date_def hub_day_bounds_def)

text \<open>
  Cutting an interval into the hub's days loses and repeats nothing: the days returned meet each
  other, each begins before the end of the interval, and their overlaps with the interval add up to
  its length, whatever clock changes fall inside.
\<close>

theorem hub_days_cut_without_loss:
  assumes "tzdata (hub_timezone hub) = Some z" "zone_ok z" "since < until"
    "hub_days tzdata hub since until = Some ds"
  shows "adjacent ds \<and> (\<forall>(a, b) \<in> set ds. a < until \<and> a \<le> b) \<and>
    sum_list (map (\<lambda>(a, b). min b until - max a since) ds) = until - since"
proof -
  have ds: "ds = days_until z until (local_date z since)" using assms(1,4) by (simp add: hub_days_def)
  show ?thesis
    unfolding ds using days_until_adjacent days_until_starts [OF assms(2)] sum_list_split_first [OF assms(2,3) refl]
    by auto
qed

text \<open>Los Angeles in 2026, and a hub there that closes on 1 November, a day of 25 hours.\<close>

definition sample_zone :: zone where
  "sample_zone = (- 28800000000, [(1772964000000000, - 25200000000), (1793523600000000, - 28800000000)])"

definition sample_hub :: hub_row where
  "sample_hub = \<lparr>hub_id = 1, hub_lat = 34, hub_lng = - 118, hub_timezone = ''America/Los_Angeles'', hub_state_code = None\<rparr>"

definition sample_tz :: tz_database where
  "sample_tz key = (if key = ''America/Los_Angeles'' then Some sample_zone else None)"

definition sample_hub_db :: db where
  "sample_hub_db = (sample_tables [])\<lparr>hubs := [sample_hub],
     ops_of := (ops_of (sample_tables []))\<lparr>hub_closures := [\<lparr>closure_hub_id = 1, closure_date = 739921\<rparr>]\<rparr>\<rparr>"

lemma zone_ok_sample: "zone_ok sample_zone"
  by code_simp

theorem closed_exactly_on_the_local_day_witness:
  "is_hub_closed_at sample_tz sample_hub_db 1 1793563200000000"
proof -
  have 1: "lookup_by hub_id 1 (hubs sample_hub_db) = Some sample_hub" by (simp add: sample_hub_db_def sample_hub_def)
  have 2: "sample_tz (hub_timezone sample_hub) = Some sample_zone" by (simp add: sample_tz_def sample_hub_def)
  have "\<exists>c \<in> set (hub_closures (ops_of sample_hub_db)). closure_hub_id c = 1 \<and>
      hub_day_bounds sample_tz sample_hub (closure_date c) = Some (1793516400000000, 1793606400000000)"
    by code_simp
  with closed_exactly_on_the_local_day [where tzdata = sample_tz and hub = sample_hub and t = 1793563200000000, OF 1 2 zone_ok_sample] show ?thesis by fastforce
qed

theorem hub_days_cut_without_loss_witness:
  "length (the (hub_days sample_tz sample_hub 1793491200000000 1793750400000000)) = 4 \<and>
   sum_list (map (\<lambda>(a, b). min b 1793750400000000 - max a 1793491200000000) (the (hub_days sample_tz sample_hub 1793491200000000 1793750400000000))) = 259200000000"
proof -
  have 1: "sample_tz (hub_timezone sample_hub) = Some sample_zone" by (simp add: sample_tz_def sample_hub_def)
  have 2: "hub_days sample_tz sample_hub 1793491200000000 1793750400000000 = Some (the (hub_days sample_tz sample_hub 1793491200000000 1793750400000000))"
    by (simp add: hub_days_def 1)
  have 3: "(1793491200000000 :: int) < 1793750400000000" by simp
  have "length (the (hub_days sample_tz sample_hub 1793491200000000 1793750400000000)) = 4" by code_simp
  with hub_days_cut_without_loss [OF 1 zone_ok_sample 3 2] show ?thesis by simp
qed

end
