(* ===== verification/Compliance.thy ===== *)
theory Compliance
  imports Hub_Calendar
begin

text \<open>
  Whether a driver's documents let them go on shift (\<open>src/app/compliance/driver_documents.py\<close>). The
  messages are built as the code formats them.
\<close>

definition REQUIRED_DOC_TYPES :: "string list" where
  "REQUIRED_DOC_TYPES = [''license'', ''insurance'']"

datatype problem_reason = Missing | Awaiting_review | Rejected | Expired

record document_problem =
  dp_doc_type :: string
  dp_reason :: problem_reason
  dp_detail :: string

definition problem :: "string \<Rightarrow> problem_reason \<Rightarrow> string \<Rightarrow> document_problem list" where
  "problem kind why detail = [\<lparr>dp_doc_type = kind, dp_reason = why, dp_detail = detail\<rparr>]"

definition document_problems :: "date \<Rightarrow> string \<Rightarrow> document_row option \<Rightarrow> document_problem list" where
  "document_problems on1 kind doc =
     (case doc of
        None \<Rightarrow> problem kind Missing (''No '' @ kind @ '' on file - upload a photo of it to get started.'')
      | Some x \<Rightarrow>
          if doc_file_url x = None then
            problem kind Missing (''No '' @ kind @ '' on file - upload a photo of it to get started.'')
          else if doc_review_status x = REVIEW_REJECTED then
            problem kind Rejected (strip (''Your '' @ kind @ '' needs re-uploading. '' @
              (case doc_rejection_reason x of None \<Rightarrow> [] | Some r \<Rightarrow> r)))
          else if doc_review_status x = REVIEW_PENDING \<or> doc_verified_expires_at x = None then
            problem kind Awaiting_review (''Your '' @ kind @ '' is uploaded and waiting on an LMX review.'')
          else (case doc_verified_expires_at x of
             Some day \<Rightarrow>
               if doc_review_status x = REVIEW_VERIFIED \<and> day < on1 then
                 problem kind Expired (''Your '' @ kind @ '' expired on '' @ date_isoformat day @ '' - upload the renewed one.'')
               else []
           | None \<Rightarrow> []))"

text \<open>The dictionary by type: a later row of a type replaces an earlier one.\<close>

definition documents_by_type :: "db \<Rightarrow> uuid \<Rightarrow> string \<Rightarrow> document_row option" where
  "documents_by_type d driver =
     dict_of (map (\<lambda>x. (doc_type_of x, x)) (filter (\<lambda>x. doc_driver_id x = driver) (driver_documents (ops_of d))))"

definition evaluate_driver_documents :: "date \<Rightarrow> db \<Rightarrow> uuid \<Rightarrow> document_problem list" where
  "evaluate_driver_documents today d driver =
     concat (map (\<lambda>kind. document_problems today kind (documents_by_type d driver kind)) REQUIRED_DOC_TYPES)"

definition can_go_on_shift :: "document_problem list \<Rightarrow> bool" where
  "can_go_on_shift problems \<longleftrightarrow> problems = []"

text \<open>What the gate is meant to establish of one document.\<close>

definition in_order :: "date \<Rightarrow> document_row \<Rightarrow> bool" where
  "in_order today x \<longleftrightarrow> doc_file_url x \<noteq> None \<and> doc_review_status x = REVIEW_VERIFIED \<and>
     (\<exists>day. doc_verified_expires_at x = Some day \<and> today \<le> day)"

lemma document_problems_none:
  "document_problems today kind doc = [] \<longleftrightarrow> (\<exists>x. doc = Some x \<and> in_order today x)"
  by (cases doc; cases "doc_review_status (the doc)")
    (auto simp: document_problems_def problem_def in_order_def not_less split: option.splits)

lemma evaluate_none_iff:
  "can_go_on_shift (evaluate_driver_documents today d driver) \<longleftrightarrow>
     (\<forall>kind \<in> set REQUIRED_DOC_TYPES. \<exists>x. documents_by_type d driver kind = Some x \<and> in_order today x)"
  by (auto simp: can_go_on_shift_def evaluate_driver_documents_def document_problems_none)

text \<open>
  A driver may go on shift exactly when a license and an insurance document are both on file,
  uploaded, verified by a reviewer and unexpired by the date the reviewer read; the date the driver
  claimed plays no part. Absence fails, and every document that is not in order is reported, with
  the first reason that applies.
\<close>

theorem on_shift_iff_every_document_in_order:
  "(can_go_on_shift (evaluate_driver_documents today d driver) \<longleftrightarrow>
     (\<exists>x y. documents_by_type d driver ''license'' = Some x \<and> in_order today x \<and>
        documents_by_type d driver ''insurance'' = Some y \<and> in_order today y)) \<and>
   dp_doc_type ` set (evaluate_driver_documents today d driver) =
     {kind \<in> set REQUIRED_DOC_TYPES. \<not> (\<exists>x. documents_by_type d driver kind = Some x \<and> in_order today x)}"
proof
  show "can_go_on_shift (evaluate_driver_documents today d driver) \<longleftrightarrow>
     (\<exists>x y. documents_by_type d driver ''license'' = Some x \<and> in_order today x \<and>
        documents_by_type d driver ''insurance'' = Some y \<and> in_order today y)"
    by (auto simp: evaluate_none_iff REQUIRED_DOC_TYPES_def)
  have "dp_doc_type ` set (document_problems today kind doc) = (if document_problems today kind doc = [] then {} else {kind})"
    for kind doc by (auto simp: document_problems_def problem_def split: option.split)
  then have "dp_doc_type ` set (document_problems today kind doc) =
      (if \<exists>x. doc = Some x \<and> in_order today x then {} else {kind})" for kind doc
    by (simp add: document_problems_none)
  then show "dp_doc_type ` set (evaluate_driver_documents today d driver) =
     {kind \<in> set REQUIRED_DOC_TYPES. \<not> (\<exists>x. documents_by_type d driver kind = Some x \<and> in_order today x)}"
    unfolding evaluate_driver_documents_def by (auto simp: image_UN)
qed

end
