(* ===== verification/Assignment.thy ===== *)
theory Assignment
  imports Interference Compliance
begin

text \<open>
  Dispatch gives an order to a driver by hand (\<open>src/app/orders/assignment.py\<close>), with the record it
  makes on the playbook's open call (\<open>record_person_action\<close> of \<open>src/app/playbook/sweep.py\<close>). What
  others commit before each locked read, what they do to the fleet between the checks and the claim,
  and whether the commit fails are the fields of \<open>assign_env\<close>; settings, the zone database, the server's
  date and \<open>datetime.fromisoformat\<close> (which only decides whether a position is called stale) are
  the fields of \<open>assign_settings\<close>. The push message to the driver is not modelled.
\<close>

section \<open>The playbook's call\<close>

definition RULE_UNPLACED :: string where "RULE_UNPLACED = ''unplaced''"
definition OFFER :: string where "OFFER = ''offer''"
definition OFFER_WITH_BONUS :: string where "OFFER_WITH_BONUS = ''offer_bonus''"

fun update_first :: "('r \<Rightarrow> bool) \<Rightarrow> ('r \<Rightarrow> 'r) \<Rightarrow> 'r list \<Rightarrow> 'r list" where
  "update_first p f [] = []"
| "update_first p f (r # rs) = (if p r then f r # rs else r # update_first p f rs)"

definition record_person_action ::
    "instant \<Rightarrow> uuid \<Rightarrow> string \<Rightarrow> string \<Rightarrow> uuid option \<Rightarrow> db \<Rightarrow> db" where
  "record_person_action now order_id action ops_user target d =
     d\<lparr>ops_of := (ops_of d)\<lparr>playbook_decisions := update_first
         (\<lambda>x. pb_rule x = RULE_UNPLACED \<and> pb_order_id x = order_id \<and> pb_closed_at x = None)
         (\<lambda>x. (if pb_outcome x = OUTCOME_OPEN then
                 x\<lparr>pb_outcome := (if action = pb_action x \<and> action \<in> {OFFER, OFFER_WITH_BONUS} \<and> target = pb_target x
                    then OUTCOME_AGREED else OUTCOME_OVERRULED)\<rparr>
               else x)\<lparr>pb_closed_at := Some now, pb_human_action := Some action, pb_human_target := target,
                 pb_ops_user_id := Some ops_user\<rparr>)
         (playbook_decisions (ops_of d))\<rparr>\<rparr>"

section \<open>Refusals\<close>

definition ASSIGNABLE_STATUSES :: "order_status list" where
  "ASSIGNABLE_STATUSES = [Held, Queued]"

definition WITH_A_DRIVER :: "order_status list" where
  "WITH_A_DRIVER = [Assigned, Accepted, En_route_pickup, Picked_up, En_route_drop]"

definition ORDER_WEIGHT_UNITS :: rat where
  "ORDER_WEIGHT_UNITS = 1"

datatype assign_why =
    No_such_order | A_driver_has_it | Resolve_the_failure_first | Is_over order_status | Not_queued_yet
  | Imported_as_history | No_such_driver | Switched_off | Hub_closed | Papers string | No_live_state
  | On_a_route | Cannot_take_work driver_status | Finishing_a_route | No_room | No_shop_on_file
  | Status_changed | Dispatch_is_running | Commit_failed

type_synonym assign_refusal = "int \<times> assign_why"

definition why_not_assignable :: "order_row \<Rightarrow> assign_why" where
  "why_not_assignable order =
     (if ord_status order \<in> set WITH_A_DRIVER then A_driver_has_it
      else if ord_status order = Delivery_failed then Resolve_the_failure_first
      else if ord_status order \<in> set TERMINAL then Is_over (ord_status order)
      else Not_queued_yet)"

section \<open>The hub's lock\<close>

definition HUB_LOCK_WAIT_SECONDS :: int where "HUB_LOCK_WAIT_SECONDS = 3"
definition HUB_LOCK_POLL_MICROS :: int where "HUB_LOCK_POLL_MICROS = 100000"

text \<open>
  The loop of \<open>_hub_locked\<close>: attempt \<open>k\<close> happens at \<open>at1 k\<close> (the Redis clock), with \<open>mono k\<close> on the
  monotonic clock and token \<open>toks k\<close>, after others did \<open>env k\<close> to the bus. \<open>None\<close> is running out of
  fuel, \<open>Some (None, b)\<close> the refusal.
\<close>

record lock_attempts =
  la_at :: "nat \<Rightarrow> instant"
  la_mono :: "nat \<Rightarrow> int"
  la_toks :: "nat \<Rightarrow> token"
  la_env :: "nat \<Rightarrow> bus \<Rightarrow> bus"

fun hub_locked :: "lock_attempts \<Rightarrow> int \<Rightarrow> hub \<Rightarrow> nat \<Rightarrow> nat \<Rightarrow> bus \<Rightarrow> (token option \<times> bus) option" where
  "hub_locked la deadline h k 0 b = None"
| "hub_locked la deadline h k (Suc fuel) b =
     (case try_acquire_hub_lock (la_at la k) h (la_toks la k) (la_env la k b) of
        (Some tok, b1) \<Rightarrow> Some (Some tok, b1)
      | (None, b1) \<Rightarrow>
          if deadline \<le> la_mono la k then Some (None, b1)
          else hub_locked la deadline h (Suc k) fuel b1)"

section \<open>The checks and the offer\<close>

record assign_settings =
  as_offer_ttl_seconds :: int
  as_offer_bonus_cents :: cents
  as_stale_after_seconds :: int
  as_tzdata :: tz_database
  as_today :: date
  as_fromisoformat :: "string \<Rightarrow> instant option"

record assign_env =
  ae_decision :: "db \<Rightarrow> db"
  ae_order :: "db \<Rightarrow> db"
  ae_driver :: "db \<Rightarrow> db"
  ae_fleet :: "fleet \<Rightarrow> fleet"
  ae_fleet_back :: "fleet \<Rightarrow> fleet"
  ae_commit_fails :: bool

record offered =
  of_hub_id :: hub
  of_order_id :: uuid
  of_driver_id :: uuid
  of_offer_id :: uuid
  of_expires_at :: instant
  of_at :: instant
  of_bonus_cents :: "cents option"

definition assign_payload :: "order_row \<Rightarrow> shop_row \<Rightarrow> payload_stop list" where
  "assign_payload order shop =
     [\<lparr>ps_order_id = ord_id order, ps_lat = shop_lat shop, ps_lng = shop_lng shop,
       ps_sla_tier = (case ord_sla_tier order of None \<Rightarrow> [] | Some t \<Rightarrow> tier_value t),
       ps_shop_name = Some (shop_name shop)\<rparr>]"

text \<open>The rows written after the status: \<open>assigned_at\<close>, the offer and the record of the assign.\<close>

definition write_offer ::
    "assign_settings \<Rightarrow> instant \<Rightarrow> string \<Rightarrow> string \<Rightarrow> cents option \<Rightarrow> order_row \<Rightarrow> uuid \<Rightarrow> shop_row \<Rightarrow> session \<Rightarrow> offered \<times> session" where
  "write_offer as now ops_user ops_email bonus order driver shop s =
     (let expires = now + seconds (as_offer_ttl_seconds as);
          (offer_id1, s1) = uuid4 s;
          (record_id, s2) = uuid4 s1;
          d1 = (db s2)\<lparr>orders := update_where (\<lambda>r. ord_id r = ord_id order) (\<lambda>r. r\<lparr>ord_assigned_at := Some now\<rparr>) (orders (db s2)),
            offers := offers (db s2) @ [\<lparr>offer_id = offer_id1, offer_hub_id = ord_hub_id order, offer_driver_id = driver,
              offer_status_of = Offer_offered, offer_stop_payload = assign_payload order shop,
              offer_visit_payload = None, offer_offered_at = now, offer_expires_at = expires, offer_responded_at = None,
              offer_decline_reason = None, offer_route_id = None, offer_bonus_cents = bonus\<rparr>],
            ops_of := (ops_of (db s2))\<lparr>dispatch_assignments := dispatch_assignments (ops_of (db s2)) @
              [\<lparr>asg_id = record_id, asg_hub_id = ord_hub_id order, asg_order_id = ord_id order, asg_driver_id = driver,
                asg_assigned_at = now, asg_offer_id = offer_id1, asg_ops_user_id = ops_user, asg_ops_user_email = ops_email\<rparr>]\<rparr>\<rparr>
      in (\<lparr>of_hub_id = ord_hub_id order, of_order_id = ord_id order, of_driver_id = driver, of_offer_id = offer_id1,
           of_expires_at = expires, of_at = now, of_bonus_cents = bonus\<rparr>, s2\<lparr>db := d1\<rparr>))"

text \<open>
  \<open>_offer\<close>. The order's row is locked, so nobody else writes it between the read and the status write.
\<close>

definition make_offer ::
    "assign_settings \<Rightarrow> assign_env \<Rightarrow> instant \<Rightarrow> string \<Rightarrow> string \<Rightarrow> cents option \<Rightarrow> order_row \<Rightarrow> uuid \<Rightarrow> shop_row \<Rightarrow> world
      \<Rightarrow> (assign_refusal + offered) \<times> world" where
  "make_offer as ae now ops_user ops_email bonus order driver shop w =
     (let (moved, s1) = advance_orders no_interference now (Some now) None [ord_id order] Assigned (sess w) in
      if moved = [] then (Inl (409, why_not_assignable order), w\<lparr>sess := s1\<rparr>)
      else
        let (off, s2) = write_offer as now ops_user ops_email bonus order driver shop s1;
            h = ord_hub_id order;
            (claim, fleet1) = claim_for_offer h driver (ae_fleet ae (fleet_of w)) in
        case claim of
          None \<Rightarrow> (Inl (409, Status_changed), w\<lparr>sess := rollback s2, fleet_of := fleet1\<rparr>)
        | Some (before, _) \<Rightarrow>
            if ds_current_route_id before \<noteq> None then
              (Inl (409, Status_changed), w\<lparr>sess := rollback s2, fleet_of := snd (give_back_claim before fleet1)\<rparr>)
            else if ae_commit_fails ae then
              (Inl (500, Commit_failed), w\<lparr>sess := rollback s2, fleet_of := snd (give_back_claim before (ae_fleet_back ae fleet1))\<rparr>)
            else (Inr off, w\<lparr>sess := commit s2, fleet_of := fleet1\<rparr>))"

text \<open>The checks on the driver's live state.\<close>

definition check_state :: "driver_state option \<Rightarrow> assign_refusal option" where
  "check_state st =
     (case st of
        None \<Rightarrow> Some (409, No_live_state)
      | Some x \<Rightarrow>
          if ds_status x = En_route then Some (409, On_a_route)
          else if ds_status x \<noteq> Available then Some (409, Cannot_take_work (ds_status x))
          else if ds_current_route_id x \<noteq> None then Some (409, Finishing_a_route)
          else if fsub (of_py_int (ds_capacity_units x)) (ds_load_units x) < ORDER_WEIGHT_UNITS then Some (409, No_room)
          else None)"

definition check_order :: "order_row \<Rightarrow> assign_refusal option" where
  "check_order order =
     (if ord_status order \<notin> set ASSIGNABLE_STATUSES then Some (409, why_not_assignable order)
      else if ord_intake_mode order \<noteq> INTAKE_LIVE then Some (422, Imported_as_history)
      else None)"

definition check_driver :: "assign_settings \<Rightarrow> instant \<Rightarrow> order_row \<Rightarrow> uuid \<Rightarrow> db \<Rightarrow> assign_refusal option" where
  "check_driver as now order driver d =
     (case lookup_by driver_id driver (driver_rows (ops_of d)) of
        None \<Rightarrow> Some (404, No_such_driver)
      | Some x \<Rightarrow>
          if driver_hub_id x \<noteq> ord_hub_id order then Some (404, No_such_driver)
          else if \<not> driver_is_active x then Some (409, Switched_off)
          else if is_hub_closed_at (as_tzdata as) d (ord_hub_id order) now then Some (409, Hub_closed)
          else
            let problems = evaluate_driver_documents (as_today as) d driver in
            if \<not> can_go_on_shift problems then
              Some (409, Papers (concat (case map dp_detail problems of [] \<Rightarrow> [] | p # ps \<Rightarrow> p # map (\<lambda>q. ''; '' @ q) ps)))
            else None)"

text \<open>The session after the playbook's call is closed and the order's row is locked.\<close>

definition assign_session :: "assign_env \<Rightarrow> instant \<Rightarrow> bool \<Rightarrow> string \<Rightarrow> uuid \<Rightarrow> uuid \<Rightarrow> session \<Rightarrow> session" where
  "assign_session ae now with_bonus ops_user order_id driver s =
     (let s0 = interfere_db (ae_decision ae) s;
          s1 = s0\<lparr>db := record_person_action now order_id (if with_bonus then OFFER_WITH_BONUS else OFFER) ops_user
            (Some driver) (db s0)\<rparr>
      in interfere_db (ae_order ae) s1)"

definition check_and_offer ::
    "assign_settings \<Rightarrow> assign_env \<Rightarrow> instant \<Rightarrow> string \<Rightarrow> string \<Rightarrow> bool \<Rightarrow> uuid \<Rightarrow> uuid \<Rightarrow> world
      \<Rightarrow> (assign_refusal + offered) \<times> world" where
  "check_and_offer as ae now ops_user ops_email with_bonus order_id driver w =
     (let s2 = assign_session ae now with_bonus ops_user order_id driver (sess w);
          w2 = w\<lparr>sess := s2\<rparr> in
      case lookup_by ord_id order_id (orders (db s2)) of
        None \<Rightarrow> (Inl (404, No_such_order), w2)
      | Some order \<Rightarrow>
          (case check_order order of
             Some why \<Rightarrow> (Inl why, w2)
           | None \<Rightarrow>
               let s3 = interfere_db (ae_driver ae) s2; w3 = w\<lparr>sess := s3\<rparr> in
               case check_driver as now order driver (db s3) of
                 Some why \<Rightarrow> (Inl why, w3)
               | None \<Rightarrow>
                   (case check_state (get_driver_state (ord_hub_id order) driver (fleet_of w3)) of
                      Some why \<Rightarrow> (Inl why, w3)
                    | None \<Rightarrow>
                        (case Option.bind (ord_shop_id order) (\<lambda>i. lookup_by shop_id i (shops (db s3))) of
                           None \<Rightarrow> (Inl (422, No_shop_on_file), w3)
                         | Some shop \<Rightarrow>
                             make_offer as ae now ops_user ops_email
                               (if with_bonus then Some (as_offer_bonus_cents as) else None) order driver shop w3))))"

section \<open>The whole assign\<close>

record assign_outcome =
  ao_order_id :: uuid
  ao_driver_id :: uuid
  ao_offer_id :: uuid
  ao_offer_expires_at :: instant
  ao_driver_position_stale :: bool
  ao_bonus_cents :: "cents option"

definition position_is_stale :: "assign_settings \<Rightarrow> string \<Rightarrow> instant \<Rightarrow> bool" where
  "position_is_stale as recorded_at now =
     (case as_fromisoformat as recorded_at of
        None \<Rightarrow> True
      | Some reported \<Rightarrow> seconds (as_stale_after_seconds as) < now - reported)"

definition after_commit :: "assign_settings \<Rightarrow> offered \<Rightarrow> world \<Rightarrow> assign_outcome \<times> world" where
  "after_commit as off w =
     (let q1 = hold_remove (of_hub_id off) (of_order_id off) (queue w);
          q2 = q1\<lparr>hs_bus := publish (of_hub_id off) (hs_bus q1)\<rparr>;
          stale = (case get_driver_location (of_hub_id off) (of_driver_id off) (fleet_of w) of
             None \<Rightarrow> True | Some l \<Rightarrow> position_is_stale as (loc_recorded_at l) (of_at off))
      in (\<lparr>ao_order_id = of_order_id off, ao_driver_id = of_driver_id off, ao_offer_id = of_offer_id off,
           ao_offer_expires_at = of_expires_at off, ao_driver_position_stale = stale, ao_bonus_cents = of_bonus_cents off\<rparr>,
          w\<lparr>queue := q2\<rparr>))"

text \<open>\<open>None\<close> is running out of fuel in the wait for the lock; \<open>release\<close> is when the lock is given back.\<close>

definition assign_order_to_driver ::
    "assign_settings \<Rightarrow> assign_env \<Rightarrow> lock_attempts \<Rightarrow> int \<Rightarrow> nat \<Rightarrow> instant \<Rightarrow> instant \<Rightarrow> string \<Rightarrow> string \<Rightarrow> bool
      \<Rightarrow> uuid \<Rightarrow> uuid \<Rightarrow> world \<Rightarrow> ((assign_refusal + assign_outcome) \<times> world) option" where
  "assign_order_to_driver as ae la start fuel now release ops_user ops_email with_bonus order_id driver w =
     (case lookup_by ord_id order_id (orders (db (sess w))) of
        None \<Rightarrow> Some (Inl (404, No_such_order), w)
      | Some found \<Rightarrow>
          let h = ord_hub_id found in
          (case hub_locked la (start + seconds HUB_LOCK_WAIT_SECONDS) h 0 fuel (hs_bus (queue w)) of
             None \<Rightarrow> None
           | Some (None, b1) \<Rightarrow> Some (Inl (409, Dispatch_is_running), w\<lparr>queue := (queue w)\<lparr>hs_bus := b1\<rparr>\<rparr>)
           | Some (Some tok, b1) \<Rightarrow>
               let (res, w2) = check_and_offer as ae now ops_user ops_email with_bonus order_id driver
                     (w\<lparr>queue := (queue w)\<lparr>hs_bus := b1\<rparr>\<rparr>);
                   w3 = w2\<lparr>queue := (queue w2)\<lparr>hs_bus := release_hub_lock release h tok (hs_bus (queue w2))\<rparr>\<rparr> in
               (case res of
                  Inl why \<Rightarrow> Some (Inl why, w3)
                | Inr off \<Rightarrow> let (out, w4) = after_commit as off w3 in Some (Inr out, w4))))"

section \<open>Waiting for the lock\<close>

lemma hub_locked_returns:
  assumes "\<And>k. start + int k * HUB_LOCK_POLL_MICROS \<le> la_mono la k" "deadline = start + seconds HUB_LOCK_WAIT_SECONDS"
  shows "k + fuel = 31 \<Longrightarrow> 0 < fuel \<Longrightarrow> \<exists>r. hub_locked la deadline h k fuel b = Some r"
proof (induction fuel arbitrary: k b)
  case (Suc fuel)
  obtain tok b1 where t: "try_acquire_hub_lock (la_at la k) h (la_toks la k) (la_env la k b) = (tok, b1)" by fastforce
  show ?case
  proof (cases "tok = None \<and> la_mono la k < deadline")
    case True
    have "fuel \<noteq> 0"
    proof
      assume "fuel = 0"
      with Suc.prems(1) have "k = 30" by simp
      with assms(1) [of k] True assms(2) show False
        by (simp add: HUB_LOCK_POLL_MICROS_def HUB_LOCK_WAIT_SECONDS_def seconds_def)
    qed
    with Suc.IH [of "Suc k" b1] Suc.prems True t show ?thesis by (simp add: not_le)
  qed (use t in \<open>auto split: option.split\<close>)
qed simp

section \<open>The offer\<close>

lemma claim_before:
  assumes "claim_for_offer h d f = (Some (before, after1), f1)"
  shows "give_back_claim before g = set_status_if h d Offered Available g"
  using assms by (auto simp: claim_for_offer_def give_back_claim_def state_of_def Let_def split: option.splits if_splits)

lemma write_offer_facts:
  assumes "write_offer as now user email bonus order driver shop s = (off, s')"
  shows "base s' = base s"
    "orders (db s') = update_where (\<lambda>r. ord_id r = ord_id order) (\<lambda>r. r\<lparr>ord_assigned_at := Some now\<rparr>) (orders (db s))"
    "\<exists>x. offers (db s') = offers (db s) @ [x] \<and> offer_id x = of_offer_id off \<and> offer_driver_id x = driver \<and>
       offer_status_of x = Offer_offered \<and> map ps_order_id (offer_stop_payload x) = [ord_id order] \<and>
       offer_expires_at x = now + seconds (as_offer_ttl_seconds as) \<and> offer_bonus_cents x = bonus"
    "\<exists>y. dispatch_assignments (ops_of (db s')) = dispatch_assignments (ops_of (db s)) @ [y] \<and>
       asg_offer_id y = of_offer_id off \<and> asg_order_id y = ord_id order \<and> asg_driver_id y = driver \<and>
       asg_ops_user_id y = user"
    "of_hub_id off = ord_hub_id order" "of_order_id off = ord_id order" "of_driver_id off = driver"
    "of_offer_id off = fresh s"
  using assms by (auto simp: write_offer_def uuid4_def Let_def assign_payload_def)

lemma make_offer_success:
  assumes "make_offer as ae now user email bonus order driver shop w = (Inr off, w')"
  obtains moved s1 s2 fleet1 before after1 where
    "advance_orders no_interference now (Some now) None [ord_id order] Assigned (sess w) = (moved, s1)" "moved \<noteq> []"
    "write_offer as now user email bonus order driver shop s1 = (off, s2)"
    "claim_for_offer (ord_hub_id order) driver (ae_fleet ae (fleet_of w)) = (Some (before, after1), fleet1)"
    "ds_current_route_id before = None"
    "w' = w\<lparr>sess := commit s2, fleet_of := fleet1\<rparr>"
proof -
  obtain moved s1 where a: "advance_orders no_interference now (Some now) None [ord_id order] Assigned (sess w) = (moved, s1)"
    by fastforce
  obtain off2 s2 where b: "write_offer as now user email bonus order driver shop s1 = (off2, s2)" by fastforce
  obtain claim fleet1 where c: "claim_for_offer (ord_hub_id order) driver (ae_fleet ae (fleet_of w)) = (claim, fleet1)" by fastforce
  show thesis
    using assms that a b c
    by (auto simp: make_offer_def split: if_splits option.splits)
qed

lemma single_quiet_base:
  assumes "sane s"
  shows "base (snd (advance_orders no_interference now occ only [i] new s)) = base s"
proof -
  have quiet: "interfere (no_interference 0) s = s" by (simp add: interfere_def no_interference_def)
  have "base (emit_for r new t (stamp_delivered r new t s2)) = base s"
    if "conditional_update i (precondition_of only new) new s = Some s2" for r t s2
  proof -
    have "s2 = s\<lparr>db := db s2\<rparr>" "session_ok s2"
      using conditional_update_Some [OF that] assms by (simp_all add: sane_def session_ok_def)
    then show ?thesis using emit_for_contract(2) [of "stamp_delivered r new t s2" r new t]
      by (metis session.select_convs(2) session.surjective session.update_convs(1) stamp_delivered_simps(1,3))
  qed
  then show ?thesis
    by (auto simp: advance_single [OF assms refl refl] quiet split: option.split)
qed

lemma make_offer_refused:
  assumes "make_offer as ae now user email bonus order driver shop w = (Inl why, w')" "sane (sess w)"
  shows "base (sess w') = base (sess w) \<and> queue w' = queue w \<and>
    (ae_fleet_back ae = id \<longrightarrow> status_of (fleet_of w') \<in> {status_of (fleet_of w), status_of (ae_fleet ae (fleet_of w))})"
proof -
  let ?f = "ae_fleet ae (fleet_of w)" and ?h = "ord_hub_id order"
  obtain moved s1 where a: "advance_orders no_interference now (Some now) None [ord_id order] Assigned (sess w) = (moved, s1)"
    by fastforce
  have base1: "base s1 = base (sess w)" using single_quiet_base [OF assms(2)] a by (metis snd_conv)
  obtain off2 s2 where b: "write_offer as now user email bonus order driver shop s1 = (off2, s2)" by fastforce
  note base2 = write_offer_facts(1) [OF b]
  obtain claim fleet1 where c: "claim_for_offer ?h driver ?f = (claim, fleet1)" by fastforce
  show ?thesis
  proof (cases claim)
    case None
    then have "status_of fleet1 = status_of ?f"
      using status_of_claim [of ?h driver ?f] c by (auto simp: fun_eq_iff)
    with assms(1) a b c None base1 base2 show ?thesis
      by (auto simp: make_offer_def rollback_def split: if_splits)
  next
    case (Some ba)
    then obtain before after1 where ba: "claim = Some (before, after1)" by (cases ba) auto
    have "status_of (snd (set_status_if ?h driver Offered Available fleet1)) = status_of ?f"
      using pool.give_back [of ?h driver ?f] c ba by simp
    with assms(1) a b c ba base1 base2 claim_before [of ?h driver ?f before after1 fleet1] show ?thesis
      by (auto simp: make_offer_def rollback_def split: if_splits)
  qed
qed

lemma check_state_None:
  "check_state st = None \<longleftrightarrow> (\<exists>x. st = Some x \<and> ds_status x = Available \<and> ds_current_route_id x = None \<and>
     ORDER_WEIGHT_UNITS \<le> fsub (of_py_int (ds_capacity_units x)) (ds_load_units x))"
  by (auto simp: check_state_def not_less split: option.split)

lemma check_driver_None:
  "check_driver as now order driver d = None \<longleftrightarrow>
     (\<exists>x. lookup_by driver_id driver (driver_rows (ops_of d)) = Some x \<and> driver_hub_id x = ord_hub_id order \<and> driver_is_active x) \<and>
     \<not> is_hub_closed_at (as_tzdata as) d (ord_hub_id order) now \<and>
     can_go_on_shift (evaluate_driver_documents (as_today as) d driver)"
  by (auto simp: check_driver_def Let_def split: option.split)

lemma check_order_None:
  "check_order order = None \<longleftrightarrow> ord_status order \<in> {Held, Queued} \<and> ord_intake_mode order = INTAKE_LIVE"
  by (auto simp: check_order_def ASSIGNABLE_STATUSES_def)


section \<open>The whole assign\<close>

text \<open>What the checks establish, in the database they read and the fleet they read.\<close>

definition fit_to_offer :: "assign_settings \<Rightarrow> instant \<Rightarrow> order_row \<Rightarrow> uuid \<Rightarrow> db \<Rightarrow> fleet \<Rightarrow> bool" where
  "fit_to_offer as now order driver d f \<longleftrightarrow>
     ord_status order \<in> {Held, Queued} \<and> ord_intake_mode order = INTAKE_LIVE \<and>
     (\<exists>x. lookup_by driver_id driver (driver_rows (ops_of d)) = Some x \<and> driver_hub_id x = ord_hub_id order \<and> driver_is_active x) \<and>
     \<not> is_hub_closed_at (as_tzdata as) d (ord_hub_id order) now \<and>
     can_go_on_shift (evaluate_driver_documents (as_today as) d driver) \<and>
     (\<exists>x. get_driver_state (ord_hub_id order) driver f = Some x \<and> ds_status x = Available \<and> ds_current_route_id x = None \<and>
        ORDER_WEIGHT_UNITS \<le> fsub (of_py_int (ds_capacity_units x)) (ds_load_units x))"

text \<open>What is committed when an order was offered: the order, one offer, one record.\<close>

definition offer_made :: "assign_settings \<Rightarrow> instant \<Rightarrow> string \<Rightarrow> order_row \<Rightarrow> uuid \<Rightarrow> uuid \<Rightarrow> db \<Rightarrow> db \<Rightarrow> bool" where
  "offer_made as now user order driver offer d d' \<longleftrightarrow>
     (\<exists>r. lookup_by ord_id (ord_id order) (orders d') = Some r \<and> ord_status r = Assigned \<and> ord_assigned_at r = Some now) \<and>
     (\<exists>x. offers d' = offers d @ [x] \<and> offer_id x = offer \<and> offer_driver_id x = driver \<and> offer_status_of x = Offer_offered \<and>
        map ps_order_id (offer_stop_payload x) = [ord_id order] \<and> offer_expires_at x = now + seconds (as_offer_ttl_seconds as)) \<and>
     (\<exists>y. dispatch_assignments (ops_of d') = dispatch_assignments (ops_of d) @ [y] \<and> asg_offer_id y = offer \<and>
        asg_order_id y = ord_id order \<and> asg_driver_id y = driver \<and> asg_ops_user_id y = user)"

lemma legal_to_assign: "ord_status r \<in> {Held, Queued} \<Longrightarrow> ord_status r \<in> set (legal_sources Assigned)"
  by (auto simp: status_simps)

lemma make_offer_done:
  assumes "make_offer as ae now user email bonus order driver shop w = (Inr off, w')" "sane (sess w)"
    "lookup_by ord_id (ord_id order) (orders (db (sess w))) = Some order" "ord_status order \<in> {Held, Queued}"
  shows "offer_made as now user order driver (of_offer_id off) (db (sess w)) (base (sess w')) \<and>
    status_of (ae_fleet ae (fleet_of w)) (ord_hub_id order) driver = Some Available \<and>
    status_of (fleet_of w') (ord_hub_id order) driver = Some Offered \<and> queue w' = queue w \<and>
    of_hub_id off = ord_hub_id order \<and> of_order_id off = ord_id order \<and> of_driver_id off = driver"
  using assms(1)
proof (rule make_offer_success)
  fix moved s1 s2 fleet1 before after1
  assume a: "advance_orders no_interference now (Some now) None [ord_id order] Assigned (sess w) = (moved, s1)" "moved \<noteq> []"
    and b: "write_offer as now user email bonus order driver shop s1 = (off, s2)"
    and c: "claim_for_offer (ord_hub_id order) driver (ae_fleet ae (fleet_of w)) = (Some (before, after1), fleet1)"
    and w': "w' = w\<lparr>sess := commit s2, fleet_of := fleet1\<rparr>"
  have sw: "orders (db s1) = moved_in (legal_sources Assigned) Assigned (ord_id order) (txn_now (sess w)) (orders (db (sess w)))"
    "offers (db s1) = offers (db (sess w))" "ops_of (db s1) = ops_of (db (sess w))"
    using single_write [OF assms(2) a _ refl]
    by (auto simp: precondition_of_def no_interference_def)
  note wo = write_offer_facts [OF b]
  have "lookup_by ord_id (ord_id order) (orders (db s2)) = Some (order\<lparr>ord_status := Assigned, ord_updated_at := txn_now (sess w), ord_assigned_at := Some now\<rparr>)"
    unfolding wo(2) sw(1) moved_in_def
    using assms(3) legal_to_assign [OF assms(4)] by (simp add: lookup_by_update_where)
  then have "offer_made as now user order driver (of_offer_id off) (db (sess w)) (base (sess w'))"
    using wo(3,4) by (auto simp: offer_made_def w' commit_def sw(2,3))
  moreover have "status_of (ae_fleet ae (fleet_of w)) (ord_hub_id order) driver = Some Available"
    using status_of_claim(1) [of "ord_hub_id order" driver "ae_fleet ae (fleet_of w)"] c by simp
  moreover have "status_of fleet1 (ord_hub_id order) driver = Some Offered"
    using status_of_claim(2) [of "ord_hub_id order" driver "ae_fleet ae (fleet_of w)"] c calculation(2) by simp
  ultimately show ?thesis using wo(5-7) by (simp add: w')
qed

text \<open>The order's row is locked from its read to the commit: the others do not write it.\<close>

definition locks_order :: "(db \<Rightarrow> db) \<Rightarrow> uuid \<Rightarrow> bool" where
  "locks_order f i \<longleftrightarrow> (\<forall>d. lookup_by ord_id i (orders (f d)) = lookup_by ord_id i (orders d))"

lemma sane_record: "sane s \<Longrightarrow> sane (s\<lparr>db := record_person_action now i a u t (db s)\<rparr>)"
  by (intro sane_db) (simp_all add: record_person_action_def)

lemma sane_assign_session:
  "keeps_sane (ae_decision ae) \<Longrightarrow> keeps_sane (ae_order ae) \<Longrightarrow> sane s \<Longrightarrow> sane (assign_session ae now wb u i d s)"
  unfolding assign_session_def Let_def by (intro sane_others sane_record)

lemma base_assign_session: "base (assign_session ae now wb u i d s) = ae_order ae (ae_decision ae (base s))"
  by (simp add: assign_session_def Let_def interfere_db_def)

text \<open>The database in which the driver's row, the calendar and the documents are read, the driver's row being locked.\<close>

definition db_at_checks :: "assign_env \<Rightarrow> instant \<Rightarrow> bool \<Rightarrow> string \<Rightarrow> uuid \<Rightarrow> uuid \<Rightarrow> session \<Rightarrow> db" where
  "db_at_checks ae now with_bonus ops_user order_id driver s =
     db (interfere_db (ae_driver ae) (assign_session ae now with_bonus ops_user order_id driver s))"

lemma check_and_offer_done:
  assumes "check_and_offer as ae now user email wb order_id driver w = (Inr off, w')" "sane (sess w)"
    "keeps_sane (ae_decision ae)" "keeps_sane (ae_order ae)" "keeps_sane (ae_driver ae)" "locks_order (ae_driver ae) order_id"
  shows "\<exists>order. lookup_by ord_id order_id (orders (db (assign_session ae now wb user order_id driver (sess w)))) = Some order \<and>
    fit_to_offer as now order driver (db_at_checks ae now wb user order_id driver (sess w)) (fleet_of w) \<and>
    offer_made as now user order driver (of_offer_id off) (db_at_checks ae now wb user order_id driver (sess w)) (base (sess w')) \<and>
    status_of (ae_fleet ae (fleet_of w)) (ord_hub_id order) driver = Some Available \<and>
    status_of (fleet_of w') (ord_hub_id order) driver = Some Offered \<and> queue w' = queue w \<and>
    of_hub_id off = ord_hub_id order \<and> of_order_id off = order_id \<and> of_driver_id off = driver"
proof -
  let ?s2 = "assign_session ae now wb user order_id driver (sess w)"
  let ?s3 = "interfere_db (ae_driver ae) ?s2"
  let ?w3 = "w\<lparr>sess := ?s3\<rparr>"
  obtain order shop where order: "lookup_by ord_id order_id (orders (db ?s2)) = Some order" "check_order order = None"
    "check_driver as now order driver (db ?s3) = None" "check_state (get_driver_state (ord_hub_id order) driver (fleet_of w)) = None"
    and made: "make_offer as ae now user email (if wb then Some (as_offer_bonus_cents as) else None) order driver shop ?w3 = (Inr off, w')"
    using assms(1) unfolding check_and_offer_def Let_def
    by (auto split: option.splits)
  have id: "ord_id order = order_id" using lookup_by_Some [OF order(1)] by simp
  have sane3: "sane ?s3" using assms(2-5) by (intro sane_others sane_assign_session)
  have "lookup_by ord_id (ord_id order) (orders (db ?s3)) = Some order"
    using order(1) assms(6) by (simp add: locks_order_def interfere_db_def id)
  from make_offer_done [OF made _ _ ] this sane3 order(2)
  have "offer_made as now user order driver (of_offer_id off) (db ?s3) (base (sess w')) \<and>
    status_of (ae_fleet ae (fleet_of w)) (ord_hub_id order) driver = Some Available \<and>
    status_of (fleet_of w') (ord_hub_id order) driver = Some Offered \<and> queue w' = queue w \<and>
    of_hub_id off = ord_hub_id order \<and> of_order_id off = ord_id order \<and> of_driver_id off = driver"
    by (simp add: check_order_None)
  moreover have "fit_to_offer as now order driver (db ?s3) (fleet_of w)"
    using order(2-4) by (simp add: fit_to_offer_def check_order_None check_driver_None check_state_None)
  ultimately show ?thesis using id order(1) unfolding db_at_checks_def by blast
qed

lemma check_and_offer_refused:
  assumes "check_and_offer as ae now user email wb order_id driver w = (Inl why, w')" "sane (sess w)"
    "keeps_sane (ae_decision ae)" "keeps_sane (ae_order ae)" "keeps_sane (ae_driver ae)"
  shows "base (sess w') \<in> {ae_order ae (ae_decision ae (base (sess w))), ae_driver ae (ae_order ae (ae_decision ae (base (sess w))))} \<and>
    queue w' = queue w \<and>
    (ae_fleet_back ae = id \<longrightarrow> status_of (fleet_of w') \<in> {status_of (fleet_of w), status_of (ae_fleet ae (fleet_of w))})"
proof -
  let ?s2 = "assign_session ae now wb user order_id driver (sess w)"
  let ?s3 = "interfere_db (ae_driver ae) ?s2"
  have b3: "base ?s3 = ae_driver ae (ae_order ae (ae_decision ae (base (sess w))))"
    by (simp add: interfere_db_def base_assign_session)
  have sane3: "sane ?s3" using assms(2-5) by (intro sane_others sane_assign_session)
  consider "w' = w\<lparr>sess := ?s2\<rparr>" | "w' = w\<lparr>sess := ?s3\<rparr>"
    | bonus order shop where "make_offer as ae now user email bonus order driver shop (w\<lparr>sess := ?s3\<rparr>) = (Inl why, w')"
    using assms(1) unfolding check_and_offer_def Let_def by (auto split: option.splits)
  then show ?thesis
  proof cases
    case 3
    from make_offer_refused [OF this] sane3 b3 show ?thesis by simp
  qed (simp_all add: base_assign_session b3)
qed

lemma assign_cases:
  assumes "assign_order_to_driver as ae la start fuel now rel user email wb order_id driver w = Some (res, w')"
  obtains (missing) "res = Inl (404, No_such_order)" "w' = w"
  | (busy) b1 where "res = Inl (409, Dispatch_is_running)" "w' = w\<lparr>queue := (queue w)\<lparr>hs_bus := b1\<rparr>\<rparr>"
  | (refused) b1 why w2 b2 where "res = Inl why"
      "check_and_offer as ae now user email wb order_id driver (w\<lparr>queue := (queue w)\<lparr>hs_bus := b1\<rparr>\<rparr>) = (Inl why, w2)"
      "w' = w2\<lparr>queue := (queue w2)\<lparr>hs_bus := b2\<rparr>\<rparr>"
  | (gave) b1 off w2 b2 out where "res = Inr out"
      "check_and_offer as ae now user email wb order_id driver (w\<lparr>queue := (queue w)\<lparr>hs_bus := b1\<rparr>\<rparr>) = (Inr off, w2)"
      "after_commit as off (w2\<lparr>queue := (queue w2)\<lparr>hs_bus := b2\<rparr>\<rparr>) = (out, w')"
  using assms unfolding assign_order_to_driver_def Let_def
  by (fastforce split: option.splits prod.splits sum.splits)

section \<open>Properties\<close>

text \<open>
  (C39) What a successful assign did, whatever others commit before its locked reads and do to the fleet
  before its claim. The order, as its row stood when the assign had its lock, was held or queued and live; in the database as it stood
  when the driver's row was locked, the driver was active and at the order's hub with documents in order and the hub open; in the fleet,
  the driver was idle with room on the van, and when claimed, still available. Committed are the order as assigned, exactly one new
  offer carrying just this order, and one record naming that offer and the dispatcher; the driver
  is marked offered and the order is out of the hold queue.
\<close>

theorem assign_offers_a_fit_order_once:
  assumes "assign_order_to_driver as ae la start fuel now rel user email wb order_id driver w = Some (Inr out, w')"
    "sane (sess w)" "keeps_sane (ae_decision ae)" "keeps_sane (ae_order ae)" "keeps_sane (ae_driver ae)"
    "locks_order (ae_driver ae) order_id"
  shows "\<exists>order. lookup_by ord_id order_id (orders (db (assign_session ae now wb user order_id driver (sess w)))) = Some order \<and>
    fit_to_offer as now order driver (db_at_checks ae now wb user order_id driver (sess w)) (fleet_of w) \<and>
    offer_made as now user order driver (ao_offer_id out) (db_at_checks ae now wb user order_id driver (sess w)) (base (sess w')) \<and>
    status_of (ae_fleet ae (fleet_of w)) (ord_hub_id order) driver = Some Available \<and>
    status_of (fleet_of w') (ord_hub_id order) driver = Some Offered \<and>
    order_id \<notin> queued_ids (queue w') (ord_hub_id order)"
  using assms(1)
proof (cases rule: assign_cases)
  case (gave b1 off w2 b2 out')
  let ?d = "db_at_checks ae now wb user order_id driver (sess w)"
  from check_and_offer_done [OF gave(2)] assms(2-6)
  obtain order where o: "lookup_by ord_id order_id (orders (db (assign_session ae now wb user order_id driver (sess w)))) = Some order"
    "fit_to_offer as now order driver ?d (fleet_of w)" "offer_made as now user order driver (of_offer_id off) ?d (base (sess w2))"
    "status_of (ae_fleet ae (fleet_of w)) (ord_hub_id order) driver = Some Available"
    "status_of (fleet_of w2) (ord_hub_id order) driver = Some Offered"
    "of_hub_id off = ord_hub_id order" "of_order_id off = order_id" by auto
  have "ao_offer_id out = of_offer_id off" "sess w' = sess w2" "fleet_of w' = fleet_of w2"
    "order_id \<notin> queued_ids (queue w') (ord_hub_id order)"
    using gave(1,3) o(6,7) by (auto simp: after_commit_def Let_def hq.taken_not_member)
  with o(1-5) show ?thesis by auto
qed auto

text \<open>
  (C40) A refused assign leaves no trace: whatever the reason, including a claim lost to a driver's
  break and a commit that fails, what is committed is what the others committed, the hold queue has the
  same entries, and every driver has the status the others gave them, the claim having been given
  back.
\<close>

theorem refused_assign_leaves_no_trace:
  assumes "assign_order_to_driver as ae la start fuel now rel user email wb order_id driver w = Some (Inl why, w')"
    "sane (sess w)" "keeps_sane (ae_decision ae)" "keeps_sane (ae_order ae)" "keeps_sane (ae_driver ae)"
    "ae_fleet_back ae = id"
  shows "base (sess w') \<in> {base (sess w), ae_order ae (ae_decision ae (base (sess w))),
      ae_driver ae (ae_order ae (ae_decision ae (base (sess w))))} \<and>
    hs_orders (queue w') = hs_orders (queue w) \<and>
    status_of (fleet_of w') \<in> {status_of (fleet_of w), status_of (ae_fleet ae (fleet_of w))}"
  using assms(1)
proof (cases rule: assign_cases)
  case (refused b1 why' w2 b2)
  from check_and_offer_refused [OF this(2)] assms(2-6) this(3) show ?thesis by auto
qed auto

text \<open>
  The wait for the hub's lock ends: if each attempt comes at least a poll interval after the one
  before, then whatever the other holders do, within 31 attempts the assign has the lock or refuses.
\<close>

theorem lock_wait_ends:
  assumes "\<And>k. start + int k * HUB_LOCK_POLL_MICROS \<le> la_mono la k"
  shows "\<exists>res w'. assign_order_to_driver as ae la start 31 now rel user email wb order_id driver w = Some (res, w')"
proof -
  have "\<exists>r. hub_locked la (start + seconds HUB_LOCK_WAIT_SECONDS) h 0 31 b = Some r" for h b
    using hub_locked_returns [OF assms refl, of 0 31 h b] by simp
  then show ?thesis
    unfolding assign_order_to_driver_def Let_def
    by (auto split: option.split prod.split sum.split) (metis option.distinct(1))
qed

text \<open>A queued order, an idle driver with papers, and nobody in the way.\<close>

definition sample_document :: "string \<Rightarrow> document_row" where
  "sample_document kind = \<lparr>doc_driver_id = 8, doc_type_of = kind, doc_claimed_expires_at = 0,
     doc_verified_expires_at = Some 740000, doc_review_status = REVIEW_VERIFIED, doc_rejection_reason = None,
     doc_file_url = Some ''k''\<rparr>"

definition sample_assign_world :: "order_status \<Rightarrow> world" where
  "sample_assign_world st = (sample_world [sample_order 7 st])\<lparr>sess := (sample_session [sample_order 7 st])\<lparr>db :=
     (sample_tables [sample_order 7 st])\<lparr>shops := [sample_shop 3 1 2],
       ops_of := (ops_of (sample_tables []))\<lparr>driver_rows := [\<lparr>driver_id = 8, driver_hub_id = 1, driver_is_active = True,
           driver_vehicle_capacity_units = 4, driver_employment_type = ''w2'', driver_stripe_account = None, driver_hourly_rate_cents = None,
           driver_status_text = ''off_shift''\<rparr>],
         driver_documents := [sample_document ''license'', sample_document ''insurance'']\<rparr>\<rparr>\<rparr>\<rparr>"

definition sample_settings :: assign_settings where
  "sample_settings = \<lparr>as_offer_ttl_seconds = 120, as_offer_bonus_cents = 500, as_stale_after_seconds = 300,
     as_tzdata = (\<lambda>_. None), as_today = 739000, as_fromisoformat = (\<lambda>_. None)\<rparr>"

definition alone :: assign_env where
  "alone = \<lparr>ae_decision = id, ae_order = id, ae_driver = id, ae_fleet = id, ae_fleet_back = id, ae_commit_fails = False\<rparr>"

definition sample_attempts :: lock_attempts where
  "sample_attempts = \<lparr>la_at = (\<lambda>k. int k * 100000), la_mono = (\<lambda>k. int k * 100000), la_toks = (\<lambda>k. k), la_env = (\<lambda>_. id)\<rparr>"

lemma alone_sane: "keeps_sane (ae_decision alone)" "keeps_sane (ae_order alone)" "keeps_sane (ae_driver alone)"
  "locks_order (ae_driver alone) i" "ae_fleet_back alone = id"
  by (simp_all add: alone_def keeps_sane_def interfere_db_def locks_order_def)

lemma sane_sample_assign: "sane (sess (sample_assign_world st))"
  by (simp add: sample_assign_world_def sane_def session_ok_def sample_session_def sample_tables_def)

theorem assign_offers_a_fit_order_once_witness:
  "\<exists>order. lookup_by ord_id 7 (orders (db (assign_session alone 9 False ''u'' 7 8 (sess (sample_assign_world Queued))))) = Some order \<and>
     fit_to_offer sample_settings 9 order 8 (db_at_checks alone 9 False ''u'' 7 8 (sess (sample_assign_world Queued)))
       (fleet_of (sample_assign_world Queued)) \<and> 7 \<notin> queued_ids (queue (snd (the (assign_order_to_driver sample_settings alone sample_attempts
     0 31 9 9 ''u'' ''e'' False 7 8 (sample_assign_world Queued))))) (ord_hub_id order)"
proof -
  let ?r = "assign_order_to_driver sample_settings alone sample_attempts 0 31 9 9 ''u'' ''e'' False 7 8 (sample_assign_world Queued)"
  have "(case ?r of Some (Inr _, _) \<Rightarrow> True | _ \<Rightarrow> False)" by code_simp
  then obtain out w' where r: "?r = Some (Inr out, w')" by (auto split: option.splits prod.splits sum.splits)
  from assign_offers_a_fit_order_once [OF r sane_sample_assign alone_sane(1-4)] show ?thesis
    unfolding r option.sel snd_conv by blast
qed

theorem refused_assign_leaves_no_trace_witness:
  "hs_orders (queue (snd (the (assign_order_to_driver sample_settings alone sample_attempts 0 31 9 9 ''u'' ''e'' False 7 8
     (sample_assign_world Assigned))))) = hs_orders (queue (sample_assign_world Assigned))"
proof -
  let ?r = "assign_order_to_driver sample_settings alone sample_attempts 0 31 9 9 ''u'' ''e'' False 7 8 (sample_assign_world Assigned)"
  have "(case ?r of Some (Inl _, _) \<Rightarrow> True | _ \<Rightarrow> False)" by code_simp
  then obtain why w' where r: "?r = Some (Inl why, w')" by (auto split: option.splits prod.splits sum.splits)
  from refused_assign_leaves_no_trace [OF r sane_sample_assign alone_sane(1-3,5)] show ?thesis by (simp add: r)
qed

theorem lock_wait_ends_witness:
  "\<exists>res w'. assign_order_to_driver sample_settings alone sample_attempts 0 31 9 9 ''u'' ''e'' False 7 8
     (sample_assign_world Queued) = Some (res, w')"
  by (rule lock_wait_ends) (simp add: sample_attempts_def HUB_LOCK_POLL_MICROS_def)

end
