(* ===== verification/Sla.thy ===== *)
theory Sla
  imports Tables Py_Text Py_Float
begin

text \<open>
  Urgency tiers, hold windows and the delivery promise (\<open>src/app/sla\<close>). \<open>str\<close> of a payload value that
  is neither text, nor a truth value, nor an integer is the parameter \<open>str_other\<close>. A \<open>KeyError\<close> is
  \<open>None\<close>.
\<close>

section \<open>engine.py\<close>

definition DEFAULT_HOLD_WINDOW_MINUTES :: "string \<Rightarrow> int option" where
  "DEFAULT_HOLD_WINDOW_MINUTES = map_of [(''HOT_SHOT'', 2), (''T1'', 8), (''T2'', 90), (''T3'', 1080)]"

definition HOLD_DEADLINE_BUFFER :: int where
  "HOLD_DEADLINE_BUFFER = minutes 5"

definition latest_safe_hold_deadline :: "instant \<Rightarrow> rat \<Rightarrow> instant" where
  "latest_safe_hold_deadline promised_delivery_by drive_minutes =
     promised_delivery_by - timedelta_minutes drive_minutes - HOLD_DEADLINE_BUFFER"

definition HOT_SHOT_FLAG_KEYS :: "string list" where
  "HOT_SHOT_FLAG_KEYS = [''hot_shot'', ''is_hot_shot'']"

definition RUSH_FLAG_KEYS :: "string list" where
  "RUSH_FLAG_KEYS = [''rush'', ''is_rush'', ''priority'', ''urgent'']"

definition SCHEDULED_FLAG_KEYS :: "string list" where
  "SCHEDULED_FLAG_KEYS = [''scheduled_delivery'', ''will_call'', ''next_day'']"

record hold_window_override =
  hw_scope_shop_id :: "uuid option"
  hw_scope_hub_id :: "uuid option"
  hw_tier_minutes :: "(string \<times> int) list"

record tier_override =
  to_match_key :: string
  to_match_value :: string
  to_tier :: string

record normalized_order =
  no_external_order_ref :: string
  no_requested_at :: instant
  no_raw_payload :: json_object

record classified_order =
  co_order_id :: string
  co_sla_tier :: string
  co_hold_deadline :: instant
  co_reason :: string

fun py_str :: "(json \<Rightarrow> string) \<Rightarrow> json \<Rightarrow> string" where
  "py_str str_other (JText s) = s"
| "py_str str_other (JBool b) = (if b then ''True'' else ''False'')"
| "py_str str_other (JInt n) = show_int n"
| "py_str str_other x = str_other x"

definition override_matches :: "(json \<Rightarrow> string) \<Rightarrow> normalized_order \<Rightarrow> tier_override \<Rightarrow> bool" where
  "override_matches str_other order ov =
     (case map_of (no_raw_payload order) (to_match_key ov) of
        None \<Rightarrow> False
      | Some raw \<Rightarrow> raw \<noteq> JNull \<and> casefold (strip (py_str str_other raw)) = casefold (strip (to_match_value ov)))"

definition match_tier_override ::
    "(json \<Rightarrow> string) \<Rightarrow> normalized_order \<Rightarrow> tier_override list \<Rightarrow> (string \<times> string) option" where
  "match_tier_override str_other order overrides =
     map_option (\<lambda>ov. (to_tier ov, ''orchestrator urgency rule: '' @ to_match_key ov @ ''='' @ to_match_value ov @ '' -> '' @ to_tier ov))
       (find (override_matches str_other order) overrides)"

definition NEGATIVE_FLAG_VALUES :: "string list" where
  "NEGATIVE_FLAG_VALUES =
     ['''', ''0'', ''n'', ''no'', ''false'', ''f'', ''off'', ''none'', ''null'', ''n/a'', ''na'', ''low'', ''medium'',
      ''normal'', ''standard'', ''routine'', ''regular'', ''today'', ''same day'', ''tomorrow'', ''next day'', ''overnight'']"

definition cleaned_flag :: "string \<Rightarrow> string" where
  "cleaned_flag s =
     join '' '' (split_words (replace_char (CHR ''_'') (CHR '' '') (replace_char (CHR ''-'') (CHR '' '') (casefold (strip s)))))"

text \<open>A string that holds a UUID or a time is some string, and none of the negative words.\<close>

fun flag_set :: "json option \<Rightarrow> bool" where
  "flag_set None = False"
| "flag_set (Some JNull) = False"
| "flag_set (Some (JBool b)) = b"
| "flag_set (Some (JInt n)) = (n \<noteq> 0)"
| "flag_set (Some (JFloat x)) = (x \<noteq> 0)"
| "flag_set (Some (JText s)) = (cleaned_flag s \<notin> set NEGATIVE_FLAG_VALUES)"
| "flag_set (Some (JId _)) = True"
| "flag_set (Some (JTime _)) = True"
| "flag_set (Some (JList xs)) = (xs \<noteq> [])"
| "flag_set (Some (JObj xs)) = (xs \<noteq> [])"

definition payload_flag_true :: "json_object \<Rightarrow> string list \<Rightarrow> bool" where
  "payload_flag_true payload keys \<longleftrightarrow> (\<exists>k \<in> set keys. flag_set (map_of payload k))"

definition classify_tier :: "normalized_order \<Rightarrow> string \<times> string" where
  "classify_tier order =
     (if payload_flag_true (no_raw_payload order) HOT_SHOT_FLAG_KEYS then
        (''HOT_SHOT'', ''hot-shot flag present in source payload'')
      else if payload_flag_true (no_raw_payload order) RUSH_FLAG_KEYS then
        (''T1'', ''rush flag present in source payload'')
      else if payload_flag_true (no_raw_payload order) SCHEDULED_FLAG_KEYS then
        (''T3'', ''scheduled/will-call flag present in source payload'')
      else (''T2'', ''no urgency flags present; defaulted to standard tier''))"

fun walk_overrides :: "string \<Rightarrow> hold_window_override list \<Rightarrow> int option" where
  "walk_overrides tier [] = DEFAULT_HOLD_WINDOW_MINUTES tier"
| "walk_overrides tier (ov # ovs) =
     (case map_of (hw_tier_minutes ov) tier of Some m \<Rightarrow> Some m | None \<Rightarrow> walk_overrides tier ovs)"

definition resolve_hold_window_minutes :: "string \<Rightarrow> hold_window_override list option \<Rightarrow> int option" where
  "resolve_hold_window_minutes tier overrides =
     walk_overrides tier (case overrides of None \<Rightarrow> [] | Some ovs \<Rightarrow> ovs)"

definition classify_order ::
    "(json \<Rightarrow> string) \<Rightarrow> normalized_order \<Rightarrow> instant option \<Rightarrow> hold_window_override list option \<Rightarrow> tier_override list option
      \<Rightarrow> classified_order option" where
  "classify_order str_other order now overrides tier_overrides =
     (let reference_time = (case now of None \<Rightarrow> no_requested_at order | Some t \<Rightarrow> t);
          (tier, reason) = (case match_tier_override str_other order (case tier_overrides of None \<Rightarrow> [] | Some ovs \<Rightarrow> ovs) of
             Some forced \<Rightarrow> forced | None \<Rightarrow> classify_tier order)
      in map_option (\<lambda>m. \<lparr>co_order_id = no_external_order_ref order, co_sla_tier = tier,
           co_hold_deadline = reference_time + minutes m, co_reason = reason\<rparr>)
         (resolve_hold_window_minutes tier overrides))"

section \<open>overrides.py\<close>

definition override_of_rule :: "rule_row \<Rightarrow> hold_window_override" where
  "override_of_rule r =
     \<lparr>hw_scope_shop_id = rule_scope_shop_id r, hw_scope_hub_id = Some (rule_hub_id r), hw_tier_minutes = rule_value r\<rparr>"

definition load_hold_window_overrides :: "db \<Rightarrow> uuid \<Rightarrow> uuid \<Rightarrow> hold_window_override list" where
  "load_hold_window_overrides d hub shop =
     (let ovs = map override_of_rule (filter (\<lambda>r. rule_type r = ''sla_hold_window_override'' \<and> rule_enabled r \<and> rule_hub_id r = hub)
            (active_rules (ops_of d)))
      in filter (\<lambda>ov. hw_scope_shop_id ov = Some shop) ovs @
         filter (\<lambda>ov. hw_scope_shop_id ov \<noteq> Some shop \<and> hw_scope_shop_id ov = None) ovs)"

section \<open>commitment.py\<close>

record commitment =
  promised_delivery_by :: "instant option"
  commitment_source :: string

definition NO_COMMITMENT :: commitment where
  "NO_COMMITMENT = \<lparr>promised_delivery_by = None, commitment_source = ''none''\<rparr>"

definition delivery_commitment :: "order_row \<Rightarrow> sla_term_row option \<Rightarrow> commitment" where
  "delivery_commitment order term =
     (case ord_promised_at order of
        Some t \<Rightarrow> \<lparr>promised_delivery_by = Some t, commitment_source = ''explicit''\<rparr>
      | None \<Rightarrow>
          (case (term, ord_requested_at order) of
             (Some x, Some t) \<Rightarrow> \<lparr>promised_delivery_by = Some (t + minutes (term_delivery_target_minutes x)), commitment_source = ''tier_term''\<rparr>
           | _ \<Rightarrow> NO_COMMITMENT))"

definition terms_for_client :: "db \<Rightarrow> uuid \<Rightarrow> string \<Rightarrow> sla_term_row option" where
  "terms_for_client d client =
     dict_of (map (\<lambda>x. (term_sla_tier x, x)) (filter (\<lambda>x. term_client_id x = client) (client_sla_terms (ledgers_of (ops_of d)))))"

lemma terms_for_client_Some:
  "terms_for_client d client tier = Some x \<Longrightarrow> term_client_id x = client \<and> term_sla_tier x = tier"
  by (auto simp: terms_for_client_def dest: dict_of_Some)

section \<open>Lemmas\<close>

text \<open>The minutes that the live rules of a hub with this scope give a tier, in the order of the rows.\<close>

definition rule_minutes :: "db \<Rightarrow> uuid \<Rightarrow> uuid option \<Rightarrow> string \<Rightarrow> int list" where
  "rule_minutes d hub scope tier =
     concat (map (\<lambda>r. if rule_type r = ''sla_hold_window_override'' \<and> rule_enabled r \<and> rule_hub_id r = hub \<and> rule_scope_shop_id r = scope
                    then (case map_of (rule_value r) tier of None \<Rightarrow> [] | Some m \<Rightarrow> [m]) else [])
       (active_rules (ops_of d)))"

definition override_minutes :: "string \<Rightarrow> hold_window_override list \<Rightarrow> int list" where
  "override_minutes tier ovs = concat (map (\<lambda>ov. case map_of (hw_tier_minutes ov) tier of None \<Rightarrow> [] | Some m \<Rightarrow> [m]) ovs)"

lemma walk_overrides_first:
  "DEFAULT_HOLD_WINDOW_MINUTES tier = Some m \<Longrightarrow> walk_overrides tier ovs = Some (hd (override_minutes tier ovs @ [m]))"
  by (induction ovs) (auto simp: override_minutes_def split: option.split)

lemma override_minutes_append [simp]:
  "override_minutes tier (xs @ ys) = override_minutes tier xs @ override_minutes tier ys"
  by (simp add: override_minutes_def)

lemma override_minutes_rules:
  "override_minutes tier (filter (\<lambda>ov. hw_scope_shop_id ov = scope) (map override_of_rule
     (filter (\<lambda>r. rule_type r = ''sla_hold_window_override'' \<and> rule_enabled r \<and> rule_hub_id r = hub) (active_rules (ops_of d))))) =
   rule_minutes d hub scope tier"
  unfolding rule_minutes_def override_minutes_def
  by (rule list.induct [where list = "active_rules (ops_of d)"]) (simp_all add: override_of_rule_def)

lemma classify_tier_known: "\<exists>m. DEFAULT_HOLD_WINDOW_MINUTES (fst (classify_tier order)) = Some m"
  by (simp add: classify_tier_def DEFAULT_HOLD_WINDOW_MINUTES_def)

section \<open>Property\<close>

text \<open>
  Every order gets a tier and a hold deadline, provided the urgency rules name known tiers. The tier is
  the one the first matching urgency rule forces, else the one its payload's flags ask for; the
  window is the first that a live rule of this shop gives that tier, else the first of a live
  hub-wide rule, else the default. Rules of another shop or hub, and rules switched off, play no part.
\<close>

theorem held_by_the_most_specific_rule:
  assumes "\<forall>ov \<in> set tovs. DEFAULT_HOLD_WINDOW_MINUTES (to_tier ov) \<noteq> None"
  shows "\<exists>c m. classify_order str_other order now (Some (load_hold_window_overrides d hub shop)) (Some tovs) = Some c \<and>
    co_sla_tier c = (case find (override_matches str_other order) tovs of Some ov \<Rightarrow> to_tier ov | None \<Rightarrow> fst (classify_tier order)) \<and>
    DEFAULT_HOLD_WINDOW_MINUTES (co_sla_tier c) = Some m \<and>
    co_hold_deadline c = (case now of None \<Rightarrow> no_requested_at order | Some t \<Rightarrow> t) +
      minutes (hd (rule_minutes d hub (Some shop) (co_sla_tier c) @ rule_minutes d hub None (co_sla_tier c) @ [m]))"
proof -
  let ?tier = "case find (override_matches str_other order) tovs of Some ov \<Rightarrow> to_tier ov | None \<Rightarrow> fst (classify_tier order)"
  obtain m where m: "DEFAULT_HOLD_WINDOW_MINUTES ?tier = Some m"
    using assms classify_tier_known [of order]
    by (cases "find (override_matches str_other order) tovs") (auto simp: find_Some_iff dest!: nth_mem)
  have none: "(\<lambda>ov. hw_scope_shop_id ov \<noteq> Some shop \<and> hw_scope_shop_id ov = None) = (\<lambda>ov. hw_scope_shop_id ov = None)" by auto
  have "resolve_hold_window_minutes ?tier (Some (load_hold_window_overrides d hub shop)) =
      Some (hd (rule_minutes d hub (Some shop) ?tier @ rule_minutes d hub None ?tier @ [m]))"
    using m override_minutes_rules [of ?tier "Some shop" hub d] override_minutes_rules [of ?tier None hub d]
    by (simp add: resolve_hold_window_minutes_def walk_overrides_first load_hold_window_overrides_def Let_def none)
  then show ?thesis using m
    by (cases "find (override_matches str_other order) tovs")
      (auto simp: classify_order_def match_tier_override_def split: prod.split option.split)
qed

text \<open>A body panel marked as a rush, at a shop with its own window.\<close>

definition sample_rules :: db where
  "sample_rules = (sample_tables [])\<lparr>ops_of := (ops_of (sample_tables []))\<lparr>active_rules :=
     [\<lparr>rule_type = ''sla_hold_window_override'', rule_enabled = True, rule_hub_id = 2, rule_scope_shop_id = None, rule_value = [(''T3'', 600)], rule_texts = [], rule_created_at = 0\<rparr>,
      \<lparr>rule_type = ''sla_hold_window_override'', rule_enabled = True, rule_hub_id = 2, rule_scope_shop_id = Some 3, rule_value = [(''T3'', 300)], rule_texts = [], rule_created_at = 0\<rparr>]\<rparr>\<rparr>"

definition sample_panel :: normalized_order where
  "sample_panel = \<lparr>no_external_order_ref = ''A-1'', no_requested_at = 0,
     no_raw_payload = [(''rush'', JText ''Y''), (''part_category'', JText '' Body_Panel'')]\<rparr>"

theorem held_by_the_most_specific_rule_witness:
  "map_option (\<lambda>c. (co_sla_tier c, co_hold_deadline c)) (classify_order (\<lambda>_. []) sample_panel None (Some (load_hold_window_overrides sample_rules 2 3))
     (Some [\<lparr>to_match_key = ''part_category'', to_match_value = ''body_panel'', to_tier = ''T3''\<rparr>])) = Some (''T3'', minutes 300)"
proof -
  let ?tovs = "[\<lparr>to_match_key = ''part_category'', to_match_value = ''body_panel'', to_tier = ''T3''\<rparr>]"
  have 1: "\<forall>ov \<in> set ?tovs. DEFAULT_HOLD_WINDOW_MINUTES (to_tier ov) \<noteq> None" by (simp add: DEFAULT_HOLD_WINDOW_MINUTES_def)
  have 2: "find (override_matches (\<lambda>_. []) sample_panel) ?tovs = Some (hd ?tovs)" by code_simp
  have 3: "rule_minutes sample_rules 2 (Some 3) ''T3'' = [300]" by code_simp
  have 4: "no_requested_at sample_panel = 0" by (simp add: sample_panel_def)
  from held_by_the_most_specific_rule [OF 1, of "\<lambda>_. []" sample_panel None sample_rules 2 3] show ?thesis
    unfolding 2 4 by (auto simp: 3)
qed

end
