(* ===== verification/Outcomes.thy ===== *)
theory Outcomes
  imports Sla
begin

text \<open>
  The ledger of what happened (\<open>src/app/record/outcomes.py\<close>) and the link from an outcome to the decision
  that caused it (\<open>snapshot_that_assigned\<close> of \<open>src/app/record/decisions.py\<close>). An error is the
  \<open>ValueError\<close> of the code. \<open>lateness_seconds\<close> is kept in microseconds.
\<close>

section \<open>Vocabulary\<close>

definition SUBJECT_TYPES :: "string list" where
  "SUBJECT_TYPES = [''order'', ''stop'']"

definition KIND_DELIVERED :: string where
  "KIND_DELIVERED = ''delivered''"

definition KINDS :: "string list" where
  "KINDS = [KIND_DELIVERED, ''failed'', ''dwell'', ''disputed'', ''cost'', ''arm_abstention'']"

datatype outcome_error = Bad_subject_type string | Bad_kind string | Not_delivered uuid | No_reason

section \<open>Operations\<close>

abbreviation (input) ledger :: "session \<Rightarrow> outcome_row list" where
  "ledger s \<equiv> outcome_ledger (ledgers_of (ops_of (db s)))"

definition add_outcome :: "outcome_row \<Rightarrow> db \<Rightarrow> db" where
  "add_outcome e d = d\<lparr>ops_of := (ops_of d)\<lparr>ledgers_of := (ledgers_of (ops_of d))\<lparr>outcome_ledger :=
     outcome_ledger (ledgers_of (ops_of d)) @ [e]\<rparr>\<rparr>\<rparr>"

definition record_outcome ::
    "instant \<Rightarrow> uuid \<Rightarrow> string \<Rightarrow> uuid \<Rightarrow> string \<Rightarrow> instant \<Rightarrow> outcome_values \<Rightarrow> uuid option \<Rightarrow> uuid option \<Rightarrow> session
      \<Rightarrow> outcome_error + (outcome_row \<times> session)" where
  "record_outcome now hub subject_type subject_id kind occurred_at outcome_vals snapshot supersedes s =
     (if subject_type \<notin> set SUBJECT_TYPES then Inl (Bad_subject_type subject_type)
      else if kind \<notin> set KINDS then Inl (Bad_kind kind)
      else
        let (new_id, s1) = uuid4 s;
            entry = \<lparr>out_id = new_id, out_hub_id = hub, out_decision_snapshot_id = snapshot, out_subject_type = subject_type,
              out_subject_id = subject_id, out_kind = kind, out_occurred_at = occurred_at, out_recorded_at = now,
              out_values = outcome_vals, out_supersedes = supersedes\<rparr>
        in Inr (entry, s1\<lparr>db := add_outcome entry (db s1)\<rparr>))"

definition delivery_values :: "order_row \<Rightarrow> instant \<Rightarrow> commitment \<Rightarrow> outcome_values" where
  "delivery_values order delivered_at c =
     \<lparr>ov_delivered_at = Some delivered_at, ov_promised_delivery_by = promised_delivery_by c,
      ov_commitment_source = Some (commitment_source c), ov_sla_tier = ord_sla_tier order,
      ov_lateness_micros = map_option (\<lambda>t. delivered_at - t) (promised_delivery_by c),
      ov_on_time = map_option (\<lambda>t. delivered_at - t \<le> 0) (promised_delivery_by c),
      ov_correction_reason = None, ov_arm = None, ov_declined = None, ov_abstention_reason = None,
      ov_would_have_held_until = None\<rparr>"

definition record_delivery_outcome ::
    "instant \<Rightarrow> order_row \<Rightarrow> commitment \<Rightarrow> uuid option \<Rightarrow> session \<Rightarrow> outcome_error + (outcome_row \<times> session)" where
  "record_delivery_outcome now order c snapshot s =
     (case ord_delivered_at order of
        None \<Rightarrow> Inl (Not_delivered (ord_id order))
      | Some delivered_at \<Rightarrow>
          record_outcome now (ord_hub_id order) ''order'' (ord_id order) KIND_DELIVERED delivered_at
            (delivery_values order delivered_at c) snapshot None s)"

definition outcomes_for :: "uuid \<Rightarrow> bool \<Rightarrow> db \<Rightarrow> outcome_row list" where
  "outcomes_for subject include_superseded d =
     (let entries = sort_key out_recorded_at (sort_key out_id
            (filter (\<lambda>e. out_subject_id e = subject) (outcome_ledger (ledgers_of (ops_of d)))))
      in if include_superseded then entries
         else filter (\<lambda>e. Some (out_id e) \<notin> set (map out_supersedes entries)) entries)"

definition current_outcome :: "uuid \<Rightarrow> string \<Rightarrow> db \<Rightarrow> outcome_row option" where
  "current_outcome subject kind d =
     (let matching = filter (\<lambda>e. out_kind e = kind) (outcomes_for subject False d)
      in if matching = [] then None else Some (last matching))"

definition supersede_outcome ::
    "instant \<Rightarrow> outcome_row \<Rightarrow> outcome_values \<Rightarrow> string \<Rightarrow> instant option \<Rightarrow> session \<Rightarrow> outcome_error + (outcome_row \<times> session)" where
  "supersede_outcome now previous outcome_vals reason occurred_at s =
     (if strip reason = [] then Inl No_reason
      else record_outcome now (out_hub_id previous) (out_subject_type previous) (out_subject_id previous) (out_kind previous)
        (case occurred_at of None \<Rightarrow> out_occurred_at previous | Some t \<Rightarrow> t)
        (outcome_vals\<lparr>ov_correction_reason := Some reason\<rparr>) (out_decision_snapshot_id previous) (Some (out_id previous)) s)"

text \<open>A comparison with a missing \<open>requested_at\<close> is SQL's null, which selects nothing.\<close>

definition snapshot_that_assigned :: "db \<Rightarrow> order_row \<Rightarrow> uuid option" where
  "snapshot_that_assigned d order =
     map_option snap_id (find (\<lambda>x. \<exists>visits \<in> set (snap_assignments x). ord_id order \<in> set visits)
       (take 50 (sort_key (\<lambda>x. - snap_decided_at x) (filter (\<lambda>x. snap_hub_id x = ord_hub_id order \<and>
          (case ord_requested_at order of None \<Rightarrow> False | Some t \<Rightarrow> t \<le> snap_decided_at x))
          (decision_snapshots (ledgers_of (ops_of d)))))))"

definition order_term :: "db \<Rightarrow> order_row \<Rightarrow> sla_term_row option" where
  "order_term d order =
     (case (ord_client_id order, ord_sla_tier order) of
        (Some client, Some tier) \<Rightarrow> terms_for_client d client (tier_value tier)
      | _ \<Rightarrow> None)"

fun record_delivery_outcomes :: "instant \<Rightarrow> order_row list \<Rightarrow> session \<Rightarrow> outcome_error + (outcome_row list \<times> session)" where
  "record_delivery_outcomes now [] s = Inr ([], s)"
| "record_delivery_outcomes now (order # moved) s =
     (case record_delivery_outcome now order (delivery_commitment order (order_term (db s) order)) (snapshot_that_assigned (db s) order) s of
        Inl err \<Rightarrow> Inl err
      | Inr (entry, s1) \<Rightarrow>
          (case record_delivery_outcomes now moved s1 of
             Inl err \<Rightarrow> Inl err
           | Inr (entries, s2) \<Rightarrow> Inr (entry # entries, s2)))"

section \<open>Lemmas\<close>

lemma record_outcome_Inr:
  assumes "record_outcome now hub st sid kind at1 vals snap old s = Inr (e, s')"
  shows "ledger s' = ledger s @ [e]" "out_id e = fresh s" "fresh s' = Suc (fresh s)" "out_subject_id e = sid" "out_kind e = kind"
    "out_supersedes e = old" "out_values e = vals" "out_recorded_at e = now" "out_occurred_at e = at1"
    "db s' = add_outcome e (db s)"
  using assms by (auto simp: record_outcome_def uuid4_def Let_def add_outcome_def split: if_splits)

lemma add_outcome_tables [simp]:
  "orders (add_outcome e d) = orders d" "stops (add_outcome e d) = stops d" "stop_orders (add_outcome e d) = stop_orders d"
  "routes (add_outcome e d) = routes d" "parcels (add_outcome e d) = parcels d" "deliveries (add_outcome e d) = deliveries d"
  "offers (add_outcome e d) = offers d" "shops (add_outcome e d) = shops d" "pings (add_outcome e d) = pings d"
  "client_sla_terms (ledgers_of (ops_of (add_outcome e d))) = client_sla_terms (ledgers_of (ops_of d))"
  "decision_snapshots (ledgers_of (ops_of (add_outcome e d))) = decision_snapshots (ledgers_of (ops_of d))"
  "cod_collections (ledgers_of (ops_of (add_outcome e d))) = cod_collections (ledgers_of (ops_of d))"
  "outcome_ledger (ledgers_of (ops_of (add_outcome e d))) = outcome_ledger (ledgers_of (ops_of d)) @ [e]"
  by (simp_all add: add_outcome_def)

lemma insort_key_before_max: "f a \<le> f x \<Longrightarrow> insort_key f a (ys @ [x]) = insort_key f a ys @ [x]"
  by (induction ys) auto

lemma sort_key_append_max: "\<forall>y \<in> set xs. f y \<le> f x \<Longrightarrow> sort_key f (xs @ [x]) = sort_key f xs @ [x]"
  by (induction xs) (auto simp: insort_key_before_max)

text \<open>Identifiers in the ledger, and those its corrections point to, are in use; nothing is recorded in the future.\<close>

definition ledger_ok :: "instant \<Rightarrow> session \<Rightarrow> bool" where
  "ledger_ok now s \<longleftrightarrow> (\<forall>e \<in> set (ledger s). out_id e < fresh s \<and> out_recorded_at e \<le> now \<and>
     (\<forall>i. out_supersedes e = Some i \<longrightarrow> i < fresh s))"

lemma outcomes_for_append:
  assumes "ledger_ok now s" "ledger s' = ledger s @ [e]" "out_id e = fresh s" "out_recorded_at e = now" "out_subject_id e = subject"
  shows "outcomes_for subject True (db s') = outcomes_for subject True (db s) @ [e]"
proof -
  let ?xs = "filter (\<lambda>e. out_subject_id e = subject) (ledger s)"
  have "sort_key out_id (?xs @ [e]) = sort_key out_id ?xs @ [e]"
    using assms(1,3) by (intro sort_key_append_max) (auto simp: ledger_ok_def less_imp_le)
  moreover have "sort_key out_recorded_at (sort_key out_id ?xs @ [e]) = sort_key out_recorded_at (sort_key out_id ?xs) @ [e]"
    using assms(1,4) by (intro sort_key_append_max) (auto simp: ledger_ok_def)
  ultimately show ?thesis using assms(2,5) by (simp add: outcomes_for_def)
qed

lemma set_outcomes_for: "set (outcomes_for subject True d) = {e \<in> set (outcome_ledger (ledgers_of (ops_of d))). out_subject_id e = subject}"
  by (auto simp: outcomes_for_def)

lemma outcomes_for_live:
  "outcomes_for subject False d =
     filter (\<lambda>e. Some (out_id e) \<notin> set (map out_supersedes (outcomes_for subject True d))) (outcomes_for subject True d)"
  by (simp add: outcomes_for_def)

lemma record_delivery_outcome_Inr:
  assumes "record_delivery_outcome now order c snapshot s = Inr (e, s')"
  shows "out_subject_id e = ord_id order \<and> out_kind e = KIND_DELIVERED \<and> db s' = add_outcome e (db s) \<and> fresh s' = Suc (fresh s)"
proof (cases "ord_delivered_at order")
  case (Some t)
  with assms have "record_outcome now (ord_hub_id order) ''order'' (ord_id order) KIND_DELIVERED t
      (delivery_values order t c) snapshot None s = Inr (e, s')" by (simp add: record_delivery_outcome_def)
  from record_outcome_Inr [OF this] show ?thesis by blast
qed (use assms in \<open>simp add: record_delivery_outcome_def\<close>)

lemma record_delivery_outcomes_each:
  assumes "record_delivery_outcomes now moved s = Inr (es, s')"
  shows "db s' = fold add_outcome es (db s) \<and> map out_subject_id es = map ord_id moved \<and> (\<forall>e \<in> set es. out_kind e = KIND_DELIVERED)"
  using assms
proof (induction now moved s arbitrary: es s' rule: record_delivery_outcomes.induct)
  case (2 now order moved s)
  from 2(2) obtain e s1 es1 where e: "record_delivery_outcome now order (delivery_commitment order (order_term (db s) order)) (snapshot_that_assigned (db s) order) s = Inr (e, s1)"
    and es: "record_delivery_outcomes now moved s1 = Inr (es1, s')" "es = e # es1"
    by (auto split: sum.splits)
  from record_delivery_outcome_Inr [OF e] 2(1) [OF e refl es(1)] es(2) show ?case by simp
qed simp

lemma ledger_fold_add: "outcome_ledger (ledgers_of (ops_of (fold add_outcome es d))) = outcome_ledger (ledgers_of (ops_of d)) @ es"
  by (induction es arbitrary: d) simp_all

lemma record_delivery_outcomes_succeed:
  "\<forall>r \<in> set moved. ord_delivered_at r \<noteq> None \<Longrightarrow> \<exists>es s'. record_delivery_outcomes now moved s = Inr (es, s')"
proof (induction now moved s rule: record_delivery_outcomes.induct)
  case (2 now order moved s)
  obtain e s1 where e: "record_delivery_outcome now order (delivery_commitment order (order_term (db s) order)) (snapshot_that_assigned (db s) order) s = Inr (e, s1)"
    using 2(2) by (auto simp: record_delivery_outcome_def record_outcome_def SUBJECT_TYPES_def KINDS_def uuid4_def Let_def)
  with 2(1) [OF e refl] 2(2) show ?case by auto
qed simp

section \<open>Property\<close>

text \<open>
  A correction becomes the outcome that counts, and the history keeps what it corrects: superseding
  the current outcome of a subject succeeds when a reason is given, adds exactly one entry at the
  end of the subject's history, changes no earlier entry, and from then on the correction is the
  current outcome of its kind.
\<close>

theorem correction_becomes_current:
  assumes "current_outcome subject kind (db s) = Some previous" "strip reason \<noteq> []"
    "out_subject_type previous \<in> set SUBJECT_TYPES" "kind \<in> set KINDS" "ledger_ok now s"
  shows "\<exists>e s'. supersede_outcome now previous vals reason at1 s = Inr (e, s') \<and>
    outcomes_for subject True (db s') = outcomes_for subject True (db s) @ [e] \<and>
    current_outcome subject kind (db s') = Some e \<and> ov_correction_reason (out_values e) = Some reason \<and>
    out_supersedes e = Some (out_id previous)"
proof -
  let ?h = "outcomes_for subject True (db s)"
  have prev: "previous \<in> set ?h" "out_kind previous = kind" "out_subject_id previous = subject"
    using assms(1) last_in_set [of "filter (\<lambda>e. out_kind e = kind) (outcomes_for subject False (db s))"]
    by (auto simp: current_outcome_def Let_def outcomes_for_live set_outcomes_for split: if_splits)
  obtain e s' where e: "supersede_outcome now previous vals reason at1 s = Inr (e, s')"
    using assms(2-4) prev by (auto simp: supersede_outcome_def record_outcome_def uuid4_def Let_def split: option.split)
  have r: "record_outcome now (out_hub_id previous) (out_subject_type previous) subject kind
      (case at1 of None \<Rightarrow> out_occurred_at previous | Some t \<Rightarrow> t) (vals\<lparr>ov_correction_reason := Some reason\<rparr>)
      (out_decision_snapshot_id previous) (Some (out_id previous)) s = Inr (e, s')"
    using e assms(2) prev by (simp add: supersede_outcome_def split: option.splits)
  note f = record_outcome_Inr [OF r]
  have h: "outcomes_for subject True (db s') = ?h @ [e]" by (rule outcomes_for_append [OF assms(5) f(1,2,8,4)])
  have "\<forall>x \<in> set (ledger s). out_supersedes x \<noteq> Some (fresh s)" "out_id previous \<noteq> fresh s"
    using assms(5) prev(1) unfolding ledger_ok_def set_outcomes_for by (blast dest: less_irrefl_nat, metis (no_types, lifting) less_irrefl_nat mem_Collect_eq)
  then have "Some (out_id e) \<notin> set (map out_supersedes (?h @ [e]))"
    using f(2,6) by (auto simp: set_outcomes_for)
  then have "current_outcome subject kind (db s') = Some e"
    unfolding current_outcome_def Let_def outcomes_for_live h by (simp add: f(5))
  with e h f show ?thesis by auto
qed

text \<open>A delivery recorded as late and then corrected.\<close>

definition sample_values :: outcome_values where
  "sample_values = \<lparr>ov_delivered_at = Some 5, ov_promised_delivery_by = Some 3, ov_commitment_source = Some ''explicit'', ov_sla_tier = None,
     ov_lateness_micros = Some 2, ov_on_time = Some False, ov_correction_reason = None, ov_arm = None, ov_declined = None, ov_abstention_reason = None,
      ov_would_have_held_until = None\<rparr>"

definition sample_outcome :: outcome_row where
  "sample_outcome = \<lparr>out_id = 60, out_hub_id = 1, out_decision_snapshot_id = None, out_subject_type = ''order'', out_subject_id = 7,
     out_kind = KIND_DELIVERED, out_occurred_at = 5, out_recorded_at = 6, out_values = sample_values, out_supersedes = None\<rparr>"

definition sample_ledger :: session where
  "sample_ledger = \<lparr>db = add_outcome sample_outcome (sample_tables []), base = sample_tables [], txn_now = 0, fresh = 100, delivery_seq = 0,
     pending_deliveries = [], status_log = []\<rparr>"

theorem correction_becomes_current_witness:
  "\<exists>e s'. supersede_outcome 9 sample_outcome sample_values ''clock was wrong'' None sample_ledger = Inr (e, s') \<and>
     current_outcome 7 KIND_DELIVERED (db s') = Some e"
proof -
  have 1: "current_outcome 7 KIND_DELIVERED (db sample_ledger) = Some sample_outcome" by code_simp
  have 2: "strip ''clock was wrong'' \<noteq> []" by code_simp
  have 3: "out_subject_type sample_outcome \<in> set SUBJECT_TYPES" "KIND_DELIVERED \<in> set KINDS"
    by (simp_all add: sample_outcome_def SUBJECT_TYPES_def KINDS_def)
  have 4: "ledger_ok 9 sample_ledger"
    by (simp add: ledger_ok_def sample_ledger_def add_outcome_def sample_outcome_def sample_tables_def)
  from correction_becomes_current [OF 1 2 3 4] show ?thesis by blast
qed

end
