(* ===== verification/Experiment.thy ===== *)
theory Experiment
  imports Outcomes Signing Status_Service
begin

text \<open>
  The control arm (\<open>src/app/experiment\<close>): putting an order in an arm at intake (\<open>arms.py\<close>), docks kept out of
  it (\<open>exclusions.py\<close>), the record that an order was left alone (\<open>src/app/record/abstention.py\<close>) and the monitor
  that decides whether a statement may rest on a window of assignments (\<open>integrity.py\<close>). The draw is
  computed from SHA-256 as the code does. The advisory lock makes the count and the insert for one dock
  one step: what other transactions commit while it is waited for is the parameter \<open>others\<close>. A finding
  is its check and its severity; its sentence and its numbers are not modelled. The normal quantile
  behind the Wilson interval is the parameter \<open>z_for\<close> and the float square root \<open>sqrt_f\<close>.
\<close>

section \<open>Text\<close>

text \<open>\<open>str.encode()\<close> on U+0000 to U+00FF, and \<open>str\<close> of a UUID.\<close>

definition utf8_char :: "char \<Rightarrow> byte list" where
  "utf8_char c =
     (let n = (of_char c :: nat) in
      if n < 128 then [of_nat n] else [of_nat (192 + n div 64), of_nat (128 + n mod 64)])"

definition encode_utf8 :: "string \<Rightarrow> byte list" where
  "encode_utf8 s = concat (map utf8_char s)"

fun hex_text :: "nat \<Rightarrow> nat \<Rightarrow> string" where
  "hex_text 0 u = []"
| "hex_text (Suc n) u = hex_text n (u div 16) @ [hex_digit (u mod 16)]"

definition uuid_text :: "uuid \<Rightarrow> string" where
  "uuid_text u =
     (let h = hex_text 32 u in
      take 8 h @ ''-'' @ take 4 (drop 8 h) @ ''-'' @ take 4 (drop 12 h) @ ''-'' @ take 4 (drop 16 h) @ ''-'' @ drop 20 h)"

definition text_or_None :: "('a \<Rightarrow> string) \<Rightarrow> 'a option \<Rightarrow> string" where
  "text_or_None show_a x = (case x of None \<Rightarrow> ''None'' | Some a \<Rightarrow> show_a a)"

section \<open>exclusions.py\<close>

definition EXPERIMENT_CONTROL_ARM :: string where
  "EXPERIMENT_CONTROL_ARM = ''exp-1-control-arm''"

definition ARM_CONTROL :: string where "ARM_CONTROL = ''control''"
definition ARM_TREATMENT :: string where "ARM_TREATMENT = ''treatment''"

definition REQUESTED_BY :: "string list" where
  "REQUESTED_BY = [''customer'', ''lmx'']"

datatype exclusion_error = Exclusion_needs_a_reason | Bad_requested_by string

abbreviation (input) exclusions_in :: "db \<Rightarrow> exclusion_row list" where
  "exclusions_in d \<equiv> experiment_exclusions (intake_of (ops_of d))"

abbreviation (input) arms_in :: "db \<Rightarrow> arm_assignment_row list" where
  "arms_in d \<equiv> experiment_assignments (intake_of (ops_of d))"

definition set_exclusions :: "exclusion_row list \<Rightarrow> db \<Rightarrow> db" where
  "set_exclusions xs d = d\<lparr>ops_of := (ops_of d)\<lparr>intake_of := (intake_of (ops_of d))\<lparr>experiment_exclusions := xs\<rparr>\<rparr>\<rparr>"

definition add_arm :: "arm_assignment_row \<Rightarrow> db \<Rightarrow> db" where
  "add_arm a d = d\<lparr>ops_of := (ops_of d)\<lparr>intake_of := (intake_of (ops_of d))\<lparr>experiment_assignments := arms_in d @ [a]\<rparr>\<rparr>\<rparr>"

definition live_exclusion :: "uuid \<Rightarrow> string \<Rightarrow> string \<Rightarrow> db \<Rightarrow> exclusion_row option" where
  "live_exclusion client receiver_key experiment d =
     find (\<lambda>x. ex_client_id x = client \<and> ex_receiver_key x = receiver_key \<and> ex_experiment x = experiment \<and>
       ex_revoked_at x = None) (exclusions_in d)"

definition is_excluded :: "uuid \<Rightarrow> string \<Rightarrow> string \<Rightarrow> db \<Rightarrow> bool" where
  "is_excluded client receiver_key experiment d \<longleftrightarrow> live_exclusion client receiver_key experiment d \<noteq> None"

definition exclude_receiver ::
    "instant \<Rightarrow> uuid \<Rightarrow> string \<Rightarrow> string \<Rightarrow> string \<Rightarrow> string \<Rightarrow> session \<Rightarrow> (exclusion_error + exclusion_row) \<times> session" where
  "exclude_receiver now client receiver_key reason requested_by experiment s =
     (if strip reason = [] then (Inl Exclusion_needs_a_reason, s)
      else if requested_by \<notin> set REQUESTED_BY then (Inl (Bad_requested_by requested_by), s)
      else (case live_exclusion client receiver_key experiment (db s) of
         Some x \<Rightarrow> (Inr x, s)
       | None \<Rightarrow>
           let (i, s1) = uuid4 s;
               x = \<lparr>ex_id = i, ex_client_id = client, ex_receiver_key = receiver_key, ex_experiment = experiment,
                 ex_reason = strip reason, ex_requested_by = requested_by, ex_excluded_at = now, ex_revoked_at = None\<rparr>
           in (Inr x, s1\<lparr>db := set_exclusions (exclusions_in (db s1) @ [x]) (db s1)\<rparr>)))"

definition revoke_exclusion :: "instant \<Rightarrow> uuid \<Rightarrow> string \<Rightarrow> string \<Rightarrow> session \<Rightarrow> exclusion_row option \<times> session" where
  "revoke_exclusion now client receiver_key experiment s =
     (case live_exclusion client receiver_key experiment (db s) of
        None \<Rightarrow> (None, s)
      | Some x \<Rightarrow> (Some (x\<lparr>ex_revoked_at := Some now\<rparr>),
          s\<lparr>db := set_exclusions (update_where (\<lambda>r. ex_id r = ex_id x) (\<lambda>r. r\<lparr>ex_revoked_at := Some now\<rparr>)
            (exclusions_in (db s))) (db s)\<rparr>))"

definition excluded_receiver_count :: "uuid \<Rightarrow> string \<Rightarrow> db \<Rightarrow> nat" where
  "excluded_receiver_count client experiment d =
     length (filter (\<lambda>x. ex_client_id x = client \<and> ex_experiment x = experiment \<and> ex_revoked_at x = None) (exclusions_in d))"

record exclusion_impact_rec =
  ei_live_exclusions :: nat
  ei_revoked_exclusions :: nat
  ei_orders_excluded :: int
  ei_orders_total :: int

text \<open>\<open>counts\<close> is the dict \<open>order_counts_by_receiver\<close>; the receivers' names themselves are not kept.\<close>

definition exclusion_impact :: "uuid \<Rightarrow> (string \<times> int) list \<Rightarrow> string \<Rightarrow> db \<Rightarrow> exclusion_impact_rec" where
  "exclusion_impact client counts experiment d =
     (let rows = filter (\<lambda>x. ex_client_id x = client \<and> ex_experiment x = experiment) (exclusions_in d);
          live = filter (\<lambda>x. ex_revoked_at x = None) rows in
      \<lparr>ei_live_exclusions = length live, ei_revoked_exclusions = length rows - length live,
       ei_orders_excluded = sum_list (map (\<lambda>x. case map_of counts (ex_receiver_key x) of None \<Rightarrow> 0 | Some n \<Rightarrow> n) live),
       ei_orders_total = sum_list (map snd counts)\<rparr>)"

definition share_of_orders :: "exclusion_impact_rec \<Rightarrow> rat" where
  "share_of_orders i = (if ei_orders_total i = 0 then 0 else int_truediv (ei_orders_excluded i) (ei_orders_total i))"

section \<open>arms.py\<close>

definition MIN_CONTROL_FRACTION :: rat where "MIN_CONTROL_FRACTION = fl (5 / 100)"
definition MAX_CONTROL_FRACTION :: rat where "MAX_CONTROL_FRACTION = fl (10 / 100)"

definition STRATUM_UNKNOWN_RECEIVER :: string where
  "STRATUM_UNKNOWN_RECEIVER = ''__no_receiver__''"

definition block_size :: "rat \<Rightarrow> int" where
  "block_size fraction = max 2 (round_half_even (fdiv 1 fraction))"

datatype arm_error = ArmNotContracted uuid | ReceiverExcluded

definition control_arm_is_live :: "client_row \<Rightarrow> bool" where
  "control_arm_is_live client \<longleftrightarrow> client_control_arm_contracted_at client \<noteq> None \<and>
     (case client_control_arm_fraction client of
        None \<Rightarrow> False
      | Some f \<Rightarrow> MIN_CONTROL_FRACTION \<le> f \<and> f \<le> MAX_CONTROL_FRACTION)"

definition int_of_bytes :: "byte list \<Rightarrow> int" where
  "int_of_bytes bs = foldl (\<lambda>n b. 256 * n + int (unat b)) 0 bs"

definition draw :: "string \<Rightarrow> string \<Rightarrow> rat" where
  "draw salt order_key =
     fdiv (of_py_int (int_of_bytes (take 8 (sha256 (encode_utf8 (salt @ '':'' @ order_key)))))) (of_py_int (2 ^ 64))"

datatype enrol_error = Fraction_out_of_band rat | AlreadyEnrolled uuid

definition set_clients :: "client_row list \<Rightarrow> db \<Rightarrow> db" where
  "set_clients cs d = d\<lparr>ops_of := (ops_of d)\<lparr>ledgers_of := (ledgers_of (ops_of d))\<lparr>clients := cs\<rparr>\<rparr>\<rparr>"

definition update_client :: "client_row \<Rightarrow> instant option \<Rightarrow> rat option \<Rightarrow> session \<Rightarrow> session" where
  "update_client client contracted_at fraction s =
     s\<lparr>db := set_clients (update_where (\<lambda>c. client_id c = client_id client)
       (\<lambda>c. c\<lparr>client_control_arm_contracted_at := contracted_at, client_control_arm_fraction := fraction\<rparr>)
       (clients (ledgers_of (ops_of (db s))))) (db s)\<rparr>"

definition enrol_control_arm ::
    "client_row \<Rightarrow> rat \<Rightarrow> instant \<Rightarrow> bool \<Rightarrow> session \<Rightarrow> (enrol_error + client_row) \<times> session" where
  "enrol_control_arm client fraction contracted_at replacing s =
     (if \<not> (MIN_CONTROL_FRACTION \<le> fraction \<and> fraction \<le> MAX_CONTROL_FRACTION) then (Inl (Fraction_out_of_band fraction), s)
      else if client_control_arm_contracted_at client \<noteq> None \<and> \<not> replacing then (Inl (AlreadyEnrolled (client_id client)), s)
      else (Inr (client\<lparr>client_control_arm_contracted_at := Some contracted_at, client_control_arm_fraction := Some fraction\<rparr>),
        update_client client (Some contracted_at) (Some fraction) s))"

definition withdraw_control_arm :: "client_row \<Rightarrow> session \<Rightarrow> client_row \<times> session" where
  "withdraw_control_arm client s =
     (client\<lparr>client_control_arm_contracted_at := None, client_control_arm_fraction := None\<rparr>, update_client client None None s)"

definition assignment_for :: "uuid \<Rightarrow> db \<Rightarrow> arm_assignment_row option" where
  "assignment_for order d = lookup_by ea_order_id order (arms_in d)"

definition arm_for_order :: "uuid \<Rightarrow> db \<Rightarrow> string option" where
  "arm_for_order order d = map_option ea_arm (assignment_for order d)"

definition client_salt :: "uuid \<Rightarrow> string" where
  "client_salt client = EXPERIMENT_CONTROL_ARM @ '':'' @ uuid_text client"

definition chosen_position :: "rat \<Rightarrow> int \<Rightarrow> int" where
  "chosen_position drawn blk = min (trunc (fmul drawn (of_py_int blk))) (blk - 1)"

definition stratum_of :: "string option \<Rightarrow> string" where
  "stratum_of receiver_key = (case receiver_key of None \<Rightarrow> STRATUM_UNKNOWN_RECEIVER
     | Some k \<Rightarrow> if k = [] then STRATUM_UNKNOWN_RECEIVER else k)"

definition stratum_rows :: "uuid \<Rightarrow> string \<Rightarrow> db \<Rightarrow> arm_assignment_row list" where
  "stratum_rows client stratum d =
     filter (\<lambda>a. ea_client_id a = client \<and> ea_receiver_key a = Some stratum \<and> ea_experiment a = EXPERIMENT_CONTROL_ARM) (arms_in d)"

definition new_assignment :: "instant \<Rightarrow> order_row \<Rightarrow> client_row \<Rightarrow> rat \<Rightarrow> string \<Rightarrow> int \<Rightarrow> arm_assignment_row" where
  "new_assignment now order client fraction stratum index =
     (let blk = block_size fraction;
          block_index = index div blk;
          position = index mod blk;
          drawn = draw (client_salt (client_id client)) (stratum @ '':'' @ show_int block_index);
          arm = (if position = chosen_position drawn blk then ARM_CONTROL else ARM_TREATMENT)
      in \<lparr>ea_hub_id = ord_hub_id order, ea_client_id = client_id client, ea_order_id = ord_id order,
          ea_experiment = EXPERIMENT_CONTROL_ARM, ea_arm = arm, ea_assigned_at = now,
          ea_salt = client_salt (client_id client), ea_control_fraction = fraction, ea_draw = drawn,
          ea_contracted_at = client_control_arm_contracted_at client, ea_receiver_key = Some stratum,
          ea_block_size = Some blk, ea_block_index = Some block_index, ea_position_in_block = Some position\<rparr>)"

definition assign_arm ::
    "(db \<Rightarrow> db) \<Rightarrow> instant \<Rightarrow> order_row \<Rightarrow> client_row \<Rightarrow> string option \<Rightarrow> session
      \<Rightarrow> (arm_error + arm_assignment_row) \<times> session" where
  "assign_arm others now order client receiver_key s =
     (case (control_arm_is_live client, client_control_arm_fraction client) of
        (True, Some fraction) \<Rightarrow>
          (case assignment_for (ord_id order) (db s) of
             Some existing \<Rightarrow> (Inr existing, s)
           | None \<Rightarrow>
               let stratum = stratum_of receiver_key;
                   excluded = (case receiver_key of
                      Some k \<Rightarrow> if k = [] then 0 < excluded_receiver_count (client_id client) EXPERIMENT_CONTROL_ARM (db s)
                                else is_excluded (client_id client) k EXPERIMENT_CONTROL_ARM (db s)
                    | None \<Rightarrow> 0 < excluded_receiver_count (client_id client) EXPERIMENT_CONTROL_ARM (db s))
               in if excluded then (Inl ReceiverExcluded, s)
                  else
                    let s1 = s\<lparr>db := others (db s), base := others (base s)\<rparr>;
                        index = int (length (stratum_rows (client_id client) stratum (db s1)));
                        a = new_assignment now order client fraction stratum index
                    in (Inr a, s1\<lparr>db := add_arm a (db s1)\<rparr>))
      | _ \<Rightarrow> (Inl (ArmNotContracted (client_id client)), s))"

definition verify_assignment :: "arm_assignment_row \<Rightarrow> bool" where
  "verify_assignment a =
     (case (ea_block_size a, ea_position_in_block a) of
        (Some blk, Some position) \<Rightarrow>
          let recomputed = draw (ea_salt a) (text_or_None id (ea_receiver_key a) @ '':'' @ text_or_None show_int (ea_block_index a)) in
          if fl (1 / 10 ^ 12) < \<bar>fsub recomputed (ea_draw a)\<bar> then False
          else (if position = chosen_position recomputed blk then ARM_CONTROL else ARM_TREATMENT) = ea_arm a
      | _ \<Rightarrow>
          let recomputed = draw (ea_salt a) (uuid_text (ea_order_id a)) in
          if fl (1 / 10 ^ 12) < \<bar>fsub recomputed (ea_draw a)\<bar> then False
          else (if recomputed < ea_control_fraction a then ARM_CONTROL else ARM_TREATMENT) = ea_arm a)"

section \<open>abstention.py\<close>

definition KIND_ARM_ABSTENTION :: string where "KIND_ARM_ABSTENTION = ''arm_abstention''"
definition DECLINED_TO_HOLD :: string where "DECLINED_TO_HOLD = ''hold''"

definition record_arm_abstention ::
    "instant \<Rightarrow> uuid \<Rightarrow> uuid \<Rightarrow> string \<Rightarrow> instant \<Rightarrow> instant option \<Rightarrow> session \<Rightarrow> outcome_error + (outcome_row \<times> session)" where
  "record_arm_abstention now hub order_id arm occurred_at would_have_held_until s =
     record_outcome now hub ''order'' order_id KIND_ARM_ABSTENTION occurred_at
       \<lparr>ov_delivered_at = None, ov_promised_delivery_by = None, ov_commitment_source = None, ov_sla_tier = None,
        ov_lateness_micros = None, ov_on_time = None, ov_correction_reason = None, ov_arm = Some arm,
        ov_declined = Some DECLINED_TO_HOLD,
        ov_abstention_reason = Some ''order is in the control arm; the batching hold does not apply'',
        ov_would_have_held_until = would_have_held_until\<rparr> None None s"

definition orders_with_an_abstention :: "uuid list \<Rightarrow> db \<Rightarrow> uuid set" where
  "orders_with_an_abstention ids d =
     set (map out_subject_id (filter (\<lambda>e. out_subject_id e \<in> set ids \<and> out_kind e = KIND_ARM_ABSTENTION)
       (outcome_ledger (ledgers_of (ops_of d)))))"

section \<open>integrity.py\<close>

datatype severity = SEVERITY_BLOCKS | SEVERITY_WARNS | SEVERITY_NOTES

record finding =
  fi_check :: string
  fi_severity :: severity

definition CONFIDENCE :: rat where "CONFIDENCE = fl (95 / 100)"
definition MIN_ASSIGNMENTS_FOR_SKEW :: nat where "MIN_ASSIGNMENTS_FOR_SKEW = 100"
definition MAX_COVERAGE_GAP :: rat where "MAX_COVERAGE_GAP = fl (10 / 100)"

definition wilson_interval :: "(rat \<Rightarrow> rat) \<Rightarrow> (rat \<Rightarrow> rat) \<Rightarrow> int \<Rightarrow> int \<Rightarrow> rat \<times> rat" where
  "wilson_interval z_for sqrt_f successes trials =
     (if trials \<le> 0 then (0, 1)
      else
        let z = z_for CONFIDENCE;
            t = of_py_int trials;
            phat = int_truediv successes trials;
            denominator = fadd 1 (fdiv (fmul z z) t);
            centre = fdiv (fadd phat (fdiv (fmul z z) (of_py_int (2 * trials)))) denominator;
            half = fdiv (fmul z (sqrt_f (fadd (fdiv (fmul phat (fsub 1 phat)) t)
              (fdiv (fmul z z) (of_py_int (4 * trials ^ 2)))))) denominator
        in (max 0 (fsub centre half), min 1 (fadd centre half)))"

abbreviation (input) is_control :: "arm_assignment_row \<Rightarrow> bool" where
  "is_control a \<equiv> ea_arm a = ARM_CONTROL"

definition check_verification :: "arm_assignment_row list \<Rightarrow> finding list" where
  "check_verification rows =
     (if \<forall>a \<in> set rows. verify_assignment a then []
      else [\<lparr>fi_check = ''assignments-verify'', fi_severity = SEVERITY_BLOCKS\<rparr>])"

text \<open>The set of fractions is read in the order of first occurrence.\<close>

definition check_skew :: "(rat \<Rightarrow> rat) \<Rightarrow> (rat \<Rightarrow> rat) \<Rightarrow> arm_assignment_row list \<Rightarrow> finding list" where
  "check_skew z_for sqrt_f rows =
     (let controls = int (length (filter is_control rows));
          contracted = remdups (map ea_control_fraction rows) in
      if length rows < MIN_ASSIGNMENTS_FOR_SKEW then [\<lparr>fi_check = ''control-share'', fi_severity = SEVERITY_NOTES\<rparr>]
      else
        let (low, high) = wilson_interval z_for sqrt_f controls (int (length rows));
            expected = fdiv (fsum contracted) (of_py_int (int (length contracted)))
        in if low \<le> expected \<and> expected \<le> high then []
           else [\<lparr>fi_check = ''control-share'', fi_severity = SEVERITY_BLOCKS\<rparr>])"

definition dock_rows :: "arm_assignment_row list \<Rightarrow> string \<Rightarrow> arm_assignment_row list" where
  "dock_rows rows k = filter (\<lambda>a. ea_receiver_key a = Some k \<and> ea_block_size a \<noteq> None) rows"

definition dock_breached :: "arm_assignment_row list \<Rightarrow> string \<Rightarrow> bool" where
  "dock_breached rows k =
     (let dock = dock_rows rows k in
      case dock of [] \<Rightarrow> False
      | a # _ \<Rightarrow> (case ea_block_size a of None \<Rightarrow> False
          | Some blk \<Rightarrow> \<lceil>int_truediv (int (length dock)) blk\<rceil> < int (length (filter is_control dock))))"

definition check_per_dock_guarantee :: "arm_assignment_row list \<Rightarrow> finding list" where
  "check_per_dock_guarantee rows =
     (if \<exists>a \<in> set rows. case ea_receiver_key a of None \<Rightarrow> False | Some k \<Rightarrow> dock_breached rows k
      then [\<lparr>fi_check = ''per-dock-share'', fi_severity = SEVERITY_BLOCKS\<rparr>] else [])"

definition block_place :: "arm_assignment_row \<Rightarrow> string option \<times> int option \<times> int option" where
  "block_place a = (ea_receiver_key a, ea_block_index a, ea_position_in_block a)"

definition check_position_collisions :: "arm_assignment_row list \<Rightarrow> finding list" where
  "check_position_collisions rows =
     (if distinct (map block_place (filter (\<lambda>a. ea_receiver_key a \<noteq> None \<and> ea_position_in_block a \<noteq> None) rows)) then []
      else [\<lparr>fi_check = ''position-collisions'', fi_severity = SEVERITY_WARNS\<rparr>])"

definition check_terms_drift :: "arm_assignment_row list \<Rightarrow> finding list" where
  "check_terms_drift rows =
     (if 1 < length (remdups (map ea_control_fraction rows)) then [\<lparr>fi_check = ''terms-drift'', fi_severity = SEVERITY_BLOCKS\<rparr>] else []) @
     (if 1 < length (remdups (map ea_contracted_at rows)) then [\<lparr>fi_check = ''clause-drift'', fi_severity = SEVERITY_WARNS\<rparr>] else [])"

definition check_differential_coverage :: "db \<Rightarrow> arm_assignment_row list \<Rightarrow> finding list" where
  "check_differential_coverage d rows =
     (let costed = set (map out_subject_id (filter (\<lambda>e. out_kind e = ''cost'') (outcome_ledger (ledgers_of (ops_of d)))));
          controls = filter is_control rows;
          treatments = filter (\<lambda>a. ea_arm a = ARM_TREATMENT) rows;
          coverage = (\<lambda>xs. int_truediv (int (length (filter (\<lambda>a. ea_order_id a \<in> costed) xs))) (int (length xs)))
      in if length controls < 20 \<or> length treatments < 20 then []
         else if MAX_COVERAGE_GAP < \<bar>fsub (coverage treatments) (coverage controls)\<bar>
         then [\<lparr>fi_check = ''differential-coverage'', fi_severity = SEVERITY_BLOCKS\<rparr>] else [])"

definition check_abstentions_recorded :: "db \<Rightarrow> arm_assignment_row list \<Rightarrow> finding list" where
  "check_abstentions_recorded d rows =
     (let controls = map ea_order_id (filter is_control rows) in
      if set controls \<subseteq> orders_with_an_abstention controls d then []
      else [\<lparr>fi_check = ''abstentions-recorded'', fi_severity = SEVERITY_BLOCKS\<rparr>])"

definition arms_between :: "uuid \<Rightarrow> instant \<Rightarrow> instant \<Rightarrow> db \<Rightarrow> arm_assignment_row list" where
  "arms_between client since until d =
     filter (\<lambda>a. ea_client_id a = client \<and> ea_experiment a = EXPERIMENT_CONTROL_ARM \<and> since \<le> ea_assigned_at a \<and>
       ea_assigned_at a < until) (arms_in d)"

definition check_arm_integrity :: "(rat \<Rightarrow> rat) \<Rightarrow> (rat \<Rightarrow> rat) \<Rightarrow> uuid \<Rightarrow> instant \<Rightarrow> instant \<Rightarrow> db \<Rightarrow> finding list" where
  "check_arm_integrity z_for sqrt_f client since until d =
     (let rows = arms_between client since until d in
      \<lparr>fi_check = ''downstream-batching-is-unverifiable'', fi_severity = SEVERITY_NOTES\<rparr> #
      (if rows = [] then [\<lparr>fi_check = ''no-assignments'', fi_severity = SEVERITY_NOTES\<rparr>]
       else check_verification rows @ check_skew z_for sqrt_f rows @ check_per_dock_guarantee rows @
         check_position_collisions rows @ check_terms_drift rows @ check_differential_coverage d rows @
         check_abstentions_recorded d rows))"

definition blocks_a_statement :: "finding list \<Rightarrow> bool" where
  "blocks_a_statement findings \<longleftrightarrow> (\<exists>f \<in> set findings. fi_severity f = SEVERITY_BLOCKS)"

section \<open>Lemmas\<close>

lemma fl_error:
  assumes "0 < x" shows "\<bar>fl x - x\<bar> \<le> x / 2 ^ 53"
proof -
  let ?u = "2 powi (flog2 x - 52) :: rat"
  have u: "0 < ?u" by (simp add: zero_less_power_int)
  have split: "(2 powi flog2 x :: rat) = 2 ^ 52 * ?u"
    using power_int_add [of "2::rat" 52 "flog2 x - 52"] by simp
  have "fl x - x = (of_int (round_half_even (x / ?u)) - x / ?u) * ?u" using u by (simp add: fl_pos [OF assms] left_diff_distrib)
  then have "\<bar>fl x - x\<bar> = \<bar>of_int (round_half_even (x / ?u)) - x / ?u\<bar> * ?u" using u by (simp add: abs_mult)
  also have "\<dots> \<le> 1 / 2 * ?u" using round_half_even_near u by (intro mult_right_mono) auto
  also have "\<dots> \<le> x / 2 ^ 53" using flog2_bounds(1) [OF assms] split by simp
  finally show ?thesis .
qed

text \<open>The ceiling of a float quotient is never below that of the exact one.\<close>

lemma ceiling_int_truediv:
  assumes "0 \<le> n" "n < 2 ^ 53" "0 < blk" "c \<le> \<lceil>of_int n / of_int blk :: rat\<rceil>"
  shows "c \<le> \<lceil>int_truediv n blk\<rceil>"
proof (cases "n = 0")
  case True then show ?thesis using assms(4) by (simp add: int_truediv_def)
next
  case False
  let ?x = "of_int n / of_int blk :: rat"
  have x: "0 < ?x" using False assms by simp
  have "of_int (c - 1) < ?x" using assms(4) by (simp add: le_ceiling_iff)
  then have "of_int ((c - 1) * blk) < (of_int n :: rat)" using assms(3) by (simp add: pos_less_divide_eq)
  then have "(c - 1) * blk + 1 \<le> n" by (simp only: of_int_less_iff)
  then have "of_int ((c - 1) * blk + 1) \<le> (of_int n :: rat)" by (simp only: of_int_le_iff)
  then have "(of_int (c - 1) + 1 / of_int blk) * of_int blk \<le> (of_int n :: rat)" using assms(3) by (simp add: distrib_right)
  then have gap: "of_int (c - 1) + 1 / of_int blk \<le> ?x" using assms(3) by (simp only: pos_le_divide_eq of_int_0_less_iff)
  have "(of_int n :: rat) < of_int (2 ^ 53)" using assms(2) by (simp only: of_int_less_iff)
  then have "?x / 2 ^ 53 < 1 / of_int blk" using assms(3) by (simp add: field_simps)
  with fl_error [OF x] gap have "of_int (c - 1) < fl ?x" by linarith
  then show ?thesis by (simp add: int_truediv_def le_ceiling_iff)
qed

lemma ceiling_int_truediv_one: "0 \<le> n \<Longrightarrow> n \<le> blk \<Longrightarrow> 0 < blk \<Longrightarrow> \<lceil>int_truediv n blk\<rceil> \<le> 1"
  using fl_mono [of "of_int n / of_int blk" 1] fl_of_int [of 1] by (simp add: int_truediv_def ceiling_le_iff)

lemma block_size_ge_2: "2 \<le> block_size f" by (simp add: block_size_def)

lemma draw_nonneg: "0 \<le> draw salt k"
proof -
  have "0 \<le> acc \<Longrightarrow> 0 \<le> foldl (\<lambda>n b. 256 * n + int (unat b)) acc bs" for acc and bs :: "byte list"
    by (induction bs arbitrary: acc) auto
  then show ?thesis by (auto simp: draw_def int_of_bytes_def intro!: fdiv_nonneg of_py_int_nonneg)
qed

lemma chosen_position_range:
  assumes "0 \<le> x" "1 \<le> blk" shows "0 \<le> chosen_position x blk" "chosen_position x blk < blk"
proof -
  have "0 \<le> fmul x (of_py_int blk)" using assms by (intro fmul_nonneg of_py_int_nonneg) auto
  then show "0 \<le> chosen_position x blk" "chosen_position x blk < blk"
    using assms(2) by (auto simp: chosen_position_def trunc_def)
qed

subsection \<open>One slot in every block\<close>

text \<open>
  What the stratification rests on: places handed out in order, in blocks of one length, and in each
  block one chosen place.
\<close>

locale permuted_blocks =
  fixes blk :: nat and chosen :: "nat \<Rightarrow> nat"
  assumes blk_pos: "0 < blk" and chosen_less: "chosen b < blk"
begin

lemma chosen_place: "i div blk = b \<Longrightarrow> i mod blk = chosen (i div blk) \<longleftrightarrow> i = b * blk + chosen b"
  using chosen_less [of b] by (metis div_mod_decomp mod_mult_self3 mod_less add.commute)

lemma control_slot: "(b * blk + chosen b) mod blk = chosen ((b * blk + chosen b) div blk)"
  using chosen_less [of b] by simp

lemma two_from_slot_to_slot:
  "length (filter (\<lambda>i. i mod blk = chosen (i div blk)) [b * blk + chosen b..<Suc (Suc b * blk + chosen (Suc b))]) = 2"
proof -
  let ?i = "b * blk + chosen b" and ?j = "Suc b * blk + chosen (Suc b)"
  have less: "chosen b < blk" "chosen (Suc b) < blk" by (rule chosen_less)+
  have ij: "?i < ?j" using less by simp
  have "\<not> x mod blk = chosen (x div blk)" if "x \<in> set [Suc ?i..<?j]" for x
  proof
    assume slot: "x mod blk = chosen (x div blk)"
    have "b \<le> x div blk" "x div blk < Suc (Suc b)"
      using that less by (simp_all add: less_eq_div_iff_mult_less_eq [OF blk_pos] div_less_iff_less_mult [OF blk_pos])
    then have "x div blk = b \<or> x div blk = Suc b" by linarith
    with slot that show False using chosen_place [of x "x div blk"] by auto
  qed
  then have "filter (\<lambda>i. i mod blk = chosen (i div blk)) [Suc ?i..<?j] = []" by (simp add: filter_empty_conv)
  moreover have "[?i..<Suc ?j] = ?i # [Suc ?i..<?j] @ [?j]" using ij by (simp add: upt_conv_Cons)
  ultimately show ?thesis using control_slot [of b] control_slot [of "Suc b"] by (simp del: mult_Suc upt_Suc)
qed

lemma one_in_each_block: "filter (\<lambda>i. i mod blk = chosen (i div blk)) [b * blk..<Suc b * blk] = [b * blk + chosen b]"
proof -
  have "i div blk = b" if "i \<in> set [b * blk..<Suc b * blk]" for i using that blk_pos
    by (auto intro: div_nat_eqI simp: mult.commute)
  then have "filter (\<lambda>i. i mod blk = chosen (i div blk)) [b * blk..<Suc b * blk] =
      filter (\<lambda>i. i = b * blk + chosen b) [b * blk..<Suc b * blk]"
    by (intro filter_cong refl) (rule chosen_place)
  also have "\<dots> = [b * blk + chosen b]"
    using chosen_less [of b] by (intro distinct_set_single) auto
  finally show ?thesis .
qed

lemma at_most_one_per_started_block:
  "int (length (filter (\<lambda>i. i mod blk = chosen (i div blk)) [0..<n])) \<le> \<lceil>of_nat n / of_nat blk :: rat\<rceil>"
proof -
  let ?A = "{i. i < n \<and> i mod blk = chosen (i div blk)}"
  let ?m = "nat \<lceil>of_nat n / of_nat blk :: rat\<rceil>"
  have "inj_on (\<lambda>i. i div blk) ?A" by (rule inj_onI) (metis (mono_tags, lifting) chosen_place mem_Collect_eq)
  moreover have "i div blk < ?m" if "i < n" for i
  proof -
    have "of_nat (i div blk * blk) < (of_nat n :: rat)" using that by (simp only: of_nat_less_iff) (meson div_times_less_eq_dividend le_less_trans)
    then have "of_int (int (i div blk)) < (of_nat n / of_nat blk :: rat)" using blk_pos by (simp add: pos_less_divide_eq)
    then show ?thesis by linarith
  qed
  ultimately have "card ?A \<le> card {..<?m}" by (intro card_inj_on_le) auto
  moreover have "length (filter (\<lambda>i. i mod blk = chosen (i div blk)) [0..<n]) = card ?A"
    by (subst distinct_card [symmetric]) (auto intro: arg_cong [where f = card])
  moreover have "0 \<le> \<lceil>of_nat n / of_nat blk :: rat\<rceil>" by (simp add: le_ceiling_iff less_le_trans [of _ 0])
  ultimately show ?thesis by (simp only: card_lessThan)
qed

end

text \<open>The control place of block \<open>b\<close> of a dock.\<close>

definition control_place :: "uuid \<Rightarrow> rat \<Rightarrow> string \<Rightarrow> nat \<Rightarrow> nat" where
  "control_place client f stratum b =
     nat (chosen_position (draw (client_salt client) (stratum @ '':'' @ show_int (int b))) (block_size f))"

interpretation dock: permuted_blocks "nat (block_size f)" "control_place client f stratum" for f client stratum
  using block_size_ge_2 [of f] chosen_position_range [OF draw_nonneg, of "block_size f"]
  by unfold_locales (simp_all add: control_place_def nat_less_iff)

subsection \<open>Histories\<close>

text \<open>The row an order got as the \<open>i\<close>-th of its dock, and a table in which every dock's rows are those in order.\<close>

definition in_block :: "uuid \<Rightarrow> rat \<Rightarrow> string \<Rightarrow> nat \<Rightarrow> arm_assignment_row \<Rightarrow> bool" where
  "in_block c f k i a \<longleftrightarrow>
     ea_block_size a = Some (block_size f) \<and> ea_block_index a = Some (int (i div nat (block_size f))) \<and>
     ea_position_in_block a = Some (int (i mod nat (block_size f))) \<and> ea_salt a = client_salt c \<and>
     ea_draw a = draw (client_salt c) (k @ '':'' @ show_int (int (i div nat (block_size f)))) \<and> ea_control_fraction a = f \<and>
     ea_arm a = (if i mod nat (block_size f) = control_place c f k (i div nat (block_size f)) then ARM_CONTROL else ARM_TREATMENT)"

definition arm_history_ok :: "uuid \<Rightarrow> rat \<Rightarrow> db \<Rightarrow> bool" where
  "arm_history_ok c f d \<longleftrightarrow>
     (\<forall>a \<in> set (arms_in d). ea_client_id a = c \<and> ea_experiment a = EXPERIMENT_CONTROL_ARM \<longrightarrow> ea_receiver_key a \<noteq> None) \<and>
     (\<forall>k i. i < length (stratum_rows c k d) \<longrightarrow> in_block c f k i (stratum_rows c k d ! i))"

lemma arms_in_add_arm [simp]: "arms_in (add_arm a d) = arms_in d @ [a]"
  by (simp add: add_arm_def)

lemma stratum_rows_add_arm:
  "stratum_rows c k (add_arm a d) = stratum_rows c k d @
     (if ea_client_id a = c \<and> ea_receiver_key a = Some k \<and> ea_experiment a = EXPERIMENT_CONTROL_ARM then [a] else [])"
  by (simp add: stratum_rows_def)

lemma new_assignment_sel [simp]:
  "ea_client_id (new_assignment now order client f k i) = client_id client"
  "ea_receiver_key (new_assignment now order client f k i) = Some k"
  "ea_experiment (new_assignment now order client f k i) = EXPERIMENT_CONTROL_ARM"
  "ea_order_id (new_assignment now order client f k i) = ord_id order"
  by (simp_all add: new_assignment_def Let_def)

lemma in_block_new_assignment: "in_block (client_id client) f k i (new_assignment now order client f k (int i))"
proof -
  obtain n where n: "block_size f = int n" using block_size_ge_2 [of f] by (metis nonneg_int_cases order_trans zero_le_numeral)
  show ?thesis
    using chosen_position_range(1) [OF draw_nonneg, of "int n"] block_size_ge_2 [of f]
    by (simp add: in_block_def new_assignment_def Let_def n control_place_def nat_eq_iff2 flip: zdiv_int zmod_int)
qed

lemma arm_history_ok_add:
  assumes "arm_history_ok (client_id client) f d"
  shows "arm_history_ok (client_id client) f
    (add_arm (new_assignment now order client f k (int (length (stratum_rows (client_id client) k d)))) d)"
  using assms in_block_new_assignment [of client f k "length (stratum_rows (client_id client) k d)" now order]
  by (auto simp: arm_history_ok_def stratum_rows_add_arm nth_append less_Suc_eq)

lemma assign_arm_history:
  assumes "arm_history_ok (client_id client) f (db s)" "arm_history_ok (client_id client) f (others (db s))"
    "client_control_arm_fraction client = Some f"
  shows "arm_history_ok (client_id client) f (db (snd (assign_arm others now order client key s)))"
  using assms arm_history_ok_add [of client f "others (db s)" now order]
  by (auto simp: assign_arm_def Let_def split: option.split bool.split)

lemma is_control_nth:
  "arm_history_ok c f d \<Longrightarrow> i < length (stratum_rows c k d) \<Longrightarrow>
     is_control (stratum_rows c k d ! i) \<longleftrightarrow> i mod nat (block_size f) = control_place c f k (i div nat (block_size f))"
  by (simp add: arm_history_ok_def in_block_def ARM_CONTROL_def ARM_TREATMENT_def)

lemma map_nth_slice: "j \<le> length xs \<Longrightarrow> map ((!) xs) [i..<j] = take (j - i) (drop i xs)"
  by (rule nth_equalityI) auto

lemma controls_of_slice:
  assumes "arm_history_ok c f d" "j \<le> length (stratum_rows c k d)"
  shows "length (filter is_control (take (j - i) (drop i (stratum_rows c k d)))) =
    length (filter (\<lambda>i. i mod nat (block_size f) = control_place c f k (i div nat (block_size f))) [i..<j])"
proof -
  have "filter (is_control \<circ> (!) (stratum_rows c k d)) [i..<j] =
      filter (\<lambda>i. i mod nat (block_size f) = control_place c f k (i div nat (block_size f))) [i..<j]"
    using assms by (intro filter_cong refl) (simp add: is_control_nth)
  then show ?thesis using assms(2) by (simp add: filter_map flip: map_nth_slice)
qed

lemma block_controls:
  assumes "arm_history_ok c f d" "Suc b * nat (block_size f) \<le> length (stratum_rows c k d)"
  shows "length (filter is_control (take (nat (block_size f)) (drop (b * nat (block_size f)) (stratum_rows c k d)))) = 1"
  using controls_of_slice [OF assms, of "b * nat (block_size f)"] dock.one_in_each_block [of f c k b] by simp

lemma dock_controls:
  assumes "arm_history_ok c f d"
  shows "int (length (filter is_control (stratum_rows c k d))) \<le>
    \<lceil>of_nat (length (stratum_rows c k d)) / of_nat (nat (block_size f)) :: rat\<rceil>"
  using controls_of_slice [OF assms order_refl, of k 0] dock.at_most_one_per_started_block [of f c k "length (stratum_rows c k d)"]
  by simp

lemma in_block_verifies:
  assumes "in_block c f k i a" "ea_receiver_key a = Some k" shows "verify_assignment a"
proof -
  have "fl (1 / 10 ^ 12) < 0 \<Longrightarrow> False" using fl_nonneg [of "1 / 10 ^ 12"] by simp
  then show ?thesis
    using assms chosen_position_range(1) [OF draw_nonneg, of "block_size f"] block_size_ge_2 [of f]
    by (auto simp: verify_assignment_def in_block_def text_or_None_def Let_def fsub_def control_place_def nat_eq_iff2)
qed

section \<open>Properties\<close>

text \<open>Intakes of one client's orders one after another, each with what others commit while it waits for the lock.\<close>

fun assign_arms :: "client_row \<Rightarrow> ((db \<Rightarrow> db) \<times> instant \<times> order_row \<times> string option) list \<Rightarrow> session \<Rightarrow> session" where
  "assign_arms client [] s = s"
| "assign_arms client ((others, now, order, key) # rest) s =
     assign_arms client rest (snd (assign_arm others now order client key s))"

lemma assign_arms_history:
  assumes "client_control_arm_fraction client = Some f"
    "\<forall>x \<in> set intakes. \<forall>d. arm_history_ok (client_id client) f d \<longrightarrow> arm_history_ok (client_id client) f (fst x d)"
  shows "arm_history_ok (client_id client) f (db s) \<Longrightarrow> arm_history_ok (client_id client) f (db (assign_arms client intakes s))"
  using assms(2)
proof (induction intakes arbitrary: s)
  case (Cons x intakes)
  obtain others now order key where x: "x = (others, now, order, key)" by (cases x)
  have "arm_history_ok (client_id client) f (db (snd (assign_arm others now order client key s)))"
    using Cons.prems assms(1) by (intro assign_arm_history) (auto simp: x)
  with Cons show ?case by (simp add: x)
qed simp

lemma stratum_row_key: "i < length (stratum_rows c k d) \<Longrightarrow> ea_receiver_key (stratum_rows c k d ! i) = Some k"
  using nth_mem [of i "stratum_rows c k d"] by (simp add: stratum_rows_def)

lemma arm_history_verifies:
  assumes "arm_history_ok c f d" "a \<in> set (stratum_rows c k d)" shows "verify_assignment a"
  using assms in_block_verifies stratum_row_key by (metis arm_history_ok_def in_set_conv_nth)

text \<open>
  (C31) However intakes of a client's orders interleave, while its contracted fraction stays the same every full
  block of a dock's orders has exactly one control order, a dock never has more control orders than
  blocks begun, and every arm recomputes from its row.
\<close>

theorem one_control_order_per_block:
  assumes "client_control_arm_fraction client = Some f" "arm_history_ok (client_id client) f (db s)"
    "\<forall>x \<in> set intakes. \<forall>d. arm_history_ok (client_id client) f d \<longrightarrow> arm_history_ok (client_id client) f (fst x d)"
  shows "let n = nat (block_size f); rows = stratum_rows (client_id client) k (db (assign_arms client intakes s)) in
    (Suc b * n \<le> length rows \<longrightarrow> length (filter is_control (take n (drop (b * n) rows))) = 1) \<and>
    int (length (filter is_control rows)) \<le> \<lceil>of_nat (length rows) / of_nat n :: rat\<rceil> \<and>
    list_all verify_assignment rows"
  using assign_arms_history [OF assms(1,3,2)]
  by (simp add: Let_def block_controls dock_controls list_all_iff) (auto intro: arm_history_verifies)

subsection \<open>The monitor\<close>

lemma dock_rows_between:
  assumes "arm_history_ok c f d"
  shows "dock_rows (arms_between c since until d) k =
    filter (\<lambda>a. since \<le> ea_assigned_at a \<and> ea_assigned_at a < until) (stratum_rows c k d)"
proof -
  have "ea_block_size a \<noteq> None" if "a \<in> set (stratum_rows c k d)" for a
    using that assms by (auto simp: in_set_conv_nth arm_history_ok_def in_block_def)
  then show ?thesis
    unfolding dock_rows_def arms_between_def stratum_rows_def filter_filter by (intro filter_cong) auto
qed

lemma dock_breached_iff:
  assumes "arm_history_ok c f d" "rows = dock_rows (arms_between c since until d) k" "rows \<noteq> []"
  shows "dock_breached (arms_between c since until d) k \<longleftrightarrow>
    \<lceil>int_truediv (int (length rows)) (block_size f)\<rceil> < int (length (filter is_control rows))"
proof -
  obtain a as where rows: "rows = a # as" using assms(3) by (cases rows) auto
  then have "a \<in> set (stratum_rows c k d)"
    using assms(2) by (metis dock_rows_between [OF assms(1)] filter_is_subset list.set_intros(1) subsetD)
  then have "ea_block_size a = Some (block_size f)"
    using assms(1) by (auto simp: in_set_conv_nth arm_history_ok_def in_block_def)
  then show ?thesis by (simp add: dock_breached_def rows flip: assms(2))
qed

lemma window_slice:
  assumes "sorted_wrt (<) (map ea_assigned_at rows)" "i \<le> j" "j < length rows"
  shows "filter (\<lambda>a. ea_assigned_at (rows ! i) \<le> ea_assigned_at a \<and> ea_assigned_at a < ea_assigned_at (rows ! j) + 1) rows =
    map ((!) rows) [i..<Suc j]"
proof -
  have less: "ea_assigned_at (rows ! x) < ea_assigned_at (rows ! y)" if "x < y" "y < length rows" for x y
    using assms(1) that by (simp add: sorted_wrt_iff_nth_less)
  have "(ea_assigned_at (rows ! i) \<le> ea_assigned_at (rows ! x) \<and> ea_assigned_at (rows ! x) < ea_assigned_at (rows ! j) + 1) \<longleftrightarrow>
      i \<le> x \<and> x \<le> j" if "x < length rows" for x
    using less [of x i] less [of i x] less [of j x] less [of x j] assms(2,3) that by (cases x i rule: linorder_cases; cases x j rule: linorder_cases) auto
  then have "filter ((\<lambda>a. ea_assigned_at (rows ! i) \<le> ea_assigned_at a \<and> ea_assigned_at a < ea_assigned_at (rows ! j) + 1) \<circ> (!) rows)
      [0..<length rows] = filter (\<lambda>x. i \<le> x \<and> x \<le> j) [0..<length rows]"
    by (intro filter_cong) auto
  also have "\<dots> = [i..<Suc j]" using assms(2,3)
    by (intro sorted_distinct_set_unique) (auto simp: sorted_wrt_filter simp del: upt_Suc)
  finally show ?thesis
    using filter_map [of "\<lambda>a. ea_assigned_at (rows ! i) \<le> ea_assigned_at a \<and> ea_assigned_at a < ea_assigned_at (rows ! j) + 1" "(!) rows" "[0..<length rows]"]
    by (simp only: map_nth)
qed

lemma in_window:
  assumes "arm_history_ok c f d" "a \<in> set (arms_between c since until d)"
  obtains k i where "a = stratum_rows c k d ! i" "i < length (stratum_rows c k d)" "in_block c f k i a" "ea_receiver_key a = Some k"
proof -
  obtain k where k: "ea_receiver_key a = Some k" using assms by (force simp: arm_history_ok_def arms_between_def)
  then have "a \<in> set (stratum_rows c k d)" using assms(2) by (simp add: stratum_rows_def arms_between_def)
  then obtain i where "i < length (stratum_rows c k d)" "stratum_rows c k d ! i = a" by (metis in_set_conv_nth)
  with k that show thesis using assms(1) by (metis arm_history_ok_def)
qed

lemma distinct_map_by_class:
  assumes "\<And>k. distinct (map g (filter (\<lambda>a. h a = k) xs))" "\<And>a b. g a = g b \<Longrightarrow> h a = h b"
  shows "distinct (map g xs)"
  using assms(1)
proof (induction xs)
  case (Cons x xs)
  have "distinct (map g (filter (\<lambda>a. h a = k) xs))" for k using Cons.prems [of k] by (cases "h x = k") simp_all
  moreover have "g x \<noteq> g y" if "y \<in> set xs" for y
  proof
    assume same: "g x = g y"
    then have "h x = h y" by (rule assms(2))
    with same that Cons.prems [of "h x"] show False by (auto simp: image_iff)
  qed
  ultimately show ?case using Cons.IH by auto
qed simp

lemma dock_places_distinct: "arm_history_ok c f d \<Longrightarrow> distinct (map block_place (stratum_rows c k d))"
  using block_size_ge_2 [of f]
  by (auto simp: distinct_conv_nth arm_history_ok_def in_block_def block_place_def) (metis div_mult_mod_eq)

lemma window_places_distinct:
  assumes "arm_history_ok c f d" shows "distinct (map block_place (arms_between c since until d))"
proof (rule distinct_map_by_class [where h = ea_receiver_key])
  fix k :: "string option"
  show "distinct (map block_place (filter (\<lambda>a. ea_receiver_key a = k) (arms_between c since until d)))"
  proof (cases k)
    case None
    then have "filter (\<lambda>a. ea_receiver_key a = k) (arms_between c since until d) = []"
      using assms by (auto simp: filter_empty_conv arms_between_def arm_history_ok_def)
    then show ?thesis by simp
  next
    case (Some x)
    then have "filter (\<lambda>a. ea_receiver_key a = k) (arms_between c since until d) =
        filter (\<lambda>a. since \<le> ea_assigned_at a \<and> ea_assigned_at a < until) (stratum_rows c x d)"
      unfolding arms_between_def stratum_rows_def filter_filter by (intro filter_cong) auto
    then show ?thesis using dock_places_distinct [OF assms] by (simp add: distinct_map_filter)
  qed
qed (simp add: block_place_def)

text \<open>What no window of a fair history ever shows.\<close>

lemma fair_window:
  assumes "arm_history_ok c f d"
  shows "check_verification (arms_between c since until d) = []" "check_position_collisions (arms_between c since until d) = []"
    "\<forall>x \<in> set (check_terms_drift (arms_between c since until d)). fi_severity x \<noteq> SEVERITY_BLOCKS"
proof -
  have "verify_assignment a" if "a \<in> set (arms_between c since until d)" for a
    using in_window [OF assms that] in_block_verifies by metis
  then show "check_verification (arms_between c since until d) = []" by (simp add: check_verification_def)
  show "check_position_collisions (arms_between c since until d) = []"
    using window_places_distinct [OF assms] by (simp add: check_position_collisions_def distinct_map_filter)
  have "ea_control_fraction a = f" if "a \<in> set (arms_between c since until d)" for a
    using in_window [OF assms that] by (metis in_block_def)
  then have "set (map ea_control_fraction (arms_between c since until d)) \<subseteq> {f}" by auto
  then have "length (remdups (map ea_control_fraction (arms_between c since until d))) \<le> 1"
    by (metis card_mono finite.emptyI finite_insert is_singletonI is_singleton_altdef length_remdups_card_conv)
  then show "\<forall>x \<in> set (check_terms_drift (arms_between c since until d)). fi_severity x \<noteq> SEVERITY_BLOCKS"
    by (simp add: check_terms_drift_def)
qed

text \<open>
  (C32) Take the window from the control order of one block of a dock to that of the next block, in a history in which
  every order got its arm as it should. It shows two control orders, and the monitor's per-dock test, which
  counts per window and not per block, blocks a statement on it exactly when the second comes earlier in its block than the first.
\<close>

theorem fair_window_can_be_blocked:
  assumes "arm_history_ok c f d" "rows = stratum_rows c k d" "n = nat (block_size f)"
    "i = b * n + control_place c f k b" "j = Suc b * n + control_place c f k (Suc b)" "j < length rows"
    "length rows < 2 ^ 53" "sorted_wrt (<) (map ea_assigned_at rows)"
  shows "let since = ea_assigned_at (rows ! i); until = ea_assigned_at (rows ! j) + 1; win = arms_between c since until d in
    check_verification win = [] \<and> check_position_collisions win = [] \<and>
    (dock_breached win k \<longleftrightarrow> control_place c f k (Suc b) < control_place c f k b) \<and>
    (dock_breached win k \<longrightarrow>
      \<lparr>fi_check = ''per-dock-share'', fi_severity = SEVERITY_BLOCKS\<rparr> \<in> set (check_arm_integrity z_for sqrt_f c since until d))"
proof -
  let ?since = "ea_assigned_at (rows ! i)" and ?until = "ea_assigned_at (rows ! j) + 1"
  let ?win = "arms_between c ?since ?until d"
  have n: "0 < n" "int n = block_size f" using block_size_ge_2 [of f] by (simp_all add: assms(3))
  have places: "control_place c f k b < n" "control_place c f k (Suc b) < n"
    using dock.chosen_less [of c f k] by (simp_all add: assms(3))
  have ij: "i < j" "int (Suc j - i) = int n - int (control_place c f k b) + int (control_place c f k (Suc b)) + 1"
    using places by (simp_all add: assms(4,5))
  have dock: "dock_rows ?win k = take (Suc j - i) (drop i rows)"
    using window_slice [OF assms(8) less_imp_le [OF ij(1)] assms(6)] map_nth_slice [of "Suc j" rows i] assms(6)
    unfolding dock_rows_between [OF assms(1)] by (simp only: assms(2) Suc_leI)
  have len: "length (dock_rows ?win k) = Suc j - i" using assms(6) ij(1) by (simp add: dock)
  have two: "length (filter is_control (dock_rows ?win k)) = 2"
    using controls_of_slice [OF assms(1), of "Suc j" k i] assms(6)
      dock.two_from_slot_to_slot [where b = b and f = f and client = c and stratum = k]
    unfolding dock unfolding assms(2-5) by (simp del: upt_Suc mult_Suc)
  have ne: "dock_rows ?win k \<noteq> []" using len ij(1) by force
  have "dock_breached ?win k \<longleftrightarrow> \<lceil>int_truediv (int (Suc j - i)) (int n)\<rceil> < 2"
    unfolding dock_breached_iff [OF assms(1) refl ne] two len n(2) by simp
  also have "\<dots> \<longleftrightarrow> control_place c f k (Suc b) < control_place c f k b"
  proof
    assume "control_place c f k (Suc b) < control_place c f k b"
    then have "\<lceil>int_truediv (int (Suc j - i)) (int n)\<rceil> \<le> 1" using ij n by (intro ceiling_int_truediv_one) auto
    then show "\<lceil>int_truediv (int (Suc j - i)) (int n)\<rceil> < 2" by simp
  next
    assume less: "\<lceil>int_truediv (int (Suc j - i)) (int n)\<rceil> < 2"
    have "int (Suc j - i) < 2 ^ 53" using assms(6,7) by simp
    then have "\<not> 2 \<le> \<lceil>of_int (int (Suc j - i)) / of_int (int n) :: rat\<rceil>"
      using ceiling_int_truediv [of "int (Suc j - i)" "int n" 2] less n(1) by auto
    then have "of_int (int (Suc j - i)) \<le> (of_int (int n) :: rat)" using n(1) by (simp add: le_ceiling_iff not_less)
    then show "control_place c f k (Suc b) < control_place c f k b" using ij(2) unfolding of_int_le_iff by linarith
  qed
  finally have breached: "dock_breached ?win k \<longleftrightarrow> control_place c f k (Suc b) < control_place c f k b" .
  obtain a where "a \<in> set (dock_rows ?win k)" using ne by (cases "dock_rows ?win k") auto
  then have "a \<in> set ?win" "ea_receiver_key a = Some k" by (simp_all add: dock_rows_def)
  then have "?win \<noteq> []" "dock_breached ?win k \<Longrightarrow> \<lparr>fi_check = ''per-dock-share'', fi_severity = SEVERITY_BLOCKS\<rparr> \<in> set (check_per_dock_guarantee ?win)"
    by (force simp: check_per_dock_guarantee_def)+
  then show ?thesis using fair_window [OF assms(1)] breached by (simp add: check_arm_integrity_def Let_def)
qed

text \<open>
  A window that starts with the client's first assignment under its contract is blocked only on the counts the arm
  cannot promise: the share over all docks, missing costs or missing abstentions; never for an arm that
  does not verify, a dock with too many control orders or mixed terms, and no place is handed out twice.
\<close>

theorem fair_history_passes:
  assumes "arm_history_ok c f d" "length (arms_in d) < 2 ^ 53"
    "\<forall>a \<in> set (arms_in d). since \<le> ea_assigned_at a \<and> ea_assigned_at a < until"
    "x \<in> set (check_arm_integrity z_for sqrt_f c since until d)"
  shows "fi_check x \<noteq> ''position-collisions'' \<and>
    (fi_severity x = SEVERITY_BLOCKS \<longrightarrow> fi_check x \<in> {''control-share'', ''differential-coverage'', ''abstentions-recorded''})"
proof -
  let ?win = "arms_between c since until d"
  have "\<not> dock_breached ?win k" if "dock_rows ?win k \<noteq> []" for k
  proof -
    have dock: "dock_rows ?win k = stratum_rows c k d"
      unfolding dock_rows_between [OF assms(1)] using assms(3) by (intro filter_True) (auto simp: stratum_rows_def)
    have "length (stratum_rows c k d) \<le> length (arms_in d)" by (simp add: stratum_rows_def)
    then have "int (length (stratum_rows c k d)) < 2 ^ 53" using assms(2) by simp
    then have "int (length (filter is_control (stratum_rows c k d))) \<le> \<lceil>int_truediv (int (length (stratum_rows c k d))) (block_size f)\<rceil>"
      using dock_controls [OF assms(1), of k] block_size_ge_2 [of f] by (intro ceiling_int_truediv) auto
    then show ?thesis using dock_breached_iff [OF assms(1) refl that] by (simp add: dock)
  qed
  moreover have "\<not> dock_breached ?win k" if "dock_rows ?win k = []" for k using that by (simp add: dock_breached_def)
  ultimately have "\<not> dock_breached ?win k" for k by blast
  then have "check_per_dock_guarantee ?win = []" by (simp add: check_per_dock_guarantee_def split: option.split)
  then show ?thesis
    using fair_window [OF assms(1), of since until] assms(4)
    by (auto simp: check_arm_integrity_def Let_def check_skew_def check_differential_coverage_def check_abstentions_recorded_def
        check_terms_drift_def split: if_splits prod.splits)
qed

subsection \<open>Examples\<close>
definition sample_enrolled :: client_row where
  "sample_enrolled = \<lparr>client_id = 2, client_hub_id = 1, client_control_arm_contracted_at = Some 1,
     client_control_arm_fraction = Some MAX_CONTROL_FRACTION\<rparr>"

lemma sample_enrolled_sel [simp]:
  "client_id sample_enrolled = 2" "client_control_arm_fraction sample_enrolled = Some MAX_CONTROL_FRACTION"
  by (simp_all add: sample_enrolled_def)

lemma sample_enrolled_live: "control_arm_is_live sample_enrolled" "block_size MAX_CONTROL_FRACTION = 10"
proof -
  show "control_arm_is_live sample_enrolled"
    by (simp add: control_arm_is_live_def sample_enrolled_def MIN_CONTROL_FRACTION_def MAX_CONTROL_FRACTION_def fl_mono)
  show "block_size MAX_CONTROL_FRACTION = 10" by code_simp
qed

text \<open>Orders to one dock, one after another.\<close>

definition sample_intakes :: "nat list \<Rightarrow> ((db \<Rightarrow> db) \<times> instant \<times> order_row \<times> string option) list" where
  "sample_intakes ids = map (\<lambda>i. (id, int i, sample_order i Held, Some ''1 high st'')) ids"

definition sample_arms :: "nat \<Rightarrow> db" where
  "sample_arms n = db (assign_arms sample_enrolled (sample_intakes [0..<n]) (sample_session []))"

lemma assign_arm_new:
  assumes "assignment_for (ord_id order) (db s) = None" "exclusions_in (db s) = []"
  shows "snd (assign_arm id t order sample_enrolled (Some ''1 high st'') s) =
      s\<lparr>db := add_arm (new_assignment t order sample_enrolled MAX_CONTROL_FRACTION ''1 high st''
         (int (length (stratum_rows 2 ''1 high st'' (db s))))) (db s)\<rparr>"
  using assms sample_enrolled_live by (simp add: assign_arm_def Let_def stratum_of_def is_excluded_def live_exclusion_def)

lemma assign_arms_in_turn:
  assumes "exclusions_in (db s) = []" "set ids \<inter> ea_order_id ` set (arms_in (db s)) = {}" "distinct ids"
  shows "map ea_assigned_at (stratum_rows 2 ''1 high st'' (db (assign_arms sample_enrolled (sample_intakes ids) s))) =
    map ea_assigned_at (stratum_rows 2 ''1 high st'' (db s)) @ map int ids"
  using assms
proof (induction ids arbitrary: s)
  case (Cons i ids)
  have new: "assignment_for (ord_id (sample_order i Held)) (db s) = None"
    using Cons.prems by (auto simp: assignment_for_def lookup_by_None)
  have "exclusions_in (add_arm a d) = exclusions_in d" "ea_assigned_at (new_assignment now order client f k x) = now" for a d now order client f k x
    by (simp_all add: add_arm_def new_assignment_def Let_def)
  then show ?case using Cons by (simp del: id_apply add: sample_intakes_def assign_arm_new [OF new] stratum_rows_add_arm)
qed (simp add: sample_intakes_def)

lemma sample_arms_ok: "arm_history_ok 2 MAX_CONTROL_FRACTION (sample_arms n)"
  using assign_arms_history [of sample_enrolled MAX_CONTROL_FRACTION "sample_intakes [0..<n]" "sample_session []"]
  by (simp add: sample_arms_def sample_intakes_def) (simp add: arm_history_ok_def stratum_rows_def sample_session_def sample_tables_def)

lemma sample_arms_times: "map ea_assigned_at (stratum_rows 2 ''1 high st'' (sample_arms n)) = map int [0..<n]"
  using assign_arms_in_turn [of "sample_session []" "[0..<n]"]
  by (simp add: sample_arms_def stratum_rows_def sample_session_def sample_tables_def)

lemma sample_arms_length [simp]: "length (stratum_rows 2 ''1 high st'' (sample_arms n)) = n"
  using arg_cong [OF sample_arms_times [of n], of length] by simp

theorem one_control_order_per_block_witness:
  "length (filter is_control (take 10 (stratum_rows 2 ''1 high st'' (sample_arms 10)))) = 1"
proof -
  have "arm_history_ok 2 MAX_CONTROL_FRACTION (db (sample_session []))"
    by (simp add: arm_history_ok_def stratum_rows_def sample_session_def sample_tables_def)
  then show ?thesis
    using one_control_order_per_block [of sample_enrolled MAX_CONTROL_FRACTION "sample_session []" "sample_intakes [0..<10]" "''1 high st''" 0]
      sample_arms_length [of 10]
    by (simp add: sample_enrolled_live(2) sample_intakes_def sample_arms_def Let_def)
qed

text \<open>With twenty orders the first two blocks of the dock are complete.\<close>

theorem fair_window_can_be_blocked_witness:
  "let place = control_place 2 MAX_CONTROL_FRACTION ''1 high st'' in
     dock_breached (arms_between 2 (int (place 0)) (int (10 + place 1) + 1) (sample_arms 20)) ''1 high st'' \<longleftrightarrow> place 1 < place 0"
proof -
  let ?place = "control_place 2 MAX_CONTROL_FRACTION ''1 high st''"
  have at: "ea_assigned_at (stratum_rows 2 ''1 high st'' (sample_arms 20) ! i) = int i" if "i < 20" for i
    using arg_cong [OF sample_arms_times [of 20], of "\<lambda>xs. xs ! i"] that by simp
  have less: "?place 0 < 10" "?place 1 < 10"
    using dock.chosen_less [of 2 MAX_CONTROL_FRACTION "''1 high st''"] by (simp_all add: sample_enrolled_live(2))
  have "sorted_wrt (<) (map int [0..<20])" by (simp add: sorted_wrt_map)
  then show ?thesis
    using fair_window_can_be_blocked [OF sample_arms_ok [of 20] refl refl refl refl, of 0 "''1 high st''" id id] less at [of "?place 0"] at [of "10 + ?place 1"]
    by (simp add: sample_enrolled_live(2) sample_arms_times Let_def)
qed

theorem fair_history_passes_witness:
  "fi_check (hd (check_arm_integrity id id 2 0 1 (sample_arms 1))) \<noteq> ''position-collisions''"
proof -
  have arms: "arms_in (sample_arms 1) = [new_assignment 0 (sample_order 0 Held) sample_enrolled MAX_CONTROL_FRACTION ''1 high st'' 0]"
    using assign_arm_new [of "sample_order 0 Held" "sample_session []" 0]
    by (simp add: sample_arms_def sample_intakes_def assignment_for_def sample_session_def sample_tables_def stratum_rows_def del: id_apply)
  have "ea_assigned_at (new_assignment now order client f k i) = now" for now order client f k i by (simp add: new_assignment_def Let_def)
  then show ?thesis
    using fair_history_passes [OF sample_arms_ok [of 1], of 0 1 "hd (check_arm_integrity id id 2 0 1 (sample_arms 1))" id id] arms
    by (simp add: check_arm_integrity_def Let_def)
qed

end
