(* ===== verification/Docks.thy ===== *)
theory Docks
  imports Dwell Experiment Route_Stops
begin

text \<open>
  From an address to a place: its normalised key and its coordinates (\<open>src/app/geocoding\<close>), the dock it names
  (\<open>resolve_location\<close> and \<open>link_shop_to_dock\<close> in \<open>src/app/identity/resolution.py\<close>) and the shop an order is
  collected from (\<open>_resolve_or_create_shop\<close> in \<open>src/app/ingestion/service.py\<close>). The geocoding provider is the
  parameter \<open>geocode\<close>; what other transactions commit before an insert is the parameter \<open>others\<close> of that
  insert, and a unique key taken in between is the \<open>IntegrityError\<close> of the code. Column lengths are
  enforced only where the code cuts a value itself.
\<close>

section \<open>geocoding\<close>

definition strip_chars :: "string \<Rightarrow> string \<Rightarrow> string" where
  "strip_chars cs s = rev (dropWhile (\<lambda>c. c \<in> set cs) (rev (dropWhile (\<lambda>c. c \<in> set cs) s)))"

definition normalize_address :: "string \<Rightarrow> string" where
  "normalize_address address = casefold (strip_chars '' ,.;'' (join '' '' (split_words address)))"

record geocode_result =
  gr_lat :: rat
  gr_lng :: rat
  gr_display_name :: string
  gr_provider :: string

text \<open>What a provider answers: it could not be asked, or it was, and found the address or did not.\<close>

datatype geocode_answer = Geocoder_unavailable | Geocoded "geocode_result option"

record geocoder =
  provider_name :: string
  geocode :: "string \<Rightarrow> geocode_answer"

abbreviation (input) geocodes_in :: "db \<Rightarrow> geocode_row list" where
  "geocodes_in d \<equiv> geocoded_addresses (intake_of (ops_of d))"

definition geo_lookup :: "string \<Rightarrow> db \<Rightarrow> geocode_row option" where
  "geo_lookup key d = lookup_by geo_normalized_address key (geocodes_in d)"

definition result_from :: "geocode_row \<Rightarrow> geocode_result option" where
  "result_from r =
     (case (geo_lat r, geo_lng r) of
        (Some lat, Some lng) \<Rightarrow> Some \<lparr>gr_lat = lat, gr_lng = lng,
          gr_display_name = (case geo_display_name r of None \<Rightarrow> '''' | Some n \<Rightarrow> n),
          gr_provider = (case geo_provider r of None \<Rightarrow> ''cache'' | Some p \<Rightarrow> if p = [] then ''cache'' else p)\<rparr>
      | _ \<Rightarrow> None)"

definition cache_row :: "geocoder \<Rightarrow> instant \<Rightarrow> string \<Rightarrow> geocode_result option \<Rightarrow> geocode_row" where
  "cache_row g now address result =
     \<lparr>geo_normalized_address = normalize_address address, geo_raw_address = take 255 address,
      geo_lat = map_option gr_lat result, geo_lng = map_option gr_lng result,
      geo_display_name = map_option (\<lambda>r. take 500 (gr_display_name r)) result,
      geo_provider = Some (case result of None \<Rightarrow> provider_name g | Some r \<Rightarrow> gr_provider r), geo_attempted_at = now\<rparr>"

definition add_geocode :: "geocode_row \<Rightarrow> db \<Rightarrow> db" where
  "add_geocode r d = d\<lparr>ops_of := (ops_of d)\<lparr>intake_of := (intake_of (ops_of d))\<lparr>geocoded_addresses := geocodes_in d @ [r]\<rparr>\<rparr>\<rparr>"

definition resolve_address ::
    "geocoder \<Rightarrow> instant \<Rightarrow> (db \<Rightarrow> db) \<Rightarrow> string \<Rightarrow> session \<Rightarrow> geocode_result option \<times> session" where
  "resolve_address g now others address s =
     (let key = normalize_address address in
      if key = [] then (None, s)
      else (case geo_lookup key (db s) of
         Some cached \<Rightarrow> (result_from cached, s)
       | None \<Rightarrow>
           (case geocode g address of
              Geocoder_unavailable \<Rightarrow> (None, s)
            | Geocoded result \<Rightarrow>
                let s1 = interfere_db others s in
                (case geo_lookup key (db s1) of
                   None \<Rightarrow> (result, commit (s1\<lparr>db := add_geocode (cache_row g now address result) (db s1)\<rparr>))
                 | Some _ \<Rightarrow>
                     let s2 = rollback s1 in
                     (case geo_lookup key (db s2) of
                        Some existing \<Rightarrow> (case result_from existing of Some r \<Rightarrow> (Some r, s2) | None \<Rightarrow> (result, s2))
                      | None \<Rightarrow> (result, s2))))))"

section \<open>resolution.py\<close>

definition PLACEHOLDER_KEYS :: "string list" where
  "PLACEHOLDER_KEYS = [''n/a'', ''na'', ''none'', ''null'', ''unknown'', ''tbd'', ''-'', ''--'', ''.'', ''?'']"

definition carries_a_place :: "string \<Rightarrow> bool" where
  "carries_a_place key \<longleftrightarrow> key \<noteq> [] \<and> key \<notin> set PLACEHOLDER_KEYS \<and>
     \<not> list_all (\<lambda>segment. segment \<in> set PLACEHOLDER_KEYS \<or> segment = []) (map strip (split_on (CHR '','') key))"

definition receiver_key_for :: "string option \<Rightarrow> string option" where
  "receiver_key_for address =
     (case address of
        None \<Rightarrow> None
      | Some a \<Rightarrow> if a = [] then None
          else let key = normalize_address a in if carries_a_place key then Some key else None)"

datatype dock_error = No_such_place string | Bad_alias alias_error

definition location_by_address :: "string \<Rightarrow> db \<Rightarrow> location_row option" where
  "location_by_address key d = lookup_by location_normalized_address key (locations d)"

definition canonical_dock :: "db \<Rightarrow> location_row \<Rightarrow> dock_error + location_row" where
  "canonical_dock d l = (case canonical_location (locations d) l of Inl e \<Rightarrow> Inl (Bad_alias e) | Inr r \<Rightarrow> Inr r)"

text \<open>The insert runs in a savepoint: losing it to another transaction undoes the insert and nothing else.\<close>

definition resolve_location ::
    "(db \<Rightarrow> db) \<Rightarrow> string \<Rightarrow> rat option \<Rightarrow> rat option \<Rightarrow> session \<Rightarrow> (dock_error + location_row) \<times> session" where
  "resolve_location others address lat lng s =
     (let key = normalize_address address in
      if \<not> carries_a_place key then (Inl (No_such_place address), s)
      else (case location_by_address key (db s) of
         Some existing \<Rightarrow> (canonical_dock (db s) existing, s)
       | None \<Rightarrow>
           let s1 = interfere_db others s in
           (case location_by_address key (db s1) of
              Some conflicting \<Rightarrow> (canonical_dock (db s1) conflicting, s1)
            | None \<Rightarrow>
                let (i, s2) = uuid4 s1;
                    loc = \<lparr>location_id = i, location_merged_into_id = None, location_normalized_address = key,
                      location_address = address, location_lat = lat, location_lng = lng\<rparr>
                in (Inr loc, s2\<lparr>db := (db s2)\<lparr>locations := locations (db s2) @ [loc]\<rparr>\<rparr>))))"

definition set_dock :: "uuid \<Rightarrow> uuid \<Rightarrow> session \<Rightarrow> session" where
  "set_dock shop dock s = s\<lparr>db := (db s)\<lparr>shops := update_where (\<lambda>r. shop_id r = shop) (\<lambda>r. r\<lparr>shop_location_id := Some dock\<rparr>) (shops (db s))\<rparr>\<rparr>"

text \<open>The \<open>ValueError\<close> is logged; the \<open>RuntimeError\<close> of a broken alias chain is not caught.\<close>

definition link_shop_to_dock :: "(db \<Rightarrow> db) \<Rightarrow> shop_row \<Rightarrow> session \<Rightarrow> (alias_error + location_row option) \<times> session" where
  "link_shop_to_dock others shop s =
     (if shop_address shop = [] then (Inr None, s)
      else (case resolve_location others (shop_address shop) (Some (shop_lat shop)) (Some (shop_lng shop)) s of
         (Inl (No_such_place _), s1) \<Rightarrow> (Inr None, s1)
       | (Inl (Bad_alias e), s1) \<Rightarrow> (Inl e, s1)
       | (Inr l, s1) \<Rightarrow> (Inr (Some l), set_dock (shop_id shop) (location_id l) s1)))"

section \<open>SHA-1\<close>

type_synonym sha1_state = "word32 \<times> word32 \<times> word32 \<times> word32 \<times> word32"

fun sha1_schedule :: "nat \<Rightarrow> word32 list \<Rightarrow> word32 list" where
  "sha1_schedule 0 ws = ws"
| "sha1_schedule (Suc n) ws =
     sha1_schedule n (word_rotl 1 (ws ! 2 XOR ws ! 7 XOR ws ! 13 XOR ws ! 15) # ws)"

definition sha1_mix :: "nat \<Rightarrow> word32 \<Rightarrow> word32 \<Rightarrow> word32 \<Rightarrow> word32" where
  "sha1_mix t b c d =
     (if t < 20 then (b AND c) OR (NOT b AND d)
      else if t < 40 then b XOR c XOR d
      else if t < 60 then (b AND c) OR (b AND d) OR (c AND d)
      else b XOR c XOR d)"

definition sha1_constant :: "nat \<Rightarrow> word32" where
  "sha1_constant t = (if t < 20 then 1518500249 else if t < 40 then 1859775393 else if t < 60 then 2400959708 else 3395469782)"

fun sha1_round :: "sha1_state \<Rightarrow> nat \<times> word32 \<Rightarrow> sha1_state" where
  "sha1_round (a, b, c, d, e) (t, w) = (word_rotl 5 a + sha1_mix t b c d + e + sha1_constant t + w, a, word_rotl 30 b, c, d)"

fun sha1_add :: "sha1_state \<Rightarrow> sha1_state \<Rightarrow> sha1_state" where
  "sha1_add (a, b, c, d, e) (a', b', c', d', e') = (a + a', b + b', c + c', d + d', e + e')"

definition sha1_block :: "sha1_state \<Rightarrow> byte list \<Rightarrow> sha1_state" where
  "sha1_block st block =
     sha1_add st (foldl sha1_round st (zip [0..<80] (rev (sha1_schedule 64 (rev (map word_of_bytes (chunks 4 block)))))))"

fun sha1_bytes :: "sha1_state \<Rightarrow> byte list" where
  "sha1_bytes (a, b, c, d, e) = concat (map bytes_of_word [a, b, c, d, e])"

definition sha1 :: "byte list \<Rightarrow> byte list" where
  "sha1 msg = sha1_bytes (foldl sha1_block (1732584193, 4023233417, 2562383102, 271733878, 3285377520) (chunks 64 (pad_message msg)))"

section \<open>The shop of an order\<close>

definition AUTO_SHOP_REF_PREFIX :: string where "AUTO_SHOP_REF_PREFIX = ''lmxlink:''"

definition auto_shop_external_ref :: "string \<Rightarrow> string" where
  "auto_shop_external_ref address =
     AUTO_SHOP_REF_PREFIX @ take 16 (hexlify (sha1 (encode_utf8 (normalize_address address))))"

text \<open>\<open>f"{x:.6f}"\<close>\<close>

definition fixed6 :: "rat \<Rightarrow> string" where
  "fixed6 x =
     (let q = round_half_even (\<bar>x\<bar> * 10 ^ 6); frac = show_int (q mod 10 ^ 6) in
      (if x < 0 then ''-'' else '''') @ show_int (q div 10 ^ 6) @ ''.'' @ replicate (6 - length frac) (CHR ''0'') @ frac)"

datatype shop_error =
    Shop_not_found string | Several_shops string | No_client_for_origin | Origin_missing | Origin_unresolvable string | Shop_alias alias_error

definition resolve_shop :: "uuid \<Rightarrow> string \<Rightarrow> db \<Rightarrow> shop_error + shop_row" where
  "resolve_shop client ref d =
     (case filter (\<lambda>r. shop_client_id r = client \<and> shop_external_ref r = Some ref) (shops d) of
        [] \<Rightarrow> Inl (Shop_not_found ref)
      | [r] \<Rightarrow> Inr r
      | _ \<Rightarrow> Inl (Several_shops ref))"

definition find_shop_by_ref :: "uuid \<Rightarrow> string \<Rightarrow> db \<Rightarrow> shop_row option" where
  "find_shop_by_ref client ref d =
     (case sort_key shop_created_at (filter (\<lambda>r. shop_client_id r = client \<and> shop_external_ref r = Some ref) (shops d)) of
        [] \<Rightarrow> None | r # _ \<Rightarrow> Some r)"

text \<open>The origin of an order, as \<open>LMXOrder\<close> states it.\<close>

record origin =
  or_shop_external_ref :: "string option"
  or_pickup_address :: "string option"
  or_pickup_lat :: "rat option"
  or_pickup_lng :: "rat option"
  or_pickup_contact_phone :: "string option"

record shop_races =
  sr_geocode :: "db \<Rightarrow> db"
  sr_dock :: "db \<Rightarrow> db"

definition new_shop :: "uuid \<Rightarrow> uuid \<Rightarrow> instant \<Rightarrow> string \<Rightarrow> rat \<Rightarrow> rat \<Rightarrow> string option \<Rightarrow> shop_row" where
  "new_shop i client created address lat lng phone =
     \<lparr>shop_id = i, shop_name = take 160 address, shop_lat = lat, shop_lng = lng, shop_location_id = None,
      shop_client_id = client, shop_address = take 255 address, shop_phone = phone,
      shop_external_ref = Some (auto_shop_external_ref address), shop_created_at = created\<rparr>"

definition create_shop :: "shop_races \<Rightarrow> uuid \<Rightarrow> string \<Rightarrow> rat \<Rightarrow> rat \<Rightarrow> string option \<Rightarrow> session \<Rightarrow> (shop_error + shop_row) \<times> session" where
  "create_shop race client address lat lng phone s =
     (let (i, s1) = uuid4 s;
          shop = new_shop i client (txn_now s) address lat lng phone;
          s2 = s1\<lparr>db := (db s1)\<lparr>shops := shops (db s1) @ [shop]\<rparr>\<rparr>
      in case link_shop_to_dock (sr_dock race) shop s2 of
           (Inl e, s3) \<Rightarrow> (Inl (Shop_alias e), s3)
         | (Inr dock, s3) \<Rightarrow> (Inr (shop\<lparr>shop_location_id := map_option location_id dock\<rparr>), s3))"

text \<open>What the customer typed, or the coordinates in its place; with neither, formatting them raises.\<close>

definition typed_address :: "origin \<Rightarrow> string option" where
  "typed_address org =
     (case or_pickup_address org of
        Some a \<Rightarrow> Some a
      | None \<Rightarrow>
          (case (or_pickup_lat org, or_pickup_lng org) of
             (Some lat, Some lng) \<Rightarrow> Some (fixed6 lat @ '','' @ fixed6 lng)
           | _ \<Rightarrow> None))"

definition resolve_or_create_shop ::
    "geocoder \<Rightarrow> instant \<Rightarrow> shop_races \<Rightarrow> uuid option \<Rightarrow> origin \<Rightarrow> session \<Rightarrow> (shop_error + shop_row) \<times> session" where
  "resolve_or_create_shop g now race client_opt org s =
     (case client_opt of
        None \<Rightarrow> (Inl No_client_for_origin, s)
      | Some client \<Rightarrow>
          (case or_shop_external_ref org of
             Some ref \<Rightarrow> (resolve_shop client ref (db s), s)
           | None \<Rightarrow>
               (case typed_address org of
                  None \<Rightarrow> (Inl Origin_missing, s)
                | Some address \<Rightarrow>
                    (case find_shop_by_ref client (auto_shop_external_ref address) (db s) of
                       Some existing \<Rightarrow> (Inr existing, s)
                     | None \<Rightarrow>
                         (case (or_pickup_lat org, or_pickup_lng org) of
                            (Some lat, Some lng) \<Rightarrow> create_shop race client address lat lng (or_pickup_contact_phone org) s
                          | _ \<Rightarrow>
                              (case resolve_address g now (sr_geocode race) address s of
                                 (None, s1) \<Rightarrow> (Inl (Origin_unresolvable address), s1)
                               | (Some r, s1) \<Rightarrow> create_shop race client address (gr_lat r) (gr_lng r) (or_pickup_contact_phone org) s1))))))"

section \<open>Tables with a unique key\<close>

text \<open>
  What the unique constraints of the tables give: a row whose key is taken is not added, and a row once
  added is what its key finds. A null key (\<open>None\<close>) is never taken.
\<close>

definition unique_on :: "('r \<Rightarrow> 'k option) \<Rightarrow> 'r list \<Rightarrow> bool" where
  "unique_on key rows \<longleftrightarrow> distinct (filter (\<lambda>k. k \<noteq> None) (map key rows))"

lemma lookup_by_append:
  "lookup_by key k (xs @ ys) = (case lookup_by key k xs of None \<Rightarrow> lookup_by key k ys | Some r \<Rightarrow> Some r)"
  by (induction xs) auto

locale unique_table =
  fixes rows :: "db \<Rightarrow> 'r list" and key :: "'r \<Rightarrow> 'k option" and add :: "'r \<Rightarrow> db \<Rightarrow> db"
  assumes rows_add: "rows (add r d) = rows d @ [r]"
begin

lemma add_unique:
  "unique_on key (rows d) \<Longrightarrow> key r = None \<or> lookup_by key (key r) (rows d) = None \<Longrightarrow> unique_on key (rows (add r d))"
  by (auto simp: unique_on_def rows_add lookup_by_None)

lemma found_after_add: "lookup_by key (key r) (rows d) = None \<Longrightarrow> lookup_by key (key r) (rows (add r d)) = Some r"
  by (simp add: rows_add lookup_by_append)

lemma still_found: "lookup_by key k (rows d) = Some x \<Longrightarrow> lookup_by key k (rows (add r d)) = Some x"
  by (simp add: rows_add lookup_by_append)

end

definition add_location :: "location_row \<Rightarrow> db \<Rightarrow> db" where
  "add_location l d = d\<lparr>locations := locations d @ [l]\<rparr>"

lemma lookup_by_Some_key: "lookup_by (\<lambda>r. Some (f r)) (Some k) rows = lookup_by f k rows"
  by (simp add: lookup_by_def)

interpretation addresses: unique_table "\<lambda>d. geocoded_addresses (intake_of (ops_of d))" "\<lambda>r. Some (geo_normalized_address r)" add_geocode
  by unfold_locales (simp add: add_geocode_def)

interpretation docks: unique_table locations "\<lambda>l. Some (location_normalized_address l)" add_location
  by unfold_locales (simp add: add_location_def)

section \<open>Lemmas\<close>

lemma geo_lookup_add: "geo_lookup (geo_normalized_address r) d = None \<Longrightarrow> geo_lookup (geo_normalized_address r) (add_geocode r d) = Some r"
  using addresses.found_after_add [of r d] by (simp add: geo_lookup_def lookup_by_Some_key)

lemma resolve_address_quiet:
  "geo_lookup (normalize_address a) (db s) = Some row \<Longrightarrow> normalize_address a \<noteq> [] \<Longrightarrow>
     resolve_address g now others a s = (result_from row, s)"
  by (simp add: resolve_address_def Let_def)

text \<open>The row a lookup leaves behind, when the provider answered.\<close>

lemma resolve_address_remembers:
  assumes "resolve_address g now others a s = (r, s')" "normalize_address a \<noteq> []" "geocode g a \<noteq> Geocoder_unavailable"
    "geocodes_in (others (base s)) = geocodes_in (others (db s))"
  shows "\<exists>row. geo_lookup (normalize_address a) (db s') = Some row"
proof -
  have "geo_normalized_address (cache_row g now a x) = normalize_address a" for x by (simp add: cache_row_def)
  then show ?thesis using assms geo_lookup_add [of "cache_row g now a x" for x]
    by (auto simp: resolve_address_def Let_def interfere_db_def rollback_def commit_def geo_lookup_def split: option.splits geocode_answer.splits)
qed

section \<open>Properties\<close>

text \<open>
  (C29) An address is asked for once: after a request for which the provider answered, whatever happened in
  between and whatever it answered, every later request for an address with the same key is answered from the
  cache, leaves the session as it is and does not depend on the provider; and a provider that could not be asked leaves
  nothing behind.
\<close>

theorem address_is_asked_once:
  assumes "resolve_address g now others a s = (r, s')"
    "geocodes_in (others (base s)) = geocodes_in (others (db s))"
    "normalize_address a' = normalize_address a"
  shows "(geocode g a = Geocoder_unavailable \<longrightarrow> s' = s) \<and>
    (geocode g a \<noteq> Geocoder_unavailable \<longrightarrow>
      snd (resolve_address g2 now2 others2 a' s') = s' \<and>
      resolve_address g2 now2 others2 a' s' = resolve_address g3 now3 others3 a' s')"
proof (cases "normalize_address a = []")
  case True
  then show ?thesis using assms by (auto simp: resolve_address_def)
next
  case False
  have "\<exists>row. geo_lookup (normalize_address a) (db s') = Some row" if "geocode g a \<noteq> Geocoder_unavailable"
    using resolve_address_remembers [OF assms(1) False that assms(2)] .
  then show ?thesis using assms(1,3) False resolve_address_quiet [of a' s']
    by (auto simp: resolve_address_def Let_def split: option.splits)
qed

definition sample_geocoder :: geocoder where
  "sample_geocoder = \<lparr>provider_name = ''nominatim'', geocode = (\<lambda>a.
     if a = ''1 High St'' then Geocoded (Some \<lparr>gr_lat = 1, gr_lng = 2, gr_display_name = ''1 High Street'', gr_provider = ''nominatim''\<rparr>)
     else if a = ''nowhere'' then Geocoded None else Geocoder_unavailable)\<rparr>"

theorem address_is_asked_once_witness:
  "let s' = snd (resolve_address sample_geocoder 5 id ''1 High St'' (sample_session [])) in
     snd (resolve_address sample_geocoder 9 id '' 1 HIGH  st.'' s') = s'"
proof -
  have key: "normalize_address '' 1 HIGH  st.'' = normalize_address ''1 High St''" by code_simp
  have asked: "geocode sample_geocoder ''1 High St'' \<noteq> Geocoder_unavailable" by (simp add: sample_geocoder_def)
  have quiet: "geocodes_in (id (base (sample_session []))) = geocodes_in (id (db (sample_session [])))" by (simp add: sample_session_def)
  obtain r s' where run: "resolve_address sample_geocoder 5 id ''1 High St'' (sample_session []) = (r, s')" by (rule prod.exhaust)
  from address_is_asked_once [OF run quiet key, of sample_geocoder 9 id sample_geocoder 9 id] asked
  have "snd (resolve_address sample_geocoder 9 id '' 1 HIGH  st.'' s') = s'" by blast
  then show ?thesis by (simp only: run snd_conv Let_def)
qed

text \<open>A row an alias chain ends in: \<open>merged_into_id\<close> is null, or names no dock.\<close>

definition surviving :: "db \<Rightarrow> location_row \<Rightarrow> bool" where
  "surviving d l \<longleftrightarrow> (\<forall>y. \<not> alias_step (locations d) l y)"

lemma canonical_dock_surviving:
  assumes "canonical_dock d l = Inr r" shows "surviving d r"
  using follow_alias_end [of "locations d" "location_id l" MAX_ALIAS_DEPTH "[location_id l]" l r] assms
  by (auto simp: canonical_dock_def canonical_location_def surviving_def split: sum.splits)

lemma resolve_location_cases:
  assumes "resolve_location others a lat lng s = (Inr l, s')"
  obtains (known) x where "location_by_address (normalize_address a) (db s') = Some x" "canonical_dock (db s') x = Inr l"
      "s' = s \<or> s' = interfere_db others s"
  | (first) s1 where "s1 = interfere_db others s" "location_by_address (normalize_address a) (db s1) = None"
      "s' = (snd (uuid4 s1))\<lparr>db := add_location l (db s1)\<rparr>" "location_id l = fresh s1"
      "location_normalized_address l = normalize_address a" "location_merged_into_id l = None" "location_lat l = lat" "location_lng l = lng"
proof (cases "location_by_address (normalize_address a) (db s)")
  case (Some x)
  then have "canonical_dock (db s) x = Inr l" "s' = s" using assms by (auto simp: resolve_location_def Let_def split: if_splits)
  with Some show thesis by (intro known [of x]) auto
next
  case None
  let ?s1 = "interfere_db others s"
  show thesis
  proof (cases "location_by_address (normalize_address a) (db ?s1)")
    case (Some x)
    with None have "canonical_dock (db ?s1) x = Inr l" "s' = ?s1" using assms by (auto simp: resolve_location_def Let_def split: if_splits)
    with Some show thesis by (intro known [of x]) auto
  next
    case new: None
    show thesis
      by (rule first [of ?s1]) (use None new assms in \<open>auto simp: resolve_location_def Let_def uuid4_def add_location_def split: if_splits\<close>)
  qed
qed

text \<open>
  (C30) Whatever other requests commit in between, resolving an address hands back a dock that is merged into no other,
  keeps docks unique by address and keeps what the request has written before; an address that names no
  place gets no dock and changes nothing.
\<close>

theorem address_resolves_to_one_dock:
  assumes "unique_on (\<lambda>l. Some (location_normalized_address l)) (locations (others (db s)))"
    "unique_on (\<lambda>l. Some (location_normalized_address l)) (locations (db s))"
    "resolve_location others a lat lng s = (r, s')"
  shows "unique_on (\<lambda>l. Some (location_normalized_address l)) (locations (db s')) \<and>
    (case r of Inr l \<Rightarrow> surviving (db s') l | Inl e \<Rightarrow> s' = s \<or> s' = interfere_db others s) \<and>
    (shops (db s') = shops (db s) \<or> shops (db s') = shops (others (db s))) \<and>
    (\<not> carries_a_place (normalize_address a) \<longrightarrow> r = Inl (No_such_place a) \<and> s' = s)"
proof (cases r)
  case (Inr l)
  have place: "carries_a_place (normalize_address a)" using assms(3) Inr by (auto simp: resolve_location_def Let_def split: if_splits)
  show ?thesis
    using assms(3) [unfolded Inr]
  proof (cases rule: resolve_location_cases)
    case (known x)
    then show ?thesis using assms(1,2) Inr canonical_dock_surviving [of "db s'" x l] place by (auto simp: interfere_db_def)
  next
    case (first s1)
    have "unique_on (\<lambda>l. Some (location_normalized_address l)) (locations (add_location l (db s1)))"
      using assms(1) first by (intro docks.add_unique) (auto simp: interfere_db_def location_by_address_def lookup_by_Some_key)
    then show ?thesis using Inr first place
      by (auto simp: surviving_def alias_step_iff add_location_def interfere_db_def uuid4_def)
  qed
next
  case (Inl e)
  then show ?thesis using assms
    by (auto simp: resolve_location_def Let_def interfere_db_def uuid4_def split: if_splits option.splits)
qed

text \<open>Another request creates the dock first, as an alias of a surviving one.\<close>

definition racing_dock :: "db \<Rightarrow> db" where
  "racing_dock d = d\<lparr>locations := [sample_dock 1 (Some 2), (sample_dock 2 None)\<lparr>location_normalized_address := ''x''\<rparr>]\<rparr>"

theorem address_resolves_to_one_dock_witness:
  "let (r, s') = resolve_location racing_dock ''1 High St'' None None (sample_session []) in
     (case r of Inr l \<Rightarrow> location_id l = 2 \<and> surviving (db s') l | Inl e \<Rightarrow> False)"
proof -
  have key: "normalize_address ''1 High St'' = ''1 high st''" by code_simp
  have place: "carries_a_place ''1 high st''" by code_simp
  have run: "resolve_location racing_dock ''1 High St'' None None (sample_session []) =
      (Inr ((sample_dock 2 None)\<lparr>location_normalized_address := ''x''\<rparr>), interfere_db racing_dock (sample_session []))"
    by (simp add: resolve_location_def key place Let_def location_by_address_def sample_session_def sample_tables_def interfere_db_def
        racing_dock_def sample_dock_def canonical_dock_def canonical_location_def MAX_ALIAS_DEPTH_def eval_nat_numeral)
  have "unique_on (\<lambda>l. Some (location_normalized_address l)) (locations (racing_dock (db (sample_session []))))"
    "unique_on (\<lambda>l. Some (location_normalized_address l)) (locations (db (sample_session [])))"
    by (simp_all add: unique_on_def racing_dock_def sample_dock_def sample_session_def sample_tables_def)
  from address_resolves_to_one_dock [OF this run] show ?thesis by (simp add: run)
qed

end
