(* ===== verification/Billing.thy ===== *)
theory Billing
  imports Sla Hub_Calendar Route_Stops
begin

text \<open>
  What a client owes (\<open>src/app/billing\<close>): the fee of a drop (\<open>rates.py\<close>), the credit for a missed
  promise (\<open>credits.py\<close>) and the statement (\<open>service.py\<close>). \<open>generate_invoice\<close> takes what other
  transactions commit between its read of the orders and its writes. The texts inside a fee's
  breakdown and the PDF are not modelled; the distance in miles is computed by the caller.
\<close>

section \<open>rates.py\<close>

record priced_drop =
  fee_cents :: cents
  fee_components :: "(fee_kind \<times> cents) list"

definition mileage_amount :: "client_rate \<Rightarrow> rat option \<Rightarrow> (fee_kind \<times> cents) list" where
  "mileage_amount rate miles =
     (if rate_per_mile_cents rate = 0 then []
      else (case miles of
         None \<Rightarrow> [(Fee_mileage, 0)]
       | Some m \<Rightarrow> [(Fee_mileage, round_half_even (fmul m (of_py_int (rate_per_mile_cents rate))))]))"

definition charged_components :: "client_rate \<Rightarrow> rat option \<Rightarrow> int \<Rightarrow> rat \<Rightarrow> (fee_kind \<times> cents) list" where
  "charged_components rate miles pieces weight_units =
     (if rate_per_drop_cents rate = 0 then [] else [(Fee_base, rate_per_drop_cents rate)]) @
     mileage_amount rate miles @
     (if rate_per_piece_cents rate = 0 \<or> pieces = 0 then [] else [(Fee_pieces, pieces * rate_per_piece_cents rate)]) @
     (if rate_per_weight_unit_cents rate = 0 \<or> weight_units = 0 then []
      else [(Fee_weight, round_half_even (fmul weight_units (of_py_int (rate_per_weight_unit_cents rate))))])"

definition price_drop :: "client_rate \<Rightarrow> rat option \<Rightarrow> int \<Rightarrow> rat \<Rightarrow> priced_drop" where
  "price_drop rate miles pieces weight_units =
     (let components = charged_components rate miles pieces weight_units;
          total = sum_list (map snd components) in
      case minimum_charge_cents rate of
        Some minimum \<Rightarrow>
          if total < minimum then \<lparr>fee_cents = minimum, fee_components = components @ [(Fee_minimum, minimum - total)]\<rparr>
          else \<lparr>fee_cents = total, fee_components = components\<rparr>
      | None \<Rightarrow> \<lparr>fee_cents = total, fee_components = components\<rparr>)"

section \<open>credits.py\<close>

record breach =
  br_order :: order_row
  br_promised_by :: instant
  br_delivered_at :: instant
  br_minutes_late :: int
  br_amount_cents :: cents
  br_reason :: string

record credit_assessment =
  ca_breaches :: "breach list"
  ca_unassessable :: "uuid list"

definition total_credit_cents :: "credit_assessment \<Rightarrow> cents" where
  "total_credit_cents a = sum_list (map br_amount_cents (ca_breaches a))"

definition credit_for :: "sla_term_row \<Rightarrow> cents \<Rightarrow> cents" where
  "credit_for term fee =
     (let amount = round_half_even (int_truediv (fee * term_credit_percent term) 100);
          amount1 = (case term_credit_minimum_cents term of None \<Rightarrow> amount | Some m \<Rightarrow> max amount m);
          amount2 = (case term_credit_maximum_cents term of None \<Rightarrow> amount1 | Some m \<Rightarrow> min amount1 m)
      in max 0 (min amount2 fee))"

datatype assessment = Not_billed | On_time | Unassessable | Without_credit | Breached breach

definition assess_order :: "(string \<Rightarrow> sla_term_row option) \<Rightarrow> order_row \<Rightarrow> assessment" where
  "assess_order terms order =
     (case (ord_delivered_at order, ord_fee_cents order) of
        (Some delivered, Some fee) \<Rightarrow>
          let term = (case ord_sla_tier order of None \<Rightarrow> None | Some tier \<Rightarrow> terms (tier_value tier)) in
          (case promised_delivery_by (delivery_commitment order term) of
             None \<Rightarrow> Unassessable
           | Some promised \<Rightarrow>
               if delivered \<le> promised then On_time
               else (case term of
                  None \<Rightarrow> Without_credit
                | Some x \<Rightarrow>
                    if term_credit_percent x \<le> 0 \<and> term_credit_minimum_cents x = None then Without_credit
                    else
                      let amount = credit_for x fee; late = \<lfloor>total_seconds (delivered - promised) / 60\<rfloor> in
                      if amount \<le> 0 then Without_credit
                      else Breached \<lparr>br_order = order, br_promised_by = promised, br_delivered_at = delivered,
                        br_minutes_late = late, br_amount_cents = amount,
                        br_reason = term_sla_tier x @ '' delivered '' @ show_int late @ '' min late ('' @
                          show_int (term_credit_percent x) @ ''% credit)''\<rparr>))
      | _ \<Rightarrow> Not_billed)"

fun breach_of :: "assessment \<Rightarrow> breach list" where
  "breach_of (Breached b) = [b]"
| "breach_of _ = []"

definition assess_credits :: "db \<Rightarrow> uuid \<Rightarrow> order_row list \<Rightarrow> credit_assessment" where
  "assess_credits d client rows =
     (let terms = terms_for_client d client in
      \<lparr>ca_breaches = concat (map (\<lambda>r. breach_of (assess_order terms r)) rows),
       ca_unassessable = map ord_id (filter (\<lambda>r. assess_order terms r = Unassessable) rows)\<rparr>)"

section \<open>service.py\<close>

datatype billing_error = No_billable_orders | Unknown_billing_event string | Unknown_zone

definition billed_in_period :: "string \<Rightarrow> instant \<Rightarrow> instant \<Rightarrow> (order_row \<Rightarrow> bool) option" where
  "billed_in_period event start end1 =
     (if event = ''order_ingested'' then
        Some (\<lambda>r. case ord_requested_at r of None \<Rightarrow> False | Some t \<Rightarrow> start \<le> t \<and> t < end1)
      else if event = ''order_delivered'' then
        Some (\<lambda>r. ord_status r = Delivered \<and> (case ord_delivered_at r of None \<Rightarrow> False | Some t \<Rightarrow> start \<le> t \<and> t < end1))
      else None)"

definition period_bounds :: "tz_database \<Rightarrow> db \<Rightarrow> uuid \<Rightarrow> date \<Rightarrow> date \<Rightarrow> (instant \<times> instant) option" where
  "period_bounds tzdata d client period_start period_end =
     (case Option.bind (lookup_by client_id client (clients (ledgers_of (ops_of d)))) (\<lambda>c. lookup_by hub_id (client_hub_id c) (hubs d)) of
        None \<Rightarrow> Some (wall_midnight period_start, wall_midnight period_end)
      | Some hub \<Rightarrow>
          Option.bind (hub_day_bounds tzdata hub period_start) (\<lambda>(a, _).
          map_option (\<lambda>(b, _). (a, b)) (hub_day_bounds tzdata hub period_end)))"

definition candidates :: "uuid \<Rightarrow> (order_row \<Rightarrow> bool) \<Rightarrow> db \<Rightarrow> order_row list" where
  "candidates client in_period d =
     filter (\<lambda>r. ord_client_id r = Some client \<and> ord_invoice_id r = None \<and> in_period r \<and> ord_intake_mode r = INTAKE_LIVE) (orders d)"

definition sum_fees :: "order_row list \<Rightarrow> cents" where
  "sum_fees rows = sum_list (map (\<lambda>r. case ord_fee_cents r of None \<Rightarrow> 0 | Some c \<Rightarrow> c) rows)"

definition credit_row :: "uuid \<Rightarrow> breach \<Rightarrow> invoice_credit_row" where
  "credit_row bill b = \<lparr>ic_invoice_id = bill, ic_order_id = ord_id (br_order b), ic_sla_tier = ord_sla_tier (br_order b),
     ic_amount_cents = br_amount_cents b, ic_reason = br_reason b, ic_promised_by = br_promised_by b,
     ic_delivered_at = br_delivered_at b, ic_minutes_late = br_minutes_late b\<rparr>"

definition write_invoice :: "invoice_row \<Rightarrow> order_row list \<Rightarrow> breach list \<Rightarrow> db \<Rightarrow> db" where
  "write_invoice bill billable breaches d =
     (let l = ledgers_of (ops_of d) in
      d\<lparr>orders := update_where (\<lambda>r. ord_id r \<in> ord_id ` set billable) (\<lambda>r. r\<lparr>ord_invoice_id := Some (inv_id bill)\<rparr>) (orders d),
        ops_of := (ops_of d)\<lparr>ledgers_of := l\<lparr>invoices := invoices l @ [bill],
          invoice_credits := invoice_credits l @ map (credit_row (inv_id bill)) breaches\<rparr>\<rparr>\<rparr>)"

definition generate_invoice ::
    "tz_database \<Rightarrow> string \<Rightarrow> (db \<Rightarrow> db) \<Rightarrow> uuid \<Rightarrow> date \<Rightarrow> date \<Rightarrow> session \<Rightarrow> (billing_error + invoice_row) \<times> session" where
  "generate_invoice tzdata event others client period_start period_end s =
     (case period_bounds tzdata (db s) client period_start period_end of
        None \<Rightarrow> (Inl Unknown_zone, s)
      | Some (start, end1) \<Rightarrow>
          (case billed_in_period event start end1 of
             None \<Rightarrow> (Inl (Unknown_billing_event event), s)
           | Some in_period \<Rightarrow>
               let billable = filter (\<lambda>r. ord_fee_cents r \<noteq> None) (candidates client in_period (db s)) in
               if billable = [] then (Inl No_billable_orders, s)
               else
                 let gross = sum_fees billable;
                     a = assess_credits (db s) client billable;
                     s1 = interfere_db others s;
                     (new_id, s2) = uuid4 s1;
                     bill = \<lparr>inv_id = new_id, inv_client_id = client, inv_period_start = period_start, inv_period_end = period_end,
                       inv_gross_cents = gross, inv_credit_cents = total_credit_cents a, inv_total_cents = gross - total_credit_cents a\<rparr>
                 in (Inr bill, commit (s2\<lparr>db := write_invoice bill billable (ca_breaches a) (db s2)\<rparr>))))"

definition invoice_line_items :: "db \<Rightarrow> uuid \<Rightarrow> (order_row \<times> string option) list" where
  "invoice_line_items d bill =
     map (\<lambda>r. (r, Option.bind (ord_shop_id r) (\<lambda>i. map_option shop_name (lookup_by shop_id i (shops d)))))
       (filter (\<lambda>r. ord_invoice_id r = Some bill) (orders d))"

text \<open>\<open>None\<close> is the \<open>RuntimeError\<close> of an invoiced order without a fee.\<close>

definition invoiced_fee :: "order_row \<Rightarrow> cents option" where
  "invoiced_fee order = ord_fee_cents order"

definition invoice_order_count :: "db \<Rightarrow> uuid \<Rightarrow> nat" where
  "invoice_order_count d bill = length (filter (\<lambda>r. ord_invoice_id r = Some bill) (orders d))"

section \<open>Lemmas\<close>

lemma sum_list_price: "sum_list (map snd (fee_components (price_drop rate miles pieces w))) = fee_cents (price_drop rate miles pieces w)"
  by (simp add: price_drop_def Let_def split: option.split)

lemma credit_for_bounds: "0 \<le> credit_for term fee" "0 < credit_for term fee \<Longrightarrow> credit_for term fee \<le> fee"
  by (auto simp: credit_for_def Let_def)

lemma assess_order_breach:
  assumes "assess_order terms r = Breached b"
  shows "br_order b = r \<and> ord_delivered_at r = Some (br_delivered_at b) \<and> br_promised_by b < br_delivered_at b \<and>
    0 < br_amount_cents b \<and> (\<exists>fee. ord_fee_cents r = Some fee \<and> br_amount_cents b \<le> fee)"
  using assms credit_for_bounds(2)
  by (auto simp: assess_order_def Let_def not_le split: option.splits if_splits prod.splits)

lemma breach_amount_le:
  assumes "\<forall>c. ord_fee_cents r = Some c \<longrightarrow> 0 \<le> c"
  shows "sum_list (map br_amount_cents (breach_of (assess_order terms r))) \<le> sum_fees [r]"
  using assms assess_order_breach [of terms r]
  by (cases "assess_order terms r") (auto simp: sum_fees_def split: option.split)

lemma credits_within_fees:
  assumes "\<forall>r \<in> set rows. \<forall>c. ord_fee_cents r = Some c \<longrightarrow> 0 \<le> c"
  shows "sum_list (map br_amount_cents (concat (map (\<lambda>r. breach_of (assess_order terms r)) rows))) \<le> sum_fees rows"
  using assms
proof (induction rows)
  case (Cons r rows)
  then show ?case using breach_amount_le [of r terms] by (simp add: sum_fees_def)
qed (simp add: sum_fees_def)

lemma update_where_cong: "(\<And>r. r \<in> set rows \<Longrightarrow> p r = q r) \<Longrightarrow> update_where p f rows = update_where q f rows"
  by (simp add: update_where_def)

lemma billed_by_new:
  assumes "\<And>r. r \<in> set rows \<Longrightarrow> ord_invoice_id r \<noteq> Some i"
  shows "filter (\<lambda>r. ord_invoice_id r = Some i) (update_where p (\<lambda>r. r\<lparr>ord_invoice_id := Some i\<rparr>) rows) =
    map (\<lambda>r. r\<lparr>ord_invoice_id := Some i\<rparr>) (filter p rows)"
  using assms by (induction rows) auto

lemma billed_by_old:
  assumes "\<And>r. r \<in> set rows \<Longrightarrow> p r \<Longrightarrow> ord_invoice_id r = None" "j \<noteq> i"
  shows "filter (\<lambda>r. ord_invoice_id r = Some j) (update_where p (\<lambda>r. r\<lparr>ord_invoice_id := Some i\<rparr>) rows) =
    filter (\<lambda>r. ord_invoice_id r = Some j) rows"
  using assms by (induction rows) auto

lemma filter_key: "distinct (map f xs) \<Longrightarrow> r \<in> set xs \<Longrightarrow> f r \<in> f ` set (filter p xs) \<longleftrightarrow> p r"
  by (auto simp: distinct_map inj_on_def)

section \<open>The books\<close>

text \<open>
  What holds of orders, invoices and credits between two runs: every invoice's gross is the sum of the
  fees of the orders that carry it, its credit the sum of its credit rows, its total the
  difference and not negative; an order that carries an invoice is priced, and the invoice exists.
\<close>

abbreviation (input) books :: "session \<Rightarrow> ledger_tables" where
  "books s \<equiv> ledgers_of (ops_of (db s))"

definition billed_to :: "db \<Rightarrow> uuid \<Rightarrow> order_row list" where
  "billed_to d i = filter (\<lambda>r. ord_invoice_id r = Some i) (orders d)"

definition credits_on :: "db \<Rightarrow> uuid \<Rightarrow> invoice_credit_row list" where
  "credits_on d i = filter (\<lambda>c. ic_invoice_id c = i) (invoice_credits (ledgers_of (ops_of d)))"

definition adds_up :: "db \<Rightarrow> invoice_row \<Rightarrow> bool" where
  "adds_up d i \<longleftrightarrow> inv_gross_cents i = sum_fees (billed_to d (inv_id i)) \<and>
     inv_credit_cents i = sum_list (map ic_amount_cents (credits_on d (inv_id i))) \<and>
     inv_total_cents i = inv_gross_cents i - inv_credit_cents i \<and> 0 \<le> inv_total_cents i"

definition books_ok :: "session \<Rightarrow> bool" where
  "books_ok s \<longleftrightarrow> distinct (map ord_id (orders (db s))) \<and> distinct (map inv_id (invoices (books s))) \<and>
     (\<forall>i \<in> set (invoices (books s)). inv_id i < fresh s \<and> adds_up (db s) i) \<and>
     (\<forall>c \<in> set (invoice_credits (books s)). ic_invoice_id c < fresh s) \<and>
     (\<forall>r \<in> set (orders (db s)). (\<forall>c. ord_fee_cents r = Some c \<longrightarrow> 0 \<le> c) \<and>
        (\<forall>i. ord_invoice_id r = Some i \<longrightarrow> i \<in> inv_id ` set (invoices (books s)) \<and> ord_fee_cents r \<noteq> None))"

text \<open>The invoice and the session of a run that bills these orders.\<close>

definition raised_invoice :: "uuid \<Rightarrow> date \<Rightarrow> date \<Rightarrow> order_row list \<Rightarrow> session \<Rightarrow> invoice_row" where
  "raised_invoice client from1 to1 billable s =
     (let credit = total_credit_cents (assess_credits (db s) client billable) in
      \<lparr>inv_id = fresh s, inv_client_id = client, inv_period_start = from1, inv_period_end = to1,
       inv_gross_cents = sum_fees billable, inv_credit_cents = credit, inv_total_cents = sum_fees billable - credit\<rparr>)"

definition raised_session :: "uuid \<Rightarrow> date \<Rightarrow> date \<Rightarrow> order_row list \<Rightarrow> (db \<Rightarrow> db) \<Rightarrow> session \<Rightarrow> session" where
  "raised_session client from1 to1 billable others s =
     (let d = write_invoice (raised_invoice client from1 to1 billable s) billable (ca_breaches (assess_credits (db s) client billable)) (others (db s))
      in s\<lparr>fresh := Suc (fresh s), db := d, base := d\<rparr>)"

lemma generate_invoice_raises:
  assumes "period_bounds tz (db s) client from1 to1 = Some (u, v)" "billed_in_period event u v = Some p"
    "billable = filter (\<lambda>r. ord_fee_cents r \<noteq> None) (candidates client p (db s))" "billable \<noteq> []"
  shows "generate_invoice tz event others client from1 to1 s =
    (Inr (raised_invoice client from1 to1 billable s), raised_session client from1 to1 billable others s)"
  using assms(1,2,4) unfolding assms(3)
  by (simp add: generate_invoice_def Let_def uuid4_def interfere_db_def raised_invoice_def raised_session_def commit_def)

lemma generate_invoice_cases:
  assumes "generate_invoice tz event others client from1 to1 s = (res, s')"
  obtains (refused) e where "res = Inl e" "s' = s"
  | (raised) u v p billable where "period_bounds tz (db s) client from1 to1 = Some (u, v)" "billed_in_period event u v = Some p"
      "billable = filter (\<lambda>r. ord_fee_cents r \<noteq> None) (candidates client p (db s))" "billable \<noteq> []"
      "res = Inr (raised_invoice client from1 to1 billable s)" "s' = raised_session client from1 to1 billable others s"
proof (cases "period_bounds tz (db s) client from1 to1")
  case None
  with assms refused show ?thesis by (auto simp: generate_invoice_def)
next
  case (Some b)
  obtain u v where b: "b = (u, v)" by (cases b)
  show ?thesis
  proof (cases "billed_in_period event u v")
    case None
    with assms Some b refused show ?thesis by (auto simp: generate_invoice_def)
  next
    case p: (Some p)
    let ?b = "filter (\<lambda>r. ord_fee_cents r \<noteq> None) (candidates client p (db s))"
    show ?thesis
    proof (cases "?b = []")
      case True
      with assms Some b p refused show ?thesis by (auto simp: generate_invoice_def Let_def)
    next
      case False
      with generate_invoice_raises [OF _ p refl, of tz s client from1 to1 others] Some b assms
      show ?thesis by (intro raised [OF _ p refl]) simp_all
    qed
  qed
qed

lemma raised_tables:
  "orders (db (raised_session client from1 to1 billable id s)) =
     update_where (\<lambda>r. ord_id r \<in> ord_id ` set billable) (\<lambda>r. r\<lparr>ord_invoice_id := Some (fresh s)\<rparr>) (orders (db s))"
  "invoices (books (raised_session client from1 to1 billable id s)) = invoices (books s) @ [raised_invoice client from1 to1 billable s]"
  "invoice_credits (books (raised_session client from1 to1 billable id s)) =
     invoice_credits (books s) @ map (credit_row (fresh s)) (ca_breaches (assess_credits (db s) client billable))"
  "fresh (raised_session client from1 to1 billable id s) = Suc (fresh s)"
  "inv_id (raised_invoice client from1 to1 billable s) = fresh s"
  by (simp_all add: raised_session_def raised_invoice_def write_invoice_def Let_def)

lemma sum_fees_attach [simp]: "sum_fees (map (\<lambda>r. r\<lparr>ord_invoice_id := x\<rparr>) rows) = sum_fees rows"
  by (simp add: sum_fees_def comp_def)

lemma raised_billed_to:
  assumes "books_ok s" "billable = filter (\<lambda>r. ord_fee_cents r \<noteq> None) (candidates client p (db s))"
  shows "billed_to (db (raised_session client from1 to1 billable id s)) (fresh s) = map (\<lambda>r. r\<lparr>ord_invoice_id := Some (fresh s)\<rparr>) billable"
    "j \<noteq> fresh s \<Longrightarrow> billed_to (db (raised_session client from1 to1 billable id s)) j = billed_to (db s) j"
proof -
  let ?p = "\<lambda>r. ord_fee_cents r \<noteq> None \<and> ord_client_id r = Some client \<and> ord_invoice_id r = None \<and> p r \<and> ord_intake_mode r = INTAKE_LIVE"
  have bill: "billable = filter ?p (orders (db s))"
    unfolding assms(2) candidates_def filter_filter by (rule filter_cong) auto
  have "update_where (\<lambda>r. ord_id r \<in> ord_id ` set billable) f (orders (db s)) = update_where ?p f (orders (db s))" for f
    unfolding bill using assms(1) by (intro update_where_cong filter_key) (simp add: books_ok_def)
  note o = raised_tables(1) [of client from1 to1 billable s, unfolded this]
  have "ord_invoice_id r \<noteq> Some (fresh s)" if "r \<in> set (orders (db s))" for r
    using assms(1) that unfolding books_ok_def by fastforce
  then have "filter (\<lambda>r. ord_invoice_id r = Some (fresh s)) (orders (db (raised_session client from1 to1 billable id s))) =
      map (\<lambda>r. r\<lparr>ord_invoice_id := Some (fresh s)\<rparr>) (filter ?p (orders (db s)))"
    unfolding o by (rule billed_by_new)
  then show "billed_to (db (raised_session client from1 to1 billable id s)) (fresh s) = map (\<lambda>r. r\<lparr>ord_invoice_id := Some (fresh s)\<rparr>) billable"
    by (simp only: billed_to_def bill [symmetric])
  show "billed_to (db (raised_session client from1 to1 billable id s)) j = billed_to (db s) j" if "j \<noteq> fresh s"
    unfolding billed_to_def o using that by (intro billed_by_old) simp_all
qed

lemma raised_credits_on:
  assumes "books_ok s"
  shows "credits_on (db (raised_session client from1 to1 billable id s)) (fresh s) =
      map (credit_row (fresh s)) (ca_breaches (assess_credits (db s) client billable))"
    "j \<noteq> fresh s \<Longrightarrow> credits_on (db (raised_session client from1 to1 billable id s)) j = credits_on (db s) j"
proof -
  have "filter (\<lambda>c. ic_invoice_id c = fresh s) (invoice_credits (books s)) = []"
    using assms by (auto simp: books_ok_def filter_empty_conv)
  then show "credits_on (db (raised_session client from1 to1 billable id s)) (fresh s) =
      map (credit_row (fresh s)) (ca_breaches (assess_credits (db s) client billable))"
    by (simp add: credits_on_def raised_tables filter_map comp_def credit_row_def)
  show "credits_on (db (raised_session client from1 to1 billable id s)) j = credits_on (db s) j" if "j \<noteq> fresh s"
    using that by (simp add: credits_on_def raised_tables filter_map comp_def credit_row_def)
qed

lemma raised_adds_up:
  assumes "books_ok s" "billable = filter (\<lambda>r. ord_fee_cents r \<noteq> None) (candidates client p (db s))"
  shows "adds_up (db (raised_session client from1 to1 billable id s)) (raised_invoice client from1 to1 billable s)"
proof -
  have "\<forall>r \<in> set billable. \<forall>c. ord_fee_cents r = Some c \<longrightarrow> 0 \<le> c"
    using assms by (auto simp: books_ok_def candidates_def)
  from credits_within_fees [OF this, of "terms_for_client (db s) client"]
  have "total_credit_cents (assess_credits (db s) client billable) \<le> sum_fees billable"
    by (simp add: total_credit_cents_def assess_credits_def Let_def)
  then show ?thesis
    unfolding adds_up_def raised_tables(5) raised_billed_to [OF assms] raised_credits_on [OF assms(1)]
    by (simp add: raised_invoice_def Let_def total_credit_cents_def comp_def credit_row_def)
qed

lemma raised_session_ok:
  assumes "books_ok s" "billable = filter (\<lambda>r. ord_fee_cents r \<noteq> None) (candidates client p (db s))"
  shows "books_ok (raised_session client from1 to1 billable id s)"
proof -
  let ?s = "raised_session client from1 to1 billable id s" and ?i = "raised_invoice client from1 to1 billable s"
  have old: "adds_up (db ?s) i" if "i \<in> set (invoices (books s))" for i
  proof -
    have "inv_id i \<noteq> fresh s" "adds_up (db s) i" using assms(1) that by (auto simp: books_ok_def)
    with raised_billed_to(2) [OF assms this(1)] raised_credits_on(2) [OF assms(1) this(1)] show ?thesis by (simp add: adds_up_def)
  qed
  have priced: "ord_fee_cents r \<noteq> None" if "r \<in> set (orders (db s))" "ord_id r \<in> ord_id ` set billable" for r
    using assms that filter_key [of ord_id "orders (db s)" r]
    by (auto simp: books_ok_def candidates_def distinct_map inj_on_def)
  show ?thesis
    unfolding books_ok_def raised_tables
    using assms(1) old raised_adds_up [OF assms] priced
    by (auto simp: books_ok_def table_simps set_update_where credit_row_def raised_tables(5) less_Suc_eq split: if_splits)
qed

text \<open>One run after the other, each a client and a period.\<close>

fun run_invoices :: "tz_database \<Rightarrow> string \<Rightarrow> (uuid \<times> date \<times> date) list \<Rightarrow> session \<Rightarrow> session" where
  "run_invoices tz event [] s = s"
| "run_invoices tz event ((client, from1, to1) # runs) s =
     run_invoices tz event runs (snd (generate_invoice tz event id client from1 to1 s))"

lemma generate_invoice_ok:
  assumes "books_ok s"
  shows "books_ok (snd (generate_invoice tz event id client from1 to1 s))"
proof -
  obtain res s' where g: "generate_invoice tz event id client from1 to1 s = (res, s')" by fastforce
  from g show ?thesis
    using assms raised_session_ok [OF assms] by (cases rule: generate_invoice_cases) (simp_all add: g)
qed

lemma run_invoices_ok: "books_ok s \<Longrightarrow> books_ok (run_invoices tz event runs s)"
  by (induction tz event runs s rule: run_invoices.induct) (simp_all add: generate_invoice_ok)

lemma set_breach_of [simp]: "b \<in> set (breach_of a) \<longleftrightarrow> a = Breached b"
  by (cases a) auto

text \<open>Summing by invoice is summing over the orders that carry one.\<close>

lemma sum_by_invoice:
  assumes "distinct is" "\<forall>r \<in> set rows. \<forall>i. ord_invoice_id r = Some i \<longrightarrow> i \<in> set is"
  shows "sum_list (map (\<lambda>i. sum_fees (filter (\<lambda>r. ord_invoice_id r = Some i) rows)) is) =
    sum_fees (filter (\<lambda>r. ord_invoice_id r \<noteq> None) rows)"
  using assms(2)
proof (induction rows)
  case (Cons r rows)
  have "sum_list (map (\<lambda>i. sum_fees (filter (\<lambda>r. ord_invoice_id r = Some i) (r # rows))) is) =
      sum_list (map (\<lambda>i. if ord_invoice_id r = Some i then sum_fees [r] else 0) is) +
      sum_list (map (\<lambda>i. sum_fees (filter (\<lambda>r. ord_invoice_id r = Some i) rows)) is)"
    unfolding sum_list_addf [symmetric] by (intro arg_cong [where f = sum_list] map_cong) (auto simp: sum_fees_def)
  moreover have "sum_list (map (\<lambda>i. if ord_invoice_id r = Some i then sum_fees [r] else 0) is) =
      (if ord_invoice_id r = None then 0 else sum_fees [r])"
  proof (cases "ord_invoice_id r")
    case (Some j)
    then have "j \<in> set is" using Cons.prems by simp
    have "sum_list (map (\<lambda>i. if j = i then sum_fees [r] else 0) is) = (\<Sum>i \<in> set is. if j = i then sum_fees [r] else 0)"
      using assms(1) by (rule sum_list_distinct_conv_sum_set)
    also have "\<dots> = sum_fees [r]" using \<open>j \<in> set is\<close> by simp
    finally show ?thesis using Some by simp
  qed simp
  ultimately show ?case using Cons by (auto simp: sum_fees_def)
qed (simp add: sum_fees_def)

section \<open>Properties\<close>

text \<open>
  (C16) Statements raised one after another, for any clients and periods and under either billing event,
  bill every order at most once and add up: on every invoice ever raised the gross is the sum of the fees of
  the orders that carry it, the credit the sum of its credit rows, the total their difference and
  never negative; and all the invoices together bill exactly the fees of the orders that carry an
  invoice.
\<close>

theorem statements_bill_each_order_once:
  assumes "books_ok s" "s' = run_invoices tz event runs s"
  shows "(\<forall>i \<in> set (invoices (ledgers_of (ops_of (db s')))). adds_up (db s') i) \<and>
    sum_list (map inv_gross_cents (invoices (ledgers_of (ops_of (db s'))))) = sum_fees (filter (\<lambda>r. ord_invoice_id r \<noteq> None) (orders (db s')))"
proof -
  have ok: "books_ok s'" unfolding assms(2) by (rule run_invoices_ok [OF assms(1)])
  let ?is = "invoices (ledgers_of (ops_of (db s')))"
  have up: "\<forall>i \<in> set ?is. adds_up (db s') i" using ok by (simp add: books_ok_def)
  have "sum_list (map inv_gross_cents ?is) = sum_list (map (\<lambda>i. sum_fees (filter (\<lambda>r. ord_invoice_id r = Some i) (orders (db s')))) (map inv_id ?is))"
    using up by (auto simp: adds_up_def billed_to_def comp_def intro!: arg_cong [where f = sum_list] map_cong)
  also have "\<dots> = sum_fees (filter (\<lambda>r. ord_invoice_id r \<noteq> None) (orders (db s')))"
    using ok by (intro sum_by_invoice) (simp_all add: books_ok_def)
  finally show ?thesis using up by blast
qed

text \<open>
  A credit line is owed for a late delivery only and never exceeds the order's fee: every credit a run
  writes names an order that this invoice bills, delivered after what was promised, and its amount is
  positive and at most that order's fee.
\<close>

theorem credits_only_for_late_deliveries:
  assumes "books_ok s" "generate_invoice tz event id client from1 to1 s = (Inr bill, s')" "c \<in> set (credits_on (db s') (inv_id bill))"
  shows "\<exists>r fee. r \<in> set (billed_to (db s') (inv_id bill)) \<and> ord_id r = ic_order_id c \<and> ord_fee_cents r = Some fee \<and>
    ord_delivered_at r = Some (ic_delivered_at c) \<and> ic_promised_by c < ic_delivered_at c \<and> 0 < ic_amount_cents c \<and> ic_amount_cents c \<le> fee"
proof -
  obtain p where p: "bill = raised_invoice client from1 to1 (filter (\<lambda>r. ord_fee_cents r \<noteq> None) (candidates client p (db s))) s"
    "s' = raised_session client from1 to1 (filter (\<lambda>r. ord_fee_cents r \<noteq> None) (candidates client p (db s))) id s"
    using assms(2) by (cases rule: generate_invoice_cases) auto
  let ?b = "filter (\<lambda>r. ord_fee_cents r \<noteq> None) (candidates client p (db s))"
  have id: "inv_id bill = fresh s" by (simp add: p(1) raised_tables(5))
  obtain b r where b: "r \<in> set ?b" "assess_order (terms_for_client (db s) client) r = Breached b" "c = credit_row (fresh s) b"
    using assms(3) unfolding id unfolding p(2) raised_credits_on(1) [OF assms(1)]
    by (auto simp: assess_credits_def Let_def) blast
  have "r\<lparr>ord_invoice_id := Some (fresh s)\<rparr> \<in> set (billed_to (db s') (inv_id bill))"
    using b(1) unfolding id unfolding p(2) raised_billed_to(1) [OF assms(1) refl] by auto
  moreover from assess_order_breach [OF b(2)] obtain fee where "br_order b = r" "ord_delivered_at r = Some (br_delivered_at b)"
    "br_promised_by b < br_delivered_at b" "0 < br_amount_cents b" "ord_fee_cents r = Some fee" "br_amount_cents b \<le> fee" by auto
  ultimately show ?thesis
    by (intro exI [of _ "r\<lparr>ord_invoice_id := Some (fresh s)\<rparr>"] exI [of _ fee]) (simp add: b(3) credit_row_def)
qed

text \<open>
  (C21) Two runs that overlap bill the same orders twice: when a second run for the same client and period
  starts and commits between the first run's read of the orders and its write, both succeed with
  the same gross, the orders end up on the first run's invoice alone, and the other invoice stays
  in the books for the same sum with no order behind it.
\<close>

theorem overlapping_runs_bill_twice:
  assumes "books_ok s" "\<exists>bill s'. generate_invoice tz event id client from1 to1 s = (Inr bill, s')"
    "others = (\<lambda>d. db (snd (generate_invoice tz event id client from1 to1 (s\<lparr>db := d, fresh := Suc (fresh s)\<rparr>))))"
  shows "\<exists>first second s'. generate_invoice tz event others client from1 to1 s = (Inr first, s') \<and>
    set (invoices (ledgers_of (ops_of (db s')))) = set (invoices (ledgers_of (ops_of (db s)))) \<union> {first, second} \<and>
    inv_id first \<noteq> inv_id second \<and> inv_gross_cents first = inv_gross_cents second \<and>
    billed_to (db s') (inv_id second) = [] \<and>
    sum_fees (billed_to (db s') (inv_id first)) = inv_gross_cents first"
proof -
  let ?t = "s\<lparr>fresh := Suc (fresh s)\<rparr>"
  obtain bill s0 where "generate_invoice tz event id client from1 to1 s = (Inr bill, s0)" using assms(2) by blast
  then obtain u v p billable where b: "period_bounds tz (db s) client from1 to1 = Some (u, v)" "billed_in_period event u v = Some p"
    "billable = filter (\<lambda>r. ord_fee_cents r \<noteq> None) (candidates client p (db s))" "billable \<noteq> []"
    by (cases rule: generate_invoice_cases) auto
  let ?first = "raised_invoice client from1 to1 billable s" and ?second = "raised_invoice client from1 to1 billable ?t"
  let ?s' = "raised_session client from1 to1 billable others s"
  let ?p = "\<lambda>r. ord_id r \<in> ord_id ` set billable"
  have g: "generate_invoice tz event others client from1 to1 s = (Inr ?first, ?s')"
    by (rule generate_invoice_raises [OF b])
  have mid: "others (db s) = db (raised_session client from1 to1 billable id ?t)"
    using generate_invoice_raises [of tz ?t client from1 to1 u v event p billable id] b by (simp add: assms(3))
  have twice: "update_where ?p (\<lambda>r. r\<lparr>ord_invoice_id := Some i\<rparr>) (update_where ?p (\<lambda>r. r\<lparr>ord_invoice_id := Some j\<rparr>) rows) =
      update_where ?p (\<lambda>r. r\<lparr>ord_invoice_id := Some i\<rparr>) rows" for i j rows
    by (induction rows) auto
  have o: "orders (db ?s') = orders (db (raised_session client from1 to1 billable id s))"
    using raised_tables(1) [of client from1 to1 billable ?t]
    by (simp add: raised_session_def [of _ _ _ _ others] write_invoice_def Let_def mid twice raised_tables)
  have i: "invoices (books ?s') = invoices (books s) @ [?second, ?first]"
    using raised_tables(2) [of client from1 to1 billable ?t]
    by (simp add: raised_session_def [of _ _ _ _ others] write_invoice_def Let_def mid)
  have "billed_to (db s) (Suc (fresh s)) = []"
    using assms(1) unfolding billed_to_def filter_empty_conv books_ok_def by fastforce
  then have "billed_to (db ?s') (Suc (fresh s)) = []"
    using raised_billed_to(2) [OF assms(1) b(3), of "Suc (fresh s)" from1 to1] o by (simp add: billed_to_def)
  moreover have "sum_fees (billed_to (db ?s') (fresh s)) = sum_fees billable"
    using raised_billed_to(1) [OF assms(1) b(3), of from1 to1] o by (simp add: billed_to_def)
  moreover have "inv_id ?second = Suc (fresh s)" "inv_id ?first = fresh s" "inv_gross_cents ?first = sum_fees billable" "inv_gross_cents ?second = sum_fees billable"
    by (simp_all add: raised_invoice_def Let_def)
  ultimately show ?thesis using g i
    by (intro exI [of _ ?first] exI [of _ ?second] exI [of _ ?s']) auto
qed

text \<open>Two delivered orders of one client, one of them late against a term with a credit.\<close>

definition sample_billed :: "uuid \<Rightarrow> instant \<Rightarrow> order_row" where
  "sample_billed i t = (sample_order i Delivered)\<lparr>ord_delivered_at := Some t, ord_fee_cents := Some 1000\<rparr>"

definition sample_books :: session where
  "sample_books = (sample_session [sample_billed 7 (minutes 30), sample_billed 8 (minutes 100)])\<lparr>db :=
     (sample_tables [sample_billed 7 (minutes 30), sample_billed 8 (minutes 100)])\<lparr>ops_of := (ops_of (sample_tables []))\<lparr>ledgers_of :=
       (ledgers_of (ops_of (sample_tables [])))\<lparr>client_sla_terms := [\<lparr>term_client_id = 2, term_sla_tier = ''T2'', term_delivery_target_minutes = 60,
         term_credit_percent = 25, term_credit_minimum_cents = None, term_credit_maximum_cents = None\<rparr>]\<rparr>\<rparr>\<rparr>\<rparr>"

lemma books_ok_sample: "books_ok sample_books"
  by (simp add: books_ok_def sample_books_def sample_tables_def sample_billed_def sample_order_def)

lemma sample_run_Inr: obtains bill s' where "generate_invoice (\<lambda>_. None) ''order_delivered'' id 2 719163 719164 sample_books = (Inr bill, s')"
proof -
  have "isl (fst (generate_invoice (\<lambda>_. None) ''order_delivered'' id 2 719163 719164 sample_books)) = False" by code_simp
  then show ?thesis using that by (cases "generate_invoice (\<lambda>_. None) ''order_delivered'' id 2 719163 719164 sample_books") (auto simp: isl_def split: sum.splits intro: sum.exhaust_sel)
qed

theorem statements_bill_each_order_once_witness:
  "sum_list (map inv_gross_cents (invoices (ledgers_of (ops_of (db (run_invoices (\<lambda>_. None) ''order_delivered'' [(2, 719163, 719164), (2, 719163, 719164)] sample_books)))))) = 2000"
proof -
  let ?s = "run_invoices (\<lambda>_. None) ''order_delivered'' [(2, 719163, 719164), (2, 719163, 719164)] sample_books"
  have "sum_fees (filter (\<lambda>r. ord_invoice_id r \<noteq> None) (orders (db ?s))) = 2000" by code_simp
  with statements_bill_each_order_once [OF books_ok_sample refl, of "\<lambda>_. None" "''order_delivered''" "[(2, 719163, 719164), (2, 719163, 719164)]"]
  show ?thesis by simp
qed

theorem credits_only_for_late_deliveries_witness:
  "\<exists>bill s'. generate_invoice (\<lambda>_. None) ''order_delivered'' id 2 719163 719164 sample_books = (Inr bill, s') \<and>
     (\<exists>c fee. c \<in> set (credits_on (db s') (inv_id bill)) \<and> 0 < ic_amount_cents c \<and> ic_amount_cents c \<le> fee)"
proof -
  obtain bill s' where g: "generate_invoice (\<lambda>_. None) ''order_delivered'' id 2 719163 719164 sample_books = (Inr bill, s')" by (rule sample_run_Inr)
  have "(case generate_invoice (\<lambda>_. None) ''order_delivered'' id 2 719163 719164 sample_books of
     (Inr bill, s') \<Rightarrow> credits_on (db s') (inv_id bill) \<noteq> [] | _ \<Rightarrow> False)" by code_simp
  then obtain c where c: "c \<in> set (credits_on (db s') (inv_id bill))" unfolding g prod.case sum.case by (meson last_in_set)
  from credits_only_for_late_deliveries [OF books_ok_sample g c] g c show ?thesis by blast
qed

theorem overlapping_runs_bill_twice_witness:
  "\<exists>first (second :: invoice_row) s'. generate_invoice (\<lambda>_. None) ''order_delivered'' (\<lambda>d. db (snd (generate_invoice (\<lambda>_. None) ''order_delivered'' id 2 719163 719164
     (sample_books\<lparr>db := d, fresh := Suc (fresh sample_books)\<rparr>)))) 2 719163 719164 sample_books = (Inr first, s') \<and>
   inv_gross_cents first = inv_gross_cents second \<and> billed_to (db s') (inv_id second) = []"
proof -
  have "\<exists>bill s'. generate_invoice (\<lambda>_. None) ''order_delivered'' id 2 719163 719164 sample_books = (Inr bill, s')"
    by (rule sample_run_Inr) blast
  from overlapping_runs_bill_twice [OF books_ok_sample this refl] show ?thesis by blast
qed

end
