(* ===== verification/Intake.thy ===== *)
theory Intake
  imports Docks Billing Outcomes Eta Hold_Queue
begin

text \<open>
  Order intake (\<open>src/app/ingestion/service.py\<close>) on the order contract (\<open>src/app/schemas/lmx_order.py\<close>). An error is
  the exception that leaves the service; the session it leaves is the request's, of which only \<open>base\<close> is
  committed. The clock is read at numbered places (\<open>ic_clock\<close>), the provider, the distance, \<open>str\<close> of a payload
  value and \<open>secrets.token_hex\<close> are parameters (\<open>intake_config\<close>), and \<open>intake_races\<close> holds what other transactions commit at
  each place where the request can be overtaken. Logging, metrics and the adapters of the sources are not modelled.
\<close>

section \<open>The contract\<close>

record line_item =
  li_quantity :: int
  li_weight_units :: "rat option"

record lmx_order =
  lo_source_system :: string
  lo_source_order_ref :: string
  lo_hub_id :: uuid
  lo_client_id :: "uuid option"
  lo_received_at :: "instant option"
  lo_origin :: origin
  lo_pickup_contact_name :: "string option"
  lo_ready_at :: "instant option"
  lo_pickup_window_start :: "instant option"
  lo_pickup_window_end :: "instant option"
  lo_drop_address_raw :: "string option"
  lo_drop_lat :: "rat option"
  lo_drop_lng :: "rat option"
  lo_drop_contact_name :: "string option"
  lo_drop_contact_phone :: "string option"
  lo_access_notes :: "string option"
  lo_delivery_window_start :: "instant option"
  lo_delivery_window_end :: "instant option"
  lo_sla_owner :: string
  lo_sla_tier :: "string option"
  lo_promised_at :: "instant option"
  lo_entry_seconds :: "int option"
  lo_line_items :: "line_item list"
  lo_total_weight_units :: rat
  lo_modality_assigned :: "string option"
  lo_proof :: json_object
  lo_assignment_scope :: string
  lo_revenue_basis :: string
  lo_quoted_amount_cents :: "cents option"
  lo_payer_type :: string
  lo_payment_status :: string
  lo_cod_amount_cents :: "cents option"
  lo_raw_payload :: json_object
  lo_intake_flags :: "json_object list"
  lo_reference_generated :: bool

text \<open>The validators; an order they refuse raises when it is built.\<close>

definition origin_resolvable :: "origin \<Rightarrow> bool" where
  "origin_resolvable org \<longleftrightarrow> or_shop_external_ref org \<noteq> None \<or> or_pickup_address org \<noteq> None \<or>
     or_pickup_lat org \<noteq> None \<and> or_pickup_lng org \<noteq> None"

definition window_ordered :: "instant option \<Rightarrow> instant option \<Rightarrow> bool" where
  "window_ordered start stop = (case (start, stop) of (Some a, Some b) \<Rightarrow> a \<le> b | _ \<Rightarrow> True)"

definition lmx_valid :: "lmx_order \<Rightarrow> bool" where
  "lmx_valid lmx \<longleftrightarrow> origin_resolvable (lo_origin lmx) \<and>
     (lo_sla_owner lmx = ''EXTERNAL'' \<longrightarrow> lo_delivery_window_end lmx \<noteq> None) \<and>
     window_ordered (lo_pickup_window_start lmx) (lo_pickup_window_end lmx) \<and>
     window_ordered (lo_delivery_window_start lmx) (lo_delivery_window_end lmx)"

definition needs_classification :: "lmx_order \<Rightarrow> bool" where
  "needs_classification lmx \<longleftrightarrow> lo_sla_owner lmx = ''LMX''"

definition is_dispatchable :: "lmx_order \<Rightarrow> bool" where
  "is_dispatchable lmx \<longleftrightarrow> or_pickup_lat (lo_origin lmx) \<noteq> None \<and> or_pickup_lng (lo_origin lmx) \<noteq> None \<and>
     lo_drop_lat lmx \<noteq> None \<and> lo_drop_lng lmx \<noteq> None"

definition total_weight_from_items :: "lmx_order \<Rightarrow> rat" where
  "total_weight_from_items lmx =
     fsum (map (\<lambda>i. fmul (case li_weight_units i of None \<Rightarrow> 0 | Some w \<Rightarrow> w) (of_py_int (li_quantity i))) (lo_line_items lmx))"

section \<open>Configuration and races\<close>

record intake_config =
  ic_geocoder :: geocoder
  ic_miles :: distance
  ic_str_other :: "json \<Rightarrow> string"
  ic_token :: "nat \<Rightarrow> string"
  ic_clock :: "nat \<Rightarrow> instant"

record intake_races =
  ir_shop :: shop_races
  ir_geocode :: "db \<Rightarrow> db"
  ir_dock :: "db \<Rightarrow> db"
  ir_insert :: "db \<Rightarrow> db"
  ir_arm :: "db \<Rightarrow> db"

datatype intake_error =
    Shop_refused shop_error | Destination_unresolvable string | Dock_alias alias_error | Foreign_key | Unknown_tier string
  | No_hold_window | No_delivery_window | Expired_shop

section \<open>Packages and returns\<close>

definition LMX_BARCODE_PREFIX :: string where "LMX_BARCODE_PREFIX = ''LMX-''"

definition dedup :: "'a list \<Rightarrow> 'a list" where
  "dedup xs = rev (remdups (rev xs))"

text \<open>\<open>int(count)\<close>; \<open>None\<close> is its \<open>TypeError\<close> or \<open>ValueError\<close>.\<close>

fun json_int :: "json \<Rightarrow> int option" where
  "json_int (JInt n) = Some n"
| "json_int (JBool b) = Some (if b then 1 else 0)"
| "json_int (JFloat x) = Some (trunc x)"
| "json_int (JText s) = int_of_str s"
| "json_int _ = None"

definition provided_barcodes :: "(json \<Rightarrow> string) \<Rightarrow> json_object \<Rightarrow> string list" where
  "provided_barcodes str_other payload =
     (case map_of payload ''parcels'' of
        Some (JList items) \<Rightarrow> dedup (filter (\<lambda>b. b \<noteq> []) (map (\<lambda>x. strip (py_str str_other x)) items))
      | _ \<Rightarrow> [])"

definition parcel_count :: "json_object \<Rightarrow> nat" where
  "parcel_count payload =
     (case map_of payload ''parcel_count'' of
        None \<Rightarrow> 1
      | Some JNull \<Rightarrow> 1
      | Some j \<Rightarrow> (case json_int j of None \<Rightarrow> 1 | Some n \<Rightarrow> nat (max 1 n)))"

definition parcel_barcodes :: "(json \<Rightarrow> string) \<Rightarrow> (nat \<Rightarrow> string) \<Rightarrow> json_object \<Rightarrow> string list" where
  "parcel_barcodes str_other token payload =
     (let provided = provided_barcodes str_other payload in
      if provided \<noteq> [] then provided
      else map (\<lambda>k. LMX_BARCODE_PREFIX @ token k) [0..<parcel_count payload])"

fun truthy :: "json \<Rightarrow> bool" where
  "truthy JNull = False"
| "truthy (JBool b) = b"
| "truthy (JInt n) = (n \<noteq> 0)"
| "truthy (JFloat x) = (x \<noteq> 0)"
| "truthy (JText s) = (s \<noteq> [])"
| "truthy (JList xs) = (xs \<noteq> [])"
| "truthy (JObj xs) = (xs \<noteq> [])"
| "truthy _ = True"

text \<open>A JSON string, as \<open>isinstance(x, str)\<close> sees it.\<close>

fun json_text :: "(json \<Rightarrow> string) \<Rightarrow> json \<Rightarrow> string option" where
  "json_text str_other (JText s) = Some s"
| "json_text str_other (JId i) = Some (str_other (JId i))"
| "json_text str_other (JTime t) = Some (str_other (JTime t))"
| "json_text str_other _ = None"

definition expected_return_manifest :: "(json \<Rightarrow> string) \<Rightarrow> json_object \<Rightarrow> string option" where
  "expected_return_manifest str_other payload =
     (case Option.bind (map_of payload ''return_manifest'') (json_text str_other) of
        Some m \<Rightarrow> if strip m \<noteq> [] then Some (strip m)
          else if (case map_of payload ''core_return'' of None \<Rightarrow> False | Some j \<Rightarrow> truthy j) then Some ''core exchange'' else None
      | None \<Rightarrow> if (case map_of payload ''core_return'' of None \<Rightarrow> False | Some j \<Rightarrow> truthy j) then Some ''core exchange'' else None)"

section \<open>Rules and prices\<close>

definition load_tier_overrides :: "db \<Rightarrow> uuid \<Rightarrow> tier_override list" where
  "load_tier_overrides d hub =
     concat (map (\<lambda>r. case (map_of (rule_texts r) ''match_key'', map_of (rule_texts r) ''match_value'', map_of (rule_texts r) ''tier'') of
          (Some k, Some v, Some t) \<Rightarrow> if k = [] \<or> v = [] \<or> t = [] then [] else [\<lparr>to_match_key = k, to_match_value = v, to_tier = t\<rparr>]
        | _ \<Rightarrow> [])
       (sort_key rule_created_at (filter (\<lambda>r. rule_type r = ''tier_override'' \<and> rule_enabled r \<and> rule_hub_id r = hub) (active_rules (ops_of d)))))"

definition distance_between :: "distance \<Rightarrow> rat option \<Rightarrow> rat option \<Rightarrow> rat option \<Rightarrow> rat option \<Rightarrow> rat option" where
  "distance_between miles origin_lat origin_lng drop_lat drop_lng =
     (case (origin_lat, origin_lng, drop_lat, drop_lng) of
        (Some a, Some b, Some c, Some d) \<Rightarrow> Some (miles a b c d)
      | _ \<Rightarrow> None)"

definition rate_in_force :: "db \<Rightarrow> uuid \<Rightarrow> string \<Rightarrow> instant \<Rightarrow> client_rate option" where
  "rate_in_force d client tier now =
     (case sort_key (\<lambda>r. - rate_effective_from r)
        (filter (\<lambda>r. rate_client_id r = client \<and> rate_sla_tier r = tier \<and> rate_effective_from r \<le> now) (client_rates (intake_of (ops_of d)))) of
        [] \<Rightarrow> None | r # _ \<Rightarrow> Some r)"

definition price_order ::
    "distance \<Rightarrow> instant \<Rightarrow> uuid \<Rightarrow> string \<Rightarrow> lmx_order \<Rightarrow> order_row \<Rightarrow> shop_row \<Rightarrow> db \<Rightarrow> (priced_drop \<times> uuid) option" where
  "price_order miles now client tier lmx order shop d =
     map_option (\<lambda>rate. (price_drop rate
         (distance_between miles (Some (shop_lat shop)) (Some (shop_lng shop)) (ord_delivery_lat order) (ord_delivery_lng order))
         (int (length (lo_line_items lmx))) (ord_weight_units order), rate_id rate))
       (rate_in_force d client tier now)"

section \<open>Duplicates\<close>

definition DUPLICATE_WINDOW :: int where "DUPLICATE_WINDOW = minutes 10"
definition POSSIBLE_DUPLICATE :: string where "POSSIBLE_DUPLICATE = ''possible_duplicate''"

definition find_existing_order :: "lmx_order \<Rightarrow> db \<Rightarrow> order_row option" where
  "find_existing_order lmx d =
     find (\<lambda>r. ord_source_system r = lo_source_system lmx \<and> ord_source_order_ref r = Some (lo_source_order_ref lmx) \<and>
       ord_client_id r = lo_client_id lmx) (orders d)"

text \<open>SQL's \<open>lower\<close> and \<open>str.lower\<close> on U+0000 to U+00FF.\<close>

definition lower :: "string \<Rightarrow> string" where
  "lower s = map (\<lambda>c. let n = (of_char c :: nat) in
     if 65 \<le> n \<and> n \<le> 90 \<or> 192 \<le> n \<and> n \<le> 222 \<and> n \<noteq> 215 then char_of (n + 32) else c) s"

definition twin_of :: "instant \<Rightarrow> uuid \<Rightarrow> uuid \<Rightarrow> (order_row \<Rightarrow> bool) \<Rightarrow> db \<Rightarrow> order_row option" where
  "twin_of now client shop same_door d =
     (case sort_key (\<lambda>r. - ord_created_at r)
        (filter (\<lambda>r. ord_client_id r = Some client \<and> ord_shop_id r = Some shop \<and> now - DUPLICATE_WINDOW \<le> ord_created_at r \<and>
           ord_status r \<noteq> Cancelled \<and> same_door r) (orders d)) of
        [] \<Rightarrow> None | r # _ \<Rightarrow> Some r)"

definition duplicate_flag :: "order_row \<Rightarrow> json_object" where
  "duplicate_flag twin = [(''kind'', JText POSSIBLE_DUPLICATE), (''of_order_id'', JId (ord_id twin)),
     (''of_reference'', JText (ord_external_order_ref twin))]"

definition intake_flags :: "instant \<Rightarrow> lmx_order \<Rightarrow> uuid \<Rightarrow> uuid option \<Rightarrow> db \<Rightarrow> json_object list" where
  "intake_flags now lmx shop dock d =
     (case (lo_reference_generated lmx, lo_client_id lmx) of
        (True, Some client) \<Rightarrow>
          (let with_twin = (\<lambda>same_door. case twin_of now client shop same_door d of
                 None \<Rightarrow> lo_intake_flags lmx | Some twin \<Rightarrow> lo_intake_flags lmx @ [duplicate_flag twin])
           in case (dock, lo_drop_address_raw lmx) of
                (Some l, _) \<Rightarrow> with_twin (\<lambda>r. ord_delivery_location_id r = Some l)
              | (None, Some raw) \<Rightarrow> if raw = [] then lo_intake_flags lmx
                  else with_twin (\<lambda>r. map_option lower (ord_delivery_address r) = Some (lower (strip raw)))
              | (None, None) \<Rightarrow> lo_intake_flags lmx)
      | _ \<Rightarrow> lo_intake_flags lmx)"

text \<open>The first flag of that kind is the one every reader looks at.\<close>

definition is_duplicate_flag :: "json_object \<Rightarrow> bool" where
  "is_duplicate_flag flag \<longleftrightarrow> map_of flag ''kind'' = Some (JText POSSIBLE_DUPLICATE)"

definition first_duplicate_flag :: "order_row \<Rightarrow> json_object option" where
  "first_duplicate_flag order = find is_duplicate_flag (ord_intake_flags order)"

text \<open>A null and a missing key are both \<open>None\<close>.\<close>

definition flag_get :: "json_object \<Rightarrow> string \<Rightarrow> json option" where
  "flag_get flag k = (case map_of flag k of None \<Rightarrow> None | Some JNull \<Rightarrow> None | Some j \<Rightarrow> Some j)"

definition possible_duplicate_of :: "order_row \<Rightarrow> json option" where
  "possible_duplicate_of order = Option.bind (first_duplicate_flag order) (\<lambda>flag. flag_get flag ''of_reference'')"

definition twin_id :: "order_row \<Rightarrow> uuid option" where
  "twin_id order = Option.bind (first_duplicate_flag order) (\<lambda>flag. get_id (flag_get flag ''of_order_id''))"

definition duplicate_answer :: "order_row \<Rightarrow> json option" where
  "duplicate_answer order = Option.bind (first_duplicate_flag order) (\<lambda>flag. flag_get flag ''answer'')"

definition ASKABLE_STATUSES :: "order_status list" where
  "ASKABLE_STATUSES = [Received, Classified, Held, Queued, Assigned, En_route_pickup]"

definition open_duplicate_questions :: "order_row list \<Rightarrow> db \<Rightarrow> uuid set" where
  "open_duplicate_questions rows d =
     (let flagged = filter (\<lambda>r. ord_status r \<in> set ASKABLE_STATUSES \<and> duplicate_answer r = None \<and> twin_id r \<noteq> None) rows in
      set (map ord_id (filter (\<lambda>r. \<not> (\<exists>x \<in> set (orders d). twin_id r = Some (ord_id x) \<and> ord_status x = Cancelled)) flagged)))"

definition answer_flag :: "string \<Rightarrow> instant \<Rightarrow> json_object \<Rightarrow> json_object" where
  "answer_flag answered_by moment flag =
     (if is_duplicate_flag flag \<and> flag_get flag ''answer'' = None
      then put_key ''answered_at'' (JTime moment) (put_key ''answered_by'' (JText answered_by) (put_key ''answer'' (JText ''separate'') flag))
      else flag)"

definition answer_not_a_duplicate :: "string \<Rightarrow> instant \<Rightarrow> order_row \<Rightarrow> bool \<times> order_row" where
  "answer_not_a_duplicate answered_by moment order =
     (if \<exists>flag \<in> set (ord_intake_flags order). is_duplicate_flag flag
      then (True, order\<lparr>ord_intake_flags := map (answer_flag answered_by moment) (ord_intake_flags order)\<rparr>)
      else (False, order))"

section \<open>The steps of an intake\<close>

definition intake_drop ::
    "intake_config \<Rightarrow> (db \<Rightarrow> db) \<Rightarrow> lmx_order \<Rightarrow> session \<Rightarrow> (intake_error + (rat option \<times> rat option)) \<times> session" where
  "intake_drop cfg others lmx s =
     (case (lo_drop_lat lmx, lo_drop_address_raw lmx) of
        (None, Some raw) \<Rightarrow>
          if raw = [] then (Inr (lo_drop_lat lmx, lo_drop_lng lmx), s)
          else (case resolve_address (ic_geocoder cfg) (ic_clock cfg 1) others raw s of
             (None, s1) \<Rightarrow> (Inl (Destination_unresolvable raw), s1)
           | (Some r, s1) \<Rightarrow> (Inr (Some (gr_lat r), Some (gr_lng r)), s1))
      | _ \<Rightarrow> (Inr (lo_drop_lat lmx, lo_drop_lng lmx), s))"

text \<open>
  Whether the drop's address lost its race over the cache: then the session was rolled back, which expires every row it has read, and
  reading a column of one outside a query is an error of the asynchronous session (\<open>Expired_shop\<close> below).
\<close>

definition drop_raced :: "intake_config \<Rightarrow> (db \<Rightarrow> db) \<Rightarrow> lmx_order \<Rightarrow> session \<Rightarrow> bool" where
  "drop_raced cfg others lmx s \<longleftrightarrow>
     (case (lo_drop_lat lmx, lo_drop_address_raw lmx) of
        (None, Some raw) \<Rightarrow> raw \<noteq> [] \<and> normalize_address raw \<noteq> [] \<and> geo_lookup (normalize_address raw) (db s) = None \<and>
          geocode (ic_geocoder cfg) raw \<noteq> Geocoder_unavailable \<and> geo_lookup (normalize_address raw) (others (db s)) \<noteq> None
      | _ \<Rightarrow> False)"

definition intake_dock ::
    "(db \<Rightarrow> db) \<Rightarrow> lmx_order \<Rightarrow> rat option \<times> rat option \<Rightarrow> session \<Rightarrow> (intake_error + uuid option) \<times> session" where
  "intake_dock others lmx xy s =
     (case lo_drop_address_raw lmx of
        None \<Rightarrow> (Inr None, s)
      | Some raw \<Rightarrow>
          if raw = [] then (Inr None, s)
          else (case resolve_location others raw (fst xy) (snd xy) s of
             (Inl (No_such_place _), s1) \<Rightarrow> (Inr None, s1)
           | (Inl (Bad_alias e), s1) \<Rightarrow> (Inl (Dock_alias e), s1)
           | (Inr l, s1) \<Rightarrow> (Inr (Some (location_id l)), s1)))"

definition contract_of :: "lmx_order \<Rightarrow> order_contract" where
  "contract_of lmx =
     \<lparr>oc_raw_payload = lo_raw_payload lmx, oc_pickup_address = or_pickup_address (lo_origin lmx),
      oc_pickup_contact_name = lo_pickup_contact_name lmx, oc_pickup_contact_phone = or_pickup_contact_phone (lo_origin lmx),
      oc_ready_at = lo_ready_at lmx, oc_pickup_window_start = lo_pickup_window_start lmx, oc_pickup_window_end = lo_pickup_window_end lmx,
      oc_delivery_window_start = lo_delivery_window_start lmx, oc_assignment_scope = lo_assignment_scope lmx,
      oc_entry_seconds = lo_entry_seconds lmx, oc_revenue_basis = lo_revenue_basis lmx,
      oc_quoted_amount_cents = lo_quoted_amount_cents lmx, oc_payment_status = lo_payment_status lmx,
      oc_modality_assigned = lo_modality_assigned lmx, oc_delivery_contact_name = lo_drop_contact_name lmx,
      oc_delivery_contact_phone = lo_drop_contact_phone lmx, oc_delivery_notes = lo_access_notes lmx\<rparr>"

text \<open>\<open>Order(...)\<close> with the defaults of its columns.\<close>

definition new_order ::
    "intake_config \<Rightarrow> intake_mode \<Rightarrow> lmx_order \<Rightarrow> shop_row \<Rightarrow> rat option \<times> rat option \<Rightarrow> uuid option \<Rightarrow> session \<Rightarrow> order_row" where
  "new_order cfg mode lmx shop xy dock s =
     \<lparr>ord_id = fresh s, ord_hub_id = lo_hub_id lmx, ord_client_id = lo_client_id lmx, ord_shop_id = Some (shop_id shop),
      ord_external_order_ref = lo_source_order_ref lmx, ord_source_system = lo_source_system lmx,
      ord_source_order_ref = Some (lo_source_order_ref lmx), ord_sla_tier = None, ord_hold_deadline = None,
      ord_assigned_at = None, ord_weight_units = lo_total_weight_units lmx, ord_status = Received,
      ord_requested_at = Some (case lo_received_at lmx of None \<Rightarrow> ic_clock cfg 2 | Some t \<Rightarrow> t), ord_delivered_at = None,
      ord_delivery_attempts = 1, ord_failure_reason = None, ord_delivery_lat = fst xy, ord_delivery_lng = snd xy,
      ord_delivery_location_id = dock, ord_sla_owner = lo_sla_owner lmx, ord_delivery_window_end = lo_delivery_window_end lmx,
      ord_promised_at = lo_promised_at lmx, ord_payer_type = lo_payer_type lmx, ord_cod_amount_cents = lo_cod_amount_cents lmx,
      ord_fee_cents = None, ord_invoice_id = None, ord_intake_mode = mode, ord_proof_requirements = Some (lo_proof lmx),
      ord_tracking_token = None, ord_delivery_address = lo_drop_address_raw lmx,
      ord_intake_flags = intake_flags (ic_clock cfg 3) lmx (shop_id shop) dock (db s), ord_fee_components = None,
      ord_rate_version_id = None, ord_contract = contract_of lmx, ord_created_at = txn_now s, ord_updated_at = txn_now s\<rparr>"

text \<open>The unique index \<open>uq_orders_source_ref\<close>; a null in it is never equal to another.\<close>

definition source_key :: "order_row \<Rightarrow> (uuid \<times> string \<times> string) option" where
  "source_key r =
     (case (ord_client_id r, ord_source_order_ref r) of
        (Some client, Some ref) \<Rightarrow> Some (client, ord_source_system r, ref)
      | _ \<Rightarrow> None)"

lemma source_key_update [simp]:
  "source_key (r\<lparr>ord_status := st\<rparr>) = source_key r" "source_key (r\<lparr>ord_hold_deadline := t\<rparr>) = source_key r"
  "source_key (r\<lparr>ord_sla_tier := tier\<rparr>) = source_key r" "source_key (r\<lparr>ord_fee_cents := fee\<rparr>) = source_key r"
  "source_key (r\<lparr>ord_fee_components := parts\<rparr>) = source_key r" "source_key (r\<lparr>ord_rate_version_id := i\<rparr>) = source_key r"
  by (auto simp: source_key_def split: option.split)

definition add_order :: "order_row \<Rightarrow> db \<Rightarrow> db" where
  "add_order r d = d\<lparr>orders := orders d @ [r]\<rparr>"

datatype insert_result = Inserted | Lost order_row | Refused

text \<open>
  The insert in its savepoint. A taken source reference hands back the winner; a taken identifier, or a shop or a dock that is
  not there, is the other \<open>IntegrityError\<close>, which is raised again.
\<close>

definition insert_order :: "(db \<Rightarrow> db) \<Rightarrow> lmx_order \<Rightarrow> order_row \<Rightarrow> session \<Rightarrow> insert_result \<times> session" where
  "insert_order others lmx order s =
     (let s1 = interfere_db others (snd (uuid4 s)) in
      if source_key order \<noteq> None \<and> lookup_by source_key (source_key order) (orders (db s1)) \<noteq> None then
        (case find_existing_order lmx (db s1) of
           None \<Rightarrow> (Refused, s1)
         | Some winner \<Rightarrow> (Lost winner, commit s1))
      else if ord_id order \<in> ord_id ` set (orders (db s1)) \<or>
          ord_shop_id order \<notin> (\<lambda>x. Some (shop_id x)) ` set (shops (db s1)) \<or>
          ord_delivery_location_id order \<noteq> None \<and> ord_delivery_location_id order \<notin> (\<lambda>x. Some (location_id x)) ` set (locations (db s1))
      then (Refused, s1)
      else (Inserted, s1\<lparr>db := add_order order (db s1)\<rparr>))"

definition add_packages :: "intake_config \<Rightarrow> json_object \<Rightarrow> order_row \<Rightarrow> db \<Rightarrow> db" where
  "add_packages cfg payload order d =
     d\<lparr>parcels := parcels d @ map (\<lambda>b. \<lparr>parcel_hub_id = ord_hub_id order, parcel_order_id = ord_id order, parcel_barcode = b,
         parcel_scanned_at = None\<rparr>) (parcel_barcodes (ic_str_other cfg) (ic_token cfg) payload),
       ops_of := (ops_of d)\<lparr>intake_of := (intake_of (ops_of d))\<lparr>return_items := return_items (intake_of (ops_of d)) @
         (case expected_return_manifest (ic_str_other cfg) payload of
            None \<Rightarrow> []
          | Some m \<Rightarrow> [\<lparr>ri_hub_id = ord_hub_id order, ri_origin_order_id = Some (ord_id order), ri_shop_id = ord_shop_id order,
              ri_manifest = m, ri_status = ''expected''\<rparr>])\<rparr>\<rparr>\<rparr>"

definition DEFAULT_EXTERNAL_TIER :: string where "DEFAULT_EXTERNAL_TIER = ''T2''"

text \<open>The tier, the end of the hold and the promise; \<open>None\<close> from the engine is its \<open>KeyError\<close>.\<close>

definition commitment_of ::
    "intake_config \<Rightarrow> lmx_order \<Rightarrow> shop_row \<Rightarrow> order_row \<Rightarrow> db \<Rightarrow> intake_error + (string \<times> instant \<times> instant option)" where
  "commitment_of cfg lmx shop order d =
     (if needs_classification lmx then
        (case classify_order (ic_str_other cfg)
            \<lparr>no_external_order_ref = lo_source_order_ref lmx,
             no_requested_at = (case lo_received_at lmx of None \<Rightarrow> ic_clock cfg 7 | Some t \<Rightarrow> t), no_raw_payload = lo_raw_payload lmx\<rparr>
            (Some (ic_clock cfg 4)) (Some (load_hold_window_overrides d (lo_hub_id lmx) (shop_id shop)))
            (Some (load_tier_overrides d (lo_hub_id lmx))) of
           None \<Rightarrow> Inl No_hold_window
         | Some c \<Rightarrow>
             Inr (co_sla_tier c, co_hold_deadline c, promised_delivery_by (delivery_commitment order
               (case ord_client_id order of None \<Rightarrow> None | Some client \<Rightarrow> terms_for_client d client (co_sla_tier c)))))
      else (case lo_delivery_window_end lmx of
         None \<Rightarrow> Inl No_delivery_window
       | Some stop \<Rightarrow>
           Inr (case lo_sla_tier lmx of None \<Rightarrow> DEFAULT_EXTERNAL_TIER | Some t \<Rightarrow> if t = [] then DEFAULT_EXTERNAL_TIER else t,
             stop, Some stop)))"

definition drive_minutes :: "distance \<Rightarrow> shop_row \<Rightarrow> order_row \<Rightarrow> rat" where
  "drive_minutes miles shop order =
     (case distance_between miles (Some (shop_lat shop)) (Some (shop_lng shop)) (ord_delivery_lat order) (ord_delivery_lng order) of
        None \<Rightarrow> 0 | Some m \<Rightarrow> minutes_for_miles m)"

definition safe_deadline :: "distance \<Rightarrow> instant \<Rightarrow> shop_row \<Rightarrow> order_row \<Rightarrow> instant option \<Rightarrow> instant \<Rightarrow> instant" where
  "safe_deadline miles now shop order promise hold_deadline =
     (case promise of
        None \<Rightarrow> hold_deadline
      | Some p \<Rightarrow> max now (min hold_deadline (latest_safe_hold_deadline p (drive_minutes miles shop order))))"

text \<open>\<open>SLATier(text)\<close>\<close>

definition tier_of_text :: "string \<Rightarrow> sla_tier option" where
  "tier_of_text t = find (\<lambda>x. tier_value x = t) [HOT_SHOT, T1, T2, T3]"

definition priced_order ::
    "intake_config \<Rightarrow> intake_mode \<Rightarrow> lmx_order \<Rightarrow> shop_row \<Rightarrow> string \<Rightarrow> db \<Rightarrow> order_row \<Rightarrow> order_row" where
  "priced_order cfg mode lmx shop tier d order =
     (case (lo_client_id lmx, mode) of
        (Some client, INTAKE_LIVE) \<Rightarrow>
          (case price_order (ic_miles cfg) (ic_clock cfg 5) client tier lmx order shop d of
             None \<Rightarrow> order\<lparr>ord_fee_cents := None, ord_fee_components := None, ord_rate_version_id := None\<rparr>
           | Some (p, i) \<Rightarrow> order\<lparr>ord_fee_cents := Some (fee_cents p), ord_fee_components := Some (fee_components p),
               ord_rate_version_id := Some i\<rparr>)
      | _ \<Rightarrow> order\<lparr>ord_fee_cents := None, ord_fee_components := None, ord_rate_version_id := None\<rparr>)"

text \<open>Every failure of the experiment is logged and the order goes on without an arm.\<close>

definition assign_control_arm ::
    "(db \<Rightarrow> db) \<Rightarrow> instant \<Rightarrow> order_row \<Rightarrow> lmx_order \<Rightarrow> session \<Rightarrow> string option \<times> session" where
  "assign_control_arm others now order lmx s =
     (case lo_client_id lmx of
        None \<Rightarrow> (None, s)
      | Some c \<Rightarrow>
          (case lookup_by client_id c (clients (ledgers_of (ops_of (db s)))) of
             None \<Rightarrow> (None, s)
           | Some client \<Rightarrow>
               if \<not> control_arm_is_live client then (None, s)
               else (case assign_arm others now order client (receiver_key_for (ord_delivery_address order)) s of
                  (Inl _, s1) \<Rightarrow> (None, s1)
                | (Inr a, s1) \<Rightarrow> (Some (ea_arm a), s1))))"

definition write_order :: "order_row \<Rightarrow> session \<Rightarrow> session" where
  "write_order order s = s\<lparr>db := (db s)\<lparr>orders := update_where (\<lambda>r. ord_id r = ord_id order) (\<lambda>_. order) (orders (db s))\<rparr>\<rparr>"

text \<open>The arm, the abstention that a control order's hold is not taken, and the row as it stands then.\<close>

definition intake_arm ::
    "intake_config \<Rightarrow> (db \<Rightarrow> db) \<Rightarrow> intake_mode \<Rightarrow> lmx_order \<Rightarrow> instant \<Rightarrow> order_row \<Rightarrow> session \<Rightarrow> order_row \<times> session" where
  "intake_arm cfg others mode lmx hold_deadline order s =
     (if mode = INTAKE_BACKFILL then (order, s)
      else
        let now = ic_clock cfg 4; (arm, s1) = assign_control_arm others now order lmx s in
        if arm = Some ARM_CONTROL then
          (case record_arm_abstention (ic_clock cfg 6) (lo_hub_id lmx) (ord_id order) ARM_CONTROL now (Some hold_deadline) s1 of
             Inl _ \<Rightarrow> (order, s1)
           | Inr (_, s2) \<Rightarrow> let left_alone = order\<lparr>ord_hold_deadline := Some now\<rparr> in (left_alone, write_order left_alone s2))
        else (order, s1))"

definition queue_entry :: "shop_row \<Rightarrow> instant \<Rightarrow> string \<Rightarrow> instant \<Rightarrow> order_row \<Rightarrow> held_order" where
  "queue_entry shop now tier hold_deadline order =
     \<lparr>ho_order_id = ord_id order, ho_shop_lat = shop_lat shop, ho_shop_lng = shop_lng shop, ho_sla_tier = tier,
      ho_hold_deadline = hold_deadline, ho_held_since = now, ho_shop_name = shop_name shop,
      ho_delivery_lat = ord_delivery_lat order, ho_delivery_lng = ord_delivery_lng order\<rparr>"

text \<open>The row of a new order, with its tier, the end of its hold and its price.\<close>

definition held_row ::
    "intake_config \<Rightarrow> intake_mode \<Rightarrow> lmx_order \<Rightarrow> shop_row \<Rightarrow> db \<Rightarrow> string \<times> instant \<times> instant option \<Rightarrow> sla_tier \<Rightarrow> order_row \<Rightarrow> order_row" where
  "held_row cfg mode lmx shop d plan tier order =
     (priced_order cfg mode lmx shop (fst plan) d
        (order\<lparr>ord_sla_tier := Some tier,
           ord_hold_deadline := Some (safe_deadline (ic_miles cfg) (ic_clock cfg 4) shop order (snd (snd plan)) (fst (snd plan)))\<rparr>))
      \<lparr>ord_status := Held\<rparr>"

text \<open>From the order's row on, when its insert was not refused.\<close>

definition take_in ::
    "intake_config \<Rightarrow> intake_races \<Rightarrow> intake_mode \<Rightarrow> lmx_order \<Rightarrow> json_object \<Rightarrow> shop_row \<Rightarrow> order_row \<Rightarrow> session \<Rightarrow> hold_store
      \<Rightarrow> (intake_error + order_row) \<times> session \<times> hold_store" where
  "take_in cfg races mode lmx payload shop order s q =
     (let s1 = s\<lparr>db := add_packages cfg payload order (db s)\<rparr> in
      case commitment_of cfg lmx shop order (db s1) of
        Inl e \<Rightarrow> (Inl e, s1, q)
      | Inr plan \<Rightarrow>
          (case tier_of_text (fst plan) of
             None \<Rightarrow> (Inl (Unknown_tier (fst plan)), s1, q)
           | Some tier \<Rightarrow>
               let now = ic_clock cfg 4;
                   held = held_row cfg mode lmx shop (db s1) plan tier order;
                   deadline = (case ord_hold_deadline held of Some t \<Rightarrow> t | None \<Rightarrow> now);
                   (final, s2) = intake_arm cfg (ir_arm races) mode lmx deadline held (write_order held s1)
               in if mode = INTAKE_BACKFILL then (Inr final, commit s2, q)
                  else
                    let s3 = commit (emit_status_change True (ord_id final) (ord_client_id final) (ord_source_system final)
                          (ord_source_order_ref final) Received Held now s2)
                    in (Inr final, s3, hold_add (lo_hub_id lmx)
                          (queue_entry shop now (fst plan) (case ord_hold_deadline final of Some t \<Rightarrow> t | None \<Rightarrow> now) final) True q)))"

text \<open>The order, and whether it was here already.\<close>

definition ingest_or_find ::
    "intake_config \<Rightarrow> intake_races \<Rightarrow> lmx_order \<Rightarrow> json_object option \<Rightarrow> intake_mode \<Rightarrow> session \<Rightarrow> hold_store
      \<Rightarrow> (intake_error + (order_row \<times> bool)) \<times> session \<times> hold_store" where
  "ingest_or_find cfg races lmx payload_opt mode s q =
     (let payload = (case payload_opt of None \<Rightarrow> lo_raw_payload lmx | Some p \<Rightarrow> p) in
      case find_existing_order lmx (db s) of
        Some existing \<Rightarrow> (Inr (existing, True), s, q)
      | None \<Rightarrow>
          (case resolve_or_create_shop (ic_geocoder cfg) (ic_clock cfg 0) (ir_shop races) (lo_client_id lmx) (lo_origin lmx) s of
             (Inl e, s1) \<Rightarrow> (Inl (Shop_refused e), s1, q)
           | (Inr shop, s1) \<Rightarrow>
               (case intake_drop cfg (ir_geocode races) lmx s1 of
                  (Inl e, s2) \<Rightarrow> (Inl e, s2, q)
                | (Inr xy, s2) \<Rightarrow>
                    (case intake_dock (ir_dock races) lmx xy s2 of
                       (Inl e, s3) \<Rightarrow> (Inl e, s3, q)
                     | (Inr dock, s3) \<Rightarrow>
                         if drop_raced cfg (ir_geocode races) lmx s1 \<and> shop_id shop \<in> shop_id ` set (shops (base s2))
                         then (Inl Expired_shop, s3, q)
                         else
                           let order = new_order cfg mode lmx shop xy dock s3 in
                           (case insert_order (ir_insert races) lmx order s3 of
                              (Refused, s4) \<Rightarrow> (Inl Foreign_key, s4, q)
                            | (Lost winner, s4) \<Rightarrow> (Inr (winner, True), s4, q)
                            | (Inserted, s4) \<Rightarrow>
                                (case take_in cfg races mode lmx payload shop order s4 q of
                                   (Inl e, s5, q1) \<Rightarrow> (Inl e, s5, q1)
                                 | (Inr final, s5, q1) \<Rightarrow> (Inr (final, False), s5, q1)))))))"

definition ingest_lmx_order ::
    "intake_config \<Rightarrow> intake_races \<Rightarrow> lmx_order \<Rightarrow> json_object option \<Rightarrow> intake_mode \<Rightarrow> session \<Rightarrow> hold_store
      \<Rightarrow> (intake_error + order_row) \<times> session \<times> hold_store" where
  "ingest_lmx_order cfg races lmx payload_opt mode s q =
     (case ingest_or_find cfg races lmx payload_opt mode s q of
        (Inl e, s', q') \<Rightarrow> (Inl e, s', q')
      | (Inr (order, replayed), s', q') \<Rightarrow> (Inr order, s', q'))"

section \<open>Sessions of an intake\<close>

text \<open>
  Orders are unique by identifier and by source reference, what the request sees includes what is committed, and
  notifications can be written. Others keep this, and neither see nor touch what is not committed.
\<close>

definition order_tables_ok :: "db \<Rightarrow> bool" where
  "order_tables_ok d \<longleftrightarrow> distinct (map ord_id (orders d)) \<and> unique_on source_key (orders d)"

definition intake_ok :: "session \<Rightarrow> bool" where
  "intake_ok s \<longleftrightarrow> session_ok s \<and> session_ok (rollback s) \<and> order_tables_ok (db s) \<and> order_tables_ok (base s) \<and>
     ord_id ` set (orders (base s)) \<subseteq> ord_id ` set (orders (db s))"

definition keeps_intake :: "(db \<Rightarrow> db) \<Rightarrow> bool" where
  "keeps_intake f \<longleftrightarrow> (\<forall>s. intake_ok s \<longrightarrow> intake_ok (interfere_db f s) \<and>
     (\<forall>r \<in> set (orders (db s)). ord_id r \<notin> ord_id ` set (orders (base s)) \<longrightarrow>
        r \<in> set (orders (f (db s))) \<and> ord_id r \<notin> ord_id ` set (orders (f (base s)))))"

definition keeps_intake_all :: "intake_races \<Rightarrow> bool" where
  "keeps_intake_all races \<longleftrightarrow> keeps_intake (sr_geocode (ir_shop races)) \<and> keeps_intake (sr_dock (ir_shop races)) \<and>
     keeps_intake (ir_geocode races) \<and> keeps_intake (ir_dock races) \<and> keeps_intake (ir_insert races) \<and> keeps_intake (ir_arm races)"

lemma keeps_intake_id [simp]: "keeps_intake id" "keeps_intake (\<lambda>d. d)"
  by (simp_all add: keeps_intake_def interfere_db_def)

lemma keeps_intakeD: "keeps_intake f \<Longrightarrow> intake_ok s \<Longrightarrow> intake_ok (interfere_db f s)"
  by (simp add: keeps_intake_def)

lemma keeps_uncommitted:
  "keeps_intake f \<Longrightarrow> intake_ok s \<Longrightarrow> r \<in> set (orders (db s)) \<Longrightarrow> ord_id r \<notin> ord_id ` set (orders (base s)) \<Longrightarrow>
     r \<in> set (orders (f (db s))) \<and> ord_id r \<notin> ord_id ` set (orders (f (base s)))"
  by (simp add: keeps_intake_def)

text \<open>A step that leaves orders, notifications and endpoints alone, and takes no identifier back.\<close>

lemma intake_ok_step:
  assumes "intake_ok s" "orders d = orders (db s)" "deliveries d = deliveries (db s)" "endpoints d = endpoints (db s)" "fresh s \<le> n"
  shows "intake_ok (s\<lparr>db := d, fresh := n\<rparr>)" "intake_ok (s\<lparr>fresh := n, db := d\<rparr>)" "intake_ok (s\<lparr>db := d\<rparr>)"
    "intake_ok (s\<lparr>fresh := n\<rparr>)"
  using assms by (fastforce simp: intake_ok_def session_ok_def rollback_def order_tables_ok_def)+

lemma intake_ok_commit: "intake_ok s \<Longrightarrow> intake_ok (commit s)"
  by (simp add: intake_ok_def session_ok_def rollback_def commit_def)

lemma intake_ok_committed: "session_ok x \<Longrightarrow> order_tables_ok (db x) \<Longrightarrow> intake_ok (commit x)"
  by (simp add: intake_ok_def session_ok_def commit_def rollback_def)

lemma intake_ok_emitted:
  assumes "intake_ok s" shows "intake_ok (commit (emitted e s))"
proof (rule intake_ok_committed)
  show "session_ok (emitted e s)" using assms by (intro session_ok_emitted) (simp add: intake_ok_def)
  show "order_tables_ok (db (emitted e s))" using assms by (simp add: intake_ok_def order_tables_ok_def)
qed

lemma intake_ok_rollback: "intake_ok s \<Longrightarrow> intake_ok (rollback s)"
  by (simp add: intake_ok_def session_ok_def rollback_def)

lemma add_geocode_tables [simp]:
  "orders (add_geocode r d) = orders d" "deliveries (add_geocode r d) = deliveries d" "endpoints (add_geocode r d) = endpoints d"
  "shops (add_geocode r d) = shops d" "ledgers_of (ops_of (add_geocode r d)) = ledgers_of (ops_of d)"
  by (simp_all add: add_geocode_def)

text \<open>
  What the steps before the insert keep: whatever a property of sessions that commit, rollback, the races of others and writes to
  other tables keep.
\<close>

locale kept_by_steps =
  fixes P :: "session \<Rightarrow> bool" and race_ok :: "(db \<Rightarrow> db) \<Rightarrow> bool"
  assumes written: "\<lbrakk>P s; orders d = orders (db s); deliveries d = deliveries (db s); endpoints d = endpoints (db s);
        ledgers_of (ops_of d) = ledgers_of (ops_of (db s)); fresh s \<le> n\<rbrakk>
      \<Longrightarrow> P (s\<lparr>fresh := n, db := d\<rparr>)"
    and raced: "P s \<Longrightarrow> race_ok f \<Longrightarrow> P (interfere_db f s)"
    and committed: "P s \<Longrightarrow> P (commit s)"
    and rolled_back: "P s \<Longrightarrow> P (rollback s)"
begin

lemma written_db:
  assumes "P s" "orders d = orders (db s)" "deliveries d = deliveries (db s)" "endpoints d = endpoints (db s)"
    "ledgers_of (ops_of d) = ledgers_of (ops_of (db s))"
  shows "P (s\<lparr>db := d\<rparr>)"
  using written [OF assms order_refl] by simp

lemma written_both:
  assumes "P s" "orders d = orders (db s)" "deliveries d = deliveries (db s)" "endpoints d = endpoints (db s)"
    "ledgers_of (ops_of d) = ledgers_of (ops_of (db s))" "fresh s \<le> n"
  shows "P (s\<lparr>db := d, fresh := n\<rparr>)"
proof -
  have "s\<lparr>db := d, fresh := n\<rparr> = s\<lparr>fresh := n, db := d\<rparr>" by simp
  then show ?thesis using written [OF assms] by metis
qed

lemma address_kept:
  assumes "P s" "race_ok f" shows "P (snd (resolve_address g now f a s))"
proof -
  have s1: "P (interfere_db f s)" using assms by (rule raced)
  have "P (commit ((interfere_db f s)\<lparr>db := add_geocode r (db (interfere_db f s))\<rparr>))" for r
    by (intro committed written_db [OF s1]) simp_all
  then show ?thesis using assms(1) rolled_back [OF s1]
    by (simp add: resolve_address_def Let_def split: option.split geocode_answer.split)
qed

lemma location_kept:
  assumes "P s" "race_ok f" shows "P (snd (resolve_location f a lat lng s))"
  using assms(1) raced [OF assms]
  by (auto simp: resolve_location_def Let_def uuid4_def intro!: written written_both split: option.split)

lemma link_kept:
  assumes "P s" "race_ok f" shows "P (snd (link_shop_to_dock f shop s))"
  using location_kept [OF assms, of "shop_address shop" "Some (shop_lat shop)" "Some (shop_lng shop)"] assms(1)
  by (auto simp: link_shop_to_dock_def set_dock_def intro!: written_db split: prod.split sum.split dock_error.split)

lemma create_kept:
  assumes "P s" "race_ok (sr_dock race)" shows "P (snd (create_shop race c a lat lng ph s))"
proof -
  have "P (s\<lparr>fresh := Suc (fresh s), db := (db s)\<lparr>shops := x\<rparr>\<rparr>)" for x by (rule written) (use assms in auto)
  then have "P (snd (link_shop_to_dock (sr_dock race) shop (s\<lparr>fresh := Suc (fresh s), db := (db s)\<lparr>shops := x\<rparr>\<rparr>)))" for shop x
    using assms(2) by (rule link_kept)
  then show ?thesis by (auto simp: create_shop_def uuid4_def Let_def split: prod.split sum.split) (metis snd_conv)+
qed

lemma shop_kept:
  assumes "P s" "race_ok (sr_geocode race)" "race_ok (sr_dock race)"
  shows "P (snd (resolve_or_create_shop g now race c org s))"
proof -
  have "P (snd (create_shop race cl a lat lng ph s1))" if "resolve_address g now (sr_geocode race) b s = (x, s1)" for cl a lat lng ph x s1 b
    using address_kept [OF assms(1,2), of g now b] that create_kept [OF _ assms(3)] by simp
  then show ?thesis using assms(1) create_kept [OF assms(1,3)] address_kept [OF assms(1,2), of g now]
    by (auto simp: resolve_or_create_shop_def split: option.split prod.split) (metis snd_conv)+
qed

lemma drop_kept: "P s \<Longrightarrow> race_ok f \<Longrightarrow> P (snd (intake_drop cfg f lmx s))"
  using address_kept [of s f "ic_geocoder cfg" "ic_clock cfg 1"]
  by (auto simp: intake_drop_def split: option.split prod.split) (metis snd_conv)+

lemma dock_kept: "P s \<Longrightarrow> race_ok f \<Longrightarrow> P (snd (intake_dock f lmx xy s))"
  using location_kept [of s f]
  by (auto simp: intake_dock_def split: option.split prod.split sum.split dock_error.split) (metis snd_conv)+

end

interpretation steps_ok: kept_by_steps intake_ok keeps_intake
  by unfold_locales (simp_all add: intake_ok_step(2) keeps_intakeD intake_ok_commit intake_ok_rollback)

text \<open>The terms of the clients' contracts, as the request and the others see them.\<close>

definition terms_are :: "sla_term_row list \<Rightarrow> session \<Rightarrow> bool" where
  "terms_are terms s \<longleftrightarrow> client_sla_terms (ledgers_of (ops_of (db s))) = terms \<and> client_sla_terms (ledgers_of (ops_of (base s))) = terms"

definition keeps_terms :: "(db \<Rightarrow> db) \<Rightarrow> bool" where
  "keeps_terms f \<longleftrightarrow> (\<forall>d. client_sla_terms (ledgers_of (ops_of (f d))) = client_sla_terms (ledgers_of (ops_of d)))"

definition keeps_terms_all :: "intake_races \<Rightarrow> bool" where
  "keeps_terms_all races \<longleftrightarrow> keeps_terms (sr_geocode (ir_shop races)) \<and> keeps_terms (sr_dock (ir_shop races)) \<and>
     keeps_terms (ir_geocode races) \<and> keeps_terms (ir_dock races) \<and> keeps_terms (ir_insert races)"

lemma keeps_terms_id [simp]: "keeps_terms id" "keeps_terms (\<lambda>d. d)"
  by (simp_all add: keeps_terms_def)

interpretation terms_ok: kept_by_steps "terms_are terms" keeps_terms for terms :: "sla_term_row list"
  by unfold_locales (simp_all add: terms_are_def keeps_terms_def interfere_db_def commit_def rollback_def)

interpretation refs: unique_table orders source_key add_order
  by unfold_locales (simp add: add_order_def)

lemma new_order_sel [simp]:
  "ord_id (new_order cfg mode lmx shop xy dock s) = fresh s" "ord_client_id (new_order cfg mode lmx shop xy dock s) = lo_client_id lmx"
  "ord_source_system (new_order cfg mode lmx shop xy dock s) = lo_source_system lmx"
  "ord_source_order_ref (new_order cfg mode lmx shop xy dock s) = Some (lo_source_order_ref lmx)"
  "ord_shop_id (new_order cfg mode lmx shop xy dock s) = Some (shop_id shop)"
  "ord_delivery_lat (new_order cfg mode lmx shop xy dock s) = fst xy" "ord_delivery_lng (new_order cfg mode lmx shop xy dock s) = snd xy"
  "ord_promised_at (new_order cfg mode lmx shop xy dock s) = lo_promised_at lmx" "ord_intake_mode (new_order cfg mode lmx shop xy dock s) = mode"
  by (simp_all add: new_order_def)

text \<open>The key of an order's contract, and the reference an order is found by.\<close>

definition lmx_key :: "lmx_order \<Rightarrow> (uuid \<times> string \<times> string) option" where
  "lmx_key lmx = map_option (\<lambda>c. (c, lo_source_system lmx, lo_source_order_ref lmx)) (lo_client_id lmx)"

lemma source_key_new_order: "source_key (new_order cfg mode lmx shop xy dock s) = lmx_key lmx"
  by (simp add: source_key_def lmx_key_def split: option.split)

lemma find_existing_by_key:
  assumes "lmx_key lmx = Some k" shows "find_existing_order lmx d = lookup_by source_key (Some k) (orders d)"
proof -
  have "(ord_source_system r = lo_source_system lmx \<and> ord_source_order_ref r = Some (lo_source_order_ref lmx) \<and> ord_client_id r = lo_client_id lmx)
      \<longleftrightarrow> source_key r = Some k" for r
    using assms by (auto simp: source_key_def lmx_key_def split: option.split)
  then show ?thesis by (simp add: find_existing_order_def lookup_by_def)
qed

lemma unique_on_lookup: "unique_on key rows \<Longrightarrow> r \<in> set rows \<Longrightarrow> key r = Some k \<Longrightarrow> lookup_by key (Some k) rows = Some r"
  by (induction rows) (auto simp: unique_on_def image_iff split: if_splits)

text \<open>A successful insert, and what it left.\<close>

lemma insert_order_Inserted:
  assumes "insert_order f lmx order s = (Inserted, s')" "intake_ok s" "keeps_intake f" "ord_id order = fresh s" "source_key order = lmx_key lmx"
  shows "intake_ok s'" "order \<in> set (orders (db s'))" "ord_id order \<notin> ord_id ` set (orders (base s'))"
    "ord_shop_id order \<in> (\<lambda>x. Some (shop_id x)) ` set (shops (db s'))" "status_log s' = status_log s" "pending_deliveries s' = pending_deliveries s"
proof -
  let ?s1 = "interfere_db f (snd (uuid4 s))"
  have s0: "intake_ok (snd (uuid4 s))" using assms(2) by (simp add: uuid4_def intake_ok_step(4) [OF assms(2) refl refl refl])
  have s1: "intake_ok ?s1" using keeps_intakeD [OF assms(3) s0] .
  have done1: "s' = ?s1\<lparr>db := add_order order (db ?s1)\<rparr>" "ord_id order \<notin> ord_id ` set (orders (db ?s1))"
    "source_key order = None \<or> lookup_by source_key (source_key order) (orders (db ?s1)) = None"
    "ord_shop_id order \<in> (\<lambda>x. Some (shop_id x)) ` set (shops (db ?s1))"
    using assms(1) by (auto simp: insert_order_def Let_def split: if_splits option.splits)
  have "unique_on source_key (orders (add_order order (db ?s1)))"
    using s1 done1(3) by (intro refs.add_unique) (auto simp: intake_ok_def order_tables_ok_def)
  then show "intake_ok s'" using s1 done1(2)
    by (auto simp: done1(1) intake_ok_def order_tables_ok_def add_order_def session_ok_def rollback_def)
  show "order \<in> set (orders (db s'))" by (simp add: done1(1) add_order_def)
  show "ord_id order \<notin> ord_id ` set (orders (base s'))" using s1 done1(2) by (auto simp: done1(1) intake_ok_def)
  show "ord_shop_id order \<in> (\<lambda>x. Some (shop_id x)) ` set (shops (db s'))" using done1(4) by (simp add: done1(1) add_order_def)
  show "status_log s' = status_log s" "pending_deliveries s' = pending_deliveries s" by (simp_all add: done1(1) interfere_db_def uuid4_def)
qed

lemma insert_order_Lost:
  assumes "insert_order f lmx order s = (Lost w, s')" "intake_ok s" "keeps_intake f"
  shows "intake_ok s'" "find_existing_order lmx (db s') = Some w"
proof -
  let ?s1 = "interfere_db f (snd (uuid4 s))"
  have s0: "intake_ok (snd (uuid4 s))" using assms(2) by (simp add: uuid4_def intake_ok_step(4) [OF assms(2) refl refl refl])
  have "s' = commit ?s1" "find_existing_order lmx (db ?s1) = Some w"
    using assms(1) by (auto simp: insert_order_def Let_def split: if_splits option.splits)
  then show "intake_ok s'" "find_existing_order lmx (db s') = Some w"
    using keeps_intakeD [OF assms(3) s0] intake_ok_commit by (simp_all add: commit_def)
qed

lemma write_order_ok:
  assumes "intake_ok s" "r \<in> set (orders (db s))" "ord_id r = ord_id o1" "source_key r = source_key o1"
  shows "intake_ok (write_order o1 s)" "o1 \<in> set (orders (db (write_order o1 s)))"
proof -
  have ids: "map ord_id (update_where (\<lambda>x. ord_id x = ord_id o1) (\<lambda>_. o1) (orders (db s))) = map ord_id (orders (db s))"
    by (auto simp: update_where_def)
  have "source_key x = source_key o1" if "x \<in> set (orders (db s))" "ord_id x = ord_id o1" for x
    using assms that by (metis (no_types, lifting) distinct_map inj_on_def intake_ok_def order_tables_ok_def)
  then have keys: "map source_key (update_where (\<lambda>x. ord_id x = ord_id o1) (\<lambda>_. o1) (orders (db s))) = map source_key (orders (db s))"
    by (auto simp: update_where_def)
  have "ord_id ` set (update_where (\<lambda>x. ord_id x = ord_id o1) (\<lambda>_. o1) (orders (db s))) = ord_id ` set (orders (db s))"
    using arg_cong [OF ids, of set] by (simp only: set_map)
  then show "intake_ok (write_order o1 s)" using assms(1) ids keys
    by (simp add: write_order_def intake_ok_def order_tables_ok_def unique_on_def session_ok_def rollback_def)
  show "o1 \<in> set (orders (db (write_order o1 s)))" using assms(2,3) by (auto simp: write_order_def set_update_where image_iff)
qed

text \<open>What the arm leaves of the request.\<close>

lemma assign_control_arm_ok:
  assumes "intake_ok s" "keeps_intake f" "order \<in> set (orders (db s))" "ord_id order \<notin> ord_id ` set (orders (base s))"
    "assign_control_arm f now order lmx s = (arm, s')"
  shows "intake_ok s'" "order \<in> set (orders (db s'))" "status_log s' = status_log s" "pending_deliveries s' = pending_deliveries s"
proof -
  have cases: "s' = s \<or> (\<exists>a. s' = (interfere_db f s)\<lparr>db := add_arm a (db (interfere_db f s))\<rparr>)"
    using assms(5) by (auto simp: assign_control_arm_def assign_arm_def Let_def interfere_db_def split: option.splits if_splits prod.splits sum.splits bool.splits)
  have arm: "orders (add_arm a d) = orders d" "deliveries (add_arm a d) = deliveries d" "endpoints (add_arm a d) = endpoints d" for a d
    by (simp_all add: add_arm_def)
  show "intake_ok s'" using cases assms(1) intake_ok_step(3) [OF keeps_intakeD [OF assms(2,1)], OF arm] by auto
  show "order \<in> set (orders (db s'))" using cases assms(3) keeps_uncommitted [OF assms(2,1,3,4)] by (auto simp: arm interfere_db_def)
  show "status_log s' = status_log s" "pending_deliveries s' = pending_deliveries s" using cases by (auto simp: interfere_db_def)
qed

lemma intake_arm_ok:
  assumes "intake_ok s" "keeps_intake f" "order \<in> set (orders (db s))" "ord_id order \<notin> ord_id ` set (orders (base s))"
    "intake_arm cfg f mode lmx deadline order s = (final, s')"
  shows "intake_ok s' \<and> final \<in> set (orders (db s')) \<and> status_log s' = status_log s \<and> pending_deliveries s' = pending_deliveries s \<and>
    (mode = INTAKE_BACKFILL \<longrightarrow> s' = s) \<and> (final = order \<or> mode = INTAKE_LIVE \<and> final = order\<lparr>ord_hold_deadline := Some (ic_clock cfg 4)\<rparr>)"
proof (cases "mode = INTAKE_BACKFILL")
  case True
  then show ?thesis using assms by (simp add: intake_arm_def)
next
  case False
  then have live: "mode = INTAKE_LIVE" by (cases mode) auto
  obtain arm s1 where arm: "assign_control_arm f (ic_clock cfg 4) order lmx s = (arm, s1)" by (rule prod.exhaust)
  note s1 = assign_control_arm_ok [OF assms(1-4) arm]
  show ?thesis
  proof (cases "arm = Some ARM_CONTROL")
    case False
    then show ?thesis using assms(5) live arm s1 by (simp add: intake_arm_def Let_def)
  next
    case True
    obtain e s2 where e: "record_arm_abstention (ic_clock cfg 6) (lo_hub_id lmx) (ord_id order) ARM_CONTROL (ic_clock cfg 4) (Some deadline) s1 = Inr (e, s2)"
      by (simp add: record_arm_abstention_def record_outcome_def SUBJECT_TYPES_def KINDS_def KIND_ARM_ABSTENTION_def uuid4_def Let_def)
    let ?left = "order\<lparr>ord_hold_deadline := Some (ic_clock cfg 4)\<rparr>"
    have fin: "final = ?left" "s' = write_order ?left s2"
      using assms(5) live arm True e by (auto simp: intake_arm_def Let_def)
    have s2: "s2 = s1\<lparr>fresh := Suc (fresh s1), db := add_outcome e (db s1)\<rparr>"
      using e by (auto simp: record_arm_abstention_def record_outcome_def uuid4_def Let_def add_outcome_def split: if_splits)
    have "endpoints (add_outcome e d) = endpoints d" for d by (simp add: add_outcome_def)
    then have ok2: "intake_ok s2" unfolding s2 by (intro intake_ok_step(2) [OF s1(1)]) simp_all
    have "order \<in> set (orders (db s2))" "source_key order = source_key ?left" using s1(2) by (simp_all add: s2)
    from write_order_ok [OF ok2 this(1) _ this(2)] show ?thesis using fin s1(3,4) live by (simp add: s2 write_order_def)
  qed
qed

lemma priced_order_sel [simp]:
  "ord_id (priced_order cfg mode lmx shop tier d r) = ord_id r" "source_key (priced_order cfg mode lmx shop tier d r) = source_key r"
  "ord_hold_deadline (priced_order cfg mode lmx shop tier d r) = ord_hold_deadline r"
  "ord_delivery_lat (priced_order cfg mode lmx shop tier d r) = ord_delivery_lat r"
  "ord_delivery_lng (priced_order cfg mode lmx shop tier d r) = ord_delivery_lng r"
  "ord_intake_mode (priced_order cfg mode lmx shop tier d r) = ord_intake_mode r"
  "ord_sla_tier (priced_order cfg mode lmx shop tier d r) = ord_sla_tier r"
  "ord_client_id (priced_order cfg mode lmx shop tier d r) = ord_client_id r"
  "ord_promised_at (priced_order cfg mode lmx shop tier d r) = ord_promised_at r"
  "ord_requested_at (priced_order cfg mode lmx shop tier d r) = ord_requested_at r"
  "ord_fee_cents (priced_order cfg INTAKE_BACKFILL lmx shop tier d r) = None"
  by (simp_all add: priced_order_def split: option.split intake_mode.split prod.split)

lemma held_row_sel [simp]:
  "ord_id (held_row cfg mode lmx shop d plan tier r) = ord_id r" "source_key (held_row cfg mode lmx shop d plan tier r) = source_key r"
  "ord_status (held_row cfg mode lmx shop d plan tier r) = Held"
  "ord_hold_deadline (held_row cfg mode lmx shop d plan tier r) =
     Some (safe_deadline (ic_miles cfg) (ic_clock cfg 4) shop r (snd (snd plan)) (fst (snd plan)))"
  "ord_delivery_lat (held_row cfg mode lmx shop d plan tier r) = ord_delivery_lat r"
  "ord_delivery_lng (held_row cfg mode lmx shop d plan tier r) = ord_delivery_lng r"
  "ord_intake_mode (held_row cfg mode lmx shop d plan tier r) = ord_intake_mode r"
  "ord_sla_tier (held_row cfg mode lmx shop d plan tier r) = Some tier"
  "ord_client_id (held_row cfg mode lmx shop d plan tier r) = ord_client_id r"
  "ord_promised_at (held_row cfg mode lmx shop d plan tier r) = ord_promised_at r"
  "ord_requested_at (held_row cfg mode lmx shop d plan tier r) = ord_requested_at r"
  "ord_fee_cents (held_row cfg INTAKE_BACKFILL lmx shop d plan tier r) = None"
  by (simp_all add: held_row_def)

lemma add_packages_tables [simp]:
  "orders (add_packages cfg payload r d) = orders d" "deliveries (add_packages cfg payload r d) = deliveries d"
  "endpoints (add_packages cfg payload r d) = endpoints d"
  by (simp_all add: add_packages_def)

text \<open>A finished intake, whichever mode: the row written, the queue and the session it left.\<close>

lemma take_in_ok:
  assumes "take_in cfg races mode lmx payload shop order s q = (Inr final, s', q')" "intake_ok s" "keeps_intake (ir_arm races)"
    "order \<in> set (orders (db s))" "ord_id order \<notin> ord_id ` set (orders (base s))"
  obtains plan tier d where
    "commitment_of cfg lmx shop order (add_packages cfg payload order (db s)) = Inr plan" "tier_of_text (fst plan) = Some tier"
    "final = held_row cfg mode lmx shop d plan tier order \<or>
       mode = INTAKE_LIVE \<and> final = (held_row cfg mode lmx shop d plan tier order)\<lparr>ord_hold_deadline := Some (ic_clock cfg 4)\<rparr>"
    "intake_ok s'" "final \<in> set (orders (db s'))" "base s' = db s'"
    "mode = INTAKE_BACKFILL \<longrightarrow> q' = q \<and> status_log s' = status_log s \<and> pending_deliveries s' = pending_deliveries s \<and>
       deliveries (db s') = deliveries (db s)"
    "mode = INTAKE_LIVE \<longrightarrow> q' = hold_add (lo_hub_id lmx)
        (queue_entry shop (ic_clock cfg 4) (fst plan) (the (ord_hold_deadline final)) final) True q"
proof -
  let ?s1 = "s\<lparr>db := add_packages cfg payload order (db s)\<rparr>"
  obtain plan tier where plan: "commitment_of cfg lmx shop order (db ?s1) = Inr plan" "tier_of_text (fst plan) = Some tier"
    using assms(1) by (auto simp: take_in_def Let_def split: sum.splits option.splits)
  let ?held = "held_row cfg mode lmx shop (db ?s1) plan tier order"
  obtain f2 s2 where arm: "intake_arm cfg (ir_arm races) mode lmx (the (ord_hold_deadline ?held)) ?held (write_order ?held ?s1) = (f2, s2)"
    by (rule prod.exhaust)
  have ok1: "intake_ok ?s1" by (rule intake_ok_step(3) [OF assms(2) _ _ _ order_refl]) simp_all
  have written: "intake_ok (write_order ?held ?s1)" "?held \<in> set (orders (db (write_order ?held ?s1)))"
    using write_order_ok [OF ok1, of order ?held] assms(4) by simp_all
  have logs: "status_log (write_order ?held ?s1) = status_log s" "pending_deliveries (write_order ?held ?s1) = pending_deliveries s"
    by (simp_all add: write_order_def)
  have "ord_id ?held \<notin> ord_id ` set (orders (base (write_order ?held ?s1)))" using assms(5) by (simp add: write_order_def)
  from intake_arm_ok [OF written(1) assms(3) written(2) this arm]
  have s2: "intake_ok s2" "f2 \<in> set (orders (db s2))" "status_log s2 = status_log s" "pending_deliveries s2 = pending_deliveries s"
    "mode = INTAKE_BACKFILL \<longrightarrow> s2 = write_order ?held ?s1"
    "f2 = ?held \<or> mode = INTAKE_LIVE \<and> f2 = ?held\<lparr>ord_hold_deadline := Some (ic_clock cfg 4)\<rparr>"
    unfolding logs by blast+
  have deadline: "ord_hold_deadline f2 \<noteq> None" using s2(6) by auto
  show thesis
  proof (cases mode)
    case INTAKE_BACKFILL
    then have fin: "final = f2" "s' = commit s2" "q' = q" using assms(1) plan arm by (simp_all add: take_in_def Let_def)
    show thesis
      by (rule that [of plan tier "db ?s1"])
        (use plan s2 fin INTAKE_BACKFILL intake_ok_commit [OF s2(1)] in \<open>simp_all add: commit_def write_order_def\<close>)
  next
    case INTAKE_LIVE
    let ?e = "status_event_of (ord_id f2) (ord_client_id f2) (ord_source_system f2) (ord_source_order_ref f2) Received Held (ic_clock cfg 4)"
    have emit: "emit_status_change True (ord_id f2) (ord_client_id f2) (ord_source_system f2) (ord_source_order_ref f2) Received Held
        (ic_clock cfg 4) s2 = emitted ?e s2"
      using s2(1) by (intro emit_status_change_ok) (simp add: intake_ok_def)
    have fin: "final = f2" "s' = commit (emitted ?e s2)"
      "q' = hold_add (lo_hub_id lmx) (queue_entry shop (ic_clock cfg 4) (fst plan) (the (ord_hold_deadline f2)) f2) True q"
      using assms(1) plan arm INTAKE_LIVE deadline emit by (auto simp: take_in_def Let_def)
    have ok: "intake_ok (commit (emitted ?e s2))" by (rule intake_ok_emitted [OF s2(1)])
    have db: "f2 \<in> set (orders (db (commit (emitted ?e s2))))" "base (commit (emitted ?e s2)) = db (commit (emitted ?e s2))"
      using s2(2) by (simp_all add: commit_def emitted_def Let_def)
    show thesis
      by (rule that [of plan tier "db ?s1"]) (use plan s2(6) fin INTAKE_LIVE ok db in simp_all)
  qed
qed

text \<open>Nothing is announced before the order is in.\<close>

lemma resolve_address_logs [simp]:
  "status_log (snd (resolve_address g now f a s)) = status_log s" "pending_deliveries (snd (resolve_address g now f a s)) = pending_deliveries s"
  by (simp_all add: resolve_address_def Let_def interfere_db_def commit_def rollback_def split: option.split geocode_answer.split)

lemma resolve_location_logs [simp]:
  "status_log (snd (resolve_location f a lat lng s)) = status_log s" "pending_deliveries (snd (resolve_location f a lat lng s)) = pending_deliveries s"
  by (simp_all add: resolve_location_def Let_def interfere_db_def uuid4_def split: option.split)

lemma link_shop_logs [simp]:
  "status_log (snd (link_shop_to_dock f shop s)) = status_log s" "pending_deliveries (snd (link_shop_to_dock f shop s)) = pending_deliveries s"
  using resolve_location_logs [of f "shop_address shop" "Some (shop_lat shop)" "Some (shop_lng shop)" s]
  by (auto simp: link_shop_to_dock_def set_dock_def simp del: resolve_location_logs split: prod.split sum.split dock_error.split)

lemma create_shop_logs [simp]:
  "status_log (snd (create_shop race c a lat lng ph s)) = status_log s" "pending_deliveries (snd (create_shop race c a lat lng ph s)) = pending_deliveries s"
  using link_shop_logs [of "sr_dock race" "new_shop (fresh s) c (txn_now s) a lat lng ph" "s\<lparr>fresh := Suc (fresh s), db := (db s)\<lparr>shops := shops (db s) @ [new_shop (fresh s) c (txn_now s) a lat lng ph]\<rparr>\<rparr>"]
  by (auto simp: create_shop_def uuid4_def Let_def simp del: link_shop_logs split: prod.split sum.split)

lemma logs_of_steps:
  "status_log (snd (resolve_or_create_shop g now race c org s)) = status_log s \<and>
     pending_deliveries (snd (resolve_or_create_shop g now race c org s)) = pending_deliveries s"
  "status_log (snd (intake_drop cfg f lmx s)) = status_log s \<and> pending_deliveries (snd (intake_drop cfg f lmx s)) = pending_deliveries s"
  "status_log (snd (intake_dock f lmx xy s)) = status_log s \<and> pending_deliveries (snd (intake_dock f lmx xy s)) = pending_deliveries s"
proof -
  have address: "status_log s1 = status_log s \<and> pending_deliveries s1 = pending_deliveries s" if "resolve_address g now f a s = (r, s1)" for g now f a r s1
    using resolve_address_logs [of g now f a s] that by simp
  have location: "status_log s1 = status_log s \<and> pending_deliveries s1 = pending_deliveries s" if "resolve_location f a lat lng s = (r, s1)" for f a lat lng r s1
    using resolve_location_logs [of f a lat lng s] that by simp
  show "status_log (snd (resolve_or_create_shop g now race c org s)) = status_log s \<and>
     pending_deliveries (snd (resolve_or_create_shop g now race c org s)) = pending_deliveries s"
    by (auto simp: resolve_or_create_shop_def dest: address split: option.split prod.split)
  show "status_log (snd (intake_drop cfg f lmx s)) = status_log s \<and> pending_deliveries (snd (intake_drop cfg f lmx s)) = pending_deliveries s"
    by (auto simp: intake_drop_def dest: address split: option.split prod.split)
  show "status_log (snd (intake_dock f lmx xy s)) = status_log s \<and> pending_deliveries (snd (intake_dock f lmx xy s)) = pending_deliveries s"
    by (auto simp: intake_dock_def dest: location split: option.split prod.split sum.split dock_error.split)
qed

text \<open>The path of an intake that finds no order, up to its insert.\<close>

lemma ingest_to_insert:
  assumes "ingest_or_find cfg races lmx payload mode s q = (Inr out, s', q')" "find_existing_order lmx (db s) = None"
    "intake_ok s" "keeps_intake_all races"
  obtains shop s1 xy s2 dock s3 client where "lo_client_id lmx = Some client" "intake_ok s3"
    "resolve_or_create_shop (ic_geocoder cfg) (ic_clock cfg 0) (ir_shop races) (lo_client_id lmx) (lo_origin lmx) s = (Inr shop, s1)"
    "intake_drop cfg (ir_geocode races) lmx s1 = (Inr xy, s2)" "intake_dock (ir_dock races) lmx xy s2 = (Inr dock, s3)"
    "status_log s3 = status_log s" "pending_deliveries s3 = pending_deliveries s"
proof -
  obtain shop s1 where shop: "resolve_or_create_shop (ic_geocoder cfg) (ic_clock cfg 0) (ir_shop races) (lo_client_id lmx) (lo_origin lmx) s = (Inr shop, s1)"
    using assms(1,2) by (auto simp: ingest_or_find_def Let_def split: prod.splits sum.splits)
  obtain xy s2 where xy: "intake_drop cfg (ir_geocode races) lmx s1 = (Inr xy, s2)"
    using assms(1,2) by (auto simp: ingest_or_find_def Let_def shop split: prod.splits sum.splits)
  obtain dock s3 where dock: "intake_dock (ir_dock races) lmx xy s2 = (Inr dock, s3)"
    using assms(1,2) by (auto simp: ingest_or_find_def Let_def shop xy split: prod.splits sum.splits if_splits)
  obtain client where client: "lo_client_id lmx = Some client"
    using shop by (cases "lo_client_id lmx") (auto simp: resolve_or_create_shop_def)
  have keep: "keeps_intake (sr_geocode (ir_shop races))" "keeps_intake (sr_dock (ir_shop races))" "keeps_intake (ir_geocode races)"
    "keeps_intake (ir_dock races)" using assms(4) by (simp_all add: keeps_intake_all_def)
  have ok1: "intake_ok s1" using steps_ok.shop_kept [OF assms(3) keep(1,2)] shop by (metis snd_conv)
  have ok2: "intake_ok s2" using steps_ok.drop_kept [OF ok1 keep(3), of cfg lmx] xy by simp
  have ok3: "intake_ok s3" using steps_ok.dock_kept [OF ok2 keep(4), of lmx xy] dock by simp
  have "status_log s3 = status_log s" "pending_deliveries s3 = pending_deliveries s"
    using logs_of_steps(1) [of "ic_geocoder cfg" "ic_clock cfg 0" "ir_shop races" "lo_client_id lmx" "lo_origin lmx" s]
      logs_of_steps(2) [of cfg "ir_geocode races" lmx s1] logs_of_steps(3) [of "ir_dock races" lmx xy s2] shop xy dock by simp_all
  then show thesis by (rule that [OF client ok3 shop xy dock])
qed

lemma ingest_new:
  assumes "ingest_or_find cfg races lmx payload mode s q = (Inr (order, False), s', q')" "intake_ok s" "keeps_intake_all races"
  obtains shop xy dock s3 s4 client p where "lo_client_id lmx = Some client" "intake_ok s3"
    "insert_order (ir_insert races) lmx (new_order cfg mode lmx shop xy dock s3) s3 = (Inserted, s4)"
    "take_in cfg races mode lmx p shop (new_order cfg mode lmx shop xy dock s3) s4 q = (Inr order, s', q')"
    "status_log s3 = status_log s" "pending_deliveries s3 = pending_deliveries s"
proof -
  have none: "find_existing_order lmx (db s) = None" using assms(1) by (auto simp: ingest_or_find_def Let_def split: option.splits)
  obtain shop s1 xy s2 dock s3 client where path: "lo_client_id lmx = Some client" "intake_ok s3"
    "resolve_or_create_shop (ic_geocoder cfg) (ic_clock cfg 0) (ir_shop races) (lo_client_id lmx) (lo_origin lmx) s = (Inr shop, s1)"
    "intake_drop cfg (ir_geocode races) lmx s1 = (Inr xy, s2)" "intake_dock (ir_dock races) lmx xy s2 = (Inr dock, s3)"
    "status_log s3 = status_log s" "pending_deliveries s3 = pending_deliveries s"
    using assms(1) none assms(2,3) by (rule ingest_to_insert)
  then show thesis using assms(1) none that [OF path(1,2) _ _ path(6,7)]
    by (auto simp: ingest_or_find_def Let_def split: prod.splits sum.splits insert_result.splits if_splits)
qed

text \<open>What an intake hands back is what its reference finds from then on.\<close>

lemma ingest_finds:
  assumes "ingest_or_find cfg races lmx payload mode s q = (Inr (order, replayed), s', q')" "intake_ok s" "keeps_intake_all races"
  shows "intake_ok s' \<and> find_existing_order lmx (db s') = Some order"
proof (cases replayed)
  case False
  with assms obtain shop xy dock s3 s4 client p where new: "lo_client_id lmx = Some client" "intake_ok s3"
    "insert_order (ir_insert races) lmx (new_order cfg mode lmx shop xy dock s3) s3 = (Inserted, s4)"
    "take_in cfg races mode lmx p shop (new_order cfg mode lmx shop xy dock s3) s4 q = (Inr order, s', q')"
    by (auto elim: ingest_new)
  have keep: "keeps_intake (ir_insert races)" "keeps_intake (ir_arm races)" using assms(3) by (simp_all add: keeps_intake_all_def)
  note s4 = insert_order_Inserted [OF new(3,2) keep(1) new_order_sel(1) source_key_new_order]
  obtain k where k: "lmx_key lmx = Some k" using new(1) by (simp add: lmx_key_def)
  from new(4) s4(1) keep(2) s4(2,3) have "intake_ok s' \<and> order \<in> set (orders (db s')) \<and> source_key order = Some k"
    by (rule take_in_ok) (auto simp: source_key_new_order k)
  then show ?thesis unfolding find_existing_by_key [OF k] by (auto simp: intake_ok_def order_tables_ok_def intro: unique_on_lookup)
next
  case True
  show ?thesis
  proof (cases "find_existing_order lmx (db s)")
    case (Some r)
    then show ?thesis using assms by (simp add: ingest_or_find_def)
  next
    case None
    obtain shop s1 xy s2 dock s3 client where path: "lo_client_id lmx = Some client" "intake_ok s3"
      "resolve_or_create_shop (ic_geocoder cfg) (ic_clock cfg 0) (ir_shop races) (lo_client_id lmx) (lo_origin lmx) s = (Inr shop, s1)"
      "intake_drop cfg (ir_geocode races) lmx s1 = (Inr xy, s2)" "intake_dock (ir_dock races) lmx xy s2 = (Inr dock, s3)"
      using assms(1) None assms(2,3) by (rule ingest_to_insert)
    have lost: "insert_order (ir_insert races) lmx (new_order cfg mode lmx shop xy dock s3) s3 = (Lost order, s')"
      using assms(1) True None path by (auto simp: ingest_or_find_def Let_def split: prod.splits sum.splits insert_result.splits if_splits)
    show ?thesis using insert_order_Lost [OF lost path(2)] assms(3) by (simp add: keeps_intake_all_def)
  qed
qed

section \<open>Properties\<close>

text \<open>
  (C23) Replaying is safe: once an intake has handed back an order, whether it was new, found or won by another request at the same
  moment, every later request with the same reference hands back that very row and changes nothing, neither
  the database nor the hold queue; and orders stay unique by identifier and by reference.
\<close>

theorem replay_changes_nothing:
  assumes "ingest_or_find cfg races lmx payload mode s q = (Inr (order, replayed), s', q')" "intake_ok s" "keeps_intake_all races"
    "lo_client_id again = lo_client_id lmx" "lo_source_system again = lo_source_system lmx" "lo_source_order_ref again = lo_source_order_ref lmx"
  shows "ingest_or_find cfg2 races2 again payload2 mode2 s' q2 = (Inr (order, True), s', q2) \<and> order_tables_ok (db s')"
proof -
  have "find_existing_order again (db s') = find_existing_order lmx (db s')" using assms(4-6) by (simp add: find_existing_order_def)
  then show ?thesis using ingest_finds [OF assms(1-3)] by (simp add: ingest_or_find_def intake_ok_def)
qed

text \<open>The same path, with the contracts' terms, which no step of an intake writes.\<close>

lemma ingest_new_terms:
  assumes "ingest_or_find cfg races lmx payload mode s q = (Inr (order, False), s', q')" "intake_ok s" "keeps_intake_all races"
    "terms_are terms s" "keeps_terms_all races"
  obtains shop xy dock s3 s4 client p where "lo_client_id lmx = Some client" "intake_ok s3"
    "insert_order (ir_insert races) lmx (new_order cfg mode lmx shop xy dock s3) s3 = (Inserted, s4)"
    "take_in cfg races mode lmx p shop (new_order cfg mode lmx shop xy dock s3) s4 q = (Inr order, s', q')" "terms_are terms s4"
proof -
  have none: "find_existing_order lmx (db s) = None" using assms(1) by (auto simp: ingest_or_find_def Let_def split: option.splits)
  obtain shop s1 xy s2 dock s3 client where path: "lo_client_id lmx = Some client" "intake_ok s3"
    "resolve_or_create_shop (ic_geocoder cfg) (ic_clock cfg 0) (ir_shop races) (lo_client_id lmx) (lo_origin lmx) s = (Inr shop, s1)"
    "intake_drop cfg (ir_geocode races) lmx s1 = (Inr xy, s2)" "intake_dock (ir_dock races) lmx xy s2 = (Inr dock, s3)"
    using assms(1) none assms(2,3) by (rule ingest_to_insert)
  have keep: "keeps_terms (sr_geocode (ir_shop races))" "keeps_terms (sr_dock (ir_shop races))" "keeps_terms (ir_geocode races)"
    "keeps_terms (ir_dock races)" "keeps_terms (ir_insert races)" using assms(5) by (simp_all add: keeps_terms_all_def)
  have t1: "terms_are terms s1" using terms_ok.shop_kept [OF assms(4) keep(1,2)] path(3) by (metis snd_conv)
  have t2: "terms_are terms s2" using terms_ok.drop_kept [OF t1 keep(3), of cfg lmx] path(4) by simp
  have t3: "terms_are terms s3" using terms_ok.dock_kept [OF t2 keep(4), of lmx xy] path(5) by simp
  obtain s4 p where in1: "insert_order (ir_insert races) lmx (new_order cfg mode lmx shop xy dock s3) s3 = (Inserted, s4)"
    "take_in cfg races mode lmx p shop (new_order cfg mode lmx shop xy dock s3) s4 q = (Inr order, s', q')"
    using assms(1) none path
    by (auto simp: ingest_or_find_def Let_def split: prod.splits sum.splits insert_result.splits if_splits)
  have "terms_are terms s4" using in1(1) t3 keep(5)
    by (auto simp: insert_order_def Let_def terms_are_def keeps_terms_def interfere_db_def uuid4_def add_order_def split: if_splits option.splits)
  with in1 show thesis by (rule that [OF path(1,2)])
qed

text \<open>The promise an order is judged by: the very commitment the ledger and the credits use, or the window somebody else promised.\<close>

definition promise_of :: "lmx_order \<Rightarrow> order_row \<Rightarrow> db \<Rightarrow> instant option" where
  "promise_of lmx order d =
     (if needs_classification lmx then promised_delivery_by (delivery_commitment order (order_term d order))
      else lo_delivery_window_end lmx)"

lemma tier_of_text_value: "tier_of_text t = Some tier \<Longrightarrow> tier_value tier = t"
  by (auto simp: tier_of_text_def split: if_splits)

lemma commitment_promise:
  assumes "commitment_of cfg lmx shop order d = Inr plan" "tier_of_text (fst plan) = Some tier" "ord_sla_tier final = Some tier"
    "ord_client_id final = ord_client_id order" "ord_promised_at final = ord_promised_at order" "ord_requested_at final = ord_requested_at order"
    "client_sla_terms (ledgers_of (ops_of d)) = client_sla_terms (ledgers_of (ops_of d0))"
  shows "promise_of lmx final d0 = snd (snd plan)"
proof -
  have "terms_for_client d = terms_for_client d0" using assms(7) by (simp add: terms_for_client_def fun_eq_iff)
  moreover have "delivery_commitment final = delivery_commitment order"
    by (intro ext) (simp only: delivery_commitment_def assms(5,6))
  ultimately show ?thesis using assms(1,3,4) tier_of_text_value [OF assms(2)]
    by (auto simp: promise_of_def commitment_of_def order_term_def split: if_splits option.splits)
qed

text \<open>
  (C24) A new order is held and queued with the same deadline; and when it carries a promise, that deadline lies between the moment of
  intake and the last moment from which the promise can still be kept, whenever that moment has not passed. The
  promise is the commitment the order will be judged by: the time told to the customer, or else the time its client's contract
  gives the tier the order was classified into, counted from the request; for an order somebody else promised, the end of its window. The
  contracts' terms do not change while the request runs.
\<close>

theorem hold_never_outlasts_the_promise:
  assumes "ingest_or_find cfg races lmx payload INTAKE_LIVE s q = (Inr (order, False), s', q')" "intake_ok s" "keeps_intake_all races"
    "terms_are (client_sla_terms (ledgers_of (ops_of (db s)))) s" "keeps_terms_all races"
  shows "\<exists>h. held_at q' (lo_hub_id lmx) (ord_id order) = Some h \<and> order \<in> set (orders (base s')) \<and> ord_status order = Held \<and>
    ord_hold_deadline order = Some (ho_hold_deadline h) \<and> ho_held_since h = ic_clock cfg 4 \<and>
    map_option tier_value (ord_sla_tier order) = Some (ho_sla_tier h) \<and>
    (\<forall>promise. promise_of lmx order (db s) = Some promise \<longrightarrow> ic_clock cfg 4 \<le> ho_hold_deadline h \<and>
      ho_hold_deadline h \<le> max (ic_clock cfg 4) (latest_safe_hold_deadline promise
        (case (ho_delivery_lat h, ho_delivery_lng h) of
           (Some lat, Some lng) \<Rightarrow> minutes_for_miles (ic_miles cfg (ho_shop_lat h) (ho_shop_lng h) lat lng)
         | _ \<Rightarrow> 0)))"
proof -
  let ?terms = "client_sla_terms (ledgers_of (ops_of (db s)))"
  from assms obtain shop xy dock s3 s4 client p where new: "lo_client_id lmx = Some client" "intake_ok s3"
    "insert_order (ir_insert races) lmx (new_order cfg INTAKE_LIVE lmx shop xy dock s3) s3 = (Inserted, s4)"
    "take_in cfg races INTAKE_LIVE lmx p shop (new_order cfg INTAKE_LIVE lmx shop xy dock s3) s4 q = (Inr order, s', q')"
    "terms_are ?terms s4"
    by (rule ingest_new_terms)
  have keep: "keeps_intake (ir_insert races)" "keeps_intake (ir_arm races)" using assms(3) by (simp_all add: keeps_intake_all_def)
  note s4 = insert_order_Inserted [OF new(3,2) keep(1) new_order_sel(1) source_key_new_order]
  let ?new = "new_order cfg INTAKE_LIVE lmx shop xy dock s3"
  from new(4) s4(1) keep(2) s4(2,3) show ?thesis
  proof (rule take_in_ok)
    fix plan tier d
    assume plan: "commitment_of cfg lmx shop ?new (add_packages cfg p ?new (db s4)) = Inr plan" and tier: "tier_of_text (fst plan) = Some tier"
      and final: "order = held_row cfg INTAKE_LIVE lmx shop d plan tier ?new \<or>
        INTAKE_LIVE = INTAKE_LIVE \<and> order = (held_row cfg INTAKE_LIVE lmx shop d plan tier ?new)\<lparr>ord_hold_deadline := Some (ic_clock cfg 4)\<rparr>"
      and db: "order \<in> set (orders (db s'))" "base s' = db s'"
      and queue: "INTAKE_LIVE = INTAKE_LIVE \<longrightarrow> q' = hold_add (lo_hub_id lmx)
        (queue_entry shop (ic_clock cfg 4) (fst plan) (the (ord_hold_deadline order)) order) True q"
    let ?h = "queue_entry shop (ic_clock cfg 4) (fst plan) (the (ord_hold_deadline order)) order"
    have terms: "client_sla_terms (ledgers_of (ops_of (add_packages cfg p ?new (db s4)))) = ?terms"
      using new(5) by (simp add: terms_are_def add_packages_def)
    have "promise_of lmx order (db s) = snd (snd plan)"
      using final by (intro commitment_promise [OF plan tier _ _ _ _ terms]) auto
    then have bound: "ic_clock cfg 4 \<le> the (ord_hold_deadline order) \<and> the (ord_hold_deadline order) \<le> max (ic_clock cfg 4)
        (latest_safe_hold_deadline promise (drive_minutes (ic_miles cfg) shop ?new))" if "promise_of lmx order (db s) = Some promise" for promise
    proof -
      have "snd (snd plan) = Some promise" using \<open>promise_of lmx order (db s) = snd (snd plan)\<close> that by simp
      then show ?thesis using final by (auto simp: safe_deadline_def)
    qed
    have "held_at q' (lo_hub_id lmx) (ord_id order) = Some ?h"
      using queue by (simp add: held_at_def hold_add_def Let_def queue_entry_def)
    moreover have "drive_minutes (ic_miles cfg) shop ?new = (case (ho_delivery_lat ?h, ho_delivery_lng ?h) of
         (Some lat, Some lng) \<Rightarrow> minutes_for_miles (ic_miles cfg (ho_shop_lat ?h) (ho_shop_lng ?h) lat lng) | _ \<Rightarrow> 0)"
      using final by (cases xy) (auto simp: drive_minutes_def distance_between_def queue_entry_def split: option.split)
    moreover have "ho_hold_deadline ?h = the (ord_hold_deadline order)" "ho_held_since ?h = ic_clock cfg 4" "ho_sla_tier ?h = fst plan"
      by (simp_all add: queue_entry_def)
    moreover have "ord_status order = Held" "ord_hold_deadline order = Some (the (ord_hold_deadline order))" "ord_sla_tier order = Some tier"
      using final by auto
    ultimately show ?thesis using db bound tier_of_text_value [OF tier] by (intro exI [of _ ?h]) simp
  qed
qed

text \<open>
  (C25) History taken in as backfill is never priced, queued or announced: it leaves the hold queue, the log and the
  deliveries to notify alone, and no invoice run can bill it.
\<close>

theorem backfill_is_not_work:
  assumes "ingest_or_find cfg races lmx payload INTAKE_BACKFILL s q = (Inr (order, False), s', q')" "intake_ok s" "keeps_intake_all races"
  shows "q' = q \<and> status_log s' = status_log s \<and> pending_deliveries s' = pending_deliveries s \<and>
    ord_fee_cents order = None \<and> order \<in> set (orders (base s')) \<and> order \<notin> set (candidates client in_period (base s'))"
proof -
  from assms(1-3) obtain shop xy dock s3 s4 client p where new: "lo_client_id lmx = Some client" "intake_ok s3"
    "insert_order (ir_insert races) lmx (new_order cfg INTAKE_BACKFILL lmx shop xy dock s3) s3 = (Inserted, s4)"
    "take_in cfg races INTAKE_BACKFILL lmx p shop (new_order cfg INTAKE_BACKFILL lmx shop xy dock s3) s4 q = (Inr order, s', q')"
    "status_log s3 = status_log s" "pending_deliveries s3 = pending_deliveries s"
    by (rule ingest_new)
  have keep: "keeps_intake (ir_insert races)" "keeps_intake (ir_arm races)" using assms(3) by (simp_all add: keeps_intake_all_def)
  note s4 = insert_order_Inserted [OF new(3,2) keep(1) new_order_sel(1) source_key_new_order]
  from new(4) s4(1) keep(2) s4(2,3) show ?thesis
    by (rule take_in_ok) (use new(5,6) s4(5,6) in \<open>auto simp: candidates_def\<close>)
qed

text \<open>
  (C26) When another request geocodes the same new delivery address at the same moment, losing that race rolls the whole
  session back and with it the shop this request has just created; the order's insert then fails on its foreign key, so
  the order is refused and nothing of it is queued, although the race is one over a cache.
\<close>

theorem racing_geocode_refuses_the_order:
  assumes "find_existing_order lmx (db s) = None"
    "resolve_or_create_shop (ic_geocoder cfg) (ic_clock cfg 0) (ir_shop races) (lo_client_id lmx) (lo_origin lmx) s = (Inr shop, s1)"
    "lo_drop_lat lmx = None" "lo_drop_address_raw lmx = Some raw" "geocode (ic_geocoder cfg) raw = Geocoded (Some r)"
    "normalize_address raw \<noteq> []" "geo_lookup (normalize_address raw) (db s1) = None"
    "geo_lookup (normalize_address raw) (ir_geocode races (db s1)) \<noteq> None"
    "shop_id shop \<notin> shop_id ` set (shops (ir_geocode races (base s1)))" "find_existing_order lmx (ir_geocode races (base s1)) = None"
    "ir_dock races = id" "ir_insert races = id"
  shows "let (result, s', q') = ingest_or_find cfg races lmx payload mode s q in
    (case result of Inl e \<Rightarrow> e = Foreign_key \<or> (\<exists>a. e = Dock_alias a) | Inr _ \<Rightarrow> False) \<and>
    shop_id shop \<notin> shop_id ` set (shops (db s')) \<and> q' = q"
proof -
  have raw: "raw \<noteq> []" using assms(6) by (auto simp: normalize_address_def strip_chars_def casefold_def)
  let ?s2 = "rollback (interfere_db (ir_geocode races) s1)"
  have "\<exists>lat lng. intake_drop cfg (ir_geocode races) lmx s1 = (Inr (Some lat, Some lng), ?s2)"
    using assms(3-8) raw
    by (auto simp: intake_drop_def resolve_address_def Let_def interfere_db_def rollback_def split: option.split)
  then obtain lat lng where drop: "intake_drop cfg (ir_geocode races) lmx s1 = (Inr (Some lat, Some lng), ?s2)" by blast
  obtain dock s3 where dock: "intake_dock id lmx (Some lat, Some lng) ?s2 = (dock, s3)" by (rule prod.exhaust)
  have gone: "shop_id shop \<notin> shop_id ` set (shops (base ?s2))" using assms(9) by (simp add: rollback_def interfere_db_def)
  have same: "shops (db s3) = shops (ir_geocode races (base s1))" "orders (db s3) = orders (ir_geocode races (base s1))"
    using dock assms(4)
    by (auto simp: intake_dock_def resolve_location_def Let_def uuid4_def interfere_db_def rollback_def split: option.splits if_splits sum.splits dock_error.splits prod.splits)
  show ?thesis
  proof (cases dock)
    case (Inl e)
    then have "\<exists>a. e = Dock_alias a" using dock assms(4) by (auto simp: intake_dock_def split: if_splits prod.splits sum.splits dock_error.splits)
    then show ?thesis using assms(1,2,9,11) drop dock gone Inl same by (simp add: ingest_or_find_def Let_def)
  next
    case (Inr l)
    let ?order = "new_order cfg mode lmx shop (Some lat, Some lng) l s3"
    obtain s4 where s4: "insert_order id lmx ?order s3 = (Refused, s4)" "shops (db s4) = shops (db s3)"
    proof
      have "find_existing_order lmx (db s3) = None" using assms(10) same(2) by (simp add: find_existing_order_def)
      moreover have "Some (shop_id shop) \<notin> (\<lambda>x. Some (shop_id x)) ` set (shops (db s3))" using assms(9) by (auto simp: same(1))
      ultimately show "insert_order id lmx ?order s3 = (Refused, interfere_db id (snd (uuid4 s3)))"
        by (simp add: insert_order_def Let_def interfere_db_def uuid4_def)
      show "shops (db (interfere_db id (snd (uuid4 s3)))) = shops (db s3)" by (simp add: interfere_db_def uuid4_def)
    qed
    then show ?thesis using assms(1,2,9,11,12) drop dock gone Inr same by (simp add: ingest_or_find_def Let_def)
  qed
qed

text \<open>
  The client's answer that both orders are real is given once: it closes the question, keeps what the order is
  thought to repeat, and a second answer changes nothing, neither author nor time.
\<close>

theorem duplicate_is_answered_once:
  assumes "answer_not_a_duplicate author moment order = (True, order')"
  shows "answer_not_a_duplicate author2 moment2 order' = (True, order') \<and> ord_id order \<notin> open_duplicate_questions [order'] d \<and>
    possible_duplicate_of order' = possible_duplicate_of order \<and> twin_id order' = twin_id order \<and> duplicate_answer order' \<noteq> None"
proof -
  let ?a = "answer_flag author moment"
  have order': "order' = order\<lparr>ord_intake_flags := map ?a (ord_intake_flags order)\<rparr>" "\<exists>flag \<in> set (ord_intake_flags order). is_duplicate_flag flag"
    using assms by (auto simp: answer_not_a_duplicate_def split: if_splits)
  have same: "is_duplicate_flag (?a flag) = is_duplicate_flag flag" "flag_get (?a flag) ''of_reference'' = flag_get flag ''of_reference''"
    "flag_get (?a flag) ''of_order_id'' = flag_get flag ''of_order_id''" for flag
    by (simp_all add: answer_flag_def is_duplicate_flag_def flag_get_def)
  have answered: "is_duplicate_flag flag \<Longrightarrow> flag_get (?a flag) ''answer'' \<noteq> None" for flag
    by (simp add: answer_flag_def flag_get_def)
  have settled: "\<not> is_duplicate_flag x \<or> flag_get x ''answer'' \<noteq> None \<Longrightarrow> answer_flag author2 moment2 x = x" for x
    by (auto simp: answer_flag_def)
  have again: "answer_flag author2 moment2 (?a flag) = ?a flag" for flag
    using answered [of flag] same(1) [of flag] by (intro settled) blast
  have mapped: "find is_duplicate_flag (map ?a xs) = map_option ?a (find is_duplicate_flag xs)" for xs
    by (induction xs) (simp_all add: same)
  have first: "first_duplicate_flag order' = map_option ?a (first_duplicate_flag order)"
    using mapped by (simp add: first_duplicate_flag_def order'(1))
  obtain flag where flag: "first_duplicate_flag order = Some flag" "is_duplicate_flag flag"
    using order'(2) by (cases "first_duplicate_flag order") (auto simp: first_duplicate_flag_def find_None_iff find_Some_iff)
  have ans: "duplicate_answer order' \<noteq> None" using answered [OF flag(2)] by (simp add: duplicate_answer_def first flag)
  then have "ord_id order \<notin> open_duplicate_questions [order'] d" by (auto simp: open_duplicate_questions_def Let_def)
  moreover have "answer_not_a_duplicate author2 moment2 order' = (True, order')"
    using order'(2) by (auto simp: answer_not_a_duplicate_def order'(1) again same)
  ultimately show ?thesis using ans by (simp add: possible_duplicate_of_def twin_id_def first flag(1) same)
qed

subsection \<open>Examples\<close>

text \<open>A portal order of client 2, and its world: one registered shop, one rate, nobody else at work.\<close>

definition sample_lmx :: lmx_order where
  "sample_lmx = \<lparr>lo_source_system = ''portal'', lo_source_order_ref = ''A-1'', lo_hub_id = 1, lo_client_id = Some 2,
     lo_received_at = Some 0, lo_origin = \<lparr>or_shop_external_ref = Some ''S1'', or_pickup_address = None, or_pickup_lat = None,
       or_pickup_lng = None, or_pickup_contact_phone = None\<rparr>, lo_pickup_contact_name = None, lo_ready_at = None,
     lo_pickup_window_start = None, lo_pickup_window_end = None, lo_drop_address_raw = None, lo_drop_lat = None, lo_drop_lng = None,
     lo_drop_contact_name = None, lo_drop_contact_phone = None, lo_access_notes = None, lo_delivery_window_start = None,
     lo_delivery_window_end = Some (minutes 30), lo_sla_owner = ''EXTERNAL'', lo_sla_tier = None, lo_promised_at = None, lo_entry_seconds = None,
     lo_line_items = [], lo_total_weight_units = 1, lo_modality_assigned = None, lo_proof = [], lo_assignment_scope = ''any_driver'',
     lo_revenue_basis = ''per_drop'', lo_quoted_amount_cents = None, lo_payer_type = ''contract_client'', lo_payment_status = ''unbilled'',
     lo_cod_amount_cents = None, lo_raw_payload = [], lo_intake_flags = [], lo_reference_generated = False\<rparr>"

definition sample_config :: intake_config where
  "sample_config = \<lparr>ic_geocoder = sample_geocoder, ic_miles = plane_miles, ic_str_other = (\<lambda>_. ''?''), ic_token = (\<lambda>k. ''t''),
     ic_clock = (\<lambda>k. 60)\<rparr>"

definition quiet_races :: intake_races where
  "quiet_races = \<lparr>ir_shop = \<lparr>sr_geocode = id, sr_dock = id\<rparr>, ir_geocode = id, ir_dock = id, ir_insert = id, ir_arm = id\<rparr>"

definition intake_session :: session where
  "intake_session = (let d = (sample_tables [])\<lparr>shops := [sample_shop 3 1 2]\<rparr> in (sample_session [])\<lparr>db := d, base := d\<rparr>)"

lemma intake_session_ok: "intake_ok intake_session" "keeps_intake_all quiet_races"
  by (simp_all add: intake_ok_def session_ok_def rollback_def order_tables_ok_def unique_on_def intake_session_def sample_session_def
      sample_tables_def keeps_intake_all_def quiet_races_def Let_def)

lemma sample_intake:
  obtains order s' q' where "ingest_or_find sample_config quiet_races sample_lmx None mode intake_session empty_store = (Inr (order, False), s', q')"
proof -
  have "(case fst (ingest_or_find sample_config quiet_races sample_lmx None mode intake_session empty_store) of Inl _ \<Rightarrow> False | Inr (_, b) \<Rightarrow> \<not> b)"
    by (cases mode; hypsubst; code_simp)
  then show thesis using that by (auto split: sum.splits prod.splits) (metis prod.collapse)
qed

theorem replay_changes_nothing_witness:
  "\<exists>order s' q'. ingest_or_find sample_config quiet_races sample_lmx None INTAKE_LIVE intake_session empty_store = (Inr (order, False), s', q') \<and>
     ingest_or_find sample_config quiet_races sample_lmx None INTAKE_BACKFILL s' q' = (Inr (order, True), s', q')"
proof (rule sample_intake [of INTAKE_LIVE])
  fix order s' q' assume run: "ingest_or_find sample_config quiet_races sample_lmx None INTAKE_LIVE intake_session empty_store = (Inr (order, False), s', q')"
  show ?thesis using run replay_changes_nothing [OF run intake_session_ok refl refl refl] by blast
qed

text \<open>The same order left to the contract of its client, which gives every tier 90 minutes.\<close>

definition contract_lmx :: lmx_order where
  "contract_lmx = sample_lmx\<lparr>lo_sla_owner := ''LMX'', lo_delivery_window_end := None\<rparr>"

definition contract_terms :: "sla_term_row list" where
  "contract_terms = map (\<lambda>t. \<lparr>term_client_id = 2, term_sla_tier = tier_value t, term_delivery_target_minutes = 90, term_credit_percent = 10,
     term_credit_minimum_cents = None, term_credit_maximum_cents = None\<rparr>) [T1, T2, T3]"

definition contract_session :: session where
  "contract_session = (let d = (sample_tables [])\<lparr>shops := [sample_shop 3 1 2]\<rparr>;
       e = d\<lparr>ops_of := (ops_of d)\<lparr>ledgers_of := (ledgers_of (ops_of d))\<lparr>client_sla_terms := contract_terms\<rparr>\<rparr>\<rparr>
     in (sample_session [])\<lparr>db := e, base := e\<rparr>)"

lemma contract_session_ok: "intake_ok contract_session" "terms_are (client_sla_terms (ledgers_of (ops_of (db contract_session)))) contract_session"
  "keeps_terms_all quiet_races"
  by (simp_all add: intake_ok_def session_ok_def rollback_def order_tables_ok_def unique_on_def contract_session_def sample_session_def
      sample_tables_def terms_are_def keeps_terms_all_def quiet_races_def Let_def)

lemma contract_intake:
  obtains order s' q' where "ingest_or_find sample_config quiet_races contract_lmx None INTAKE_LIVE contract_session empty_store = (Inr (order, False), s', q')"
    "promise_of contract_lmx order (db contract_session) = Some (minutes 90)"
proof -
  have "(case fst (ingest_or_find sample_config quiet_races contract_lmx None INTAKE_LIVE contract_session empty_store) of Inl _ \<Rightarrow> False
    | Inr (order, b) \<Rightarrow> \<not> b \<and> promise_of contract_lmx order (db contract_session) = Some (minutes 90))"
    by code_simp
  then show thesis using that by (auto split: sum.splits prod.splits) (metis prod.collapse)
qed

theorem hold_never_outlasts_the_promise_witness:
  "\<exists>order s' q' h miles. ingest_or_find sample_config quiet_races contract_lmx None INTAKE_LIVE contract_session empty_store = (Inr (order, False), s', q') \<and>
     held_at q' 1 (ord_id order) = Some h \<and> ord_hold_deadline order = Some (ho_hold_deadline h) \<and> 60 \<le> ho_hold_deadline h \<and>
     ho_hold_deadline h \<le> max 60 (latest_safe_hold_deadline (minutes 90) miles)"
proof (rule contract_intake)
  fix order s' q' assume run: "ingest_or_find sample_config quiet_races contract_lmx None INTAKE_LIVE contract_session empty_store = (Inr (order, False), s', q')"
    and promise: "promise_of contract_lmx order (db contract_session) = Some (minutes 90)"
  have "ic_clock sample_config 4 = 60" "lo_hub_id contract_lmx = 1" by (simp_all add: sample_config_def sample_lmx_def contract_lmx_def)
  then show ?thesis using run promise
      hold_never_outlasts_the_promise [OF run contract_session_ok(1) intake_session_ok(2) contract_session_ok(2,3)] by metis
qed

theorem backfill_is_not_work_witness:
  "\<exists>order s'. ingest_or_find sample_config quiet_races sample_lmx None INTAKE_BACKFILL intake_session empty_store = (Inr (order, False), s', empty_store) \<and>
     ord_fee_cents order = None \<and> order \<notin> set (candidates 2 (\<lambda>_. True) (base s'))"
proof (rule sample_intake [of INTAKE_BACKFILL])
  fix order s' q' assume run: "ingest_or_find sample_config quiet_races sample_lmx None INTAKE_BACKFILL intake_session empty_store = (Inr (order, False), s', q')"
  show ?thesis using run backfill_is_not_work [OF run intake_session_ok, of 2 "\<lambda>_. True"] by blast
qed

text \<open>An order from an address nobody has registered to one nobody has asked for, while another request asks for the second.\<close>

definition racing_lmx :: lmx_order where
  "racing_lmx = sample_lmx\<lparr>lo_origin := \<lparr>or_shop_external_ref = None, or_pickup_address = Some ''9 Mill Rd'', or_pickup_lat = Some 3,
     or_pickup_lng = Some 4, or_pickup_contact_phone = None\<rparr>, lo_drop_address_raw := Some ''1 High St''\<rparr>"

definition geocode_race :: intake_races where
  "geocode_race = quiet_races\<lparr>ir_geocode := add_geocode (cache_row sample_geocoder 1 ''1 High St'' None)\<rparr>"

theorem racing_geocode_refuses_the_order_witness:
  "case ingest_or_find sample_config geocode_race racing_lmx None INTAKE_LIVE (sample_session []) empty_store of
     (result, s', q') \<Rightarrow> isl result \<and> q' = empty_store"
proof -
  let ?s = "sample_session []"
  have key: "normalize_address ''1 High St'' \<noteq> []" by code_simp
  have place: "carries_a_place (normalize_address ''9 Mill Rd'')" by code_simp
  obtain shop s1 where run: "resolve_or_create_shop (ic_geocoder sample_config) (ic_clock sample_config 0) (ir_shop geocode_race)
      (lo_client_id racing_lmx) (lo_origin racing_lmx) ?s = (Inr shop, s1)" "geocodes_in (db s1) = []"
      "base s1 = base ?s"
    using place
    by (simp add: racing_lmx_def geocode_race_def quiet_races_def sample_lmx_def sample_config_def resolve_or_create_shop_def typed_address_def
        find_shop_by_ref_def create_shop_def sample_session_def sample_tables_def Let_def link_shop_to_dock_def resolve_location_def
        location_by_address_def lookup_by_def uuid4_def interfere_db_def set_dock_def new_shop_def)
  have fields: "geo_lookup (normalize_address ''1 High St'') (db s1) = None" "find_existing_order racing_lmx (db ?s) = None" "lo_drop_lat racing_lmx = None" "lo_drop_address_raw racing_lmx = Some ''1 High St''"
      "\<exists>r. geocode (ic_geocoder sample_config) ''1 High St'' = Geocoded (Some r)"
      "geo_lookup (normalize_address ''1 High St'') (ir_geocode geocode_race (db s1)) \<noteq> None"
      "shop_id shop \<notin> shop_id ` set (shops (ir_geocode geocode_race (base s1)))"
      "find_existing_order racing_lmx (ir_geocode geocode_race (base s1)) = None" "ir_dock geocode_race = id" "ir_insert geocode_race = id"
    using run(2,3)
    by (simp_all add: racing_lmx_def sample_lmx_def geocode_race_def quiet_races_def sample_config_def sample_geocoder_def find_existing_order_def
        sample_session_def sample_tables_def geo_lookup_def add_geocode_def cache_row_def lookup_by_def)
  from fields(5) obtain r where "geocode (ic_geocoder sample_config) ''1 High St'' = Geocoded (Some r)" by blast
  from racing_geocode_refuses_the_order [OF fields(2) run(1) fields(3,4) this key fields(1,6-10), of None INTAKE_LIVE empty_store]
  show ?thesis by (auto simp: Let_def isl_def split: prod.splits sum.splits)
qed

theorem duplicate_is_answered_once_witness:
  "let order = (sample_order 7 Held)\<lparr>ord_intake_flags := [duplicate_flag (sample_order 5 Held)]\<rparr>;
       answered = snd (answer_not_a_duplicate ''Ann'' 60 order)
   in answer_not_a_duplicate ''Bob'' 90 answered = (True, answered) \<and> duplicate_answer answered \<noteq> None"
proof -
  let ?order = "(sample_order 7 Held)\<lparr>ord_intake_flags := [duplicate_flag (sample_order 5 Held)]\<rparr>"
  have "answer_not_a_duplicate ''Ann'' 60 ?order = (True, snd (answer_not_a_duplicate ''Ann'' 60 ?order))"
    by (simp add: answer_not_a_duplicate_def is_duplicate_flag_def duplicate_flag_def)
  from duplicate_is_answered_once [OF this] show ?thesis by (simp add: Let_def)
qed

end
