(* ===== verification/Feeds.thy ===== *)
theory Feeds
  imports Intake "HOL-Library.List_Lexorder" "HOL-Library.Char_ord"
begin

text \<open>
  Where orders come from: the adapters of \<open>src/app/ingestion/adapters\<close> with their registry, \<open>ingest_order\<close> and the
  endpoint of \<open>ingestion/router.py\<close>, and the import of history in \<open>ingestion/backfill.py\<close>. What \<open>datetime.fromisoformat\<close>
  and \<open>float\<close> make of a text are parameters; \<open>None\<close> is their \<open>ValueError\<close>, and the figures are finite. The parsing
  of the outgoing platform's CSV export is not modelled: it describes work done and makes no order.
\<close>

section \<open>Adapters\<close>

record feed_config =
  fc_iso :: "string \<Rightarrow> instant option"
  fc_float :: "string \<Rightarrow> rat option"
  fc_str :: "json \<Rightarrow> string"

text \<open>The exceptions: \<open>IngestionAdapterError\<close>, the registry's, \<open>TypeError\<close>, \<open>ValueError\<close>, pydantic's, intake's.\<close>

datatype feed_error =
  Adapter_refused | No_adapter | Feed_type_error | Feed_value_error | Contract_refused | Intake_refused intake_error

definition and_then :: "'e + 'a \<Rightarrow> ('a \<Rightarrow> 'e + 'b) \<Rightarrow> 'e + 'b" where
  "and_then x f = (case x of Inl e \<Rightarrow> Inl e | Inr a \<Rightarrow> f a)"

definition READ_DOWNSTREAM :: "string list" where
  "READ_DOWNSTREAM = HOT_SHOT_FLAG_KEYS @ RUSH_FLAG_KEYS @ SCHEDULED_FLAG_KEYS @
     [''parcels'', ''parcel_count'', ''return_manifest'', ''core_return'']"

definition UNKNOWN_FIELDS :: string where "UNKNOWN_FIELDS = ''unknown_fields''"
definition DEFAULTED_FIELDS :: string where "DEFAULTED_FIELDS = ''defaulted_fields''"

definition field_flags :: "json_object \<Rightarrow> string list \<Rightarrow> json_object \<Rightarrow> json_object list" where
  "field_flags payload known defaults =
     (let unknown = sort (remdups (filter (\<lambda>k. k \<notin> set known \<and> k \<notin> fst ` set defaults \<and> k \<notin> set READ_DOWNSTREAM) (map fst payload)));
          defaulted = filter (\<lambda>d. fst d \<notin> fst ` set payload) defaults
      in (if unknown \<noteq> [] then [[(''kind'', JText UNKNOWN_FIELDS), (''fields'', JList (map JText unknown))]] else []) @
         (if defaulted \<noteq> [] then [[(''kind'', JText DEFAULTED_FIELDS), (''fields'', JObj defaulted)]] else []))"

record adapter_order = normalized_order +
  no_source_system :: string
  no_hub_id :: uuid
  no_client_id :: uuid
  no_shop_external_ref :: string
  no_shop_lat :: rat
  no_shop_lng :: rat
  no_weight_units :: rat
  no_intake_flags :: "json_object list"

text \<open>\<open>payload.get(k, default)\<close>, \<open>float(x)\<close>, \<open>datetime.fromisoformat(x)\<close>.\<close>

definition json_get :: "json_object \<Rightarrow> string \<Rightarrow> json \<Rightarrow> json" where
  "json_get payload k dflt = (case map_of payload k of None \<Rightarrow> dflt | Some j \<Rightarrow> j)"

fun to_float :: "feed_config \<Rightarrow> json \<Rightarrow> feed_error + rat" where
  "to_float cfg (JInt n) = Inr (of_py_int n)"
| "to_float cfg (JBool b) = Inr (if b then 1 else 0)"
| "to_float cfg (JFloat x) = Inr x"
| "to_float cfg j = (case json_text (fc_str cfg) j of
     None \<Rightarrow> Inl Feed_type_error
   | Some t \<Rightarrow> (case fc_float cfg t of None \<Rightarrow> Inl Feed_value_error | Some x \<Rightarrow> Inr x))"

definition from_iso :: "feed_config \<Rightarrow> json \<Rightarrow> feed_error + instant" where
  "from_iso cfg j = (case json_text (fc_str cfg) j of
     None \<Rightarrow> Inl Feed_type_error
   | Some t \<Rightarrow> (case fc_iso cfg t of None \<Rightarrow> Inl Adapter_refused | Some x \<Rightarrow> Inr x))"

definition EPICOR_REQUIRED :: "string list" where
  "EPICOR_REQUIRED = [''OrderNum'', ''ShipToNum'', ''ShipToLat'', ''ShipToLng'', ''OrderDate'']"

definition EPICOR_DEFAULTS :: json_object where
  "EPICOR_DEFAULTS = [(''Weight'', JFloat 1), (''PriorityCode'', JText ''not rush''), (''ShipVia'', JText ''not will-call'')]"

text \<open>Membership in a set of texts; a list or an object cannot be hashed.\<close>

definition in_texts :: "(json \<Rightarrow> string) \<Rightarrow> json \<Rightarrow> string list \<Rightarrow> feed_error + bool" where
  "in_texts str_other j texts =
     (case j of JList _ \<Rightarrow> Inl Feed_type_error | JObj _ \<Rightarrow> Inl Feed_type_error
      | _ \<Rightarrow> Inr (case json_text str_other j of None \<Rightarrow> False | Some t \<Rightarrow> t \<in> set texts))"

definition missing_fields :: "string list \<Rightarrow> json_object \<Rightarrow> string list" where
  "missing_fields required payload = filter (\<lambda>f. f \<notin> fst ` set payload) required"

definition epicor_normalize :: "feed_config \<Rightarrow> uuid \<Rightarrow> uuid \<Rightarrow> json_object \<Rightarrow> feed_error + adapter_order" where
  "epicor_normalize cfg hub client payload =
     (if missing_fields EPICOR_REQUIRED payload \<noteq> [] then Inl Adapter_refused
      else
        and_then (from_iso cfg (json_get payload ''OrderDate'' JNull)) (\<lambda>requested_at.
        and_then (in_texts (fc_str cfg) (json_get payload ''PriorityCode'' JNull) [''RUSH'', ''HOT'', ''1'']) (\<lambda>rush.
        and_then (to_float cfg (json_get payload ''ShipToLat'' JNull)) (\<lambda>lat.
        and_then (to_float cfg (json_get payload ''ShipToLng'' JNull)) (\<lambda>lng.
        and_then (to_float cfg (json_get payload ''Weight'' (JFloat 1))) (\<lambda>weight.
          let will_call = (json_text (fc_str cfg) (json_get payload ''ShipVia'' JNull) = Some ''WILLCALL'') in
          Inr \<lparr>no_external_order_ref = py_str (fc_str cfg) (json_get payload ''OrderNum'' JNull), no_requested_at = requested_at,
            no_raw_payload = put_key ''will_call'' (JBool will_call) (put_key ''rush'' (JBool rush) payload), no_source_system = ''epicor'',
            no_hub_id = hub, no_client_id = client, no_shop_external_ref = py_str (fc_str cfg) (json_get payload ''ShipToNum'' JNull),
            no_shop_lat = lat, no_shop_lng = lng, no_weight_units = weight,
            no_intake_flags = field_flags payload EPICOR_REQUIRED EPICOR_DEFAULTS\<rparr>))))))"

definition FLAT_FILE_REQUIRED :: "string list" where
  "FLAT_FILE_REQUIRED = [''order_ref'', ''shop_ref'', ''shop_lat'', ''shop_lng'', ''requested_at'']"

definition FLAT_FILE_DEFAULTS :: json_object where
  "FLAT_FILE_DEFAULTS = [(''weight_units'', JFloat 1)]"

definition flat_file_normalize :: "feed_config \<Rightarrow> uuid \<Rightarrow> uuid \<Rightarrow> json_object \<Rightarrow> feed_error + adapter_order" where
  "flat_file_normalize cfg hub client payload =
     (if missing_fields FLAT_FILE_REQUIRED payload \<noteq> [] then Inl Adapter_refused
      else
        and_then (from_iso cfg (json_get payload ''requested_at'' JNull)) (\<lambda>requested_at.
        and_then (to_float cfg (json_get payload ''shop_lat'' JNull)) (\<lambda>lat.
        and_then (to_float cfg (json_get payload ''shop_lng'' JNull)) (\<lambda>lng.
        and_then (to_float cfg (json_get payload ''weight_units'' (JFloat 1))) (\<lambda>weight.
          Inr \<lparr>no_external_order_ref = py_str (fc_str cfg) (json_get payload ''order_ref'' JNull), no_requested_at = requested_at,
            no_raw_payload = payload, no_source_system = ''flat_file'', no_hub_id = hub, no_client_id = client,
            no_shop_external_ref = py_str (fc_str cfg) (json_get payload ''shop_ref'' JNull), no_shop_lat = lat, no_shop_lng = lng,
            no_weight_units = weight, no_intake_flags = field_flags payload FLAT_FILE_REQUIRED FLAT_FILE_DEFAULTS\<rparr>)))))"

definition ADAPTERS :: "(string \<times> (feed_config \<Rightarrow> uuid \<Rightarrow> uuid \<Rightarrow> json_object \<Rightarrow> feed_error + adapter_order)) list" where
  "ADAPTERS = [(''epicor'', epicor_normalize), (''flat_file'', flat_file_normalize)]"

section \<open>Into the contract\<close>

definition text_within :: "nat \<Rightarrow> nat \<Rightarrow> string option \<Rightarrow> bool" where
  "text_within lo hi t = (case t of None \<Rightarrow> True | Some x \<Rightarrow> lo \<le> length x \<and> length x \<le> hi)"

definition rat_within :: "rat \<Rightarrow> rat \<Rightarrow> rat option \<Rightarrow> bool" where
  "rat_within lo hi t = (case t of None \<Rightarrow> True | Some x \<Rightarrow> lo \<le> x \<and> x \<le> hi)"

definition cents_ok :: "cents option \<Rightarrow> bool" where
  "cents_ok t = (case t of None \<Rightarrow> True | Some x \<Rightarrow> 0 \<le> x)"

text \<open>The constraints on the fields of \<open>LMXOrder\<close>, \<open>LineItem\<close> and \<open>Economics\<close>.\<close>

definition lmx_fields_ok :: "lmx_order \<Rightarrow> bool" where
  "lmx_fields_ok lmx \<longleftrightarrow>
     text_within 1 32 (Some (lo_source_system lmx)) \<and> text_within 1 120 (Some (lo_source_order_ref lmx)) \<and>
     text_within 0 120 (or_shop_external_ref (lo_origin lmx)) \<and> text_within 0 255 (or_pickup_address (lo_origin lmx)) \<and>
     rat_within (- 90) 90 (or_pickup_lat (lo_origin lmx)) \<and> rat_within (- 180) 180 (or_pickup_lng (lo_origin lmx)) \<and>
     text_within 0 120 (lo_pickup_contact_name lmx) \<and> text_within 0 32 (or_pickup_contact_phone (lo_origin lmx)) \<and>
     text_within 0 255 (lo_drop_address_raw lmx) \<and> rat_within (- 90) 90 (lo_drop_lat lmx) \<and> rat_within (- 180) 180 (lo_drop_lng lmx) \<and>
     text_within 0 120 (lo_drop_contact_name lmx) \<and> text_within 0 32 (lo_drop_contact_phone lmx) \<and> text_within 0 500 (lo_access_notes lmx) \<and>
     lo_sla_owner lmx \<in> set [''LMX'', ''EXTERNAL''] \<and>
     (case lo_entry_seconds lmx of None \<Rightarrow> True | Some x \<Rightarrow> 0 \<le> x \<and> x \<le> 3600) \<and>
     list_all (\<lambda>i. 1 \<le> li_quantity i \<and> (case li_weight_units i of None \<Rightarrow> True | Some w \<Rightarrow> 0 \<le> w)) (lo_line_items lmx) \<and>
     0 \<le> lo_total_weight_units lmx \<and> text_within 0 32 (lo_modality_assigned lmx) \<and>
     lo_assignment_scope lmx \<in> set [''pinned_to_driver'', ''any_driver''] \<and>
     lo_revenue_basis lmx \<in> set [''per_drop'', ''per_mile'', ''contract''] \<and> cents_ok (lo_quoted_amount_cents lmx) \<and>
     lo_payer_type lmx \<in> set [''contract_client'', ''prepaid'', ''card_on_file'', ''cash_on_delivery''] \<and>
     lo_payment_status lmx \<in> set [''not_billable'', ''unbilled'', ''invoiced'', ''paid''] \<and> cents_ok (lo_cod_amount_cents lmx)"

definition lmx_from_normalized :: "adapter_order \<Rightarrow> json_object \<Rightarrow> feed_error + lmx_order" where
  "lmx_from_normalized n payload =
     (let lmx = \<lparr>lo_source_system = no_source_system n, lo_source_order_ref = no_external_order_ref n, lo_hub_id = no_hub_id n,
          lo_client_id = Some (no_client_id n), lo_received_at = Some (no_requested_at n),
          lo_origin = \<lparr>or_shop_external_ref = Some (no_shop_external_ref n), or_pickup_address = None,
            or_pickup_lat = Some (no_shop_lat n), or_pickup_lng = Some (no_shop_lng n), or_pickup_contact_phone = None\<rparr>,
          lo_pickup_contact_name = None, lo_ready_at = None, lo_pickup_window_start = None, lo_pickup_window_end = None,
          lo_drop_address_raw = None, lo_drop_lat = None, lo_drop_lng = None, lo_drop_contact_name = None,
          lo_drop_contact_phone = None, lo_access_notes = None, lo_delivery_window_start = None, lo_delivery_window_end = None,
          lo_sla_owner = ''LMX'', lo_sla_tier = None, lo_promised_at = None, lo_entry_seconds = None, lo_line_items = [],
          lo_total_weight_units = no_weight_units n, lo_modality_assigned = None,
          lo_proof = [(''photo_count_required'', JInt 1), (''photo_subjects'', JList []), (''signature_required'', JBool False)],
          lo_assignment_scope = ''any_driver'', lo_revenue_basis = ''per_drop'', lo_quoted_amount_cents = None,
          lo_payer_type = ''contract_client'', lo_payment_status = ''unbilled'', lo_cod_amount_cents = None,
          lo_raw_payload = (if no_raw_payload n = [] then payload else no_raw_payload n), lo_intake_flags = no_intake_flags n,
          lo_reference_generated = False\<rparr>
      in if lmx_fields_ok lmx \<and> lmx_valid lmx then Inr lmx else Inl Contract_refused)"

definition normalize_feed :: "feed_config \<Rightarrow> uuid \<Rightarrow> uuid \<Rightarrow> string \<Rightarrow> json_object \<Rightarrow> feed_error + lmx_order" where
  "normalize_feed cfg hub client source payload =
     (case map_of ADAPTERS source of
        None \<Rightarrow> Inl No_adapter
      | Some adapter \<Rightarrow> and_then (adapter cfg hub client payload) (\<lambda>n. lmx_from_normalized n payload))"

definition ingest_order ::
    "feed_config \<Rightarrow> intake_config \<Rightarrow> intake_races \<Rightarrow> uuid \<Rightarrow> uuid \<Rightarrow> string \<Rightarrow> json_object \<Rightarrow> session \<Rightarrow> hold_store
      \<Rightarrow> (feed_error + order_row) \<times> session \<times> hold_store" where
  "ingest_order cfg icfg races hub client source payload s q =
     (case normalize_feed cfg hub client source payload of
        Inl e \<Rightarrow> (Inl e, s, q)
      | Inr lmx \<Rightarrow>
          (case ingest_lmx_order icfg races lmx (Some payload) INTAKE_LIVE s q of
             (Inl e, s', q') \<Rightarrow> (Inl (Intake_refused e), s', q')
           | (Inr order, s', q') \<Rightarrow> (Inr order, s', q')))"

text \<open>The status code; \<open>None\<close> is an exception nobody catches. Closing the session rolls back what is not committed.\<close>

fun feed_status :: "feed_error \<Rightarrow> nat option" where
  "feed_status Adapter_refused = Some 422"
| "feed_status No_adapter = Some 400"
| "feed_status Feed_type_error = None"
| "feed_status Feed_value_error = Some 400"
| "feed_status Contract_refused = Some 400"
| "feed_status (Intake_refused e) =
     (case e of Shop_refused (Shop_not_found _) \<Rightarrow> Some 404 | Unknown_tier _ \<Rightarrow> Some 400 | No_delivery_window \<Rightarrow> Some 400 | _ \<Rightarrow> None)"

definition ingest_order_endpoint ::
    "feed_config \<Rightarrow> intake_config \<Rightarrow> intake_races \<Rightarrow> uuid \<Rightarrow> uuid \<Rightarrow> string \<Rightarrow> json_object \<Rightarrow> session \<Rightarrow> hold_store
      \<Rightarrow> (nat option + order_row) \<times> session \<times> hold_store" where
  "ingest_order_endpoint cfg icfg races hub client source payload s q =
     (case ingest_order cfg icfg races hub client source payload s q of
        (Inl e, s', q') \<Rightarrow> (Inl (feed_status e), rollback s', q')
      | (Inr order, s', q') \<Rightarrow> (Inr order, s', q'\<lparr>hs_bus := publish hub (hs_bus q')\<rparr>))"

section \<open>History\<close>

record backfill_report =
  bf_created :: nat
  bf_replayed :: nat
  bf_failed :: nat
  bf_failures :: "(string \<times> intake_error) list"

definition considered :: "backfill_report \<Rightarrow> nat" where
  "considered r = bf_created r + bf_replayed r + bf_failed r"

text \<open>The three exceptions the import collects; every other one leaves it.\<close>

fun collected :: "intake_error \<Rightarrow> bool" where
  "collected (Shop_refused e) = (case e of Shop_not_found _ \<Rightarrow> True | No_client_for_origin \<Rightarrow> True | Origin_unresolvable _ \<Rightarrow> True | _ \<Rightarrow> False)"
| "collected (Destination_unresolvable _) = True"
| "collected _ = False"

text \<open>
  Each order has its own clock and races. The queue handed to intake refuses every write; intake makes none
  (\<open>backfill_is_not_work\<close>), so it is left out.
\<close>

fun backfill_from ::
    "(nat \<Rightarrow> intake_config) \<Rightarrow> (nat \<Rightarrow> intake_races) \<Rightarrow> bool \<Rightarrow> nat \<Rightarrow> lmx_order list \<Rightarrow> backfill_report \<Rightarrow> session
      \<Rightarrow> (intake_error + backfill_report) \<times> session" where
  "backfill_from cfg races stop_on_error k [] rep s = (Inr rep, s)"
| "backfill_from cfg races stop_on_error k (lmx # rest) rep s =
     (if find_existing_order lmx (db s) \<noteq> None
      then backfill_from cfg races stop_on_error (Suc k) rest (rep\<lparr>bf_replayed := Suc (bf_replayed rep)\<rparr>) s
      else (case ingest_lmx_order (cfg k) (races k) lmx None INTAKE_BACKFILL s empty_store of
          (Inr _, s', _) \<Rightarrow> backfill_from cfg races stop_on_error (Suc k) rest (rep\<lparr>bf_created := Suc (bf_created rep)\<rparr>) s'
        | (Inl e, s', _) \<Rightarrow>
            if collected e then
              let rep' = rep\<lparr>bf_failed := Suc (bf_failed rep), bf_failures := bf_failures rep @ [(lo_source_order_ref lmx, e)]\<rparr> in
              if stop_on_error then (Inr rep', rollback s')
              else backfill_from cfg races stop_on_error (Suc k) rest rep' (rollback s')
            else (Inl e, s')))"

definition backfill_orders ::
    "(nat \<Rightarrow> intake_config) \<Rightarrow> (nat \<Rightarrow> intake_races) \<Rightarrow> bool \<Rightarrow> lmx_order list \<Rightarrow> session
      \<Rightarrow> (intake_error + backfill_report) \<times> session" where
  "backfill_orders cfg races stop_on_error lmxs s =
     backfill_from cfg races stop_on_error 0 lmxs \<lparr>bf_created = 0, bf_replayed = 0, bf_failed = 0, bf_failures = []\<rparr> s"


section \<open>References that stay\<close>

text \<open>An order is found by its client, source and reference.\<close>

definition order_ident :: "order_row \<Rightarrow> uuid option \<times> string \<times> string option" where
  "order_ident r = (ord_client_id r, ord_source_system r, ord_source_order_ref r)"

definition lmx_ident :: "lmx_order \<Rightarrow> uuid option \<times> string \<times> string option" where
  "lmx_ident lmx = (lo_client_id lmx, lo_source_system lmx, Some (lo_source_order_ref lmx))"

abbreviation (input) idents :: "db \<Rightarrow> (uuid option \<times> string \<times> string option) set" where
  "idents d \<equiv> order_ident ` set (orders d)"

lemma find_existing_ident: "find_existing_order lmx d \<noteq> None \<longleftrightarrow> lmx_ident lmx \<in> idents d"
  unfolding find_existing_order_def find_None_iff order_ident_def lmx_ident_def image_iff prod.inject by metis

text \<open>Other requests neither delete orders nor rename them, and the session keeps those in \<open>K\<close> for good.\<close>

definition history_race :: "(db \<Rightarrow> db) \<Rightarrow> bool" where
  "history_race f \<longleftrightarrow> keeps_intake f \<and> (\<forall>d. idents d \<subseteq> idents (f d))"

definition history_ok :: "(uuid option \<times> string \<times> string option) set \<Rightarrow> session \<Rightarrow> bool" where
  "history_ok K s \<longleftrightarrow> intake_ok s \<and> K \<subseteq> idents (db s) \<and> K \<subseteq> idents (base s)"

lemma history_raced: "history_ok K s \<Longrightarrow> history_race f \<Longrightarrow> history_ok K (interfere_db f s)"
  unfolding history_ok_def history_race_def by (simp add: keeps_intakeD) (simp add: interfere_db_def, meson order_trans)

interpretation history: kept_by_steps "history_ok K" history_race for K
proof
  fix s f assume "history_ok K s" "history_race f"
  then show "history_ok K (interfere_db f s)" by (rule history_raced)
qed (auto simp: history_ok_def intake_ok_step(2) intake_ok_commit intake_ok_rollback, auto simp: commit_def rollback_def)

definition history_races :: "intake_races \<Rightarrow> bool" where
  "history_races races \<longleftrightarrow> history_race (sr_geocode (ir_shop races)) \<and> history_race (sr_dock (ir_shop races)) \<and>
     history_race (ir_geocode races) \<and> history_race (ir_dock races) \<and> history_race (ir_insert races) \<and> history_race (ir_arm races)"

lemma history_races_keep: "history_races races \<Longrightarrow> keeps_intake_all races"
  by (simp add: history_races_def keeps_intake_all_def history_race_def)

lemma insert_history:
  assumes "history_ok K s" "history_race f" "insert_order f lmx order s = (out, s')" "out \<noteq> Inserted"
  shows "history_ok K s'"
proof -
  have "history_ok K (snd (uuid4 s))" using history.written [OF assms(1) refl refl refl, of "Suc (fresh s)"] by (simp add: uuid4_def)
  note s1 = history_raced [OF this assms(2)]
  then show ?thesis using assms(3,4) history.committed [OF s1]
    by (auto simp: insert_order_def Let_def split: if_splits option.splits)
qed

lemma order_ident_same [simp]:
  "order_ident (held_row cfg mode lmx shop d plan tier r) = order_ident r"
  by (simp add: held_row_def order_ident_def priced_order_def split: option.split intake_mode.split prod.split)

lemma history_of_inserted:
  assumes "insert_order f lmx order s = (Inserted, s')" "history_ok K s" "history_race f" "ord_id order = fresh s" "source_key order = lmx_key lmx"
  shows "history_ok K s'"
proof -
  have "history_ok K (snd (uuid4 s))" using history.written [OF assms(2) refl refl refl, of "Suc (fresh s)"] by (simp add: uuid4_def)
  note s1 = history_raced [OF this assms(3)]
  have "s' = (interfere_db f (snd (uuid4 s)))\<lparr>db := add_order order (db (interfere_db f (snd (uuid4 s))))\<rparr>"
    using assms(1) by (auto simp: insert_order_def Let_def split: if_splits option.splits)
  moreover have "intake_ok s'"
    by (rule insert_order_Inserted(1) [OF assms(1)]) (use assms(2-5) in \<open>simp_all add: history_ok_def history_race_def\<close>)
  ultimately show ?thesis using s1 by (auto simp: history_ok_def add_order_def)
qed

lemma backfilled_history:
  assumes "take_in cfg races INTAKE_BACKFILL lmx p shop order s q = (out, s', q')" "history_ok K s" "order \<in> set (orders (db s))"
  shows "history_ok K s'" "out = Inr final \<Longrightarrow> base s' = db s'"
proof -
  let ?s1 = "s\<lparr>db := add_packages cfg p order (db s)\<rparr>"
  have ok1: "history_ok K ?s1" by (rule history.written_db [OF assms(2)]) (simp_all add: add_packages_def)
  have held: "history_ok K (commit (write_order (held_row cfg INTAKE_BACKFILL lmx shop d plan tier order) ?s1))" (is "history_ok K (commit (write_order ?h _))")
    for d plan tier
  proof (rule history.committed)
    have ids: "ord_id x = ord_id order \<Longrightarrow> x \<in> set (orders (db s)) \<Longrightarrow> x = order" for x
      using assms(2,3) by (metis (no_types, lifting) distinct_map history_ok_def inj_on_def intake_ok_def order_tables_ok_def)
    then have "map order_ident (update_where (\<lambda>x. ord_id x = ord_id ?h) (\<lambda>_. ?h) (orders (db s))) = map order_ident (orders (db s))"
      by (auto simp: update_where_def)
    from arg_cong [OF this, of set] have "idents (db (write_order ?h ?s1)) = idents (db s)"
      by (simp add: write_order_def set_map [symmetric] del: set_map)
    moreover have "intake_ok (write_order ?h ?s1)"
      by (rule write_order_ok(1) [of _ order]) (use ok1 assms(3) in \<open>simp_all add: history_ok_def\<close>)
    ultimately show "history_ok K (write_order ?h ?s1)" using assms(2) by (simp add: history_ok_def) (simp add: write_order_def)
  qed
  show "history_ok K s'"
    using assms(1) ok1 held by (auto simp: take_in_def Let_def intake_arm_def split: sum.splits option.splits)
  show "base s' = db s'" if "out = Inr final"
    using assms(1) that by (auto simp: take_in_def Let_def intake_arm_def commit_def split: sum.splits option.splits)
qed


text \<open>One order of an import that is not there yet.\<close>

lemma ingest_history:
  assumes "history_ok K s" "history_races races" "find_existing_order lmx (db s) = None"
    "ingest_or_find cfg races lmx p INTAKE_BACKFILL s q = (out, s', q')"
  shows "history_ok K s'" "out = Inr (order, b) \<Longrightarrow> base s' = db s'"
proof -
  have race: "history_race (sr_geocode (ir_shop races))" "history_race (sr_dock (ir_shop races))" "history_race (ir_geocode races)"
    "history_race (ir_dock races)" "history_race (ir_insert races)" using assms(2) by (simp_all add: history_races_def)
  obtain r1 s1 where shop: "resolve_or_create_shop (ic_geocoder cfg) (ic_clock cfg 0) (ir_shop races) (lo_client_id lmx) (lo_origin lmx) s = (r1, s1)"
    by (rule prod.exhaust)
  have ok1: "history_ok K s1" using history.shop_kept [OF assms(1) race(1,2)] shop by (metis snd_conv)
  obtain r2 s2 where drop: "intake_drop cfg (ir_geocode races) lmx s1 = (r2, s2)" by (rule prod.exhaust)
  have ok2: "history_ok K s2" using history.drop_kept [OF ok1 race(3), of cfg lmx] drop by simp
  have ok3: "history_ok K s3" if "intake_dock (ir_dock races) lmx xy s2 = (r3, s3)" for xy r3 s3
    using history.dock_kept [OF ok2 race(4), of lmx xy] that by simp
  have done1: "history_ok K s' \<and> (out = Inr (order, b) \<longrightarrow> base s' = db s')"
    if i: "r1 = Inr shop" "r2 = Inr xy" "intake_dock (ir_dock races) lmx xy s2 = (Inr dock, s3)" for shop xy dock s3
  proof -
    let ?order = "new_order cfg INTAKE_BACKFILL lmx shop xy dock s3"
    obtain res s4 where ins: "insert_order (ir_insert races) lmx ?order s3 = (res, s4)" by (rule prod.exhaust)
    consider (raced) "drop_raced cfg (ir_geocode races) lmx s1" "shop_id shop \<in> shop_id ` set (shops (base s2))"
      | (lost) "\<not> (drop_raced cfg (ir_geocode races) lmx s1 \<and> shop_id shop \<in> shop_id ` set (shops (base s2)))" "res \<noteq> Inserted"
      | (new) "\<not> (drop_raced cfg (ir_geocode races) lmx s1 \<and> shop_id shop \<in> shop_id ` set (shops (base s2)))" "res = Inserted" by blast
    then show ?thesis
    proof cases
      case raced
      then have "out = Inl Expired_shop" "s' = s3" using assms(3,4) shop drop i by (simp_all add: ingest_or_find_def Let_def)
      then show ?thesis using ok3 [OF i(3)] by simp
    next
      case lost
      then show ?thesis using insert_history [OF ok3 [OF i(3)] race(5) ins] assms(3,4) shop drop i ins
        by (auto simp: ingest_or_find_def Let_def insert_order_def commit_def split: insert_result.splits if_splits option.splits)
    next
      case new
      have ok4: "history_ok K s4"
        by (rule history_of_inserted [OF ins [unfolded new(2)] ok3 [OF i(3)] race(5) new_order_sel(1) source_key_new_order])
      have in4: "?order \<in> set (orders (db s4))"
        using ins by (auto simp: new(2) insert_order_def Let_def add_order_def split: if_splits option.splits)
      obtain r5 s5 q5 where took: "take_in cfg races INTAKE_BACKFILL lmx (case p of None \<Rightarrow> lo_raw_payload lmx | Some x \<Rightarrow> x) shop ?order s4 q = (r5, s5, q5)"
        by (metis prod.exhaust)
      have "s' = s5 \<and> (out = Inr (order, b) \<longrightarrow> r5 = Inr order)"
        using assms(3,4) shop drop i ins new took by (auto simp: ingest_or_find_def Let_def split: sum.splits if_splits)
      then show ?thesis using backfilled_history [OF took ok4 in4] by blast
    qed
  qed
  have "history_ok K s' \<and> (out = Inr (order, b) \<longrightarrow> base s' = db s')"
  proof (cases "\<exists>shop xy dock s3. r1 = Inr shop \<and> r2 = Inr xy \<and> intake_dock (ir_dock races) lmx xy s2 = (Inr dock, s3)")
    case True
    then show ?thesis using done1 by blast
  next
    case False
    then show ?thesis using assms(3,4) shop drop ok1 ok2 ok3
      by (auto simp: ingest_or_find_def Let_def split: sum.splits prod.splits)
  qed
  then show "history_ok K s'" "out = Inr (order, b) \<Longrightarrow> base s' = db s'" by simp_all
qed

text \<open>A committed session, and what a run over some orders leaves.\<close>

lemma backfill_from_history:
  assumes "backfill_from cfg races stop k lmxs rep s = (Inr rep', s')" "history_ok K s" "base s = db s" "\<forall>k. history_races (races k)"
  shows "history_ok K s' \<and> base s' = db s' \<and>
    (\<forall>lmx \<in> set lmxs. lmx_ident lmx \<in> idents (db s') \<or> bf_failed rep < bf_failed rep') \<and> bf_failed rep \<le> bf_failed rep' \<and>
    (bf_failed rep' = bf_failed rep \<longrightarrow> considered rep' = considered rep + length lmxs)"
  using assms(1-3)
proof (induction lmxs arbitrary: k rep s K)
  case Nil
  then show ?case by simp
next
  case (Cons lmx lmxs)
  show ?case
  proof (cases "find_existing_order lmx (db s)")
    case (Some r)
    then have "lmx_ident lmx \<in> idents (db s)" using find_existing_ident [of lmx "db s"] by simp
    then have "history_ok (insert (lmx_ident lmx) K) s" using Cons.prems(2,3) by (simp add: history_ok_def)
    from Cons.IH [OF _ this Cons.prems(3), of "Suc k" "rep\<lparr>bf_replayed := Suc (bf_replayed rep)\<rparr>"] Cons.prems(1) Some
    show ?thesis by (auto simp: history_ok_def considered_def)
  next
    case None
    obtain out s1 q1 where run: "ingest_or_find (cfg k) (races k) lmx None INTAKE_BACKFILL s empty_store = (out, s1, q1)"
      by (metis prod.exhaust)
    note step = ingest_history [OF Cons.prems(2) _ None run]
    have races: "history_races (races k)" using assms(4) by blast
    show ?thesis
    proof (cases out)
      case (Inr x)
      obtain order b where x: "x = (order, b)" by (rule prod.exhaust)
      have s1: "base s1 = db s1" "history_ok K s1" using step races Inr x by auto
      have "find_existing_order lmx (db s1) = Some order"
        using ingest_finds [OF run [unfolded Inr x]] history_races_keep [OF races] Cons.prems(2) by (simp add: history_ok_def)
      then have "lmx_ident lmx \<in> idents (db s1)" using find_existing_ident [of lmx "db s1"] by simp
      then have "history_ok (insert (lmx_ident lmx) K) s1" using s1 by (simp add: history_ok_def)
      from Cons.IH [OF _ this s1(1), of "Suc k" "rep\<lparr>bf_created := Suc (bf_created rep)\<rparr>"] Cons.prems(1) None run Inr x
      show ?thesis by (auto simp: history_ok_def considered_def ingest_lmx_order_def)
    next
      case (Inl e)
      let ?rep = "rep\<lparr>bf_failed := Suc (bf_failed rep), bf_failures := bf_failures rep @ [(lo_source_order_ref lmx, e)]\<rparr>"
      have s1: "history_ok K (rollback s1)" "base (rollback s1) = db (rollback s1)"
        using history.rolled_back [OF step(1) [OF races]] by (simp_all add: rollback_def)
      have e: "collected e" using Cons.prems(1) None run Inl by (simp add: ingest_lmx_order_def Let_def split: if_splits)
      show ?thesis
      proof (cases stop)
        case True
        then show ?thesis using Cons.prems(1) None run Inl e s1 by (auto simp: ingest_lmx_order_def Let_def)
      next
        case False
        then have "backfill_from cfg races stop (Suc k) lmxs ?rep (rollback s1) = (Inr rep', s')"
          using Cons.prems(1) None run Inl e by (simp add: ingest_lmx_order_def Let_def)
        from Cons.IH [OF this s1] show ?thesis by auto
      qed
    qed
  qed
qed

lemma backfill_from_replays:
  assumes "\<forall>lmx \<in> set lmxs. find_existing_order lmx (db s) \<noteq> None"
  shows "backfill_from cfg races stop k lmxs rep s = (Inr (rep\<lparr>bf_replayed := bf_replayed rep + length lmxs\<rparr>), s)"
  using assms by (induction lmxs arbitrary: k rep) simp_all

section \<open>Properties\<close>

text \<open>
  (C27) Running an import again is safe: when a run has left no order out, whatever other requests did meanwhile, it has
  accounted for every order, and a second run over the same file finds every one of them there, creates nothing and changes nothing.
\<close>

theorem rerun_of_an_import_creates_nothing:
  assumes "backfill_orders cfg races stop lmxs s = (Inr rep, s')" "bf_failed rep = 0" "intake_ok s" "base s = db s"
    "\<forall>k. history_races (races k)"
  shows "considered rep = length lmxs \<and> base s' = db s' \<and> order_tables_ok (db s') \<and>
    backfill_orders cfg2 races2 stop2 lmxs s' = (Inr \<lparr>bf_created = 0, bf_replayed = length lmxs, bf_failed = 0, bf_failures = []\<rparr>, s')"
proof -
  let ?zero = "\<lparr>bf_created = 0, bf_replayed = 0, bf_failed = 0, bf_failures = []\<rparr>"
  have "history_ok {} s" using assms(3) by (simp add: history_ok_def)
  from backfill_from_history [OF assms(1) [unfolded backfill_orders_def] this assms(4,5)] assms(2)
  have left: "history_ok {} s'" "base s' = db s'" "\<forall>lmx \<in> set lmxs. lmx_ident lmx \<in> idents (db s')"
    "considered rep = considered ?zero + length lmxs" by simp_all
  have "\<forall>lmx \<in> set lmxs. find_existing_order lmx (db s') \<noteq> None" using left(3) by (simp add: find_existing_ident del: not_None_eq)
  from backfill_from_replays [OF this, of cfg2 races2 stop2 0 ?zero] left
  show ?thesis by (simp add: backfill_orders_def considered_def history_ok_def intake_ok_def)
qed


text \<open>What an adapter's order is like, whichever adapter made it.\<close>

lemma normalize_feed_fields:
  assumes "normalize_feed cfg hub client source payload = Inr lmx"
  shows "lo_client_id lmx = Some client" "lo_source_system lmx = source" "lo_hub_id lmx = hub" "lo_drop_address_raw lmx = None" "needs_classification lmx"
    "\<exists>ref. or_shop_external_ref (lo_origin lmx) = Some ref" "lmx_valid lmx"
proof -
  obtain adapter n where adapter: "map_of ADAPTERS source = Some adapter" "adapter cfg hub client payload = Inr n" "lmx_from_normalized n payload = Inr lmx"
    using assms by (auto simp: normalize_feed_def and_then_def split: option.splits sum.splits)
  have n: "no_source_system n = source \<and> no_hub_id n = hub \<and> no_client_id n = client"
    using adapter(1,2) by (auto simp: ADAPTERS_def epicor_normalize_def flat_file_normalize_def and_then_def Let_def split: if_splits sum.splits)
  show "lo_client_id lmx = Some client" "lo_source_system lmx = source" "lo_hub_id lmx = hub" "lo_drop_address_raw lmx = None" "needs_classification lmx"
    "\<exists>ref. or_shop_external_ref (lo_origin lmx) = Some ref" "lmx_valid lmx"
    using adapter(3) n by (auto simp: lmx_from_normalized_def Let_def needs_classification_def split: if_splits)
qed

text \<open>An order that names a registered shop and states no drop reaches its insert untouched.\<close>

lemma registered_order_path:
  assumes "find_existing_order lmx (db s) = None" "lo_client_id lmx = Some c" "or_shop_external_ref (lo_origin lmx) = Some ref" "lo_drop_address_raw lmx = None"
  shows "ingest_or_find cfg races lmx p mode s q =
    (case resolve_shop c ref (db s) of
       Inl e \<Rightarrow> (Inl (Shop_refused e), s, q)
     | Inr shop \<Rightarrow>
         let order = new_order cfg mode lmx shop (lo_drop_lat lmx, lo_drop_lng lmx) None s in
         (case insert_order (ir_insert races) lmx order s of
            (Refused, s4) \<Rightarrow> (Inl Foreign_key, s4, q)
          | (Lost winner, s4) \<Rightarrow> (Inr (winner, True), s4, q)
          | (Inserted, s4) \<Rightarrow>
              (case take_in cfg races mode lmx (case p of None \<Rightarrow> lo_raw_payload lmx | Some x \<Rightarrow> x) shop order s4 q of
                 (Inl e, s5, q1) \<Rightarrow> (Inl e, s5, q1)
               | (Inr final, s5, q1) \<Rightarrow> (Inr (final, False), s5, q1))))"
proof -
  have "intake_drop cfg f lmx s = (Inr (lo_drop_lat lmx, lo_drop_lng lmx), s)" "intake_dock f lmx xy s = (Inr None, s)" for f xy
    using assms(4) by (simp_all add: intake_drop_def intake_dock_def split: option.split)
  moreover have "\<not> drop_raced cfg f lmx s" for f by (simp add: drop_raced_def assms(4) split: option.split)
  ultimately show ?thesis using assms(1-3) by (simp add: ingest_or_find_def Let_def resolve_or_create_shop_def split: sum.split)
qed

lemma insert_order_base:
  "insert_order f lmx order s = (Inserted, s') \<Longrightarrow> base s' = f (base s)" "insert_order f lmx order s = (Refused, s') \<Longrightarrow> base s' = f (base s)"
  by (auto simp: insert_order_def Let_def interfere_db_def uuid4_def split: if_splits option.splits)

lemma take_in_refused: "take_in cfg races mode lmx p shop order s q = (Inl e, s', q') \<Longrightarrow> base s' = base s \<and> q' = q"
  by (auto simp: take_in_def Let_def split: sum.splits option.splits prod.splits if_splits)

text \<open>
  A request from a point of sale is taken in or leaves no trace: refused, for whatever reason, it commits nothing, queues
  nothing and wakes nobody; accepted, the order it answers with is the client's, from that source, found by its reference from then on, and the
  hub is woken.
\<close>

theorem feed_is_taken_in_or_leaves_no_trace:
  assumes "ingest_order_endpoint cfg icfg races hub client source payload s q = (out, s', q')" "intake_ok s" "keeps_intake_all races"
  shows "case out of
      Inl code \<Rightarrow> q' = q \<and> db s' = base s' \<and> base s' \<in> {base s, ir_insert races (base s)}
    | Inr order \<Rightarrow> order \<in> set (orders (db s')) \<and> ord_client_id order = Some client \<and> ord_source_system order = source \<and>
        order_tables_ok (db s') \<and> hub \<in> set (dirty_hubs (hs_bus q'))"
proof (cases "normalize_feed cfg hub client source payload")
  case (Inl e)
  then show ?thesis using assms(1) by (auto simp: ingest_order_endpoint_def ingest_order_def rollback_def)
next
  case (Inr lmx)
  note lmx = normalize_feed_fields [OF Inr]
  obtain res s1 q1 where run: "ingest_or_find icfg races lmx (Some payload) INTAKE_LIVE s q = (res, s1, q1)" by (metis prod.exhaust)
  show ?thesis
  proof (cases res)
    case (Inl e)
    then have none: "find_existing_order lmx (db s) = None" using run by (auto simp: ingest_or_find_def Let_def split: option.splits)
    have "base s1 \<in> {base s, ir_insert races (base s)} \<and> q1 = q"
      using run lmx(6) unfolding Inl
      by (auto simp: registered_order_path [OF none lmx(1) _ lmx(4)] Let_def dest!: take_in_refused
          dest!: insert_order_base split: sum.splits prod.splits insert_result.splits)
    then show ?thesis using assms(1) Inr Inl run
      by (auto simp: ingest_order_endpoint_def ingest_order_def ingest_lmx_order_def rollback_def)
  next
    case (Inr x)
    obtain order b where x: "x = (order, b)" by (rule prod.exhaust)
    have out: "out = Inr order" "s' = s1" "q' = q1\<lparr>hs_bus := publish hub (hs_bus q1)\<rparr>"
      using assms(1) \<open>normalize_feed _ _ _ _ _ = _\<close> Inr x run by (auto simp: ingest_order_endpoint_def ingest_order_def ingest_lmx_order_def)
    have found: "intake_ok s1" "find_existing_order lmx (db s1) = Some order"
      using ingest_finds [OF run [unfolded Inr x] assms(2,3)] by simp_all
    then show ?thesis using lmx(1,2) out
      by (auto simp: find_existing_order_def find_Some_iff intake_ok_def publish_def)
  qed
qed


lemma field_flags_cases:
  assumes "flag \<in> set (field_flags payload known defaults)"
  obtains (unknown) ks where "flag = [(''kind'', JText UNKNOWN_FIELDS), (''fields'', JList (map JText ks))]"
      "\<forall>k \<in> set ks. k \<notin> set known \<and> k \<notin> fst ` set defaults \<and> k \<notin> set READ_DOWNSTREAM"
  | (defaulted) fs where "flag = [(''kind'', JText DEFAULTED_FIELDS), (''fields'', JObj fs)]"
      "\<forall>k \<in> fst ` set fs. k \<in> fst ` set defaults \<and> k \<notin> fst ` set payload"
proof -
  let ?ks = "sort (remdups (filter (\<lambda>k. k \<notin> set known \<and> k \<notin> fst ` set defaults \<and> k \<notin> set READ_DOWNSTREAM) (map fst payload)))"
  let ?fs = "filter (\<lambda>d. fst d \<notin> fst ` set payload) defaults"
  have "flag = [(''kind'', JText UNKNOWN_FIELDS), (''fields'', JList (map JText ?ks))] \<or>
      flag = [(''kind'', JText DEFAULTED_FIELDS), (''fields'', JObj ?fs)]"
    using assms by (simp only: field_flags_def Let_def set_append Un_iff) (force split: if_splits)
  then show thesis
    by (elim disjE) (rule unknown, assumption, simp, rule defaulted, assumption, force)
qed

text \<open>Of which keys no flag speaks: those read downstream, and those that were given and are known.\<close>

lemma field_flags_silent:
  assumes "flag \<in> set (field_flags payload known defaults)"
    "k \<in> set READ_DOWNSTREAM \<and> k \<notin> fst ` set defaults \<or> k \<in> fst ` set payload \<and> k \<in> set known \<union> fst ` set defaults"
  shows "(\<forall>fs. map_of flag ''fields'' = Some (JList fs) \<longrightarrow> JText k \<notin> set fs) \<and>
    (\<forall>fs. map_of flag ''fields'' = Some (JObj fs) \<longrightarrow> k \<notin> fst ` set fs)"
  using assms(1)
proof (cases rule: field_flags_cases)
  case (unknown ks)
  then show ?thesis using assms(2) by auto
next
  case (defaulted fs)
  then have "k \<notin> fst ` set fs" using assms(2) by blast
  then show ?thesis by (simp add: defaulted(1))
qed

lemma field_flags_defaulted:
  assumes "(k, v) \<in> set defaults" "k \<notin> fst ` set payload"
  shows "\<exists>fs. [(''kind'', JText DEFAULTED_FIELDS), (''fields'', JObj fs)] \<in> set (field_flags payload known defaults) \<and> (k, v) \<in> set fs"
proof -
  have member: "(k, v) \<in> set (filter (\<lambda>d. fst d \<notin> fst ` set payload) defaults)" using assms by simp
  then have "filter (\<lambda>d. fst d \<notin> fst ` set payload) defaults \<noteq> []" by force
  then show ?thesis using member by (simp only: field_flags_def Let_def) simp
qed


subsection \<open>Examples\<close>

theorem rerun_of_an_import_creates_nothing_witness:
  "\<exists>s'. backfill_orders (\<lambda>_. sample_config) (\<lambda>_. quiet_races) False [sample_lmx] intake_session =
      (Inr \<lparr>bf_created = 1, bf_replayed = 0, bf_failed = 0, bf_failures = []\<rparr>, s') \<and>
    backfill_orders (\<lambda>_. sample_config) (\<lambda>_. quiet_races) False [sample_lmx] s' =
      (Inr \<lparr>bf_created = 0, bf_replayed = 1, bf_failed = 0, bf_failures = []\<rparr>, s')"
proof (rule sample_intake [of INTAKE_BACKFILL])
  fix order s' q'
  assume "ingest_or_find sample_config quiet_races sample_lmx None INTAKE_BACKFILL intake_session empty_store = (Inr (order, False), s', q')"
  moreover have "find_existing_order sample_lmx (db intake_session) = None" "base intake_session = db intake_session"
    by (simp_all add: find_existing_order_def intake_session_def sample_session_def sample_tables_def Let_def)
  moreover from this have run: "backfill_orders (\<lambda>_. sample_config) (\<lambda>_. quiet_races) False [sample_lmx] intake_session =
      (Inr \<lparr>bf_created = 1, bf_replayed = 0, bf_failed = 0, bf_failures = []\<rparr>, s')"
    using calculation(1) by (simp add: backfill_orders_def ingest_lmx_order_def)
  moreover have "\<forall>k. history_races ((\<lambda>_. quiet_races) (k :: nat))"
    by (simp add: history_races_def quiet_races_def history_race_def)
  ultimately show ?thesis
    using rerun_of_an_import_creates_nothing [OF run _ intake_session_ok(1), of "\<lambda>_. sample_config" "\<lambda>_. quiet_races" False] by auto
qed

text \<open>A flat-file row of the registered shop, and a request that states no weight.\<close>

definition sample_feed :: feed_config where
  "sample_feed = \<lparr>fc_iso = (\<lambda>t. if t = ''2026-01-05T09:00:00+00:00'' then Some 0 else None), fc_float = (\<lambda>_. None), fc_str = (\<lambda>_. ''?'')\<rparr>"

definition sample_row :: json_object where
  "sample_row = [(''order_ref'', JText ''A-2''), (''shop_ref'', JText ''S1''), (''shop_lat'', JFloat 1), (''shop_lng'', JInt 2),
     (''requested_at'', JText ''2026-01-05T09:00:00+00:00'')]"

theorem feed_is_taken_in_or_leaves_no_trace_witness:
  "case ingest_order_endpoint sample_feed sample_config quiet_races 1 2 ''flat_file'' sample_row intake_session empty_store of
     (Inl code, s', q') \<Rightarrow> False | (Inr order, s', q') \<Rightarrow> ord_source_system order = ''flat_file'' \<and> 1 \<in> set (dirty_hubs (hs_bus q'))"
proof -
  obtain out s' q' where run: "ingest_order_endpoint sample_feed sample_config quiet_races 1 2 ''flat_file'' sample_row intake_session empty_store = (out, s', q')"
    by (metis prod.exhaust)
  have "case fst (ingest_order_endpoint sample_feed sample_config quiet_races 1 2 ''flat_file'' sample_row intake_session empty_store) of Inl _ \<Rightarrow> False | Inr _ \<Rightarrow> True"
    by code_simp
  with feed_is_taken_in_or_leaves_no_trace [OF run intake_session_ok] run show ?thesis by (simp split: sum.splits)
qed

definition epicor_payload :: json_object where
  "epicor_payload = [(''OrderNum'', JInt 7), (''ShipToNum'', JText ''S1''), (''ShipToLat'', JFloat 1), (''ShipToLng'', JFloat 2),
     (''OrderDate'', JText ''2026-01-05T09:00:00+00:00''), (''PriorityCode'', JText ''STD''), (''rush'', JBool True)]"


end
