(* ===== verification/Offers.thy ===== *)
theory Offers
  imports Interference Eta
begin

text \<open>
  The driver's answer to a job offer (\<open>src/app/api/driver_routes.py\<close>): an offer lapses, is declined or
  is accepted, and an accepted offer becomes a route with its stops. \<open>answer_env\<close> holds what others do
  where an answer waits: before the locked read of the offer, before each guarded order write,
  before the first stop is marked, and to the fleet between the read and the write of the driver's
  state. The PIN of the drop-off at position \<open>k\<close> is \<open>pins k\<close>. An answer that raises commits nothing.
\<close>

section \<open>Answers and their refusals\<close>

datatype answer_error =
    Offer_not_found | Not_open offer_status | Offer_lapsed | No_pickup_location uuid | Not_declined offer_status
  | Driver_not_found

record answer_env =
  an_wait :: "db \<Rightarrow> db"
  an_orders :: interference
  an_mark :: "db \<Rightarrow> db"
  an_drop :: interference
  an_fleet :: "fleet \<Rightarrow> fleet"

definition get_owned_offer :: "uuid \<Rightarrow> uuid \<Rightarrow> db \<Rightarrow> offer_row option" where
  "get_owned_offer oid driver d =
     (case lookup_by offer_id oid (offers d) of
        None \<Rightarrow> None
      | Some f \<Rightarrow> if offer_driver_id f = driver then Some f else None)"

definition update_offer :: "uuid \<Rightarrow> (offer_row \<Rightarrow> offer_row) \<Rightarrow> session \<Rightarrow> session" where
  "update_offer oid g s = s\<lparr>db := (db s)\<lparr>offers := update_where (\<lambda>f. offer_id f = oid) g (offers (db s))\<rparr>\<rparr>"

section \<open>Lapsing\<close>

definition expire_if_lapsed :: "instant \<Rightarrow> offer_row \<Rightarrow> world \<Rightarrow> bool \<times> world" where
  "expire_if_lapsed now offer w =
     (if now < offer_expires_at offer then (False, w)
      else
        let hit = (\<lambda>f. offer_id f = offer_id offer \<and> offer_status_of f = Offer_offered); d = db (sess w) in
        if \<exists>f \<in> set (offers d). hit f then
          (True, requeue_orders_from_offer now (offer_hub_id offer) (offer_driver_id offer) (offer_stop_payload offer) True True
             (w\<lparr>sess := (sess w)\<lparr>db := d\<lparr>offers := update_where hit
                (\<lambda>f. f\<lparr>offer_status_of := Offer_expired, offer_responded_at := Some now\<rparr>) (offers d)\<rparr>\<rparr>\<rparr>))
        else (True, w))"

fun expire_each :: "instant \<Rightarrow> offer_row list \<Rightarrow> world \<Rightarrow> nat \<times> world" where
  "expire_each now [] w = (0, w)"
| "expire_each now (offer # rest) w =
     (let (gone, w1) = expire_if_lapsed now offer w; (n, w2) = expire_each now rest w1
      in (if gone then Suc n else n, w2))"

text \<open>\<open>busy\<close> is the row somebody else holds, which \<open>skip_locked\<close> passes over.\<close>

definition expire_lapsed_offers :: "instant \<Rightarrow> (uuid \<Rightarrow> bool) \<Rightarrow> world \<Rightarrow> nat \<times> world" where
  "expire_lapsed_offers now busy w =
     expire_each now (filter (\<lambda>f. offer_status_of f = Offer_offered \<and> offer_expires_at f \<le> now \<and> \<not> busy (offer_id f))
       (offers (db (sess w)))) w"

section \<open>Declining\<close>

text \<open>
  How both answers begin: the offer is read under its lock, must be the driver's and open, and lapses
  here if its time is up, which is committed.
\<close>

definition if_open ::
    "answer_env \<Rightarrow> instant \<Rightarrow> uuid \<Rightarrow> uuid \<Rightarrow> (offer_row \<Rightarrow> world \<Rightarrow> (answer_error + 'a) \<times> world) \<Rightarrow> world \<Rightarrow> (answer_error + 'a) \<times> world" where
  "if_open en now oid driver respond w =
     (let w1 = w\<lparr>sess := interfere_db (an_wait en) (sess w)\<rparr> in
      case get_owned_offer oid driver (db (sess w1)) of
        None \<Rightarrow> (Inl Offer_not_found, w1)
      | Some offer \<Rightarrow>
          if offer_status_of offer \<noteq> Offer_offered then (Inl (Not_open (offer_status_of offer)), w1)
          else (case expire_if_lapsed now offer w1 of
             (True, w2) \<Rightarrow> (Inl Offer_lapsed, w2\<lparr>sess := commit (sess w2)\<rparr>)
           | (False, w2) \<Rightarrow> respond offer w2))"

definition decline_offer ::
    "answer_env \<Rightarrow> instant \<Rightarrow> uuid \<Rightarrow> uuid \<Rightarrow> string option option \<Rightarrow> world \<Rightarrow> (answer_error + unit) \<times> world" where
  "decline_offer en now oid driver body w =
     if_open en now oid driver (\<lambda>offer w2.
         let s3 = update_offer oid (\<lambda>f. f\<lparr>offer_status_of := Offer_declined, offer_responded_at := Some now,
               offer_decline_reason := (case body of None \<Rightarrow> offer_decline_reason f | Some r \<Rightarrow> r)\<rparr>) (sess w2);
             w4 = requeue_orders_from_offer now (offer_hub_id offer) (offer_driver_id offer) (offer_stop_payload offer) True True
               (w2\<lparr>sess := s3\<rparr>)
         in (Inr (), w4\<lparr>sess := commit (sess w4)\<rparr>)) w"

definition annotate_decline_reason :: "uuid \<Rightarrow> uuid \<Rightarrow> string option \<Rightarrow> session \<Rightarrow> (answer_error + unit) \<times> session" where
  "annotate_decline_reason oid driver reason s =
     (case get_owned_offer oid driver (db s) of
        None \<Rightarrow> (Inl Offer_not_found, s)
      | Some offer \<Rightarrow>
          if offer_status_of offer \<noteq> Offer_declined then (Inl (Not_declined (offer_status_of offer)), s)
          else (Inr (), commit (update_offer oid (\<lambda>f. f\<lparr>offer_decline_reason := reason\<rparr>) s)))"

section \<open>From the plan to the stops\<close>

type_synonym visit = "uuid \<times> string"

definition read_visits :: "uuid list \<Rightarrow> visit_entry list \<Rightarrow> visit list" where
  "read_visits known raw =
     List.map_filter (\<lambda>e. case (ve_kind e, ve_order_id e) of
         (Some kind, Some i) \<Rightarrow> if kind \<in> {''pickup'', ''delivery''} \<and> i \<in> set known then Some (i, kind) else None
       | _ \<Rightarrow> None) raw"

definition planned_visits :: "offer_row \<Rightarrow> uuid list \<Rightarrow> visit list option" where
  "planned_visits offer known =
     (case offer_visit_payload offer of
        None \<Rightarrow> None
      | Some raw \<Rightarrow>
          if raw = [] then None
          else let visits = read_visits known raw in
            if \<forall>i \<in> set known. snd ` {v \<in> set visits. fst v = i} = {''pickup'', ''delivery''} then Some visits else None)"

definition hot_shot_first :: "visit list \<Rightarrow> uuid list \<Rightarrow> visit list" where
  "hot_shot_first plan hot =
     (if hot = [] then plan
      else filter (\<lambda>v. fst v \<in> set hot) plan @ filter (\<lambda>v. fst v \<notin> set hot) plan)"

definition parcel_count_for_orders :: "uuid list \<Rightarrow> db \<Rightarrow> int" where
  "parcel_count_for_orders order_ids d =
     (if order_ids = [] then 0 else int (length (filter (\<lambda>p. parcel_order_id p \<in> set order_ids) (parcels d))))"

definition parcels_or :: "int \<Rightarrow> int \<Rightarrow> int" where
  "parcels_or n fallback = (if n = 0 then fallback else n)"

text \<open>\<open>Stop(...)\<close>, added and flushed; and a \<open>StopOrder\<close> row.\<close>

definition new_stop :: "uuid \<Rightarrow> int \<Rightarrow> stop_type \<Rightarrow> uuid option \<Rightarrow> int \<Rightarrow> string option \<Rightarrow> session \<Rightarrow> uuid \<times> session" where
  "new_stop rid sequence ty shop count pin s =
     (let (sid, s1) = uuid4 s in
      (sid, s1\<lparr>db := (db s1)\<lparr>stops := stops (db s1) @
         [\<lparr>stop_id = sid, stop_route_id = rid, stop_shop_id = shop, stop_sequence = sequence, stop_status_of = Stop_pending,
           stop_type_of = ty, stop_parcel_count = count, stop_scanned_count = 0, stop_eta = None, stop_planned_eta = None,
           stop_arrived_at = None, stop_completed_at = None, stop_flagged_at = None,
           stop_evidence_of = no_evidence\<lparr>ev_delivery_pin := pin\<rparr>, stop_created_at = txn_now s\<rparr>]\<rparr>\<rparr>))"

definition link_order :: "uuid \<Rightarrow> uuid \<Rightarrow> session \<Rightarrow> session" where
  "link_order sid oid s =
     s\<lparr>db := (db s)\<lparr>stop_orders := stop_orders (db s) @ [\<lparr>so_stop_id = sid, so_order_id = oid\<rparr>]\<rparr>\<rparr>"

definition new_dropoff :: "(int \<Rightarrow> string) \<Rightarrow> uuid \<Rightarrow> int \<Rightarrow> uuid \<Rightarrow> session \<Rightarrow> session" where
  "new_dropoff pins rid sequence oid s =
     (let (sid, s1) = new_stop rid sequence Dropoff None 1 (Some (pins sequence)) s in link_order sid oid s1)"

definition orders_on_stop :: "uuid \<Rightarrow> db \<Rightarrow> uuid list" where
  "orders_on_stop sid d = map so_order_id (filter (\<lambda>l. so_stop_id l = sid) (stop_orders d))"

text \<open>
  The loop of \<open>_build_stops_from_plan\<close>; \<open>open_pickup\<close> is the stop still open for commingling and its
  shop.
\<close>

fun build_legs ::
    "(int \<Rightarrow> string) \<Rightarrow> uuid \<Rightarrow> (uuid \<rightharpoonup> order_row) \<Rightarrow> uuid list \<Rightarrow> visit list \<Rightarrow> int \<Rightarrow> (uuid \<times> uuid option) option \<Rightarrow> session
      \<Rightarrow> session" where
  "build_legs pins rid orders_by_id hot [] sequence open_pickup s = s"
| "build_legs pins rid orders_by_id hot ((oid, kind) # rest) sequence open_pickup s =
     (case orders_by_id oid of
        None \<Rightarrow> build_legs pins rid orders_by_id hot rest sequence open_pickup s
      | Some order \<Rightarrow>
          if kind = ''delivery'' then
            build_legs pins rid orders_by_id hot rest (sequence + 1) None (new_dropoff pins rid sequence (ord_id order) s)
          else
            let is_hot = oid \<in> set hot; count = parcels_or (parcel_count_for_orders [oid] (db s)) 1 in
            case open_pickup of
              Some (sid, shop) \<Rightarrow>
                if \<not> is_hot \<and> shop = ord_shop_id order \<and> (\<forall>i \<in> set (orders_on_stop sid (db s)). i \<notin> set hot) then
                  let s1 = link_order sid oid s in
                  build_legs pins rid orders_by_id hot rest sequence open_pickup
                    (s1\<lparr>db := update_stop sid (\<lambda>r. r\<lparr>stop_parcel_count := stop_parcel_count r + count\<rparr>) (db s1)\<rparr>)
                else
                  let (sid', s1) = new_stop rid sequence Pickup (ord_shop_id order) count None s in
                  build_legs pins rid orders_by_id hot rest (sequence + 1)
                    (if is_hot then None else Some (sid', ord_shop_id order)) (link_order sid' oid s1)
            | None \<Rightarrow>
                let (sid', s1) = new_stop rid sequence Pickup (ord_shop_id order) count None s in
                build_legs pins rid orders_by_id hot rest (sequence + 1)
                  (if is_hot then None else Some (sid', ord_shop_id order)) (link_order sid' oid s1))"

definition build_stops_from_plan ::
    "(int \<Rightarrow> string) \<Rightarrow> uuid \<Rightarrow> order_row list \<Rightarrow> visit list \<Rightarrow> session \<Rightarrow> session" where
  "build_stops_from_plan pins rid rows plan s =
     (let hot = map ord_id (filter (\<lambda>r. ord_sla_tier r = Some HOT_SHOT) rows) in
      build_legs pins rid (dict_of (map (\<lambda>r. (ord_id r, r)) rows)) hot (hot_shot_first plan hot) 0 None s)"

section \<open>Without a plan\<close>

text \<open>\<open>orders_by_shop.setdefault(shop, []).append(order)\<close> over the orders.\<close>

fun append_to :: "'k \<Rightarrow> 'v \<Rightarrow> ('k \<times> 'v list) list \<Rightarrow> ('k \<times> 'v list) list" where
  "append_to k v [] = [(k, [v])]"
| "append_to k v ((k', vs) # rest) = (if k = k' then (k', vs @ [v]) # rest else (k', vs) # append_to k v rest)"

definition orders_by_shop :: "order_row list \<Rightarrow> (uuid \<times> uuid list) list" where
  "orders_by_shop rows =
     fold (\<lambda>r acc. case ord_shop_id r of Some shop \<Rightarrow> append_to shop (ord_id r) acc | None \<Rightarrow> acc)
       (filter (\<lambda>r. ord_sla_tier r \<noteq> Some HOT_SHOT) rows) []"

fun add_pickups :: "uuid \<Rightarrow> (uuid option \<times> uuid list) list \<Rightarrow> int \<Rightarrow> session \<Rightarrow> int \<times> session" where
  "add_pickups rid [] sequence s = (sequence, s)"
| "add_pickups rid ((shop, ids) # rest) sequence s =
     (let (sid, s1) = new_stop rid sequence Pickup shop (parcels_or (parcel_count_for_orders ids (db s)) (int (length ids))) None s
      in add_pickups rid rest (sequence + 1) (fold (link_order sid) ids s1))"

fun add_dropoffs :: "(int \<Rightarrow> string) \<Rightarrow> uuid \<Rightarrow> uuid list \<Rightarrow> int \<Rightarrow> session \<Rightarrow> session" where
  "add_dropoffs pins rid [] sequence s = s"
| "add_dropoffs pins rid (oid # rest) sequence s =
     add_dropoffs pins rid rest (sequence + 1) (new_dropoff pins rid sequence oid s)"

definition build_stops_unplanned :: "(int \<Rightarrow> string) \<Rightarrow> uuid \<Rightarrow> order_row list \<Rightarrow> session \<Rightarrow> answer_error + session" where
  "build_stops_unplanned pins rid rows s =
     (case find (\<lambda>r. ord_shop_id r = None) rows of
        Some r \<Rightarrow> Inl (No_pickup_location (ord_id r))
      | None \<Rightarrow>
          let hot = filter (\<lambda>r. ord_sla_tier r = Some HOT_SHOT) rows;
              (n, s1) = add_pickups rid (map (\<lambda>r. (ord_shop_id r, [ord_id r])) hot @
                map (\<lambda>(shop, ids). (Some shop, ids)) (orders_by_shop rows)) 0 s
          in Inr (add_dropoffs pins rid (map ord_id (hot @ filter (\<lambda>r. ord_sla_tier r \<noteq> Some HOT_SHOT) rows)) n s1))"

section \<open>Accepting\<close>

definition take_route :: "(fleet \<Rightarrow> fleet) \<Rightarrow> hub \<Rightarrow> uuid \<Rightarrow> uuid \<Rightarrow> db \<Rightarrow> fleet \<Rightarrow> fleet option" where
  "take_route others h driver rid d f =
     (let existing = get_driver_state h driver f in
      case (case existing of
          Some x \<Rightarrow> Some (ds_capacity_units x)
        | None \<Rightarrow> map_option driver_vehicle_capacity_units (lookup_by driver_id driver (driver_rows (ops_of d)))) of
        None \<Rightarrow> None
      | Some capacity \<Rightarrow>
          Some (upsert_driver_state \<lparr>ds_driver_id = driver, ds_hub_id = h, ds_status = En_route, ds_capacity_units = capacity,
            ds_load_units = (case existing of Some x \<Rightarrow> ds_load_units x | None \<Rightarrow> 0), ds_current_route_id = Some rid\<rparr> (others f)))"

text \<open>What follows once the stops exist: the offer, the driver, the orders, the first stop and the arrival times.\<close>

definition finish_accept ::
    "distance \<Rightarrow> answer_env \<Rightarrow> instant \<Rightarrow> offer_row \<Rightarrow> uuid list \<Rightarrow> uuid \<Rightarrow> session \<Rightarrow> world \<Rightarrow> (answer_error + uuid) \<times> world" where
  "finish_accept miles en now offer order_ids rid s w =
     (let s1 = update_offer (offer_id offer) (\<lambda>f. f\<lparr>offer_status_of := Offer_accepted, offer_responded_at := Some now, offer_route_id := Some rid\<rparr>) s;
          h = offer_hub_id offer in
      case take_route (an_fleet en) h (offer_driver_id offer) rid (db s1) (fleet_of w) of
        None \<Rightarrow> (Inl Driver_not_found, w)
      | Some fleet1 \<Rightarrow>
          let q1 = (queue w)\<lparr>hs_bus := publish h (hs_bus (queue w))\<rparr>;
              s2 = snd (advance_orders (an_orders en) now None None order_ids En_route_pickup s1);
              s3 = snd (mark_current_stop_en_route (an_mark en) (an_drop en) now rid s2);
              s4 = s3\<lparr>db := snd (refresh_route_etas miles now rid (db s3))\<rparr>
          in (Inr rid, w\<lparr>sess := commit s4, queue := q1, fleet_of := fleet1\<rparr>))"

definition new_route :: "offer_row \<Rightarrow> session \<Rightarrow> uuid \<times> session" where
  "new_route offer s =
     (let (rid, s1) = uuid4 s in
      (rid, s1\<lparr>db := (db s1)\<lparr>routes := routes (db s1) @ [\<lparr>route_id = rid, route_hub_id = offer_hub_id offer,
         route_driver_id = offer_driver_id offer, route_status_of = Route_active, route_plan_version = 1,
         route_created_at = txn_now s1\<rparr>]\<rparr>\<rparr>))"

definition build_stops :: "(int \<Rightarrow> string) \<Rightarrow> uuid \<Rightarrow> offer_row \<Rightarrow> order_row list \<Rightarrow> session \<Rightarrow> answer_error + session" where
  "build_stops pins rid offer rows s =
     (case planned_visits offer (map ord_id rows) of
        None \<Rightarrow> build_stops_unplanned pins rid rows s
      | Some plan \<Rightarrow> Inr (build_stops_from_plan pins rid rows plan s))"

definition accept_offer ::
    "distance \<Rightarrow> (int \<Rightarrow> string) \<Rightarrow> answer_env \<Rightarrow> instant \<Rightarrow> uuid \<Rightarrow> uuid \<Rightarrow> world \<Rightarrow> (answer_error + uuid) \<times> world" where
  "accept_offer miles pins en now oid driver w =
     if_open en now oid driver (\<lambda>offer w2.
         let (rid, s4) = new_route offer (sess w2);
             rows = filter (\<lambda>r. ord_id r \<in> set (map ps_order_id (offer_stop_payload offer))) (orders (db s4))
         in case build_stops pins rid offer rows s4 of
              Inl err \<Rightarrow> (Inl err, w2)
            | Inr s5 \<Rightarrow> finish_accept miles en now offer (map ord_id rows) rid s5 w2) w"

section \<open>What a route is meant to be\<close>

text \<open>
  The reference: the legs in order, cut into visits to one door. A delivery is a visit of its own, and so is
  the collection of a hot shot; any other collection takes along the collections right behind it
  at the same shop.
\<close>

fun joins :: "(uuid \<Rightarrow> uuid option) \<Rightarrow> uuid list \<Rightarrow> uuid \<Rightarrow> visit \<Rightarrow> bool" where
  "joins shop_of hot i (j, kind) \<longleftrightarrow> kind \<noteq> ''delivery'' \<and> j \<notin> set hot \<and> shop_of j = shop_of i"

function grouped :: "(uuid \<Rightarrow> uuid option) \<Rightarrow> uuid list \<Rightarrow> visit list \<Rightarrow> (stop_type \<times> uuid list) list" where
  "grouped shop_of hot [] = []"
| "grouped shop_of hot ((i, kind) # vs) =
     (if kind = ''delivery'' then (Dropoff, [i]) # grouped shop_of hot vs
      else if i \<in> set hot then (Pickup, [i]) # grouped shop_of hot vs
      else (Pickup, i # map fst (takeWhile (joins shop_of hot i) vs)) # grouped shop_of hot (dropWhile (joins shop_of hot i) vs))"
  by pat_completeness auto
termination
  by (relation "measure (\<lambda>(_, _, vs). length vs)") (auto simp: le_imp_less_Suc length_dropWhile_le)

definition group_count :: "db \<Rightarrow> uuid list \<Rightarrow> int" where
  "group_count d ids = sum_list (map (\<lambda>i. parcels_or (parcel_count_for_orders [i] d) 1) ids)"

text \<open>The rows of one visit.\<close>

definition put_group ::
    "(int \<Rightarrow> string) \<Rightarrow> uuid \<Rightarrow> (uuid \<Rightarrow> uuid option) \<Rightarrow> int \<Rightarrow> stop_type \<times> uuid list \<Rightarrow> session \<Rightarrow> session" where
  "put_group pins rid shop_of sequence g s =
     (let (ty, ids) = g in
      s\<lparr>fresh := Suc (fresh s), db := (db s)\<lparr>
          stops := stops (db s) @
            [\<lparr>stop_id = fresh s, stop_route_id = rid, stop_shop_id = (if ty = Dropoff then None else shop_of (hd ids)),
              stop_sequence = sequence, stop_status_of = Stop_pending, stop_type_of = ty,
              stop_parcel_count = (if ty = Dropoff then 1 else group_count (db s) ids), stop_scanned_count = 0, stop_eta = None,
              stop_planned_eta = None, stop_arrived_at = None, stop_completed_at = None, stop_flagged_at = None,
              stop_evidence_of = no_evidence\<lparr>ev_delivery_pin := (if ty = Dropoff then Some (pins sequence) else None)\<rparr>,
              stop_created_at = txn_now s\<rparr>],
          stop_orders := stop_orders (db s) @ map (\<lambda>i. \<lparr>so_stop_id = fresh s, so_order_id = i\<rparr>) ids\<rparr>\<rparr>)"

fun put_groups ::
    "(int \<Rightarrow> string) \<Rightarrow> uuid \<Rightarrow> (uuid \<Rightarrow> uuid option) \<Rightarrow> int \<Rightarrow> (stop_type \<times> uuid list) list \<Rightarrow> session \<Rightarrow> session" where
  "put_groups pins rid shop_of sequence [] s = s"
| "put_groups pins rid shop_of sequence (g # gs) s =
     put_groups pins rid shop_of (sequence + 1) gs (put_group pins rid shop_of sequence g s)"

definition stops_below :: "session \<Rightarrow> bool" where
  "stops_below s \<longleftrightarrow> (\<forall>r \<in> set (stops (db s)). stop_id r < fresh s) \<and> (\<forall>l \<in> set (stop_orders (db s)). so_stop_id l < fresh s)"

lemma stops_below_put: "stops_below s \<Longrightarrow> stops_below (put_group pins rid shop_of q g s)"
  by (auto simp: stops_below_def put_group_def less_Suc_eq split: prod.split)

lemma put_group_parcels [simp]: "parcels (db (put_group pins rid shop_of q g s)) = parcels (db s)"
  "fresh (put_group pins rid shop_of q g s) = Suc (fresh s)"
  by (simp_all add: put_group_def split: prod.split)

lemma parcel_count_cong: "parcels d = parcels d' \<Longrightarrow> parcel_count_for_orders ids d = parcel_count_for_orders ids d'"
  by (simp add: parcel_count_for_orders_def)

lemma new_dropoff_group: "new_dropoff pins rid q i s = put_group pins rid shop_of q (Dropoff, [i]) s"
  by (simp add: new_dropoff_def new_stop_def uuid4_def link_order_def put_group_def)

lemma new_pickup_group:
  assumes "new_stop rid q Pickup (shop_of i) (parcels_or (parcel_count_for_orders [i] (db s)) 1) None s = (sid, s1)"
  shows "link_order sid i s1 = put_group pins rid shop_of q (Pickup, [i]) s" "sid = fresh s"
  using assms by (auto simp: new_stop_def uuid4_def link_order_def put_group_def group_count_def)

lemma update_last:
  assumes "\<forall>r \<in> set rows. key r \<noteq> k" "key x = k"
  shows "update_where (\<lambda>r. key r = k) f (rows @ [x]) = rows @ [f x]"
  using assms by (induction rows) auto

lemma join_group:
  assumes "stops_below s" "ids \<noteq> []" "s1 = put_group pins rid shop_of q (Pickup, ids) s"
  shows "(link_order (fresh s) j s1)\<lparr>db := update_stop (fresh s)
      (\<lambda>r. r\<lparr>stop_parcel_count := stop_parcel_count r + parcels_or (parcel_count_for_orders [j] (db s1)) 1\<rparr>) (db (link_order (fresh s) j s1))\<rparr> =
    put_group pins rid shop_of q (Pickup, ids @ [j]) s"
proof -
  have p: "parcel_count_for_orders [j] (db s1) = parcel_count_for_orders [j] (db s)"
    by (rule parcel_count_cong) (simp add: assms(3))
  have "\<forall>r \<in> set (stops (db s)). stop_id r \<noteq> fresh s" using assms(1) by (auto simp: stops_below_def)
  note u = update_last [OF this]
  show ?thesis
    unfolding p using assms(2) by (simp add: assms(3) put_group_def link_order_def update_stop_def u group_count_def)
qed

lemma orders_on_group: "stops_below s \<Longrightarrow> orders_on_stop (fresh s) (db (put_group pins rid shop_of q (ty, ids) s)) = ids"
  by (auto simp: orders_on_stop_def put_group_def stops_below_def comp_def filter_empty_conv)

lemma build_legs_join:
  assumes "stops_below s" "\<forall>v \<in> set js. joins shop_of hot i v \<and> orders_by_id (fst v) \<noteq> None"
    "\<And>j r. orders_by_id j = Some r \<Longrightarrow> ord_shop_id r = shop_of j"
  shows "ids \<noteq> [] \<Longrightarrow> set ids \<inter> set hot = {} \<Longrightarrow> set hot \<inter> {i} = {} \<Longrightarrow>
    build_legs pins rid orders_by_id hot (js @ rest) q' (Some (fresh s, shop_of i)) (put_group pins rid shop_of q (Pickup, ids) s) =
    build_legs pins rid orders_by_id hot rest q' (Some (fresh s, shop_of i)) (put_group pins rid shop_of q (Pickup, ids @ map fst js) s)"
  using assms(2)
proof (induction js arbitrary: ids)
  case (Cons v js)
  obtain j kind where v: "v = (j, kind)" by (cases v)
  obtain r where r: "orders_by_id j = Some r" using Cons.prems(4) v by auto
  have j: "kind \<noteq> ''delivery''" "j \<notin> set hot" "ord_shop_id r = shop_of i"
    using Cons.prems(4) v assms(3) [OF r] by auto
  note join = join_group [OF assms(1) Cons.prems(1) refl, where pins = pins and rid = rid and shop_of = shop_of and q = q and j = j]
  have "build_legs pins rid orders_by_id hot ((j, kind) # js @ rest) q' (Some (fresh s, shop_of i)) (put_group pins rid shop_of q (Pickup, ids) s) =
    build_legs pins rid orders_by_id hot (js @ rest) q' (Some (fresh s, shop_of i)) (put_group pins rid shop_of q (Pickup, ids @ [j]) s)"
    using j r Cons.prems(2) join orders_on_group [OF assms(1), of pins rid shop_of q Pickup ids]
    by (auto simp: Let_def)
  also have "\<dots> = build_legs pins rid orders_by_id hot rest q' (Some (fresh s, shop_of i)) (put_group pins rid shop_of q (Pickup, (ids @ [j]) @ map fst js) s)"
    using Cons.prems j by (intro Cons.IH) auto
  finally show ?case by (simp add: v)
qed simp

lemma build_legs_closed:
  assumes "vs = [] \<or> \<not> joins shop_of hot i (hd vs)" "\<forall>v \<in> set vs. orders_by_id (fst v) \<noteq> None"
    "\<And>j r. orders_by_id j = Some r \<Longrightarrow> ord_shop_id r = shop_of j"
  shows "build_legs pins rid orders_by_id hot vs q (Some (sid, shop_of i)) s = build_legs pins rid orders_by_id hot vs q None s"
proof (cases vs)
  case (Cons v rest)
  obtain j kind where v: "v = (j, kind)" by (cases v)
  then obtain r where r: "orders_by_id j = Some r" using assms(2) Cons by auto
  from assms(1) v Cons assms(3) [OF r] have "kind = ''delivery'' \<or> j \<in> set hot \<or> shop_of i \<noteq> ord_shop_id r" by auto
  then show ?thesis by (auto simp: Cons v r Let_def)
qed simp

lemma dropWhile_hd: "dropWhile p xs = [] \<or> \<not> p (hd (dropWhile p xs))"
  by (induction xs) auto

lemma build_legs_groups:
  assumes "\<And>j r. orders_by_id j = Some r \<Longrightarrow> ord_id r = j \<and> ord_shop_id r = shop_of j"
    "stops_below s" "\<forall>v \<in> set vs. orders_by_id (fst v) \<noteq> None"
  shows "build_legs pins rid orders_by_id hot vs q None s = put_groups pins rid shop_of q (grouped shop_of hot vs) s"
  using assms
proof (induction shop_of hot vs arbitrary: q s rule: grouped.induct)
  case (2 shop_of hot i kind vs)
  obtain r where r: "orders_by_id i = Some r" using 2(6) by auto
  have ri: "ord_id r = i" "ord_shop_id r = shop_of i" using 2(4) [OF r] by auto
  have vs: "\<forall>v \<in> set vs. orders_by_id (fst v) \<noteq> None" using 2(6) by simp
  obtain s1 where n: "new_stop rid q Pickup (shop_of i) (parcels_or (parcel_count_for_orders [i] (db s)) 1) None s = (fresh s, s1)"
    by (simp add: new_stop_def uuid4_def)
  note g = new_pickup_group(1) [of rid q shop_of i s "fresh s" s1 pins, OF n]
  consider "kind = ''delivery''" | "kind \<noteq> ''delivery''" "i \<in> set hot" | "kind \<noteq> ''delivery''" "i \<notin> set hot" by blast
  then show ?case
  proof cases
    case 1
    then show ?thesis using 2(1) [OF 1 2(4) stops_below_put [OF 2(5)] vs] r ri
      by (simp add: new_dropoff_group [where shop_of = shop_of])
  next
    case two: 2
    then show ?thesis using 2(2) [OF two 2(4) stops_below_put [OF 2(5)] vs] r ri n g by (simp add: Let_def)
  next
    case 3
    let ?js = "takeWhile (joins shop_of hot i) vs" and ?rest = "dropWhile (joins shop_of hot i) vs"
    have js: "\<forall>v \<in> set ?js. joins shop_of hot i v \<and> orders_by_id (fst v) \<noteq> None"
      using vs by (auto dest: set_takeWhileD)
    have rest: "\<forall>v \<in> set ?rest. orders_by_id (fst v) \<noteq> None" using vs by (auto dest: set_dropWhileD)
    have shop: "\<And>j r. orders_by_id j = Some r \<Longrightarrow> ord_shop_id r = shop_of j" using 2(4) by blast
    have "build_legs pins rid orders_by_id hot ((i, kind) # vs) q None s =
        build_legs pins rid orders_by_id hot (?js @ ?rest) (q + 1) (Some (fresh s, shop_of i)) (put_group pins rid shop_of q (Pickup, [i]) s)"
      using 3 r ri n g by (simp add: Let_def)
    also have "\<dots> = build_legs pins rid orders_by_id hot ?rest (q + 1) (Some (fresh s, shop_of i)) (put_group pins rid shop_of q (Pickup, [i] @ map fst ?js) s)"
      using 3 by (intro build_legs_join [OF 2(5) js shop]) simp_all
    also have "\<dots> = build_legs pins rid orders_by_id hot ?rest (q + 1) None (put_group pins rid shop_of q (Pickup, [i] @ map fst ?js) s)"
      by (rule build_legs_closed [OF dropWhile_hd rest shop])
    also have "\<dots> = put_groups pins rid shop_of (q + 1) (grouped shop_of hot ?rest) (put_group pins rid shop_of q (Pickup, [i] @ map fst ?js) s)"
      by (rule 2(3) [OF 3 2(4) stops_below_put [OF 2(5)] rest])
    finally show ?thesis using 3 by simp
  qed
qed simp

lemma grouped_legs:
  assumes "\<forall>v \<in> set vs. snd v \<in> {''pickup'', ''delivery''}"
  shows "concat (map (\<lambda>(ty, ids). map (\<lambda>i. (i, if ty = Dropoff then ''delivery'' else ''pickup'')) ids) (grouped shop_of hot vs)) = vs"
  using assms
proof (induction shop_of hot vs rule: grouped.induct)
  case (2 shop_of hot i kind vs)
  let ?js = "takeWhile (joins shop_of hot i) vs"
  have "map (\<lambda>j. (fst j, ''pickup'')) ?js = ?js"
  proof (rule map_idI)
    fix v assume "v \<in> set ?js"
    then have "joins shop_of hot i v" "v \<in> set vs" by (auto dest: set_takeWhileD)
    with 2(4) show "(fst v, ''pickup'') = v" by (cases v) auto
  qed
  moreover have "\<forall>v \<in> set (dropWhile (joins shop_of hot i) vs). snd v \<in> {''pickup'', ''delivery''}"
    using 2(4) by (auto dest: set_dropWhileD)
  ultimately show ?case using 2 by (auto simp: comp_def)
qed simp

lemma grouped_shape:
  "(ty, ids) \<in> set (grouped shop_of hot vs) \<Longrightarrow>
     ids \<noteq> [] \<and> ty \<in> {Pickup, Dropoff} \<and> (ty = Dropoff \<longrightarrow> length ids = 1) \<and> (set ids \<inter> set hot \<noteq> {} \<longrightarrow> length ids = 1) \<and>
     (\<forall>i \<in> set ids. shop_of i = shop_of (hd ids))"
proof (induction shop_of hot vs rule: grouped.induct)
  case (2 shop_of hot i kind vs)
  have js: "\<forall>j \<in> fst ` set (takeWhile (joins shop_of hot i) vs). j \<notin> set hot \<and> shop_of j = shop_of i"
    by (auto dest!: set_takeWhileD)
  show ?case
  proof (cases "kind = ''delivery''")
    case True
    with 2(1) [OF True] 2(4) show ?thesis by auto
  next
    case False
    show ?thesis
    proof (cases "i \<in> set hot")
      case True
      with 2(2) [OF False True] 2(4) False show ?thesis by auto
    next
      case cold: False
      from 2(4) False cold consider "ty = Pickup" "ids = i # map fst (takeWhile (joins shop_of hot i) vs)"
        | "(ty, ids) \<in> set (grouped shop_of hot (dropWhile (joins shop_of hot i) vs))" by auto
      then show ?thesis
      proof cases
        case 1
        with js cold show ?thesis by (simp add: disjoint_iff)
      next
        case 2
        from "2.IH"(3) [OF False cold this] show ?thesis .
      qed
    qed
  qed
qed simp

lemma read_visits_known: "v \<in> set (read_visits known raw) \<Longrightarrow> fst v \<in> set known \<and> snd v \<in> {''pickup'', ''delivery''}"
  by (auto simp: read_visits_def List.map_filter_def split: option.splits if_splits)

lemma planned_visits_complete:
  assumes "planned_visits offer known = Some plan"
  shows "\<forall>v \<in> set plan. fst v \<in> set known \<and> snd v \<in> {''pickup'', ''delivery''}"
    "\<forall>i \<in> set known. (i, ''pickup'') \<in> set plan \<and> (i, ''delivery'') \<in> set plan"
proof -
  obtain raw where raw: "plan = read_visits known raw" "\<forall>i \<in> set known. snd ` {v \<in> set plan. fst v = i} = {''pickup'', ''delivery''}"
    using assms by (auto simp: planned_visits_def Let_def split: option.splits if_splits)
  show "\<forall>v \<in> set plan. fst v \<in> set known \<and> snd v \<in> {''pickup'', ''delivery''}"
    using read_visits_known raw(1) by blast
  show "\<forall>i \<in> set known. (i, ''pickup'') \<in> set plan \<and> (i, ''delivery'') \<in> set plan"
  proof
    fix i assume "i \<in> set known"
    then have "''pickup'' \<in> snd ` {v \<in> set plan. fst v = i}" "''delivery'' \<in> snd ` {v \<in> set plan. fst v = i}" using raw(2) by auto
    then show "(i, ''pickup'') \<in> set plan \<and> (i, ''delivery'') \<in> set plan" by auto
  qed
qed

lemma set_hot_shot_first: "set (hot_shot_first plan hot) = set plan"
  by (auto simp: hot_shot_first_def)

section \<open>Properties\<close>

text \<open>
  (C15) An accepted plan becomes exactly the route it describes. The stops written are those of the
  reference grouping, numbered from zero in driving order: read back leg by leg they are the
  planned legs with the hot shots' legs first; every order is collected and delivered; a drop-off
  serves one order and carries a PIN; a stop that serves a hot shot serves nothing else; and the
  orders collected at one stop are from one shop, which is the stop's, with their parcels counted.
\<close>

theorem planned_route_follows_the_plan:
  assumes "planned_visits offer (map ord_id rows) = Some plan" "distinct (map ord_id rows)" "stops_below s"
    "hot = map ord_id (filter (\<lambda>r. ord_sla_tier r = Some HOT_SHOT) rows)"
    "shop_of = (\<lambda>i. Option.bind (dict_of (map (\<lambda>r. (ord_id r, r)) rows) i) ord_shop_id)"
    "gs = grouped shop_of hot (hot_shot_first plan hot)"
  shows "build_stops_from_plan pins rid rows plan s = put_groups pins rid shop_of 0 gs s \<and>
    concat (map (\<lambda>(ty, ids). map (\<lambda>i. (i, if ty = Dropoff then ''delivery'' else ''pickup'')) ids) gs) = hot_shot_first plan hot \<and>
    (\<forall>r \<in> set rows. (ord_id r, ''pickup'') \<in> set (hot_shot_first plan hot) \<and> (ord_id r, ''delivery'') \<in> set (hot_shot_first plan hot)) \<and>
    (\<forall>(ty, ids) \<in> set gs. ids \<noteq> [] \<and> (ty = Dropoff \<or> set ids \<inter> set hot \<noteq> {} \<longrightarrow> length ids = 1) \<and> (\<forall>i \<in> set ids. shop_of i = shop_of (hd ids)))"
proof -
  let ?by = "dict_of (map (\<lambda>r. (ord_id r, r)) rows)"
  have by_id: "?by (ord_id r) = Some r" if "r \<in> set rows" for r
    using assms(2) that by (simp add: dict_of_distinct comp_def map_of_eq_Some_iff image_iff)
  have 1: "\<And>j r. ?by j = Some r \<Longrightarrow> ord_id r = j \<and> ord_shop_id r = shop_of j"
    by (auto simp: assms(5) dest: dict_of_Some)
  have known: "\<forall>v \<in> set (hot_shot_first plan hot). ?by (fst v) \<noteq> None"
    using planned_visits_complete(1) [OF assms(1)] by_id by (fastforce simp: set_hot_shot_first)
  have "build_stops_from_plan pins rid rows plan s = put_groups pins rid shop_of 0 gs s"
    using build_legs_groups [OF 1 assms(3) known] by (simp add: build_stops_from_plan_def Let_def assms(4,6))
  moreover have "concat (map (\<lambda>(ty, ids). map (\<lambda>i. (i, if ty = Dropoff then ''delivery'' else ''pickup'')) ids) gs) = hot_shot_first plan hot"
    unfolding assms(6) using planned_visits_complete(1) [OF assms(1)] by (intro grouped_legs) (auto simp: set_hot_shot_first)
  moreover have "\<forall>r \<in> set rows. (ord_id r, ''pickup'') \<in> set (hot_shot_first plan hot) \<and> (ord_id r, ''delivery'') \<in> set (hot_shot_first plan hot)"
    using planned_visits_complete(2) [OF assms(1)] by (simp add: set_hot_shot_first)
  moreover have "\<forall>(ty, ids) \<in> set gs. ids \<noteq> [] \<and> (ty = Dropoff \<or> set ids \<inter> set hot \<noteq> {} \<longrightarrow> length ids = 1) \<and> (\<forall>i \<in> set ids. shop_of i = shop_of (hd ids))"
    unfolding assms(6) using grouped_shape by (clarify) metis
  ultimately show ?thesis by blast
qed

text \<open>Two orders of one shop, collected together, delivered in turn.\<close>

definition sample_plan :: "visit list" where
  "sample_plan = [(6, ''pickup''), (7, ''pickup''), (7, ''delivery''), (6, ''delivery'')]"

definition sample_planned_offer :: offer_row where
  "sample_planned_offer = \<lparr>offer_id = 40, offer_hub_id = 1, offer_driver_id = 8, offer_status_of = Offer_offered, offer_stop_payload = [],
     offer_visit_payload = Some (map (\<lambda>(i, k). \<lparr>ve_kind = Some k, ve_order_id = Some i\<rparr>) sample_plan), offer_offered_at = 0,
     offer_expires_at = 100, offer_responded_at = None, offer_decline_reason = None, offer_route_id = None, offer_bonus_cents = None\<rparr>"

theorem planned_route_follows_the_plan_witness:
  "\<exists>shop_of. build_stops_from_plan (\<lambda>_. ''1234'') 4 [sample_order 6 Assigned, sample_order 7 Assigned] sample_plan
       (sample_session [sample_order 6 Assigned, sample_order 7 Assigned]) =
     put_groups (\<lambda>_. ''1234'') 4 shop_of 0 [(Pickup, [6, 7]), (Dropoff, [7]), (Dropoff, [6])]
       (sample_session [sample_order 6 Assigned, sample_order 7 Assigned])"
proof -
  let ?rows = "[sample_order 6 Assigned, sample_order 7 Assigned]"
  let ?shop = "\<lambda>i. Option.bind (dict_of (map (\<lambda>r. (ord_id r, r)) ?rows) i) ord_shop_id"
  let ?hot = "map ord_id (filter (\<lambda>r. ord_sla_tier r = Some HOT_SHOT) ?rows)"
  have 1: "planned_visits sample_planned_offer (map ord_id ?rows) = Some sample_plan" by code_simp
  have 2: "distinct (map ord_id ?rows)" by (simp add: sample_order_def)
  have 3: "stops_below (sample_session ?rows)" by (simp add: stops_below_def sample_session_def sample_tables_def)
  have 4: "grouped ?shop ?hot (hot_shot_first sample_plan ?hot) = [(Pickup, [6, 7]), (Dropoff, [7]), (Dropoff, [6])]" by code_simp
  from planned_route_follows_the_plan [OF 1 2 3 refl refl refl, of "\<lambda>_. ''1234''" 4] show ?thesis
    unfolding 4 by blast
qed

section \<open>Answers as steps\<close>

datatype answer_op =
    Accepting distance "int \<Rightarrow> string" answer_env instant uuid uuid
  | Declining answer_env instant uuid uuid "string option option"
  | Sweeping instant "uuid \<Rightarrow> bool"
  | Annotating uuid uuid "string option"

text \<open>One request: the answer it gave, if it gave one, and the world after it.\<close>

fun answer :: "answer_op \<Rightarrow> world \<Rightarrow> (uuid \<times> offer_status) option \<times> world" where
  "answer (Accepting miles pins en now oid driver) w =
     (case accept_offer miles pins en now oid driver w of (Inr _, w') \<Rightarrow> (Some (oid, Offer_accepted), w') | (Inl _, w') \<Rightarrow> (None, w'))"
| "answer (Declining en now oid driver body) w =
     (case decline_offer en now oid driver body w of (Inr _, w') \<Rightarrow> (Some (oid, Offer_declined), w') | (Inl _, w') \<Rightarrow> (None, w'))"
| "answer (Sweeping now busy) w =
     (let w' = snd (expire_lapsed_offers now busy w) in (None, w'\<lparr>sess := commit (sess w')\<rparr>))"
| "answer (Annotating oid driver reason) w = (None, w\<lparr>sess := snd (annotate_decline_reason oid driver reason (sess w))\<rparr>)"

text \<open>The offers as a request finds them when it has its lock.\<close>

fun found_offers :: "answer_op \<Rightarrow> world \<Rightarrow> offer_row list" where
  "found_offers (Accepting miles pins en now oid driver) w = offers (an_wait en (db (sess w)))"
| "found_offers (Declining en now oid driver body) w = offers (an_wait en (db (sess w)))"
| "found_offers _ w = offers (db (sess w))"

text \<open>The answers given, each with the offers as the request found them and as it left them.\<close>

fun run_answers :: "answer_op list \<Rightarrow> world \<Rightarrow> (uuid \<times> offer_status \<times> offer_row list \<times> offer_row list) list \<times> world" where
  "run_answers [] w = ([], w)"
| "run_answers (op # rest) w =
     (let (res, w1) = answer op w; (as, w2) = run_answers rest w1
      in ((case res of None \<Rightarrow> as | Some (oid, st) \<Rightarrow> (oid, st, found_offers op w, offers (db (sess w1))) # as), w2))"

text \<open>An answered offer keeps its answer and its route, and no offer goes; new ones may appear.\<close>

definition keeps_answers :: "offer_row list \<Rightarrow> offer_row list \<Rightarrow> bool" where
  "keeps_answers os os' \<longleftrightarrow> (\<forall>i f. lookup_by offer_id i os = Some f \<longrightarrow> (\<exists>f'. lookup_by offer_id i os' = Some f' \<and>
     (offer_status_of f \<noteq> Offer_offered \<longrightarrow> offer_status_of f' = offer_status_of f \<and> offer_route_id f' = offer_route_id f)))"

text \<open>
  What others may do to the offers. While a request waits for its lock they may answer, withdraw, lapse or make any
  offer, this one included; once it holds the lock they still may, except on the locked row.
\<close>

definition keeps_given :: "(db \<Rightarrow> db) \<Rightarrow> bool" where
  "keeps_given f \<longleftrightarrow> keeps_sane f \<and> (\<forall>d. keeps_answers (offers d) (offers (f d)))"

definition leaves_offer :: "uuid \<Rightarrow> (db \<Rightarrow> db) \<Rightarrow> bool" where
  "leaves_offer oid f \<longleftrightarrow> (\<forall>d. lookup_by offer_id oid (offers (f d)) = lookup_by offer_id oid (offers d))"

definition env_ok :: "uuid \<Rightarrow> answer_env \<Rightarrow> bool" where
  "env_ok oid en \<longleftrightarrow> keeps_given (an_wait en) \<and> keeps_given (an_mark en) \<and> leaves_offer oid (an_mark en) \<and>
     keeps_keys (an_orders en) \<and> keeps_keys (an_drop en)"

fun op_ok :: "answer_op \<Rightarrow> bool" where
  "op_ok (Accepting miles pins en now oid driver) = env_ok oid en"
| "op_ok (Declining en now oid driver body) = env_ok oid en"
| "op_ok _ = True"

lemma keeps_answers_refl [simp]: "keeps_answers os os"
  by (simp add: keeps_answers_def)

lemma keeps_answers_trans: "keeps_answers a b \<Longrightarrow> keeps_answers b c \<Longrightarrow> keeps_answers a c"
  unfolding keeps_answers_def by metis

lemma keeps_answers_update:
  assumes "\<And>f. offer_id (g f) = offer_id f"
    "\<And>i f. lookup_by offer_id i os = Some f \<Longrightarrow> p f \<Longrightarrow> offer_status_of f \<noteq> Offer_offered \<Longrightarrow>
       offer_status_of (g f) = offer_status_of f \<and> offer_route_id (g f) = offer_route_id f"
  shows "keeps_answers os (update_where p g os)"
  using assms by (auto simp: keeps_answers_def lookup_by_update_where)

lemma ignores_offers: "ignores_orders offers" "ignores_stops offers"
  by (simp_all add: ignores_orders_def ignores_stops_def)

lemma offers_requeue: "sane (sess w) \<Longrightarrow> offers (db (sess (requeue_orders_from_offer now h d payload free wake w))) = offers (db (sess w))"
  by (rule requeue_frame) (simp_all add: ignores_offers)

lemma expire_if_lapsed_answers:
  assumes "sane (sess w)" "expire_if_lapsed now offer w = (gone, w')"
  shows "keeps_answers (offers (db (sess w))) (offers (db (sess w'))) \<and> sane (sess w') \<and> (gone \<longleftrightarrow> offer_expires_at offer \<le> now) \<and> (\<not> gone \<longrightarrow> w' = w)"
proof -
  let ?hit = "\<lambda>f. offer_id f = offer_id offer \<and> offer_status_of f = Offer_offered"
  let ?w = "w\<lparr>sess := (sess w)\<lparr>db := (db (sess w))\<lparr>offers := update_where ?hit
      (\<lambda>f. f\<lparr>offer_status_of := Offer_expired, offer_responded_at := Some now\<rparr>) (offers (db (sess w)))\<rparr>\<rparr>\<rparr>"
  have "sane (sess ?w)" using assms(1) by (simp add: sane_def session_ok_def)
  moreover have "keeps_answers (offers (db (sess w))) (offers (db (sess ?w)))"
    by simp (rule keeps_answers_update, simp_all)
  ultimately show ?thesis
    using assms sane_requeue [of ?w] offers_requeue [of ?w]
    by (auto simp: expire_if_lapsed_def Let_def not_less split: if_splits)
qed

lemma expire_each_answers:
  "sane (sess w) \<Longrightarrow> expire_each now fs w = (n, w') \<Longrightarrow> keeps_answers (offers (db (sess w))) (offers (db (sess w'))) \<and> sane (sess w')"
proof (induction now fs w arbitrary: n w' rule: expire_each.induct)
  case (2 now offer rest w)
  obtain gone w1 where e: "expire_if_lapsed now offer w = (gone, w1)" by fastforce
  obtain m w2 where r: "expire_each now rest w1 = (m, w2)" by fastforce
  from 2(1) [OF e [symmetric] refl _ r] expire_if_lapsed_answers [OF 2(2) e] 2(3) show ?case
    by (auto simp: e r intro: keeps_answers_trans)
qed simp

text \<open>Building stops writes stops and their links, and uses up identifiers.\<close>

definition only_stops :: "session \<Rightarrow> session \<Rightarrow> bool" where
  "only_stops s s' \<longleftrightarrow> (\<exists>n a b. s' = s\<lparr>fresh := fresh s + n, db := (db s)\<lparr>stops := a, stop_orders := b\<rparr>\<rparr>)"

lemma only_stopsI: "s' = s\<lparr>fresh := fresh s + n, db := (db s)\<lparr>stops := a, stop_orders := b\<rparr>\<rparr> \<Longrightarrow> only_stops s s'"
  unfolding only_stops_def by blast

lemma only_stops_refl [simp]: "only_stops s s"
  by (rule only_stopsI [where n = 0 and a = "stops (db s)" and b = "stop_orders (db s)"]) simp

lemma only_stops_trans:
  assumes "only_stops a b" "only_stops b c"
  shows "only_stops a c"
proof -
  obtain n x y m u v where "b = a\<lparr>fresh := fresh a + n, db := (db a)\<lparr>stops := x, stop_orders := y\<rparr>\<rparr>"
    "c = b\<lparr>fresh := fresh b + m, db := (db b)\<lparr>stops := u, stop_orders := v\<rparr>\<rparr>"
    using assms unfolding only_stops_def by blast
  then have "c = a\<lparr>fresh := fresh a + (n + m), db := (db a)\<lparr>stops := u, stop_orders := v\<rparr>\<rparr>" by (simp add: add.assoc)
  then show ?thesis by (rule only_stopsI)
qed

lemma only_stops_new: "new_stop rid q ty shop count pin s = (sid, s') \<Longrightarrow> only_stops s s'"
  by (rule only_stopsI [where n = 1 and b = "stop_orders (db s)"]) (auto simp: new_stop_def uuid4_def)

lemma only_stops_link: "only_stops s (link_order sid oid s)"
  by (rule only_stopsI [where n = 0 and a = "stops (db s)"]) (simp add: link_order_def)

lemma only_stops_update: "only_stops s (s\<lparr>db := update_stop sid f (db s)\<rparr>)"
  by (rule only_stopsI [where n = 0 and b = "stop_orders (db s)"]) (simp add: update_stop_def)

lemma only_stops_links: "only_stops s (fold (link_order sid) ids s)"
  by (induction ids arbitrary: s) (auto intro: only_stops_trans only_stops_link)

lemma only_stops_dropoff: "only_stops s (new_dropoff pins rid q oid s)"
  by (auto simp: new_dropoff_def split: prod.split intro: only_stops_trans only_stops_link dest!: only_stops_new)

lemma only_stops_pickup: "new_stop rid q ty shop count pin s = (sid, s') \<Longrightarrow> only_stops s (link_order sid oid s')"
  using only_stops_trans [OF only_stops_new only_stops_link] .

lemma only_stops_build_legs: "only_stops s (build_legs pins rid by_id hot vs q open1 s)"
proof (induction vs arbitrary: q open1 s)
  case (Cons v vs)
  obtain i kind where v: "v = (i, kind)" by (cases v)
  note step = only_stops_trans [OF _ Cons.IH]
  have join: "only_stops s ((link_order sid i s)\<lparr>db := update_stop sid f (db (link_order sid i s))\<rparr>)" for sid f
    by (rule only_stops_trans [OF only_stops_link only_stops_update])
  show ?case
    by (auto simp: v Let_def Cons.IH intro!: step only_stops_dropoff join dest!: only_stops_pickup split: option.split prod.split)
qed simp

lemma only_stops_pickups: "only_stops s (snd (add_pickups rid gs q s))"
proof (induction gs arbitrary: q s)
  case (Cons g gs)
  obtain shop ids where g: "g = (shop, ids)" by (cases g)
  show ?case
    by (auto simp: g split: prod.split intro!: only_stops_trans [OF _ Cons.IH] only_stops_trans [OF only_stops_new only_stops_links])
qed simp

lemma only_stops_dropoffs: "only_stops s (add_dropoffs pins rid ids q s)"
proof (induction ids arbitrary: q s)
  case (Cons i ids)
  show ?case using only_stops_trans [OF only_stops_dropoff Cons.IH] by simp
qed simp

lemma only_stops_unplanned:
  assumes "build_stops_unplanned pins rid rows s = Inr s'"
  shows "only_stops s s'"
proof (cases "find (\<lambda>r. ord_shop_id r = None) rows")
  case None
  let ?hot = "filter (\<lambda>r. ord_sla_tier r = Some HOT_SHOT) rows"
  let ?p = "add_pickups rid (map (\<lambda>r. (ord_shop_id r, [ord_id r])) ?hot @ map (\<lambda>(shop, ids). (Some shop, ids)) (orders_by_shop rows)) 0 s"
  have e: "s' = add_dropoffs pins rid (map ord_id (?hot @ filter (\<lambda>r. ord_sla_tier r \<noteq> Some HOT_SHOT) rows)) (fst ?p) (snd ?p)"
    using assms None by (simp add: build_stops_unplanned_def Let_def split_beta)
  show ?thesis unfolding e by (rule only_stops_trans [OF only_stops_pickups only_stops_dropoffs])
qed (use assms in \<open>simp add: build_stops_unplanned_def\<close>)

lemma only_stops_frame:
  assumes "only_stops s s'"
  shows "offers (db s') = offers (db s)" "orders (db s') = orders (db s)" "base s' = base s" "sane s \<Longrightarrow> sane s'"
  using assms by (auto simp: only_stops_def sane_def session_ok_def trans_less_add1)

lemma update_offer_frame [simp]:
  "offers (db (update_offer oid g s)) = update_where (\<lambda>f. offer_id f = oid) g (offers (db s))"
  "sane (update_offer oid g s) = sane s" "base (update_offer oid g s) = base s"
  by (simp_all add: update_offer_def sane_def session_ok_def)

lemma sane_commit [simp]: "sane (commit s) = sane s" "db (commit s) = db s"
  by (simp_all add: commit_def sane_def session_ok_def)

lemma refresh_frame: "ignores_stops view \<Longrightarrow> view (snd (refresh_route_etas miles now rid d)) = view d"
  by (cases rule: refresh_cases [of miles now rid d]) (simp_all add: ignores_stops_def)

lemma respond_answers:
  assumes "lookup_by offer_id oid os = Some f" "offer_status_of f = Offer_offered" "\<And>f. offer_id (g f) = offer_id f"
  shows "keeps_answers os (update_where (\<lambda>f. offer_id f = oid) g os) \<and> lookup_by offer_id oid (update_where (\<lambda>f. offer_id f = oid) g os) = Some (g f)"
proof -
  have "offer_id f = oid" using lookup_by_Some [OF assms(1)] by simp
  with assms show ?thesis
    by (auto intro!: keeps_answers_update simp: lookup_by_update_where) (metis lookup_by_Some option.inject)+
qed

lemma mark_current_offers:
  assumes "sane s" "keeps_sane others"
  shows "offers (db (snd (mark_current_stop_en_route others env now rid s))) \<in> {offers (db s), offers (others (db s))}"
proof -
  have drop: "offers (db (advance_dropoff env now c q)) = offers (db q)" if "session_ok q" for c q
    using advance_orders_frame [OF that ignores_offers(1)] by (simp add: advance_dropoff_def Let_def)
  have s1: "session_ok (interfere_db others s)" using sane_others [OF assms(2,1)] by (simp add: sane_def)
  then have "session_ok ((interfere_db others s)\<lparr>db := (db (interfere_db others s))\<lparr>stops := x\<rparr>\<rparr>)" for x
    by (simp add: session_ok_def)
  note drop2 = drop [OF this]
  show ?thesis
    using assms(1) drop drop2
    by (auto simp: mark_current_stop_en_route_def Let_def sane_def interfere_db_def split: option.split)
qed

lemma finish_accept_answers:
  assumes "finish_accept miles en now offer ids rid s w = (Inr r, w')" "sane s" "env_ok (offer_id offer) en"
    "lookup_by offer_id (offer_id offer) (offers (db s)) = Some f" "offer_status_of f = Offer_offered"
  shows "keeps_answers (offers (db s)) (offers (db (sess w'))) \<and> sane (sess w') \<and>
    (\<exists>f'. lookup_by offer_id (offer_id offer) (offers (db (sess w'))) = Some f' \<and> offer_status_of f' = Offer_accepted \<and> offer_route_id f' = Some rid)"
proof -
  let ?g = "\<lambda>f. f\<lparr>offer_status_of := Offer_accepted, offer_responded_at := Some now, offer_route_id := Some rid\<rparr>"
  let ?s1 = "update_offer (offer_id offer) ?g s"
  let ?s2 = "snd (advance_orders (an_orders en) now None None ids En_route_pickup ?s1)"
  let ?s3 = "snd (mark_current_stop_en_route (an_mark en) (an_drop en) now rid ?s2)"
  let ?s4 = "?s3\<lparr>db := snd (refresh_route_etas miles now rid (db ?s3))\<rparr>"
  let ?os = "update_where (\<lambda>f. offer_id f = offer_id offer) ?g (offers (db s))"
  have w': "sess w' = commit ?s4" using assms(1) by (auto simp: finish_accept_def Let_def split: option.splits)
  have env: "keeps_sane (an_mark en)" "keeps_keys (an_orders en)" "keeps_keys (an_drop en)"
    "\<And>d. keeps_answers (offers d) (offers (an_mark en d))" "leaves_offer (offer_id offer) (an_mark en)"
    using assms(3) by (auto simp: env_ok_def keeps_given_def)
  have ok1: "sane ?s1" using assms(2) by simp
  have ok2: "sane ?s2" by (rule sane_advance [OF env(2) ok1])
  have ok3: "sane ?s3" by (rule sane_mark_current [OF env(1,3) ok2])
  have "orders (snd (refresh_route_etas miles now rid (db ?s3))) = orders (db ?s3) \<and>
      deliveries (snd (refresh_route_etas miles now rid (db ?s3))) = deliveries (db ?s3) \<and>
      endpoints (snd (refresh_route_etas miles now rid (db ?s3))) = endpoints (db ?s3)"
    by (intro conjI refresh_frame) (simp_all add: ignores_stops_def)
  with ok3 have ok4: "sane ?s4" by (intro sane_db) simp_all
  have os: "offers (db ?s2) = ?os"
    using advance_orders_frame [of ?s1 offers "an_orders en" now None None ids En_route_pickup] ok1 by (simp add: ignores_offers sane_def)
  have "offers (db ?s4) = offers (db ?s3)" using refresh_frame [OF ignores_offers(2)] by simp
  then have "offers (db (sess w')) \<in> {?os, offers (an_mark en (db ?s2))}" using mark_current_offers [OF ok2 env(1)] os by (simp add: w')
  then have "keeps_answers ?os (offers (db (sess w'))) \<and>
      lookup_by offer_id (offer_id offer) (offers (db (sess w'))) = lookup_by offer_id (offer_id offer) ?os"
    using env(4) [of "db ?s2"] env(5) by (auto simp: os leaves_offer_def)
  moreover have "keeps_answers (offers (db s)) ?os \<and> lookup_by offer_id (offer_id offer) ?os = Some (?g f)"
    by (rule respond_answers [OF assms(4,5)]) simp
  ultimately show ?thesis using ok4 keeps_answers_trans by (auto simp: w')
qed

lemma get_owned_offer_Some: "get_owned_offer oid driver d = Some f \<Longrightarrow> lookup_by offer_id oid (offers d) = Some f \<and> offer_id f = oid"
  by (auto simp: get_owned_offer_def split: option.splits if_splits dest: lookup_by_Some)

lemma waited_answers:
  assumes "sane (sess w)" "env_ok oid en"
  shows "sane (interfere_db (an_wait en) (sess w))" "offers (db (interfere_db (an_wait en) (sess w))) = offers (an_wait en (db (sess w)))"
    "keeps_answers (offers (db (sess w))) (offers (an_wait en (db (sess w))))"
  using assms sane_others by (simp_all add: env_ok_def keeps_given_def interfere_db_def)

lemma if_open_cases:
  assumes "if_open en now oid driver respond w = (res, w')" "sane (sess w)" "env_ok oid en"
  obtains (refused) e where "res = Inl e" "keeps_answers (offers (an_wait en (db (sess w)))) (offers (db (sess w')))" "sane (sess w')"
  | (answered) f where "lookup_by offer_id oid (offers (an_wait en (db (sess w)))) = Some f" "offer_status_of f = Offer_offered" "offer_driver_id f = driver"
      "now < offer_expires_at f" "respond f (w\<lparr>sess := interfere_db (an_wait en) (sess w)\<rparr>) = (res, w')"
proof -
  let ?w1 = "w\<lparr>sess := interfere_db (an_wait en) (sess w)\<rparr>"
  note w1 = waited_answers [OF assms(2,3)]
  show thesis
  proof (cases "get_owned_offer oid driver (db (sess ?w1))")
    case None
    with assms(1) w1 show thesis by (intro refused [of Offer_not_found]) (auto simp: if_open_def)
  next
    case (Some f)
    note f = get_owned_offer_Some [OF Some]
    have driver: "offer_driver_id f = driver" using Some by (auto simp: get_owned_offer_def split: option.splits if_splits)
    show thesis
    proof (cases "offer_status_of f = Offer_offered")
      case False
      with assms(1) w1 Some show thesis by (intro refused [of "Not_open (offer_status_of f)"]) (auto simp: if_open_def)
    next
      case True
      obtain gone w2 where e: "expire_if_lapsed now f ?w1 = (gone, w2)" by fastforce
      have "sane (sess ?w1)" using w1 by simp
      note x = expire_if_lapsed_answers [OF this e]
      show thesis
      proof (cases gone)
        case True
        with assms(1) w1 Some e x \<open>offer_status_of f = Offer_offered\<close> show thesis
          by (intro refused [of Offer_lapsed]) (auto simp: if_open_def)
      next
        case False
        with assms(1) w1 Some e x True f driver show thesis
          by (intro answered [of f]) (auto simp: if_open_def not_le)
      qed
    qed
  qed
qed

lemma new_route_frame:
  assumes "new_route offer s = (rid, s')" "sane s"
  shows "sane s'" "offers (db s') = offers (db s)" "orders (db s') = orders (db s)"
  using assms by (auto simp: new_route_def uuid4_def sane_def session_ok_def less_SucI)

lemma only_stops_build: "build_stops pins rid offer rows s = Inr s' \<Longrightarrow> only_stops s s'"
  by (auto simp: build_stops_def build_stops_from_plan_def Let_def only_stops_build_legs only_stops_unplanned split: option.splits)

lemma accept_answers:
  assumes "accept_offer miles pins en now oid driver w = (res, w')" "sane (sess w)" "env_ok oid en"
  shows "keeps_answers (offers (an_wait en (db (sess w)))) (offers (db (sess w'))) \<and> sane (sess w') \<and>
    (\<forall>r. res = Inr r \<longrightarrow> (\<exists>f f'. lookup_by offer_id oid (offers (an_wait en (db (sess w)))) = Some f \<and> offer_status_of f = Offer_offered \<and>
       lookup_by offer_id oid (offers (db (sess w'))) = Some f' \<and> offer_status_of f' = Offer_accepted))"
  using assms(1) [unfolded accept_offer_def] assms(2,3)
proof (cases rule: if_open_cases)
  case (answered f)
  let ?s = "interfere_db (an_wait en) (sess w)"
  note w1 = waited_answers [OF assms(2,3)]
  obtain rid s4 where r: "new_route f ?s = (rid, s4)" by fastforce
  note n = new_route_frame [OF r w1(1)]
  let ?rows = "filter (\<lambda>r. ord_id r \<in> set (map ps_order_id (offer_stop_payload f))) (orders (db s4))"
  have id: "offer_id f = oid" using lookup_by_Some [OF answered(1)] by simp
  show ?thesis
  proof (cases "build_stops pins rid f ?rows s4")
    case (Inl e)
    with answered(5) r w1 show ?thesis by auto
  next
    case (Inr s5)
    note b = only_stops_frame [OF only_stops_build [OF Inr]]
    have fin: "finish_accept miles en now f (map ord_id ?rows) rid s5 (w\<lparr>sess := ?s\<rparr>) = (res, w')"
      using answered(5) r Inr by simp
    have os: "offers (db s5) = offers (an_wait en (db (sess w)))" by (simp add: b(1) n(2) w1(2))
    show ?thesis
    proof (cases res)
      case (Inl e)
      then have "w' = w\<lparr>sess := ?s\<rparr>" using fin by (auto simp: finish_accept_def Let_def split: option.splits)
      with Inl w1 show ?thesis by simp
    next
      case res: (Inr x)
      have "env_ok (offer_id f) en" "lookup_by offer_id (offer_id f) (offers (db s5)) = Some f"
        using assms(3) answered(1) by (simp_all add: id os)
      from finish_accept_answers [OF fin [unfolded res] b(4) [OF n(1)] this answered(2)]
      show ?thesis using answered(1,2) by (auto simp: os id)
    qed
  qed
qed auto

lemma decline_answers:
  assumes "decline_offer en now oid driver body w = (res, w')" "sane (sess w)" "env_ok oid en"
  shows "keeps_answers (offers (an_wait en (db (sess w)))) (offers (db (sess w'))) \<and> sane (sess w') \<and>
    (\<forall>r. res = Inr r \<longrightarrow> (\<exists>f f'. lookup_by offer_id oid (offers (an_wait en (db (sess w)))) = Some f \<and> offer_status_of f = Offer_offered \<and>
       lookup_by offer_id oid (offers (db (sess w'))) = Some f' \<and> offer_status_of f' = Offer_declined))"
  using assms(1) [unfolded decline_offer_def] assms(2,3)
proof (cases rule: if_open_cases)
  case (answered f)
  let ?w = "w\<lparr>sess := update_offer oid (\<lambda>f. f\<lparr>offer_status_of := Offer_declined, offer_responded_at := Some now,
      offer_decline_reason := (case body of None \<Rightarrow> offer_decline_reason f | Some r \<Rightarrow> r)\<rparr>) (interfere_db (an_wait en) (sess w))\<rparr>"
  note w1 = waited_answers [OF assms(2,3)]
  have ok: "sane (sess ?w)" using w1 by simp
  have w': "sess w' = commit (sess (requeue_orders_from_offer now (offer_hub_id f) (offer_driver_id f) (offer_stop_payload f) True True ?w))"
    using answered(5) by (auto simp: Let_def)
  have "offers (db (sess w')) = update_where (\<lambda>f. offer_id f = oid) (\<lambda>f. f\<lparr>offer_status_of := Offer_declined, offer_responded_at := Some now,
      offer_decline_reason := (case body of None \<Rightarrow> offer_decline_reason f | Some r \<Rightarrow> r)\<rparr>) (offers (an_wait en (db (sess w))))"
    unfolding w' using offers_requeue [OF ok] w1 by simp
  moreover have "sane (sess w')" unfolding w' using sane_requeue [OF ok] by simp
  ultimately show ?thesis using respond_answers [OF answered(1,2)] answered(1,2) by auto
qed auto

lemma annotate_answers:
  "keeps_answers (offers (db s)) (offers (db (snd (annotate_decline_reason oid driver reason s)))) \<and>
   (sane s \<longrightarrow> sane (snd (annotate_decline_reason oid driver reason s)))"
  by (auto simp: annotate_decline_reason_def split: option.split intro!: keeps_answers_update)

lemma answer_step:
  assumes "answer op w = (res, w')" "sane (sess w)" "op_ok op"
  shows "keeps_answers (offers (db (sess w))) (found_offers op w)" "keeps_answers (found_offers op w) (offers (db (sess w')))" "sane (sess w')"
    "res = Some (oid, st) \<Longrightarrow> st \<noteq> Offer_offered \<and> (\<exists>f. lookup_by offer_id oid (found_offers op w) = Some f \<and> offer_status_of f = Offer_offered) \<and>
       (\<exists>f. lookup_by offer_id oid (offers (db (sess w'))) = Some f \<and> offer_status_of f = st)"
proof -
  have "keeps_answers (offers (db (sess w))) (found_offers op w) \<and> keeps_answers (found_offers op w) (offers (db (sess w'))) \<and> sane (sess w') \<and>
    (\<forall>oid st. res = Some (oid, st) \<longrightarrow> st \<noteq> Offer_offered \<and> (\<exists>f. lookup_by offer_id oid (found_offers op w) = Some f \<and> offer_status_of f = Offer_offered) \<and>
       (\<exists>f. lookup_by offer_id oid (offers (db (sess w'))) = Some f \<and> offer_status_of f = st))"
  proof (cases op)
    case (Accepting miles pins en now oid driver)
    obtain r w1 where a: "accept_offer miles pins en now oid driver w = (r, w1)" by fastforce
    have "env_ok oid en" using assms(3) Accepting by simp
    from accept_answers [OF a assms(2) this] waited_answers(3) [OF assms(2) this] assms(1) a Accepting show ?thesis by (auto split: sum.splits)
  next
    case (Declining en now oid driver body)
    obtain r w1 where a: "decline_offer en now oid driver body w = (r, w1)" by fastforce
    have "env_ok oid en" using assms(3) Declining by simp
    from decline_answers [OF a assms(2) this] waited_answers(3) [OF assms(2) this] assms(1) a Declining show ?thesis by (auto split: sum.splits)
  next
    case (Sweeping now busy)
    obtain n w1 where a: "expire_lapsed_offers now busy w = (n, w1)" by fastforce
    from expire_each_answers [OF assms(2) a [unfolded expire_lapsed_offers_def]] assms(1) a Sweeping show ?thesis
      by (auto simp: Let_def)
  next
    case (Annotating oid driver reason)
    with assms(1,2) annotate_answers [of "sess w" oid driver reason] show ?thesis by auto
  qed
  then show "keeps_answers (offers (db (sess w))) (found_offers op w)" "keeps_answers (found_offers op w) (offers (db (sess w')))" "sane (sess w')"
    "res = Some (oid, st) \<Longrightarrow> st \<noteq> Offer_offered \<and> (\<exists>f. lookup_by offer_id oid (found_offers op w) = Some f \<and> offer_status_of f = Offer_offered) \<and>
       (\<exists>f. lookup_by offer_id oid (offers (db (sess w'))) = Some f \<and> offer_status_of f = st)" by blast+
qed

lemma keeps_answers_status:
  "keeps_answers os os' \<Longrightarrow> lookup_by offer_id i os = Some f \<Longrightarrow> offer_status_of f \<noteq> Offer_offered \<Longrightarrow>
     \<exists>f'. lookup_by offer_id i os' = Some f' \<and> offer_status_of f' = offer_status_of f \<and> offer_route_id f' = offer_route_id f"
  by (auto simp: keeps_answers_def)

text \<open>The tables met one after another: those an answer found and left, between the first and the last.\<close>

definition tables_met :: "(uuid \<times> offer_status \<times> offer_row list \<times> offer_row list) list \<Rightarrow> offer_row list list" where
  "tables_met as = concat (map (\<lambda>(_, _, found, left). [found, left]) as)"

lemma keeps_answers_chain:
  "keeps_answers a b \<Longrightarrow> sorted_wrt keeps_answers (b # xs) \<Longrightarrow> sorted_wrt keeps_answers (a # xs) \<and> sorted_wrt keeps_answers (a # b # xs)"
  using keeps_answers_trans by (auto)

lemma run_answers_log:
  "run_answers ops w = (as, w') \<Longrightarrow> sane (sess w) \<Longrightarrow> \<forall>op \<in> set ops. op_ok op \<Longrightarrow>
    (\<forall>(oid, st, found, left) \<in> set as. st \<noteq> Offer_offered \<and>
       (\<exists>f. lookup_by offer_id oid found = Some f \<and> offer_status_of f = Offer_offered) \<and>
       (\<exists>f. lookup_by offer_id oid left = Some f \<and> offer_status_of f = st)) \<and>
    sorted_wrt keeps_answers (offers (db (sess w)) # tables_met as @ [offers (db (sess w'))])"
proof (induction ops arbitrary: w as)
  case (Cons op ops)
  obtain res w1 where a: "answer op w = (res, w1)" by fastforce
  obtain as1 w2 where r: "run_answers ops w1 = (as1, w2)" by fastforce
  have as: "w' = w2" "as = (case res of None \<Rightarrow> as1 | Some (oid, st) \<Rightarrow> (oid, st, found_offers op w, offers (db (sess w1))) # as1)"
    using Cons.prems(1) a r by simp_all
  have "op_ok op" using Cons.prems(3) by simp
  note step = answer_step [OF a Cons.prems(2) this]
  have "run_answers ops w1 = (as1, w')" "\<forall>op \<in> set ops. op_ok op" using r as(1) Cons.prems(3) by simp_all
  note ih = Cons.IH [OF this(1) step(3) this(2)]
  note chain = keeps_answers_chain [OF step(2) conjunct2 [OF ih]]
  show ?case
  proof (cases res)
    case None
    with as ih keeps_answers_chain [OF step(1) conjunct1 [OF chain]] show ?thesis by simp
  next
    case (Some x)
    obtain oid st where x: "x = (oid, st)" by (cases x)
    have met: "tables_met as = found_offers op w # offers (db (sess w1)) # tables_met as1" using as Some x by (simp add: tables_met_def)
    show ?thesis unfolding met using as Some x ih step(4) [of oid st] keeps_answers_chain [OF step(1) conjunct2 [OF chain]] by simp
  qed
qed (simp add: tables_met_def)

lemma found_met: "(oid, st, found, left) \<in> set as \<Longrightarrow> found \<in> set (tables_met as) \<and> left \<in> set (tables_met as)"
  by (force simp: tables_met_def)

lemma answers_distinct:
  assumes "sorted_wrt keeps_answers (tables_met as)"
    "\<forall>(oid, st, found, left) \<in> set as. st \<noteq> Offer_offered \<and>
       (\<exists>f. lookup_by offer_id oid found = Some f \<and> offer_status_of f = Offer_offered) \<and>
       (\<exists>f. lookup_by offer_id oid left = Some f \<and> offer_status_of f = st)"
  shows "distinct (map fst as)"
  using assms
proof (induction as)
  case (Cons a as)
  obtain oid st found left where a: "a = (oid, st, found, left)" by (cases a)
  have met: "tables_met (a # as) = found # left # tables_met as" by (simp add: tables_met_def a)
  obtain f where f: "st \<noteq> Offer_offered" "lookup_by offer_id oid left = Some f" "offer_status_of f = st" using Cons.prems(2) a by auto
  have "oid \<noteq> oid1" if one: "(oid1, st1, found1, left1) \<in> set as" for oid1 st1 found1 left1
  proof
    assume same: "oid = oid1"
    have "keeps_answers left found1" using Cons.prems(1) found_met [OF one] by (simp add: met)
    from keeps_answers_status [OF this f(2)] f(1,3) obtain f1 where "lookup_by offer_id oid found1 = Some f1" "offer_status_of f1 = st" by auto
    moreover have "\<exists>f. lookup_by offer_id oid1 found1 = Some f \<and> offer_status_of f = Offer_offered"
      using Cons.prems(2) one by fastforce
    ultimately show False using f(1) same by auto
  qed
  then have "oid \<notin> fst ` set as" by force
  moreover have "distinct (map fst as)" using Cons by (auto simp: met)
  ultimately show ?case by (simp add: a)
qed simp

text \<open>
  (C14) An offer is answered once. Whatever accepts, declines, sweeps and reasons arrive, from whichever drivers
  and in whatever order, and although others may answer, withdraw or make any offer while a request waits for the
  offer's lock, and any other offer once it has it: a request that succeeds found its offer open when it had the
  lock, and left it with the answer it reports; no offer is successfully answered twice; the answer
  given is the status it keeps; an offer that is answered, lapsed or withdrawn in one of the tables met, by whomever, keeps that status and
  its route in every later one; and one closed before the first request is never answered.
\<close>

theorem offer_is_answered_once:
  assumes "run_answers ops w = (as, w')" "sane (sess w)" "\<forall>op \<in> set ops. op_ok op"
  shows "distinct (map fst as) \<and>
    (\<forall>(oid, st, found, left) \<in> set as.
       (\<exists>f. lookup_by offer_id oid found = Some f \<and> offer_status_of f = Offer_offered) \<and>
       (\<exists>f. lookup_by offer_id oid left = Some f \<and> offer_status_of f = st) \<and>
       (\<exists>f. lookup_by offer_id oid (offers (db (sess w'))) = Some f \<and> offer_status_of f = st)) \<and>
    sorted_wrt keeps_answers (offers (db (sess w)) # tables_met as @ [offers (db (sess w'))]) \<and>
    (\<forall>oid f. lookup_by offer_id oid (offers (db (sess w))) = Some f \<and> offer_status_of f \<noteq> Offer_offered \<longrightarrow>
       oid \<notin> fst ` set as \<and> (\<exists>f'. lookup_by offer_id oid (offers (db (sess w'))) = Some f' \<and>
         offer_status_of f' = offer_status_of f \<and> offer_route_id f' = offer_route_id f))"
proof -
  note log = run_answers_log [OF assms, THEN conjunct1] and met = run_answers_log [OF assms, THEN conjunct2]
  have once: "distinct (map fst as)" by (rule answers_distinct [OF _ log]) (use met in \<open>simp add: sorted_wrt_append\<close>)
  have kept: "\<exists>f. lookup_by offer_id oid (offers (db (sess w'))) = Some f \<and> offer_status_of f = st"
    if a: "(oid, st, found, left) \<in> set as" for oid st found left
  proof -
    have "keeps_answers left (offers (db (sess w')))" using met found_met [OF a] by (simp add: sorted_wrt_append)
    moreover obtain f where "st \<noteq> Offer_offered" "lookup_by offer_id oid left = Some f" "offer_status_of f = st"
      using bspec [OF log a] by auto
    ultimately show ?thesis using keeps_answers_status by metis
  qed
  have old: "oid \<notin> fst ` set as" if g: "lookup_by offer_id oid (offers (db (sess w))) = Some g" "offer_status_of g \<noteq> Offer_offered" for oid g
  proof
    assume "oid \<in> fst ` set as"
    then obtain st found left where a: "(oid, st, found, left) \<in> set as" by auto
    have "keeps_answers (offers (db (sess w))) found" using met found_met [OF a] by simp
    from keeps_answers_status [OF this g] obtain f where "lookup_by offer_id oid found = Some f" "offer_status_of f \<noteq> Offer_offered" using g(2) by auto
    moreover have "\<exists>f. lookup_by offer_id oid found = Some f \<and> offer_status_of f = Offer_offered" using log a by fastforce
    ultimately show False by auto
  qed
  have first: "keeps_answers (offers (db (sess w))) (offers (db (sess w')))" using met by simp
  show ?thesis
  proof (intro conjI)
    show "\<forall>(oid, st, found, left) \<in> set as.
       (\<exists>f. lookup_by offer_id oid found = Some f \<and> offer_status_of f = Offer_offered) \<and>
       (\<exists>f. lookup_by offer_id oid left = Some f \<and> offer_status_of f = st) \<and>
       (\<exists>f. lookup_by offer_id oid (offers (db (sess w'))) = Some f \<and> offer_status_of f = st)"
    proof (clarify, intro conjI)
      fix oid st found left assume a: "(oid, st, found, left) \<in> set as"
      show "\<exists>f. lookup_by offer_id oid found = Some f \<and> offer_status_of f = Offer_offered"
        "\<exists>f. lookup_by offer_id oid left = Some f \<and> offer_status_of f = st" using bspec [OF log a] by simp_all
      show "\<exists>f. lookup_by offer_id oid (offers (db (sess w'))) = Some f \<and> offer_status_of f = st" by (rule kept [OF a])
    qed
    show "\<forall>oid f. lookup_by offer_id oid (offers (db (sess w))) = Some f \<and> offer_status_of f \<noteq> Offer_offered \<longrightarrow>
       oid \<notin> fst ` set as \<and> (\<exists>f'. lookup_by offer_id oid (offers (db (sess w'))) = Some f' \<and>
         offer_status_of f' = offer_status_of f \<and> offer_route_id f' = offer_route_id f)"
      using old keeps_answers_status [OF first] by blast
  qed (rule once, rule met)
qed

text \<open>
  Two offers to one driver: the first is accepted while the second request waits for its lock, and by then dispatch has
  withdrawn the second offer; a decline of the first comes too late.
\<close>

definition alone_answer :: answer_env where
  "alone_answer = \<lparr>an_wait = id, an_orders = no_interference, an_mark = id, an_drop = no_interference, an_fleet = id\<rparr>"

definition withdraw_meanwhile :: "uuid \<Rightarrow> db \<Rightarrow> db" where
  "withdraw_meanwhile oid d = d\<lparr>offers := update_where (\<lambda>f. offer_id f = oid \<and> offer_status_of f = Offer_offered)
     (\<lambda>f. f\<lparr>offer_status_of := Offer_withdrawn\<rparr>) (offers d)\<rparr>"

definition sample_answer_world :: world where
  "sample_answer_world = (sample_world [sample_order 6 Assigned, sample_order 7 Assigned])\<lparr>sess :=
     (sample_session [sample_order 6 Assigned, sample_order 7 Assigned])\<lparr>db :=
       (sample_tables [sample_order 6 Assigned, sample_order 7 Assigned])\<lparr>offers := [sample_planned_offer\<lparr>offer_stop_payload :=
         [sample_payload 6, sample_payload 7]\<rparr>, sample_planned_offer\<lparr>offer_id := 41\<rparr>]\<rparr>\<rparr>\<rparr>"

definition sample_answers :: "answer_op list" where
  "sample_answers = [Accepting (\<lambda>_ _ _ _. 1) (\<lambda>_. ''1234'') alone_answer 5 40 8,
     Accepting (\<lambda>_ _ _ _. 1) (\<lambda>_. ''1234'') (alone_answer\<lparr>an_wait := withdraw_meanwhile 41\<rparr>) 6 41 8, Declining alone_answer 7 40 8 None]"

lemma withdraw_meanwhile_given: "keeps_given (withdraw_meanwhile oid)"
  by (auto simp: keeps_given_def keeps_sane_def withdraw_meanwhile_def interfere_db_def sane_def session_ok_def intro!: keeps_answers_update)

theorem offer_is_answered_once_witness:
  "map (\<lambda>(oid, st, _). (oid, st)) (fst (run_answers sample_answers sample_answer_world)) = [(40, Offer_accepted)] \<and>
   (\<exists>f. lookup_by offer_id 40 (offers (db (sess (snd (run_answers sample_answers sample_answer_world))))) = Some f \<and> offer_status_of f = Offer_accepted)"
proof -
  let ?r = "run_answers sample_answers sample_answer_world"
  have 1: "map (\<lambda>(oid, st, _). (oid, st)) (fst ?r) = [(40, Offer_accepted)]" by code_simp
  have 2: "sane (sess sample_answer_world)"
    by (simp add: sample_answer_world_def sane_def session_ok_def sample_session_def sample_tables_def sample_order_def)
  have "keeps_given id" by (simp add: keeps_given_def keeps_sane_def interfere_db_def)
  then have 3: "\<forall>op \<in> set sample_answers. op_ok op"
    by (simp add: sample_answers_def alone_answer_def env_ok_def leaves_offer_def withdraw_meanwhile_given keeps_keys_def no_interference_def)
  obtain found left where "fst ?r = [(40, Offer_accepted, found, left)]" using 1 by auto
  moreover have "?r = (fst ?r, snd ?r)" by simp
  from offer_is_answered_once [OF this 2 3] have
    "\<forall>(oid, st, found, left) \<in> set (fst ?r). \<exists>f. lookup_by offer_id oid (offers (db (sess (snd ?r)))) = Some f \<and> offer_status_of f = st" by blast
  ultimately show ?thesis using 1 by simp
qed

end
