(* ===== verification/Door.thy ===== *)
theory Door
  imports Offers Py_Text
begin

text \<open>
  What is asked of a driver at the door: proof of delivery (\<open>src/app/delivery/proof.py\<close>) and cash on
  delivery (\<open>src/app/delivery/cod.py\<close>), with the two routes that record money
  (\<open>collect_cod\<close>, \<open>raise_cod_dispute\<close> of \<open>src/app/api/driver_routes.py\<close>). Reading an order's stored
  requirements is pydantic's validation of \<open>ProofRequirements\<close>, the parameter \<open>validate\<close>: \<open>None\<close> is a
  validation error. Recording money does not lock the stop, so others may commit before each
  existing-row query (\<open>cr_read\<close>) and between it and the insert (\<open>cr_write\<close>).
\<close>

section \<open>Proof of delivery\<close>

record proof_requirements =
  pr_photo_count_required :: int
  pr_photo_subjects :: "string list"
  pr_signature_required :: bool

definition default_proof :: proof_requirements where
  "default_proof = \<lparr>pr_photo_count_required = 1, pr_photo_subjects = [], pr_signature_required = False\<rparr>"

type_synonym validator = "json_object \<Rightarrow> proof_requirements option"

text \<open>The orders on a stop, as the join of \<open>Order\<close> with \<open>StopOrder\<close> gives them.\<close>

definition orders_at :: "uuid \<Rightarrow> db \<Rightarrow> order_row list" where
  "orders_at sid d =
     concat (map (\<lambda>l. filter (\<lambda>r. ord_id r = so_order_id l) (orders d)) (filter (\<lambda>l. so_stop_id l = sid) (stop_orders d)))"

definition requirement_of :: "validator \<Rightarrow> order_row \<Rightarrow> proof_requirements" where
  "requirement_of validate r =
     (case validate (case ord_proof_requirements r of None \<Rightarrow> [] | Some raw \<Rightarrow> raw) of
        None \<Rightarrow> default_proof | Some q \<Rightarrow> q)"

definition add_subject :: "string \<Rightarrow> string list \<Rightarrow> string list" where
  "add_subject x xs = (if x \<in> set xs then xs else xs @ [x])"

definition take_stricter :: "proof_requirements \<Rightarrow> proof_requirements \<Rightarrow> proof_requirements" where
  "take_stricter q acc =
     \<lparr>pr_photo_count_required = max (pr_photo_count_required acc) (pr_photo_count_required q),
      pr_photo_subjects = fold add_subject (pr_photo_subjects q) (pr_photo_subjects acc),
      pr_signature_required = (pr_signature_required acc \<or> pr_signature_required q)\<rparr>"

definition resolve_stop_proof :: "validator \<Rightarrow> uuid \<Rightarrow> db \<Rightarrow> proof_requirements" where
  "resolve_stop_proof validate sid d =
     (case orders_at sid d of
        [] \<Rightarrow> default_proof\<lparr>pr_photo_subjects := []\<rparr>
      | rows \<Rightarrow> fold take_stricter (map (requirement_of validate) rows)
          \<lparr>pr_photo_count_required = 0, pr_photo_subjects = [], pr_signature_required = False\<rparr>)"

definition is_default :: "proof_requirements \<Rightarrow> bool" where
  "is_default q \<longleftrightarrow> pr_photo_count_required q = 1 \<and> pr_photo_subjects q = [] \<and> \<not> pr_signature_required q"

datatype pod_method = By_photo | By_signature | By_pin

fun method_value :: "pod_method \<Rightarrow> string" where
  "method_value By_photo = ''photo''"
| "method_value By_signature = ''signature''"
| "method_value By_pin = ''pin''"

record complete_body =
  cb_method :: pod_method
  cb_photo_url :: "string option"
  cb_photo_urls :: "string list"
  cb_signature_url :: "string option"
  cb_pin :: "string option"
  cb_left_at :: "string option"
  cb_door_lat :: "rat option"
  cb_door_lng :: "rat option"
  cb_door_accuracy_m :: "rat option"

text \<open>A Python string is true when it is not empty.\<close>

abbreviation (input) given :: "string option \<Rightarrow> bool" where
  "given u \<equiv> u \<noteq> None \<and> u \<noteq> Some []"

definition add_photo :: "string \<Rightarrow> string list \<Rightarrow> string list" where
  "add_photo url combined = (if url \<noteq> [] \<and> url \<notin> set combined then combined @ [url] else combined)"

definition all_photo_urls :: "complete_body \<Rightarrow> string list" where
  "all_photo_urls b =
     fold add_photo ((if given (cb_photo_url b) then [the (cb_photo_url b)] else []) @ cb_photo_urls b) []"

datatype proof_problem =
    Take_a_photo | Capture_a_signature | Enter_the_pin | More_photos int "string list" | Needs_a_signature

definition assert_proof_satisfied ::
    "proof_requirements \<Rightarrow> pod_method \<Rightarrow> string list \<Rightarrow> string option \<Rightarrow> bool \<Rightarrow> proof_problem option" where
  "assert_proof_satisfied required m photo_urls signature_url pin_verified =
     (let supplied = filter (\<lambda>u. u \<noteq> []) photo_urls in
      if m = By_photo \<and> supplied = [] then Some Take_a_photo
      else if m = By_signature \<and> \<not> given signature_url then Some Capture_a_signature
      else if m = By_pin \<and> \<not> pin_verified then Some Enter_the_pin
      else if 1 < pr_photo_count_required required \<and> int (length supplied) < pr_photo_count_required required
        then Some (More_photos (pr_photo_count_required required - int (length supplied)) (pr_photo_subjects required))
      else if pr_signature_required required \<and> \<not> given signature_url \<and> \<not> pin_verified then Some Needs_a_signature
      else None)"

section \<open>Cash on delivery\<close>

definition COD_PAYER_TYPE :: string where
  "COD_PAYER_TYPE = ''cash_on_delivery''"

definition COD_METHODS :: "string list" where
  "COD_METHODS = [''cash'', ''check'']"

record cod_obligation =
  ob_order_id :: uuid
  ob_amount_due_cents :: cents

definition owes :: "order_row \<Rightarrow> bool" where
  "owes r \<longleftrightarrow> ord_payer_type r = COD_PAYER_TYPE \<and> ord_cod_amount_cents r \<noteq> None \<and> ord_cod_amount_cents r \<noteq> Some 0"

definition cod_obligations :: "uuid \<Rightarrow> db \<Rightarrow> cod_obligation list" where
  "cod_obligations sid d =
     map (\<lambda>r. \<lparr>ob_order_id = ord_id r, ob_amount_due_cents = the (ord_cod_amount_cents r)\<rparr>) (filter owes (orders_at sid d))"

abbreviation (input) cods :: "db \<Rightarrow> cod_row list" where
  "cods d \<equiv> cod_collections (ledgers_of (ops_of d))"

definition settled_order_ids :: "uuid \<Rightarrow> db \<Rightarrow> uuid list" where
  "settled_order_ids sid d = map cod_order_id (filter (\<lambda>c. cod_stop_id c = sid) (cods d))"

text \<open>\<open>CodNotSettled\<close> carries the sum that is outstanding.\<close>

definition assert_cod_settled :: "uuid \<Rightarrow> db \<Rightarrow> cents option" where
  "assert_cod_settled sid d =
     (let outstanding = filter (\<lambda>b. ob_order_id b \<notin> set (settled_order_ids sid d)) (cod_obligations sid d) in
      if outstanding = [] then None else Some (sum_list (map ob_amount_due_cents outstanding)))"

text \<open>\<open>Two_rows\<close> is \<open>scalar_one_or_none\<close> finding more than one row, which is no \<open>CodError\<close> and ends the request.\<close>

datatype cod_error = Not_cod | No_amount | Bad_method string | Already_disputed | Already_paid | Two_rows

definition existing_cod :: "uuid \<Rightarrow> uuid \<Rightarrow> db \<Rightarrow> cod_error + cod_row option" where
  "existing_cod oid sid d =
     (case filter (\<lambda>c. cod_order_id c = oid \<and> cod_stop_id c = sid) (cods d) of
        [] \<Rightarrow> Inr None
      | [c] \<Rightarrow> Inr (Some c)
      | _ \<Rightarrow> Inl Two_rows)"

definition add_cod :: "cod_row \<Rightarrow> db \<Rightarrow> db" where
  "add_cod c d = d\<lparr>ops_of := (ops_of d)\<lparr>ledgers_of := (ledgers_of (ops_of d))\<lparr>cod_collections := cods d @ [c]\<rparr>\<rparr>\<rparr>"

record cod_race =
  cr_read :: "nat \<Rightarrow> db \<Rightarrow> db"
  cr_write :: "nat \<Rightarrow> db \<Rightarrow> db"

definition new_cod :: "order_row \<Rightarrow> uuid \<Rightarrow> uuid \<Rightarrow> instant \<Rightarrow> uuid \<Rightarrow> cod_row" where
  "new_cod r sid driver now i =
     \<lparr>cod_id = i, cod_order_id = ord_id r, cod_stop_id = sid, cod_driver_id = driver, cod_client_id = ord_client_id r,
      cod_shop_id = ord_shop_id r, cod_outcome_of = OUTCOME_COLLECTED,
      cod_amount_due_cents = (case ord_cod_amount_cents r of None \<Rightarrow> 0 | Some a \<Rightarrow> a),
      cod_amount_collected_cents = None, cod_method = None, cod_dispute_note = None, cod_occurred_at = now,
      cod_escalated_at = None\<rparr>"

definition insert_cod :: "(db \<Rightarrow> db) \<Rightarrow> (uuid \<Rightarrow> cod_row) \<Rightarrow> session \<Rightarrow> cod_row \<times> session" where
  "insert_cod others row s = (let (i, s1) = uuid4 (interfere_db others s) in (row i, s1\<lparr>db := add_cod (row i) (db s1)\<rparr>))"

text \<open>The query for an existing row and what follows it: a row with the same outcome is returned, another one refuses.\<close>

definition unless_recorded ::
    "cod_race \<Rightarrow> nat \<Rightarrow> uuid \<Rightarrow> uuid \<Rightarrow> cod_outcome \<Rightarrow> cod_error \<Rightarrow> (uuid \<Rightarrow> cod_row) \<Rightarrow> session \<Rightarrow> (cod_error + cod_row) \<times> session" where
  "unless_recorded race k oid sid same clash row s =
     (let s1 = interfere_db (cr_read race k) s in
      case existing_cod oid sid (db s1) of
        Inl err \<Rightarrow> (Inl err, s1)
      | Inr (Some c) \<Rightarrow> (if cod_outcome_of c = same then Inr c else Inl clash, s1)
      | Inr None \<Rightarrow> (case insert_cod (cr_write race k) row s1 of (c, s2) \<Rightarrow> (Inr c, s2)))"

definition record_collection ::
    "cod_race \<Rightarrow> nat \<Rightarrow> instant \<Rightarrow> order_row \<Rightarrow> uuid \<Rightarrow> uuid \<Rightarrow> string \<Rightarrow> session \<Rightarrow> (cod_error + cod_row) \<times> session" where
  "record_collection race k now r sid driver meth s =
     (if ord_payer_type r \<noteq> COD_PAYER_TYPE then (Inl Not_cod, s)
      else if ord_cod_amount_cents r = None \<or> ord_cod_amount_cents r = Some 0 then (Inl No_amount, s)
      else if meth \<notin> set COD_METHODS then (Inl (Bad_method meth), s)
      else unless_recorded race k (ord_id r) sid OUTCOME_COLLECTED Already_disputed
        (\<lambda>i. (new_cod r sid driver now i)\<lparr>cod_amount_collected_cents := ord_cod_amount_cents r, cod_method := Some meth\<rparr>) s)"

definition record_dispute ::
    "cod_race \<Rightarrow> nat \<Rightarrow> instant \<Rightarrow> order_row \<Rightarrow> uuid \<Rightarrow> uuid \<Rightarrow> string option \<Rightarrow> session \<Rightarrow> (cod_error + cod_row) \<times> session" where
  "record_dispute race k now r sid driver note s =
     (if ord_payer_type r \<noteq> COD_PAYER_TYPE then (Inl Not_cod, s)
      else let said = take 500 (strip (case note of None \<Rightarrow> [] | Some t \<Rightarrow> t)) in
        unless_recorded race k (ord_id r) sid OUTCOME_DISPUTED Already_paid
          (\<lambda>i. (new_cod r sid driver now i)\<lparr>cod_outcome_of := OUTCOME_DISPUTED,
             cod_dispute_note := (if said = [] then None else Some said)\<rparr>) s)"

section \<open>The routes that record money\<close>

datatype stop_refusal =
    Stop_not_found | Stop_is_over stop_status | Arrive_first | At_the_delivery | Nothing_to_collect
  | Money_refused cod_error | Order_row_missing uuid
  | Not_all_scanned | Collect_first | No_pin_issued | Too_many_pins | Wrong_pin | Money_outstanding cents
  | Proof_missing proof_problem | Outcome_failed | Driver_gone | Payout_failed | Only_at_a_pickup | Wrong_part

definition get_owned_stop :: "uuid \<Rightarrow> uuid \<Rightarrow> db \<Rightarrow> stop_row option" where
  "get_owned_stop sid driver d =
     (case lookup_by stop_id sid (stops d) of
        None \<Rightarrow> None
      | Some st \<Rightarrow>
          (case lookup_by route_id (stop_route_id st) (routes d) of
             None \<Rightarrow> None
           | Some r \<Rightarrow> if route_driver_id r = driver then Some st else None))"

definition TERMINAL_STOPS :: "stop_status list" where
  "TERMINAL_STOPS = [Stop_completed, Stop_failed, Stop_cancelled, Stop_recorded]"

definition stop_at_door :: "uuid \<Rightarrow> uuid \<Rightarrow> db \<Rightarrow> stop_refusal + stop_row" where
  "stop_at_door sid driver d =
     (case get_owned_stop sid driver d of
        None \<Rightarrow> Inl Stop_not_found
      | Some st \<Rightarrow>
          if stop_status_of st \<in> set TERMINAL_STOPS then Inl (Stop_is_over (stop_status_of st))
          else if stop_status_of st \<noteq> Stop_arrived then Inl Arrive_first
          else Inr st)"

fun each_obligation ::
    "(nat \<Rightarrow> order_row \<Rightarrow> session \<Rightarrow> (cod_error + cod_row) \<times> session) \<Rightarrow> nat \<Rightarrow> cod_obligation list \<Rightarrow> session \<Rightarrow>
     (stop_refusal + cod_row list) \<times> session" where
  "each_obligation record_one k [] s = (Inr [], s)"
| "each_obligation record_one k (b # bs) s =
     (case lookup_by ord_id (ob_order_id b) (orders (db s)) of
        None \<Rightarrow> (Inl (Order_row_missing (ob_order_id b)), s)
      | Some r \<Rightarrow>
          (case record_one k r s of
             (Inl err, s1) \<Rightarrow> (Inl (Money_refused err), s1)
           | (Inr c, s1) \<Rightarrow>
               (case each_obligation record_one (Suc k) bs s1 of
                  (Inl err, s2) \<Rightarrow> (Inl err, s2)
                | (Inr cs, s2) \<Rightarrow> (Inr (c # cs), s2))))"

text \<open>A refused request is rolled back.\<close>

definition collect_cod ::
    "cod_race \<Rightarrow> instant \<Rightarrow> uuid \<Rightarrow> uuid \<Rightarrow> string \<Rightarrow> session \<Rightarrow> (stop_refusal + unit) \<times> session" where
  "collect_cod race now sid driver meth s =
     (case stop_at_door sid driver (db s) of
        Inl err \<Rightarrow> (Inl err, rollback s)
      | Inr st \<Rightarrow>
          if stop_type_of st \<noteq> Dropoff then (Inl At_the_delivery, rollback s)
          else if cod_obligations sid (db s) = [] then (Inl Nothing_to_collect, rollback s)
          else (case each_obligation (\<lambda>k r. record_collection race k now r sid driver meth) 0 (cod_obligations sid (db s)) s of
             (Inl err, s1) \<Rightarrow> (Inl err, rollback s1)
           | (Inr _, s1) \<Rightarrow> (Inr (), commit s1)))"

text \<open>\<open>told c\<close> is whether the message to the distributor about \<open>c\<close> went out.\<close>

definition escalate :: "(cod_row \<Rightarrow> bool) \<Rightarrow> instant \<Rightarrow> cod_row \<Rightarrow> db \<Rightarrow> db" where
  "escalate told now c d =
     (if told c then d\<lparr>ops_of := (ops_of d)\<lparr>ledgers_of := (ledgers_of (ops_of d))\<lparr>cod_collections :=
        update_where (\<lambda>x. cod_id x = cod_id c) (\<lambda>x. x\<lparr>cod_escalated_at := Some now\<rparr>) (cods d)\<rparr>\<rparr>\<rparr> else d)"

definition raise_cod_dispute ::
    "cod_race \<Rightarrow> (cod_row \<Rightarrow> bool) \<Rightarrow> instant \<Rightarrow> uuid \<Rightarrow> uuid \<Rightarrow> string option \<Rightarrow> session \<Rightarrow> (stop_refusal + unit) \<times> session" where
  "raise_cod_dispute race told now sid driver note s =
     (case stop_at_door sid driver (db s) of
        Inl err \<Rightarrow> (Inl err, rollback s)
      | Inr st \<Rightarrow>
          if cod_obligations sid (db s) = [] then (Inl Nothing_to_collect, rollback s)
          else (case each_obligation (\<lambda>k r. record_dispute race k now r sid driver note) 0 (cod_obligations sid (db s)) s of
             (Inl err, s1) \<Rightarrow> (Inl err, rollback s1)
           | (Inr cs, s1) \<Rightarrow> (Inr (), commit ((commit s1)\<lparr>db := fold (escalate told now) cs (db (commit s1))\<rparr>))))"

section \<open>Money is recorded once\<close>

definition quiet :: cod_race where
  "quiet = \<lparr>cr_read = (\<lambda>_ d. d), cr_write = (\<lambda>_ d. d)\<rparr>"

text \<open>The identity of a row: the order and the stop it is about.\<close>

definition cod_key :: "cod_row \<Rightarrow> uuid \<times> uuid" where
  "cod_key c = (cod_order_id c, cod_stop_id c)"

definition with_cods :: "cod_row list \<Rightarrow> db \<Rightarrow> db" where
  "with_cods cs d = d\<lparr>ops_of := (ops_of d)\<lparr>ledgers_of := (ledgers_of (ops_of d))\<lparr>cod_collections := cs\<rparr>\<rparr>\<rparr>"

lemma with_cods_tables [simp]:
  "orders (with_cods cs d) = orders d" "stop_orders (with_cods cs d) = stop_orders d" "stops (with_cods cs d) = stops d"
  "routes (with_cods cs d) = routes d" "cods (with_cods cs d) = cs" "with_cods as (with_cods cs d) = with_cods as d"
  "with_cods (cods d) d = d"
  by (simp_all add: with_cods_def)

lemma add_cod_with: "add_cod c d = with_cods (cods d @ [c]) d"
  by (simp add: add_cod_def with_cods_def)

lemma at_door_with_cods [simp]:
  "stop_at_door sid driver (with_cods cs d) = stop_at_door sid driver d"
  "cod_obligations sid (with_cods cs d) = cod_obligations sid d"
  by (simp_all add: stop_at_door_def get_owned_stop_def cod_obligations_def orders_at_def cong: option.case_cong)

lemma interfere_quiet [simp]: "interfere_db (\<lambda>d. d) s = s"
  by (simp add: interfere_db_def)

lemma filter_key_distinct:
  "distinct (map f xs) \<Longrightarrow> filter (\<lambda>x. f x = k) xs = (case lookup_by f k xs of None \<Rightarrow> [] | Some x \<Rightarrow> [x])"
proof (induction xs)
  case (Cons x xs)
  show ?case
  proof (cases "f x = k")
    case True
    then have "lookup_by f k xs = None" using Cons.prems by (auto simp: lookup_by_None)
    with True Cons show ?thesis by simp
  qed (use Cons in simp)
qed simp

lemma existing_cod_distinct:
  assumes "distinct (map cod_key (cods d))"
  shows "existing_cod oid sid d = Inr (lookup_by cod_key (oid, sid) (cods d))"
proof -
  have "(\<lambda>c. cod_order_id c = oid \<and> cod_stop_id c = sid) = (\<lambda>c. cod_key c = (oid, sid))" by (simp add: cod_key_def)
  with filter_key_distinct [OF assms] show ?thesis by (simp add: existing_cod_def split: option.split)
qed

text \<open>A row that says the whole amount due on its order was taken.\<close>

definition in_full :: "order_row list \<Rightarrow> cod_row \<Rightarrow> bool" where
  "in_full rows c \<longleftrightarrow> cod_outcome_of c = OUTCOME_COLLECTED \<and> cod_amount_collected_cents c = Some (cod_amount_due_cents c) \<and>
     (\<exists>r \<in> set rows. ord_id r = cod_order_id c \<and> owes r \<and> ord_cod_amount_cents r = Some (cod_amount_due_cents c))"

lemma record_collection_quiet:
  assumes "record_collection quiet k now r sid driver meth s = (Inr c, s')" "distinct (map cod_key (cods (db s)))" "r \<in> set (orders (db s))"
  obtains new where "db s' = with_cods (cods (db s) @ new) (db s)" "base s' = base s" "\<forall>n \<in> set new. in_full (orders (db s)) n \<and> cod_stop_id n = sid"
    "distinct (map cod_key (cods (db s) @ new))" "c \<in> set (cods (db s) @ new)" "cod_key c = (ord_id r, sid)"
    "cod_outcome_of c = OUTCOME_COLLECTED" "meth \<in> set COD_METHODS"
proof (cases "lookup_by cod_key (ord_id r, sid) (cods (db s))")
  case None
  let ?n = "(new_cod r sid driver now (fresh s))\<lparr>cod_amount_collected_cents := ord_cod_amount_cents r, cod_method := Some meth\<rparr>"
  have e: "c = ?n" "s' = s\<lparr>fresh := Suc (fresh s), db := add_cod ?n (db s)\<rparr>" "meth \<in> set COD_METHODS" "owes r"
    using assms(1) None
    by (auto simp: record_collection_def unless_recorded_def insert_cod_def uuid4_def Let_def quiet_def owes_def
        existing_cod_distinct [OF assms(2)] split: if_splits)
  have key: "cod_key ?n = (ord_id r, sid)" by (simp add: cod_key_def new_cod_def)
  have "in_full (orders (db s)) ?n" using assms(3) e(4) by (auto simp: in_full_def new_cod_def owes_def)
  moreover have "distinct (map cod_key (cods (db s) @ [?n]))" using assms(2) None key by (auto simp: lookup_by_None)
  ultimately show ?thesis using that [of "[?n]"] e key by (simp add: add_cod_with) (simp add: new_cod_def)
next
  case (Some x)
  have "c = x" "s' = s" "cod_outcome_of x = OUTCOME_COLLECTED" "meth \<in> set COD_METHODS"
    using assms(1) Some
    by (auto simp: record_collection_def unless_recorded_def Let_def quiet_def existing_cod_distinct [OF assms(2)] split: if_splits)
  then show ?thesis using that [of "[]"] lookup_by_Some [OF Some] assms(2) by simp
qed

lemma collect_each_quiet:
  assumes "each_obligation (\<lambda>k r. record_collection quiet k now r sid driver meth) k bs s = (Inr cs, s')"
    "distinct (map cod_key (cods (db s)))"
  shows "\<exists>new. db s' = with_cods (cods (db s) @ new) (db s) \<and> base s' = base s \<and> distinct (map cod_key (cods (db s) @ new)) \<and>
    (\<forall>n \<in> set new. in_full (orders (db s)) n \<and> cod_stop_id n = sid) \<and>
    (\<forall>b \<in> set bs. \<exists>c \<in> set (cods (db s) @ new). cod_key c = (ob_order_id b, sid) \<and> cod_outcome_of c = OUTCOME_COLLECTED) \<and>
    (bs \<noteq> [] \<longrightarrow> meth \<in> set COD_METHODS)"
  using assms
proof (induction bs arbitrary: k s cs)
  case Nil
  then show ?case by (intro exI [of _ "[]"]) simp
next
  case (Cons b bs)
  obtain r where r: "lookup_by ord_id (ob_order_id b) (orders (db s)) = Some r"
    using Cons.prems(1) by (auto split: option.splits)
  obtain c s1 where c: "record_collection quiet k now r sid driver meth s = (Inr c, s1)"
    using Cons.prems(1) r by (auto split: prod.splits sum.splits)
  obtain cs1 where e: "each_obligation (\<lambda>k r. record_collection quiet k now r sid driver meth) (Suc k) bs s1 = (Inr cs1, s')"
    using Cons.prems(1) r c by (auto split: prod.splits sum.splits)
  have rs: "r \<in> set (orders (db s))" "ord_id r = ob_order_id b" using lookup_by_Some [OF r] by simp_all
  obtain n1 where n1: "db s1 = with_cods (cods (db s) @ n1) (db s)" "base s1 = base s"
      "\<forall>n \<in> set n1. in_full (orders (db s)) n \<and> cod_stop_id n = sid" "distinct (map cod_key (cods (db s) @ n1))"
      "c \<in> set (cods (db s) @ n1)" "cod_key c = (ob_order_id b, sid)" "cod_outcome_of c = OUTCOME_COLLECTED" "meth \<in> set COD_METHODS"
    using record_collection_quiet [OF c Cons.prems(2) rs(1)] rs(2) by metis
  have "distinct (map cod_key (cods (db s1)))" using n1(1,4) by simp
  from Cons.IH [OF e this] obtain n2 where n2: "db s' = with_cods (cods (db s) @ n1 @ n2) (db s)" "base s' = base s"
      "distinct (map cod_key (cods (db s) @ n1 @ n2))" "\<forall>n \<in> set n2. in_full (orders (db s)) n \<and> cod_stop_id n = sid"
      "\<forall>b \<in> set bs. \<exists>c \<in> set (cods (db s) @ n1 @ n2). cod_key c = (ob_order_id b, sid) \<and> cod_outcome_of c = OUTCOME_COLLECTED"
    using n1(1,2) by auto
  have "\<exists>c \<in> set (cods (db s) @ n1 @ n2). cod_key c = (ob_order_id b, sid) \<and> cod_outcome_of c = OUTCOME_COLLECTED"
    using n1(5,6,7) by (intro bexI [of _ c]) auto
  with n1(3,8) n2 show ?case by (intro exI [of _ "n1 @ n2"]) (auto simp del: map_append)
qed


lemma obligation_order:
  assumes "b \<in> set (cod_obligations sid d)" "distinct (map ord_id (orders d))"
  obtains r where "lookup_by ord_id (ob_order_id b) (orders d) = Some r" "owes r" "ord_cod_amount_cents r = Some (ob_amount_due_cents b)"
    "r \<in> set (orders_at sid d)"
proof -
  obtain r where r: "r \<in> set (orders_at sid d)" "owes r" "b = \<lparr>ob_order_id = ord_id r, ob_amount_due_cents = the (ord_cod_amount_cents r)\<rparr>"
    using assms(1) by (auto simp: cod_obligations_def)
  have "r \<in> set (orders d)" using r(1) by (auto simp: orders_at_def)
  from lookup_by_distinct [OF assms(2) this] have "lookup_by ord_id (ob_order_id b) (orders d) = Some r" using r(3) by simp
  moreover have "ord_cod_amount_cents r = Some (ob_amount_due_cents b)" using r(2,3) by (simp add: owes_def)
  ultimately show ?thesis using that r by blast
qed

text \<open>Where every obligation has its one collected row, collecting again finds them and writes nothing.\<close>

lemma collect_each_again:
  assumes "distinct (map cod_key (cods (db s)))" "meth \<in> set COD_METHODS"
    "\<forall>b \<in> set bs. \<exists>r. lookup_by ord_id (ob_order_id b) (orders (db s)) = Some r \<and> owes r"
    "\<forall>b \<in> set bs. \<exists>c \<in> set (cods (db s)). cod_key c = (ob_order_id b, sid) \<and> cod_outcome_of c = OUTCOME_COLLECTED"
  shows "\<exists>cs. each_obligation (\<lambda>k r. record_collection quiet k now r sid driver meth) k bs s = (Inr cs, s)"
  using assms(3,4)
proof (induction bs arbitrary: k)
  case (Cons b bs)
  obtain r where r: "lookup_by ord_id (ob_order_id b) (orders (db s)) = Some r" "owes r" using Cons.prems(1) by auto
  obtain c where c: "c \<in> set (cods (db s))" "cod_key c = (ord_id r, sid)" "cod_outcome_of c = OUTCOME_COLLECTED"
    using Cons.prems(2) lookup_by_Some [OF r(1)] by auto
  have "lookup_by cod_key (ord_id r, sid) (cods (db s)) = Some c" using lookup_by_distinct [OF assms(1) c(1)] c(2) by simp
  then have "record_collection quiet k now r sid driver meth s = (Inr c, s)"
    using r(2) c(3) assms(2)
    by (simp add: record_collection_def unless_recorded_def quiet_def owes_def existing_cod_distinct [OF assms(1)])
  with Cons.IH [of "Suc k"] Cons.prems r(1) show ?case by auto
qed simp

text \<open>
  (C12) Collecting cash on delivery, with nobody else writing in between: when it succeeds, every order
  on the stop that owes money has exactly one record, of the whole amount due on the order; nothing recorded
  before is changed; the stop is settled; and a second tap succeeds and changes nothing, whatever
  allowed method it names.
\<close>

theorem collected_in_full_once:
  assumes "collect_cod quiet now sid driver meth s = (Inr (), s')"
    and "distinct (map cod_key (cods (db s)))" "distinct (map ord_id (orders (db s)))"
  shows "(\<exists>new. cods (db s') = cods (db s) @ new \<and> (\<forall>c \<in> set new. in_full (orders (db s)) c \<and> cod_stop_id c = sid)) \<and>
    (\<forall>b \<in> set (cod_obligations sid (db s)). \<exists>c. filter (\<lambda>c. cod_key c = (ob_order_id b, sid)) (cods (db s')) = [c] \<and>
       cod_outcome_of c = OUTCOME_COLLECTED) \<and>
    assert_cod_settled sid (db s') = None \<and> base s' = db s' \<and>
    (\<forall>now' meth'. meth' \<in> set COD_METHODS \<longrightarrow> collect_cod quiet now' sid driver meth' s' = (Inr (), s'))"
proof -
  let ?bs = "cod_obligations sid (db s)"
  obtain st where st: "stop_at_door sid driver (db s) = Inr st" "stop_type_of st = Dropoff" "?bs \<noteq> []"
    using assms(1) by (auto simp: collect_cod_def split: sum.splits if_splits)
  obtain cs s1 where e: "each_obligation (\<lambda>k r. record_collection quiet k now r sid driver meth) 0 ?bs s = (Inr cs, s1)" "s' = commit s1"
    using assms(1) st by (auto simp: collect_cod_def split: prod.splits sum.splits)
  obtain new where new: "db s1 = with_cods (cods (db s) @ new) (db s)" "distinct (map cod_key (cods (db s) @ new))"
      "\<forall>n \<in> set new. in_full (orders (db s)) n \<and> cod_stop_id n = sid"
      "\<forall>b \<in> set ?bs. \<exists>c \<in> set (cods (db s) @ new). cod_key c = (ob_order_id b, sid) \<and> cod_outcome_of c = OUTCOME_COLLECTED"
    using collect_each_quiet [OF e(1) assms(2)] by blast
  have d': "db s' = with_cods (cods (db s) @ new) (db s)" using new(1) e(2) by (simp add: commit_def)
  have one: "\<exists>c. filter (\<lambda>c. cod_key c = (ob_order_id b, sid)) (cods (db s')) = [c] \<and> cod_outcome_of c = OUTCOME_COLLECTED"
    if b: "b \<in> set ?bs" for b
  proof -
    obtain c where c: "c \<in> set (cods (db s) @ new)" "cod_key c = (ob_order_id b, sid)" "cod_outcome_of c = OUTCOME_COLLECTED"
      using new(4) b by blast
    from lookup_by_distinct [OF new(2) c(1)] c(2,3) show ?thesis unfolding d' with_cods_tables filter_key_distinct [OF new(2)] by auto
  qed
  have settled: "assert_cod_settled sid (db s') = None"
  proof -
    have "ob_order_id b \<in> set (settled_order_ids sid (db s'))" if "b \<in> set ?bs" for b
      using new(4) that unfolding d' by (force simp: settled_order_ids_def cod_key_def)
    then show ?thesis unfolding d' by (simp add: assert_cod_settled_def filter_empty_conv)
  qed
  have again: "collect_cod quiet now' sid driver meth' s' = (Inr (), s')" if m: "meth' \<in> set COD_METHODS" for now' meth'
  proof -
    have "\<forall>b \<in> set ?bs. \<exists>r. lookup_by ord_id (ob_order_id b) (orders (db s')) = Some r \<and> owes r"
      using obligation_order [OF _ assms(3)] unfolding d' by (metis with_cods_tables(1))
    then obtain cs' where "each_obligation (\<lambda>k r. record_collection quiet k now' r sid driver meth') 0 ?bs s' = (Inr cs', s')"
      using collect_each_again [OF _ m, of s' ?bs sid now' driver 0] new(2,4) unfolding d' by auto
    with st show ?thesis using d' e(2) by (simp add: collect_cod_def commit_def)
  qed
  show ?thesis using new(3) one settled again d' e(2) by (intro conjI) (auto simp: commit_def)
qed


section \<open>Two taps at once\<close>

definition collected_row :: "order_row \<Rightarrow> uuid \<Rightarrow> uuid \<Rightarrow> string \<Rightarrow> instant \<Rightarrow> uuid \<Rightarrow> cod_row" where
  "collected_row r sid driver meth now i =
     (new_cod r sid driver now i)\<lparr>cod_amount_collected_cents := ord_cod_amount_cents r, cod_method := Some meth\<rparr>"

text \<open>One order that owes, with no row yet: what a tap writes when others commit between its query and its insert.\<close>

lemma collect_one_new:
  assumes "stop_at_door sid driver (db s) = Inr st" "stop_type_of st = Dropoff" "cod_obligations sid (db s) = [b]"
    and "lookup_by ord_id (ob_order_id b) (orders (db s)) = Some r" "owes r" "meth \<in> set COD_METHODS"
    and "filter (\<lambda>c. cod_order_id c = ord_id r \<and> cod_stop_id c = sid) (cods (db s)) = []"
  shows "collect_cod (quiet\<lparr>cr_write := (\<lambda>_. others)\<rparr>) now sid driver meth s =
    (Inr (), commit (s\<lparr>fresh := Suc (fresh s), db := add_cod (collected_row r sid driver meth now (fresh s)) (others (db s)), base := others (base s)\<rparr>))"
  using assms
  by (simp add: collect_cod_def record_collection_def unless_recorded_def quiet_def existing_cod_def insert_cod_def uuid4_def owes_def
      collected_row_def interfere_db_def commit_def)

text \<open>
  (C13) Two taps that overlap collect twice. The stop is not locked and no constraint covers the table: when
  one tap commits between another's query for an existing row and its insert, both succeed and the
  order has two records, each of the whole amount; from then on every further tap ends in an error.
\<close>

theorem racing_taps_collect_twice:
  assumes "stop_at_door sid driver (db s) = Inr st" "stop_type_of st = Dropoff" "cod_obligations sid (db s) = [b]"
    and "distinct (map ord_id (orders (db s)))" "filter (\<lambda>c. cod_key c = (ob_order_id b, sid)) (cods (db s)) = []"
    and "meth1 \<in> set COD_METHODS" "meth2 \<in> set COD_METHODS" "meth3 \<in> set COD_METHODS"
    and other: "other = (\<lambda>d. db (snd (collect_cod quiet now1 sid driver meth1 (s\<lparr>db := d, base := d, fresh := Suc (fresh s)\<rparr>))))"
  shows "\<exists>s' c1 c2. collect_cod (quiet\<lparr>cr_write := (\<lambda>_. other)\<rparr>) now2 sid driver meth2 s = (Inr (), s') \<and>
    filter (\<lambda>c. cod_key c = (ob_order_id b, sid)) (cods (db s')) = [c1, c2] \<and> cod_id c1 \<noteq> cod_id c2 \<and>
    cod_amount_collected_cents c1 = Some (ob_amount_due_cents b) \<and> cod_amount_collected_cents c2 = Some (ob_amount_due_cents b) \<and>
    fst (collect_cod quiet now3 sid driver meth3 s') = Inl (Money_refused Two_rows)"
proof -
  obtain r where r: "lookup_by ord_id (ob_order_id b) (orders (db s)) = Some r" "owes r"
      "ord_cod_amount_cents r = Some (ob_amount_due_cents b)"
    using obligation_order [of b sid "db s"] assms(3,4) by auto
  have i: "ob_order_id b = ord_id r" using lookup_by_Some [OF r(1)] by simp
  have key: "(\<lambda>c. cod_order_id c = ord_id r \<and> cod_stop_id c = sid) = (\<lambda>c. cod_key c = (ord_id r, sid))" by (simp add: cod_key_def)
  have none: "filter (\<lambda>c. cod_order_id c = ord_id r \<and> cod_stop_id c = sid) (cods (db s)) = []" using assms(5) by (simp add: i key)
  let ?c1 = "collected_row r sid driver meth1 now1 (Suc (fresh s))"
  let ?c2 = "collected_row r sid driver meth2 now2 (fresh s)"
  have q: "quiet = quiet\<lparr>cr_write := (\<lambda>_ d. d)\<rparr>" by (simp add: quiet_def)
  have o: "other (db s) = add_cod ?c1 (db s)"
    unfolding other using collect_one_new [of sid driver "s\<lparr>db := db s, base := db s, fresh := Suc (fresh s)\<rparr>" st b r meth1 "\<lambda>d. d" now1]
      assms(1-3,6) r none q by (simp add: commit_def)
  define s' where "s' = commit (s\<lparr>fresh := Suc (fresh s), db := add_cod ?c2 (other (db s)), base := other (base s)\<rparr>)"
  have d': "db s' = with_cods (cods (db s) @ [?c1, ?c2]) (db s)" by (simp add: s'_def o add_cod_with commit_def)
  have keys: "cod_key ?c1 = (ord_id r, sid)" "cod_key ?c2 = (ord_id r, sid)" by (simp_all add: collected_row_def new_cod_def cod_key_def)
  have two: "filter (\<lambda>c. cod_key c = (ord_id r, sid)) (cods (db s')) = [?c1, ?c2]"
    unfolding d' with_cods_tables filter_append using assms(5) keys by (simp add: i)
  have "collect_cod (quiet\<lparr>cr_write := (\<lambda>_. other)\<rparr>) now2 sid driver meth2 s = (Inr (), s')"
    unfolding s'_def by (rule collect_one_new [OF assms(1-3) r(1,2) assms(7) none])
  moreover have "fst (collect_cod quiet now3 sid driver meth3 s') = Inl (Money_refused Two_rows)"
  proof -
    have "existing_cod (ord_id r) sid (db s') = Inl Two_rows" using two by (simp add: existing_cod_def key)
    with assms(1-3,8) r show ?thesis unfolding d'
      by (simp add: collect_cod_def d' record_collection_def unless_recorded_def quiet_def owes_def)
  qed
  moreover have "cod_id ?c1 \<noteq> cod_id ?c2" "cod_amount_collected_cents ?c1 = Some (ob_amount_due_cents b)"
      "cod_amount_collected_cents ?c2 = Some (ob_amount_due_cents b)"
    using r(3) by (simp_all add: collected_row_def new_cod_def)
  ultimately show ?thesis using two unfolding i by blast
qed

section \<open>A stop that owes\<close>

definition sample_cod_session :: session where
  "sample_cod_session =
     (let r = (sample_order 7 En_route_drop)\<lparr>ord_payer_type := COD_PAYER_TYPE, ord_cod_amount_cents := Some 10000\<rparr>;
          d = sample_route_tables\<lparr>orders := [r], stops := [sample_stop 11 2 Stop_arrived Dropoff]\<rparr>
      in (sample_session [])\<lparr>db := d, base := d\<rparr>)"

lemma sample_cod_facts:
  "distinct (map cod_key (cods (db sample_cod_session)))" "distinct (map ord_id (orders (db sample_cod_session)))"
  "stop_at_door 11 3 (db sample_cod_session) = Inr (sample_stop 11 2 Stop_arrived Dropoff)"
  "cod_obligations 11 (db sample_cod_session) = [\<lparr>ob_order_id = 7, ob_amount_due_cents = 10000\<rparr>]"
  by code_simp+

theorem collected_in_full_once_witness:
  "assert_cod_settled 11 (db sample_cod_session) = Some 10000 \<and>
   assert_cod_settled 11 (db (snd (collect_cod quiet 5 11 3 ''cash'' sample_cod_session))) = None"
proof -
  have "collect_cod quiet 5 11 3 ''cash'' sample_cod_session = (Inr (), snd (collect_cod quiet 5 11 3 ''cash'' sample_cod_session))"
    by code_simp
  from collected_in_full_once [OF this sample_cod_facts(1,2)] have "assert_cod_settled 11 (db (snd (collect_cod quiet 5 11 3 ''cash'' sample_cod_session))) = None"
    by blast
  moreover have "assert_cod_settled 11 (db sample_cod_session) = Some 10000" by code_simp
  ultimately show ?thesis by blast
qed

theorem racing_taps_collect_twice_witness:
  "\<exists>s' :: session. \<exists>c1 c2 :: cod_row. collect_cod (quiet\<lparr>cr_write := (\<lambda>_ d. db (snd (collect_cod quiet 5 11 3 ''cash''
       (sample_cod_session\<lparr>db := d, base := d, fresh := Suc (fresh sample_cod_session)\<rparr>))))\<rparr>) 6 11 3 ''cash'' sample_cod_session = (Inr (), s') \<and>
     filter (\<lambda>c. cod_key c = (7, 11)) (cods (db s')) = [c1, c2] \<and> cod_amount_collected_cents c1 = Some 10000 \<and>
     cod_amount_collected_cents c2 = Some 10000"
proof -
  have "stop_type_of (sample_stop 11 2 Stop_arrived Dropoff) = Dropoff" "''cash'' \<in> set COD_METHODS"
    "filter (\<lambda>c. cod_key c = (ob_order_id \<lparr>ob_order_id = 7, ob_amount_due_cents = 10000\<rparr>, 11)) (cods (db sample_cod_session)) = []"
    by code_simp+
  from racing_taps_collect_twice [OF sample_cod_facts(3) this(1) sample_cod_facts(4,2) this(3,2,2,2) refl, of 5 6 7]
  show ?thesis by (simp only: cod_obligation.simps) blast
qed

section \<open>The strictest requirement\<close>

lemma fold_stricter:
  "pr_photo_count_required (fold take_stricter qs acc) = fold (\<lambda>q m. max m (pr_photo_count_required q)) qs (pr_photo_count_required acc)"
  "pr_signature_required (fold take_stricter qs acc) \<longleftrightarrow> pr_signature_required acc \<or> (\<exists>q \<in> set qs. pr_signature_required q)"
  by (induction qs arbitrary: acc) (auto simp: take_stricter_def)

lemma below_fold_max:
  "n < fold (\<lambda>q m. max m (f q)) qs (k :: int) \<longleftrightarrow> n < k \<or> (\<exists>q \<in> set qs. n < f q)"
  by (induction qs arbitrary: k) auto

lemma add_subject_set: "set (add_subject x xs) = insert x (set xs)" "distinct (add_subject x xs) \<longleftrightarrow> distinct xs"
  by (auto simp: add_subject_def)

lemma fold_add_subject:
  "set (fold add_subject xs acc) = set xs \<union> set acc" "distinct (fold add_subject xs acc) \<longleftrightarrow> distinct acc"
  by (induction xs arbitrary: acc) (auto simp: add_subject_set)

lemma fold_stricter_subjects:
  "set (pr_photo_subjects (fold take_stricter qs acc)) = set (pr_photo_subjects acc) \<union> (\<Union>q \<in> set qs. set (pr_photo_subjects q))"
  "distinct (pr_photo_subjects (fold take_stricter qs acc)) \<longleftrightarrow> distinct (pr_photo_subjects acc)"
  by (induction qs arbitrary: acc) (auto simp: take_stricter_def fold_add_subject)

lemma fold_add_photo: "distinct acc \<and> [] \<notin> set acc \<Longrightarrow> distinct (fold add_photo us acc) \<and> [] \<notin> set (fold add_photo us acc) \<and>
    set (fold add_photo us acc) = set acc \<union> (set us - {[]})"
proof (induction us arbitrary: acc)
  case (Cons u us)
  have "distinct (add_photo u acc) \<and> [] \<notin> set (add_photo u acc)" using Cons.prems by (auto simp: add_photo_def)
  moreover have "set (add_photo u acc) = set acc \<union> ({u} - {[]})" by (auto simp: add_photo_def)
  ultimately show ?case using Cons.IH [of "add_photo u acc"] by auto
qed simp

text \<open>What the check asks of the three figures of a requirement.\<close>

lemma assert_proof_iff:
  "assert_proof_satisfied q m us sig pin = None \<longleftrightarrow>
     (m = By_photo \<longrightarrow> filter (\<lambda>u. u \<noteq> []) us \<noteq> []) \<and> (m = By_signature \<longrightarrow> sig \<noteq> None \<and> sig \<noteq> Some []) \<and> (m = By_pin \<longrightarrow> pin) \<and>
     (1 < pr_photo_count_required q \<longrightarrow> pr_photo_count_required q \<le> int (length (filter (\<lambda>u. u \<noteq> []) us))) \<and>
     (pr_signature_required q \<longrightarrow> (sig \<noteq> None \<and> sig \<noteq> Some []) \<or> pin)"
  by (auto simp: assert_proof_satisfied_def Let_def)

text \<open>
  (C11) A stop that covers several orders is proved exactly when each of its orders is: what the driver
  captured satisfies the stop's requirement if and only if it satisfies the requirement of every order on it,
  read alone. The subjects asked for are those of all the orders, each once, and one photo sent twice counts once.
\<close>

theorem stop_proof_is_every_orders_proof:
  assumes "orders_at sid d \<noteq> []" "pin = (cb_method body = By_pin)"
  shows "(assert_proof_satisfied (resolve_stop_proof validate sid d) (cb_method body) (all_photo_urls body) (cb_signature_url body) pin = None \<longleftrightarrow>
      (\<forall>r \<in> set (orders_at sid d).
         assert_proof_satisfied (requirement_of validate r) (cb_method body) (all_photo_urls body) (cb_signature_url body) pin = None)) \<and>
    set (pr_photo_subjects (resolve_stop_proof validate sid d)) =
      (\<Union>r \<in> set (orders_at sid d). set (pr_photo_subjects (requirement_of validate r))) \<and>
    distinct (pr_photo_subjects (resolve_stop_proof validate sid d)) \<and>
    distinct (all_photo_urls body) \<and> set (all_photo_urls body) = (set_option (cb_photo_url body) \<union> set (cb_photo_urls body)) - {[]}"
proof -
  let ?qs = "map (requirement_of validate) (orders_at sid d)"
  let ?none = "\<lparr>pr_photo_count_required = 0, pr_photo_subjects = [], pr_signature_required = False\<rparr>"
  have res: "resolve_stop_proof validate sid d = fold take_stricter ?qs ?none"
    using assms(1) by (simp add: resolve_stop_proof_def split: list.split)
  define n where "n = int (length (filter (\<lambda>u. u \<noteq> []) (all_photo_urls body)))"
  have count: "(1 < pr_photo_count_required (fold take_stricter ?qs ?none) \<longrightarrow> pr_photo_count_required (fold take_stricter ?qs ?none) \<le> n) \<longleftrightarrow>
      (\<forall>q \<in> set ?qs. 1 < pr_photo_count_required q \<longrightarrow> pr_photo_count_required q \<le> n)"
    using below_fold_max [of "max 1 n" pr_photo_count_required ?qs 0] unfolding fold_stricter(1)
    by (simp only: proof_requirements.simps max_less_iff_conj) (meson linorder_not_less not_one_less_zero)
  have "assert_proof_satisfied (fold take_stricter ?qs ?none) (cb_method body) (all_photo_urls body) (cb_signature_url body) pin = None \<longleftrightarrow>
      (\<forall>q \<in> set ?qs. assert_proof_satisfied q (cb_method body) (all_photo_urls body) (cb_signature_url body) pin = None)"
    using assms(1) count fold_stricter(2) [of ?qs ?none]
    unfolding assert_proof_iff n_def [symmetric] by auto
  moreover have "distinct (all_photo_urls body) \<and> set (all_photo_urls body) = (set_option (cb_photo_url body) \<union> set (cb_photo_urls body)) - {[]}"
    using fold_add_photo [of "[]" "(if cb_photo_url body \<noteq> None \<and> cb_photo_url body \<noteq> Some [] then [the (cb_photo_url body)] else []) @ cb_photo_urls body"]
    unfolding all_photo_urls_def by (cases "cb_photo_url body") (auto simp del: fold_append fold_simps split: if_splits)
  ultimately show ?thesis using fold_stricter_subjects [of ?qs ?none] unfolding res by simp
qed

definition sample_body :: complete_body where
  "sample_body = \<lparr>cb_method = By_photo, cb_photo_url = Some ''p1'', cb_photo_urls = [''p1'', ''p2''], cb_signature_url = None, cb_pin = None,
     cb_left_at = None, cb_door_lat = None, cb_door_lng = None, cb_door_accuracy_m = None\<rparr>"

text \<open>A validator that reads the photo count of an object, and an order that asks for three photos.\<close>

definition count_only :: validator where
  "count_only raw = (case map_of raw ''photo_count_required'' of
     None \<Rightarrow> Some default_proof
   | Some (JInt n) \<Rightarrow> if 0 \<le> n \<and> n \<le> 8 then Some (default_proof\<lparr>pr_photo_count_required := n\<rparr>) else None
   | Some _ \<Rightarrow> None)"

definition sample_proof_db :: db where
  "sample_proof_db = sample_route_tables\<lparr>orders := [(sample_order 7 En_route_drop)
     \<lparr>ord_proof_requirements := Some [(''photo_count_required'', JInt 3)]\<rparr>]\<rparr>"

theorem stop_proof_is_every_orders_proof_witness:
  "assert_proof_satisfied (resolve_stop_proof count_only 11 sample_proof_db) By_photo (all_photo_urls sample_body) None False \<noteq> None"
proof -
  have b: "cb_method sample_body = By_photo" "cb_signature_url sample_body = None" by (simp_all add: sample_body_def)
  have 1: "orders_at 11 sample_proof_db \<noteq> []" "False = (cb_method sample_body = By_pin)" by code_simp+
  have "\<exists>r \<in> set (orders_at 11 sample_proof_db).
      assert_proof_satisfied (requirement_of count_only r) By_photo (all_photo_urls sample_body) None False \<noteq> None" by code_simp
  with stop_proof_is_every_orders_proof [OF 1, of count_only, THEN conjunct1] show ?thesis unfolding b by (simp only:) simp
qed

end
