(* ===== verification/Driver_Stops.thy ===== *)
theory Driver_Stops
  imports Door Outcomes
begin

text \<open>
  What a driver does at a stop (\<open>src/app/api/driver_routes.py\<close>): arriving, scanning, completing and
  flagging, with what each writes to the stop, its orders, the route, the outcome ledger, the gig
  payout and the fleet. \<open>door_env\<close> holds what others do where a handler waits. Outside the program and
  parameters of the handlers are the distance, the validation of proof requirements, the random
  tracking tokens and the payout provider. A request that raises before its commit is rolled back;
  one that raises after it keeps what was committed.
\<close>

section \<open>The handlers' surroundings\<close>

record door_env =
  de_lock :: "db \<Rightarrow> db"
  de_orders :: interference
  de_mark :: "db \<Rightarrow> db"
  de_drop :: interference
  de_load :: "fleet \<Rightarrow> fleet"
  de_free :: "fleet \<Rightarrow> fleet"

text \<open>The provider's answer to a transfer: an exception, or a reference that may be missing.\<close>

datatype transfer = Transfer_failed | Transferred "string option"

record outside =
  ou_miles :: distance
  ou_validate :: validator
  ou_token :: "uuid \<Rightarrow> string"
  ou_pay_out :: "string \<Rightarrow> cents \<Rightarrow> uuid \<Rightarrow> transfer"

definition MAX_PIN_VERIFICATION_ATTEMPTS :: int where
  "MAX_PIN_VERIFICATION_ATTEMPTS = 5"

definition get_owned_stop_on_locked_route :: "(db \<Rightarrow> db) \<Rightarrow> uuid \<Rightarrow> uuid \<Rightarrow> session \<Rightarrow> stop_row option \<times> session" where
  "get_owned_stop_on_locked_route others sid driver s =
     (case get_owned_stop sid driver (db s) of
        None \<Rightarrow> (None, s)
      | Some st \<Rightarrow> let s1 = interfere_db others s in (lookup_by stop_id sid (stops (db s1)), s1))"

definition pin_at :: "rat option \<Rightarrow> rat option \<Rightarrow> rat option \<Rightarrow> position_pin" where
  "pin_at lat lng accuracy = (case (lat, lng) of (Some a, Some b) \<Rightarrow> Some (a, b, accuracy) | _ \<Rightarrow> None)"

definition first_pin :: "position_pin \<Rightarrow> position_pin \<Rightarrow> position_pin" where
  "first_pin old new = (case old of None \<Rightarrow> new | Some _ \<Rightarrow> old)"

definition first_time :: "instant option \<Rightarrow> instant \<Rightarrow> instant option" where
  "first_time old now = (case old of None \<Rightarrow> Some now | Some _ \<Rightarrow> old)"

definition set_evidence :: "(stop_evidence \<Rightarrow> stop_evidence) \<Rightarrow> stop_row \<Rightarrow> stop_row" where
  "set_evidence f r = r\<lparr>stop_evidence_of := f (stop_evidence_of r)\<rparr>"

definition refresh_etas :: "distance \<Rightarrow> instant \<Rightarrow> uuid \<Rightarrow> session \<Rightarrow> session" where
  "refresh_etas miles now rid s = s\<lparr>db := snd (refresh_route_etas miles now rid (db s))\<rparr>"

section \<open>Arriving and scanning\<close>

definition arrive_row :: "instant \<Rightarrow> position_pin \<Rightarrow> stop_row \<Rightarrow> stop_row" where
  "arrive_row now pin r =
     set_evidence (\<lambda>e. e\<lparr>ev_arrived_pin := first_pin (ev_arrived_pin e) pin\<rparr>)
       (r\<lparr>stop_status_of := Stop_arrived, stop_arrived_at := first_time (stop_arrived_at r) now\<rparr>)"

definition arrive_at_stop ::
    "outside \<Rightarrow> door_env \<Rightarrow> instant \<Rightarrow> uuid \<Rightarrow> uuid \<Rightarrow> (rat option \<times> rat option \<times> rat option) option \<Rightarrow> session \<Rightarrow> (stop_refusal + unit) \<times> session" where
  "arrive_at_stop out en now sid driver body s =
     (case get_owned_stop_on_locked_route (de_lock en) sid driver s of
        (None, s1) \<Rightarrow> (Inl Stop_not_found, rollback s1)
      | (Some st, s1) \<Rightarrow>
          if stop_status_of st \<in> set TERMINAL_STOPS then (Inl (Stop_is_over (stop_status_of st)), rollback s1)
          else let pin = (case body of None \<Rightarrow> None | Some (lat, lng, accuracy) \<Rightarrow> pin_at lat lng accuracy);
                   s2 = on_db (update_stop sid (arrive_row now pin)) s1
               in (Inr (), commit (refresh_etas (ou_miles out) now (stop_route_id st) s2)))"

text \<open>The count is written without a lock: \<open>others\<close> commits between the read of the stop and the write.\<close>

definition scan_parcels :: "(db \<Rightarrow> db) \<Rightarrow> uuid \<Rightarrow> uuid \<Rightarrow> int \<Rightarrow> session \<Rightarrow> (stop_refusal + unit) \<times> session" where
  "scan_parcels others sid driver n s =
     (case stop_at_door sid driver (db s) of
        Inl err \<Rightarrow> (Inl err, rollback s)
      | Inr st \<Rightarrow> (Inr (), commit (on_db (update_stop sid (\<lambda>r. r\<lparr>stop_scanned_count := max 0 (min n (stop_parcel_count st))\<rparr>))
          (interfere_db others s))))"

definition stop_order_ids :: "uuid \<Rightarrow> db \<Rightarrow> uuid list" where
  "stop_order_ids sid d = map so_order_id (filter (\<lambda>l. so_stop_id l = sid) (stop_orders d))"

definition stamp_parcel :: "uuid \<Rightarrow> string \<Rightarrow> instant \<Rightarrow> db \<Rightarrow> db" where
  "stamp_parcel h barcode now d = d\<lparr>parcels := update_where (\<lambda>p. parcel_hub_id p = h \<and> parcel_barcode p = barcode)
     (\<lambda>p. p\<lparr>parcel_scanned_at := first_time (parcel_scanned_at p) now\<rparr>) (parcels d)\<rparr>"

text \<open>A barcode names one parcel of a hub (a unique constraint), so the first match is the only one.\<close>

definition scan_parcel ::
    "(db \<Rightarrow> db) \<Rightarrow> instant \<Rightarrow> uuid \<Rightarrow> uuid \<Rightarrow> uuid \<Rightarrow> string \<Rightarrow> session \<Rightarrow> (stop_refusal + unit) \<times> session" where
  "scan_parcel others now h sid driver barcode s0 =
     (let s = interfere_db others s0 in
      case stop_at_door sid driver (db s) of
        Inl err \<Rightarrow> (Inl err, rollback s)
      | Inr st \<Rightarrow>
          if stop_type_of st \<noteq> Pickup then (Inl Only_at_a_pickup, rollback s)
          else let order_ids = stop_order_ids sid (db s) in
            (case find (\<lambda>p. parcel_hub_id p = h \<and> parcel_barcode p = barcode) (parcels (db s)) of
               None \<Rightarrow> (Inl Wrong_part, rollback s)
             | Some p \<Rightarrow>
                 if parcel_order_id p \<notin> set order_ids then (Inl Wrong_part, rollback s)
                 else let d = stamp_parcel h barcode now (db s);
                          scanned = snd (count_parcels order_ids d)
                      in (Inr (), commit (s\<lparr>db := update_stop sid (\<lambda>r. r\<lparr>stop_scanned_count := max (stop_scanned_count r) scanned\<rparr>) d\<rparr>))))"

section \<open>Paying a gig delivery\<close>

definition GIG_BASE_PAY_CENTS :: int where "GIG_BASE_PAY_CENTS = 400"

definition GIG_PER_MILE_CENTS :: int where "GIG_PER_MILE_CENTS = 70"

fun GIG_SLA_TIER_BONUS_CENTS :: "sla_tier \<Rightarrow> cents" where
  "GIG_SLA_TIER_BONUS_CENTS HOT_SHOT = 500"
| "GIG_SLA_TIER_BONUS_CENTS T1 = 200"
| "GIG_SLA_TIER_BONUS_CENTS T2 = 0"
| "GIG_SLA_TIER_BONUS_CENTS T3 = 0"

definition estimate_delivery_pay_cents :: "distance \<Rightarrow> rat \<Rightarrow> rat \<Rightarrow> rat \<Rightarrow> rat \<Rightarrow> sla_tier option \<Rightarrow> cents" where
  "estimate_delivery_pay_cents miles plat plng dlat dlng tier =
     (let bonus = GIG_SLA_TIER_BONUS_CENTS (case tier of None \<Rightarrow> T2 | Some t \<Rightarrow> t) in
      round_half_even (fadd (fadd (of_py_int GIG_BASE_PAY_CENTS) (fmul (miles plat plng dlat dlng) (of_py_int GIG_PER_MILE_CENTS)))
        (of_py_int bonus)))"

text \<open>The delivery coordinates and the weights are decimal columns: a coordinate is converted, weights are summed exactly and then converted.\<close>

definition order_pay :: "distance \<Rightarrow> db \<Rightarrow> order_row \<Rightarrow> cents" where
  "order_pay miles d r =
     (case (map_option (\<lambda>i. lookup_by shop_id i (shops d)) (ord_shop_id r), ord_delivery_lat r, ord_delivery_lng r) of
        (Some (Some shop), Some lat, Some lng) \<Rightarrow> estimate_delivery_pay_cents miles (shop_lat shop) (shop_lng shop) (fl lat) (fl lng) (ord_sla_tier r)
      | _ \<Rightarrow> 0)"

abbreviation (input) payouts :: "db \<Rightarrow> payout_row list" where
  "payouts d \<equiv> gig_payouts (ledgers_of (ops_of d))"

definition add_payout :: "payout_row \<Rightarrow> db \<Rightarrow> db" where
  "add_payout p d = d\<lparr>ops_of := (ops_of d)\<lparr>ledgers_of := (ledgers_of (ops_of d))\<lparr>gig_payouts := payouts d @ [p]\<rparr>\<rparr>\<rparr>"

text \<open>\<open>None\<close> is the provider's exception: the row that was flushed is lost with the transaction.\<close>

definition pay_out_gig_delivery :: "outside \<Rightarrow> uuid \<Rightarrow> driver_row \<Rightarrow> uuid \<Rightarrow> uuid list \<Rightarrow> session \<Rightarrow> session option" where
  "pay_out_gig_delivery out h row sid order_ids s =
     (if \<exists>p \<in> set (payouts (db s)). pay_stop_id p = sid then Some s
      else let amount = sum_list (map (order_pay (ou_miles out) (db s)) (filter (\<lambda>r. ord_id r \<in> set order_ids) (orders (db s)))) in
        if amount \<le> 0 then Some s
        else let paid = (\<lambda>status reference. Some (commit (on_db (add_payout \<lparr>pay_hub_id = h, pay_driver_id = driver_id row,
                   pay_stop_id = sid, pay_amount_cents = amount, pay_status = status, pay_transfer_id = reference,
                   pay_created_at = txn_now s\<rparr>) s))) in
          case driver_stripe_account row of
            None \<Rightarrow> paid ''skipped_no_payout_account'' None
          | Some account \<Rightarrow>
              if account = [] then paid ''skipped_no_payout_account'' None
              else (case ou_pay_out out account amount sid of
                 Transfer_failed \<Rightarrow> None
               | Transferred reference \<Rightarrow>
                   paid (if reference = None \<or> reference = Some [] then ''stub'' else ''paid'') reference))"

section \<open>The driver's load and status\<close>

definition stop_weight :: "uuid list \<Rightarrow> db \<Rightarrow> rat" where
  "stop_weight order_ids d = fl (sum_list (map ord_weight_units (filter (\<lambda>r. ord_id r \<in> set order_ids) (orders d))))"

definition shift_load :: "(fleet \<Rightarrow> fleet) \<Rightarrow> hub \<Rightarrow> uuid \<Rightarrow> (rat \<Rightarrow> rat) \<Rightarrow> fleet \<Rightarrow> fleet" where
  "shift_load others h driver f fs =
     (case get_driver_state h driver fs of
        None \<Rightarrow> fs
      | Some x \<Rightarrow> upsert_driver_state (x\<lparr>ds_load_units := f (ds_load_units x)\<rparr>) (others fs))"

text \<open>\<open>None\<close>: Redis has no state and the driver's row is gone.\<close>

definition free_driver_after_route :: "(fleet \<Rightarrow> fleet) \<Rightarrow> hub \<Rightarrow> uuid \<Rightarrow> db \<Rightarrow> fleet \<Rightarrow> fleet option" where
  "free_driver_after_route others h driver d fs =
     map_option (\<lambda>x. upsert_driver_state (x\<lparr>ds_status := (if ds_status x \<in> {On_break, Off_shift} then ds_status x else Available),
          ds_current_route_id := None, ds_load_units := 0\<rparr>) (others fs))
       (case get_driver_state h driver fs of
          Some x \<Rightarrow> Some x
        | None \<Rightarrow> map_option (\<lambda>row. \<lparr>ds_driver_id = driver, ds_hub_id = h, ds_status = Available,
            ds_capacity_units = driver_vehicle_capacity_units row, ds_load_units = 0, ds_current_route_id = None\<rparr>)
            (lookup_by driver_id driver (driver_rows (ops_of d))))"


section \<open>Completing a stop\<close>

definition pickup_pending :: "stop_row \<Rightarrow> db \<Rightarrow> bool" where
  "pickup_pending st d \<longleftrightarrow>
     (\<exists>p \<in> set (stops d). stop_route_id p = stop_route_id st \<and> stop_type_of p = Pickup \<and> stop_status_of p \<notin> set TERMINAL_STOPS \<and>
       (\<exists>i \<in> set (stop_order_ids (stop_id p) d). i \<in> set (stop_order_ids (stop_id st) d)))"

definition pin_refusal :: "complete_body \<Rightarrow> stop_evidence \<Rightarrow> stop_refusal option" where
  "pin_refusal body e =
     (if cb_method body \<noteq> By_pin then None
      else if ev_delivery_pin e = None then Some No_pin_issued
      else if MAX_PIN_VERIFICATION_ATTEMPTS \<le> ev_pin_attempts e then Some Too_many_pins
      else if cb_pin body \<noteq> ev_delivery_pin e then Some Wrong_pin
      else None)"

text \<open>Every check of a completion, in the order the handler makes them.\<close>

definition complete_refusal :: "validator \<Rightarrow> complete_body \<Rightarrow> stop_row \<Rightarrow> db \<Rightarrow> stop_refusal option" where
  "complete_refusal validate body st d =
     (let drop = (stop_type_of st = Dropoff) in
      if stop_status_of st \<in> set TERMINAL_STOPS then Some (Stop_is_over (stop_status_of st))
      else if stop_status_of st \<noteq> Stop_arrived then Some Arrive_first
      else if stop_type_of st = Pickup \<and> stop_scanned_count st < stop_parcel_count st then Some Not_all_scanned
      else if drop \<and> pickup_pending st d then Some Collect_first
      else case pin_refusal body (stop_evidence_of st) of
        Some why \<Rightarrow> Some why
      | None \<Rightarrow>
          (case if drop then assert_cod_settled (stop_id st) d else None of
             Some owed \<Rightarrow> Some (Money_outstanding owed)
           | None \<Rightarrow>
               map_option Proof_missing (if drop then assert_proof_satisfied (resolve_stop_proof validate (stop_id st) d) (cb_method body)
                 (all_photo_urls body) (cb_signature_url body) (cb_method body = By_pin) else None)))"

definition complete_row :: "instant \<Rightarrow> complete_body \<Rightarrow> stop_row \<Rightarrow> stop_row" where
  "complete_row now body r =
     set_evidence (\<lambda>e.
         let e1 = e\<lparr>ev_completed_pin := first_pin (ev_completed_pin e) (pin_at (cb_door_lat body) (cb_door_lng body) (cb_door_accuracy_m body))\<rparr> in
         if stop_type_of r = Dropoff then
           e1\<lparr>ev_pod_method := Some (method_value (cb_method body)), ev_pod_photo_url := cb_photo_url body,
              ev_pod_signature_url := cb_signature_url body, ev_pod_photo_urls := Some (all_photo_urls body),
              ev_pod_pin := cb_pin body, ev_pod_left_at := cb_left_at body\<rparr>
         else e1)
       (r\<lparr>stop_status_of := Stop_completed, stop_completed_at := Some now\<rparr>)"

definition route_finished :: "uuid \<Rightarrow> db \<Rightarrow> bool" where
  "route_finished rid d \<longleftrightarrow> filter (\<lambda>r. stop_route_id r = rid \<and> stop_status_of r \<notin> set TERMINAL_STOPS) (stops d) = []"

definition update_route :: "uuid \<Rightarrow> (route_row \<Rightarrow> route_row) \<Rightarrow> db \<Rightarrow> db" where
  "update_route rid f d = d\<lparr>routes := update_where (\<lambda>r. route_id r = rid) f (routes d)\<rparr>"

definition ensure_tracking_token :: "(uuid \<Rightarrow> string) \<Rightarrow> order_row \<Rightarrow> order_row" where
  "ensure_tracking_token token r =
     (if ord_tracking_token r = None \<or> ord_tracking_token r = Some [] then r\<lparr>ord_tracking_token := Some (token (ord_id r))\<rparr> else r)"

definition mint_tokens :: "(uuid \<Rightarrow> string) \<Rightarrow> uuid list \<Rightarrow> db \<Rightarrow> db" where
  "mint_tokens token order_ids d =
     d\<lparr>orders := update_where (\<lambda>r. ord_id r \<in> set order_ids) (ensure_tracking_token token) (orders d)\<rparr>"

text \<open>The orders of a completed stop, and the ledger entries of those that became delivered.\<close>

definition advance_stop_orders ::
    "door_env \<Rightarrow> instant \<Rightarrow> stop_row \<Rightarrow> uuid list \<Rightarrow> session \<Rightarrow> (outcome_error + outcome_row list) \<times> session" where
  "advance_stop_orders en now st order_ids s =
     (if order_ids = [] then (Inr [], s)
      else let (moved, s1) = advance_orders (de_orders en) now (Some now) None order_ids
                 (if stop_type_of st = Dropoff then Delivered else Picked_up) s in
        if stop_type_of st = Dropoff \<and> moved \<noteq> [] then
          (case record_delivery_outcomes now moved s1 of
             Inl err \<Rightarrow> (Inl err, s1)
           | Inr (entries, s2) \<Rightarrow> (Inr entries, s2))
        else (Inr [], s1))"

text \<open>The transaction of a completion that passed its checks.\<close>

definition complete_txn ::
    "outside \<Rightarrow> door_env \<Rightarrow> instant \<Rightarrow> complete_body \<Rightarrow> stop_row \<Rightarrow> uuid list \<Rightarrow> session \<Rightarrow> (outcome_error + bool) \<times> session" where
  "complete_txn out en now body st order_ids s =
     (let rid = stop_route_id st in
      case advance_stop_orders en now st order_ids (on_db (update_stop (stop_id st) (complete_row now body)) s) of
        (Inl err, s1) \<Rightarrow> (Inl err, s1)
      | (Inr _, s1) \<Rightarrow>
          let fin = route_finished rid (db s1);
              s2 = (if fin then on_db (update_route rid (\<lambda>r. r\<lparr>route_status_of := Route_completed\<rparr>)) s1
                    else refresh_etas (ou_miles out) now rid s1);
              s3 = (if stop_type_of st = Pickup \<and> order_ids \<noteq> [] then on_db (mint_tokens (ou_token out) order_ids) s2 else s2)
          in (Inr fin, commit s3))"

definition pay_if_gig ::
    "outside \<Rightarrow> hub \<Rightarrow> uuid \<Rightarrow> stop_row \<Rightarrow> uuid list \<Rightarrow> session \<Rightarrow> stop_refusal + session" where
  "pay_if_gig out h driver st order_ids s =
     (if stop_type_of st = Dropoff \<and> order_ids \<noteq> [] then
        (case lookup_by driver_id driver (driver_rows (ops_of (db s))) of
           None \<Rightarrow> Inl Driver_gone
         | Some row \<Rightarrow>
             if driver_employment_type row = ''gig'' then
               (case pay_out_gig_delivery out h row (stop_id st) order_ids s of None \<Rightarrow> Inl Payout_failed | Some s1 \<Rightarrow> Inr s1)
             else Inr s)
      else Inr s)"

definition complete_load :: "door_env \<Rightarrow> hub \<Rightarrow> uuid \<Rightarrow> stop_row \<Rightarrow> uuid list \<Rightarrow> db \<Rightarrow> fleet \<Rightarrow> fleet" where
  "complete_load en h driver st order_ids d fs =
     (let weight = stop_weight order_ids d in
      if order_ids \<noteq> [] \<and> 0 < weight then
        shift_load (de_load en) h driver (\<lambda>x. if stop_type_of st = Pickup then fadd x weight else max 0 (fsub x weight)) fs
      else fs)"

text \<open>What follows the commit of a completion.\<close>

definition after_completion ::
    "outside \<Rightarrow> door_env \<Rightarrow> instant \<Rightarrow> hub \<Rightarrow> uuid \<Rightarrow> stop_row \<Rightarrow> uuid list \<Rightarrow> bool \<Rightarrow> world \<Rightarrow> (stop_refusal + unit) \<times> world" where
  "after_completion out en now h driver st order_ids fin w =
     (case pay_if_gig out h driver st order_ids (sess w) of
        Inl err \<Rightarrow> (Inl err, w)
      | Inr s1 \<Rightarrow>
          let w1 = w\<lparr>sess := s1, fleet_of := complete_load en h driver st order_ids (db s1) (fleet_of w)\<rparr> in
          if \<not> fin then
            (Inr (), w1\<lparr>sess := commit (snd (mark_current_stop_en_route (de_mark en) (de_drop en) now (stop_route_id st) s1))\<rparr>)
          else (case free_driver_after_route (de_free en) h driver (db s1) (fleet_of w1) of
             None \<Rightarrow> (Inl Driver_gone, w1)
           | Some fs \<Rightarrow> (Inr (), w1\<lparr>fleet_of := fs, queue := (queue w1)\<lparr>hs_bus := publish h (hs_bus (queue w1))\<rparr>\<rparr>)))"

definition complete_stop ::
    "outside \<Rightarrow> door_env \<Rightarrow> instant \<Rightarrow> hub \<Rightarrow> uuid \<Rightarrow> uuid \<Rightarrow> complete_body \<Rightarrow> world \<Rightarrow> (stop_refusal + unit) \<times> world" where
  "complete_stop out en now h sid driver body w =
     (case get_owned_stop_on_locked_route (de_lock en) sid driver (sess w) of
        (None, s1) \<Rightarrow> (Inl Stop_not_found, w\<lparr>sess := rollback s1\<rparr>)
      | (Some st, s1) \<Rightarrow>
          if stop_status_of st = Stop_completed then (Inr (), w\<lparr>sess := s1\<rparr>)
          else (case complete_refusal (ou_validate out) body st (db s1) of
             Some Wrong_pin \<Rightarrow> (Inl Wrong_pin, w\<lparr>sess := commit (on_db (update_stop sid
               (set_evidence (\<lambda>e. e\<lparr>ev_pin_attempts := ev_pin_attempts e + 1\<rparr>))) s1)\<rparr>)
           | Some why \<Rightarrow> (Inl why, w\<lparr>sess := rollback s1\<rparr>)
           | None \<Rightarrow>
               let order_ids = stop_order_ids sid (db s1) in
               (case complete_txn out en now body st order_ids s1 of
                  (Inl err, s2) \<Rightarrow> (Inl Outcome_failed, w\<lparr>sess := rollback s2\<rparr>)
                | (Inr fin, s2) \<Rightarrow> after_completion out en now h driver st order_ids fin (w\<lparr>sess := s2\<rparr>))))"

section \<open>Flagging a stop\<close>

definition flag_row :: "instant \<Rightarrow> string \<Rightarrow> string option \<Rightarrow> stop_row \<Rightarrow> stop_row" where
  "flag_row now reason note r =
     set_evidence (\<lambda>e. e\<lparr>ev_failure_reason := Some reason, ev_flag_note := note\<rparr>)
       (r\<lparr>stop_status_of := Stop_failed, stop_flagged_at := Some now\<rparr>)"

text \<open>The other live stops of the route that carry one of these orders.\<close>

definition other_stops :: "stop_row \<Rightarrow> uuid list \<Rightarrow> db \<Rightarrow> stop_row list" where
  "other_stops st order_ids d =
     sort_key stop_sequence (sort_key stop_id (filter (\<lambda>r. stop_route_id r = stop_route_id st \<and> stop_id r \<noteq> stop_id st \<and>
       stop_status_of r \<notin> set FINISHED_STOP_STATUSES \<and> (\<exists>i \<in> set order_ids. i \<in> set (stop_order_ids (stop_id r) d))) (stops d)))"

definition fail_orders :: "door_env \<Rightarrow> instant \<Rightarrow> string \<Rightarrow> uuid list \<Rightarrow> session \<Rightarrow> session" where
  "fail_orders en now reason order_ids s =
     (if order_ids = [] then s
      else on_db (\<lambda>d. d\<lparr>orders := update_where (\<lambda>r. ord_id r \<in> set order_ids) (\<lambda>r. r\<lparr>ord_failure_reason := Some reason\<rparr>) (orders d)\<rparr>)
        (snd (advance_orders (de_orders en) now None None order_ids Delivery_failed s)))"

definition flag_route :: "outside \<Rightarrow> door_env \<Rightarrow> instant \<Rightarrow> uuid \<Rightarrow> bool \<Rightarrow> session \<Rightarrow> session" where
  "flag_route out en now rid changed s =
     (let fin = route_finished rid (db s);
          s1 = on_db (update_route rid (\<lambda>r. r\<lparr>route_plan_version := route_plan_version r + (if changed then 1 else 0),
                 route_status_of := (if fin then Route_completed else route_status_of r)\<rparr>)) s
      in if fin then s1
         else refresh_etas (ou_miles out) now rid (snd (mark_current_stop_en_route (de_mark en) (de_drop en) now rid s1)))"

definition flag_txn ::
    "outside \<Rightarrow> door_env \<Rightarrow> instant \<Rightarrow> string \<Rightarrow> string option \<Rightarrow> stop_row \<Rightarrow> uuid list \<Rightarrow> session \<Rightarrow> (uuid list \<times> bool \<times> bool) \<times> session" where
  "flag_txn out en now reason note st order_ids s =
     (let s1 = on_db (update_stop (stop_id st) (flag_row now reason note)) s;
          others = (if order_ids = [] then [] else other_stops st order_ids (db s1));
          (taken_off, d2) = take_orders_off_stops order_ids others (db s1);
          s3 = fail_orders en now reason order_ids (s1\<lparr>db := d2\<rparr>)
      in ((taken_off, others \<noteq> [], route_finished (stop_route_id st) (db s3)),
          commit (flag_route out en now (stop_route_id st) (others \<noteq> []) s3)))"

definition flag_notice :: "uuid \<Rightarrow> uuid list \<Rightarrow> db \<Rightarrow> notice list" where
  "flag_notice rid taken_off d =
     (case lookup_by route_id rid (routes d) of
        None \<Rightarrow> []
      | Some r \<Rightarrow> [\<lparr>nt_driver_id = route_driver_id r, nt_route_id = rid, nt_plan_version = route_plan_version r, nt_affected_stop_ids = taken_off\<rparr>])"

definition flag_stop_issue ::
    "outside \<Rightarrow> door_env \<Rightarrow> instant \<Rightarrow> hub \<Rightarrow> uuid \<Rightarrow> uuid \<Rightarrow> string \<Rightarrow> string option \<Rightarrow> world \<Rightarrow> (stop_refusal + unit) \<times> world" where
  "flag_stop_issue out en now h sid driver reason note w =
     (case get_owned_stop_on_locked_route (de_lock en) sid driver (sess w) of
        (None, s1) \<Rightarrow> (Inl Stop_not_found, w\<lparr>sess := rollback s1\<rparr>)
      | (Some st, s1) \<Rightarrow>
          if stop_status_of st = Stop_failed then (Inr (), w\<lparr>sess := s1\<rparr>)
          else if stop_status_of st \<in> set TERMINAL_STOPS then (Inl (Stop_is_over (stop_status_of st)), w\<lparr>sess := rollback s1\<rparr>)
          else
            let order_ids = stop_order_ids sid (db s1);
                ((taken_off, changed, fin), s2) = flag_txn out en now reason note st order_ids s1;
                weight = stop_weight order_ids (db s2);
                w1 = w\<lparr>sess := s2, notices := notices w @ (if changed then flag_notice (stop_route_id st) taken_off (db s2) else []),
                       fleet_of := (if stop_type_of st = Dropoff \<and> order_ids \<noteq> [] \<and> 0 < weight
                         then shift_load (de_load en) h driver (\<lambda>x. max 0 (fsub x weight)) (fleet_of w) else fleet_of w)\<rparr>;
                tell = (\<lambda>w. w\<lparr>queue := (queue w)\<lparr>hs_bus := publish h (hs_bus (queue w))\<rparr>\<rparr>)
            in if \<not> fin then (Inr (), tell w1)
               else (case free_driver_after_route (de_free en) h driver (db s2) (fleet_of w1) of
                  None \<Rightarrow> (Inl Driver_gone, w1)
                | Some fs \<Rightarrow> (Inr (), tell (w1\<lparr>fleet_of := fs\<rparr>))))"

end
