(* ===== verification/Stop_Life.thy ===== *)
theory Stop_Life
  imports Driver_Stops
begin

text \<open>
  The life of a stop row under the handlers of \<open>Driver_Stops\<close>: what each step of a handler keeps of
  the stops (\<open>door_step\<close>), what a whole request keeps (\<open>request_step\<close>), and what any sequence of requests does.
\<close>

section \<open>What a stop keeps\<close>

text \<open>A stop row in order: bounded PIN attempts, and what each final status says is there.\<close>

definition stop_ok :: "stop_row \<Rightarrow> bool" where
  "stop_ok r \<longleftrightarrow>
     0 \<le> ev_pin_attempts (stop_evidence_of r) \<and> ev_pin_attempts (stop_evidence_of r) \<le> MAX_PIN_VERIFICATION_ATTEMPTS \<and>
     0 \<le> stop_scanned_count r \<and>
     (stop_status_of r = Stop_arrived \<longrightarrow> stop_arrived_at r \<noteq> None) \<and>
     (stop_status_of r = Stop_completed \<longrightarrow> stop_completed_at r \<noteq> None \<and>
        (stop_type_of r = Dropoff \<longrightarrow> ev_pod_method (stop_evidence_of r) \<noteq> None)) \<and>
     (stop_status_of r = Stop_failed \<longrightarrow> stop_flagged_at r \<noteq> None \<and> ev_failure_reason (stop_evidence_of r) \<noteq> None)"

definition stop_stays :: "stop_row \<Rightarrow> stop_row \<Rightarrow> bool" where
  "stop_stays r r' \<longleftrightarrow>
     stop_type_of r' = stop_type_of r \<and> stop_route_id r' = stop_route_id r \<and>
     ev_delivery_pin (stop_evidence_of r') = ev_delivery_pin (stop_evidence_of r) \<and>
     ev_pin_attempts (stop_evidence_of r) \<le> ev_pin_attempts (stop_evidence_of r') \<and>
     (stop_status_of r \<in> set TERMINAL_STOPS \<longrightarrow> stop_status_of r' = stop_status_of r \<and> stop_evidence_of r' = stop_evidence_of r \<and>
        stop_completed_at r' = stop_completed_at r \<and> stop_flagged_at r' = stop_flagged_at r)"

definition keeps_stops :: "stop_row list \<Rightarrow> stop_row list \<Rightarrow> bool" where
  "keeps_stops ss ss' \<longleftrightarrow> (\<forall>i. case lookup_by stop_id i ss of
      None \<Rightarrow> (\<forall>r'. lookup_by stop_id i ss' = Some r' \<longrightarrow> stop_ok r')
    | Some r \<Rightarrow> (\<exists>r'. lookup_by stop_id i ss' = Some r' \<and> stop_stays r r' \<and> (stop_ok r \<longrightarrow> stop_ok r')))"

lemma stop_stays_refl [simp]: "stop_stays r r"
  by (simp add: stop_stays_def)

lemma stop_stays_trans: "stop_stays a b \<Longrightarrow> stop_stays b c \<Longrightarrow> stop_stays a c"
  by (auto simp: stop_stays_def)

lemma keeps_stops_refl [simp]: "keeps_stops ss ss"
  by (simp add: keeps_stops_def split: option.split)

lemma keeps_stopsD:
  "keeps_stops ss ss' \<Longrightarrow> lookup_by stop_id i ss = Some r \<Longrightarrow>
     \<exists>r'. lookup_by stop_id i ss' = Some r' \<and> stop_stays r r' \<and> (stop_ok r \<longrightarrow> stop_ok r')"
  unfolding keeps_stops_def by (drule spec [of _ i]) simp

lemma keeps_stops_new:
  "keeps_stops ss ss' \<Longrightarrow> lookup_by stop_id i ss = None \<Longrightarrow> lookup_by stop_id i ss' = Some r' \<Longrightarrow> stop_ok r'"
  unfolding keeps_stops_def by (drule spec [of _ i]) simp

lemma keeps_stops_trans [trans]:
  assumes "keeps_stops a b" "keeps_stops b c"
  shows "keeps_stops a c"
  unfolding keeps_stops_def
proof (intro allI)
  fix i
  show "case lookup_by stop_id i a of
      None \<Rightarrow> (\<forall>r'. lookup_by stop_id i c = Some r' \<longrightarrow> stop_ok r')
    | Some r \<Rightarrow> (\<exists>r'. lookup_by stop_id i c = Some r' \<and> stop_stays r r' \<and> (stop_ok r \<longrightarrow> stop_ok r'))"
  proof (cases "lookup_by stop_id i a")
    case None
    have "stop_ok r'" if "lookup_by stop_id i c = Some r'" for r'
    proof (cases "lookup_by stop_id i b")
      case None
      with keeps_stops_new [OF assms(2) _ that] show ?thesis by simp
    next
      case (Some x)
      with keeps_stops_new [OF assms(1) \<open>lookup_by stop_id i a = None\<close> Some] keeps_stopsD [OF assms(2) Some] that show ?thesis by auto
    qed
    with None show ?thesis by simp
  next
    case (Some r)
    from keeps_stopsD [OF assms(1) Some] obtain x where x: "lookup_by stop_id i b = Some x" "stop_stays r x" "stop_ok r \<longrightarrow> stop_ok x" by blast
    from keeps_stopsD [OF assms(2) x(1)] x(2,3) Some show ?thesis by (auto intro: stop_stays_trans)
  qed
qed

lemma lookup_by_map:
  assumes "\<And>r. key (f r) = key r"
  shows "lookup_by key k (map f rows) = map_option f (lookup_by key k rows)"
  by (induction rows) (auto simp: assms)

lemma keeps_stops_map:
  assumes "\<And>r. stop_id (f r) = stop_id r"
    and "\<And>i r. lookup_by stop_id i ss = Some r \<Longrightarrow> stop_stays r (f r) \<and> (stop_ok r \<longrightarrow> stop_ok (f r))"
  shows "keeps_stops ss (map f ss)"
  using assms(2) by (auto simp: keeps_stops_def lookup_by_map [where key = stop_id and f = f, OF assms(1)] split: option.split)

lemma keeps_stops_update:
  assumes "\<And>r. stop_id (g r) = stop_id r"
    and "\<And>i r. lookup_by stop_id i ss = Some r \<Longrightarrow> p r \<Longrightarrow> stop_stays r (g r) \<and> (stop_ok r \<longrightarrow> stop_ok (g r))"
  shows "keeps_stops ss (update_where p g ss)"
  using assms(2) unfolding update_where_def by (intro keeps_stops_map) (auto simp: assms(1))

section \<open>What the steps of the handlers keep\<close>

definition doors_ok :: "session \<Rightarrow> bool" where
  "doors_ok s \<longleftrightarrow> sane s \<and> distinct (map stop_id (stops (db s)))"

definition keeps_doors :: "(db \<Rightarrow> db) \<Rightarrow> bool" where
  "keeps_doors f \<longleftrightarrow> keeps_sane f \<and>
     (\<forall>d. keeps_stops (stops d) (stops (f d)) \<and> (distinct (map stop_id (stops d)) \<longrightarrow> distinct (map stop_id (stops (f d)))))"

text \<open>A step from one session to the next that keeps both.\<close>

definition door_step :: "session \<Rightarrow> session \<Rightarrow> bool" where
  "door_step s s' \<longleftrightarrow> doors_ok s \<longrightarrow> doors_ok s' \<and> keeps_stops (stops (db s)) (stops (db s'))"

lemma door_step_refl [simp]: "door_step s s"
  by (simp add: door_step_def)

lemma door_step_trans [trans]: "door_step a b \<Longrightarrow> door_step b c \<Longrightarrow> door_step a c"
  unfolding door_step_def using keeps_stops_trans by blast

lemma door_step_others: "keeps_doors f \<Longrightarrow> door_step s (interfere_db f s)"
  unfolding door_step_def keeps_doors_def doors_ok_def
  using sane_others by (simp add: interfere_db_def)

lemma door_step_commit [simp]: "door_step s (commit s)"
  by (simp add: door_step_def doors_ok_def sane_def session_ok_def commit_def)

lemma door_step_advance:
  assumes "keeps_keys env"
  shows "door_step s (snd (advance_orders env now t pre ids new s))"
  unfolding door_step_def doors_ok_def using sane_advance [OF assms] advance_orders_stops by (simp add: sane_def)

lemma door_step_rows:
  assumes "\<And>r. stop_id (g r) = stop_id r"
    and "\<And>i r. doors_ok s \<Longrightarrow> lookup_by stop_id i (stops (db s)) = Some r \<Longrightarrow> stop_stays r (g r) \<and> (stop_ok r \<longrightarrow> stop_ok (g r))"
  shows "door_step s (s\<lparr>db := (db s)\<lparr>stops := map g (stops (db s))\<rparr>\<rparr>)"
  unfolding door_step_def
proof (intro impI conjI)
  assume ok: "doors_ok s"
  then have "sane (s\<lparr>db := (db s)\<lparr>stops := map g (stops (db s))\<rparr>\<rparr>)" by (intro sane_db) (simp_all add: doors_ok_def)
  then show "doors_ok (s\<lparr>db := (db s)\<lparr>stops := map g (stops (db s))\<rparr>\<rparr>)" using ok by (simp add: doors_ok_def comp_def assms(1))
  from keeps_stops_map [OF assms(1) assms(2) [OF ok]]
  show "keeps_stops (stops (db s)) (stops (db (s\<lparr>db := (db s)\<lparr>stops := map g (stops (db s))\<rparr>\<rparr>)))" by simp
qed

lemma door_step_update:
  assumes "\<And>r. stop_id (g r) = stop_id r"
    and "\<And>r. lookup_by stop_id sid (stops (db s)) = Some r \<Longrightarrow> stop_stays r (g r) \<and> (stop_ok r \<longrightarrow> stop_ok (g r))"
  shows "door_step s (s\<lparr>db := update_stop sid g (db s)\<rparr>)"
proof -
  have "update_stop sid g (db s) = (db s)\<lparr>stops := map (\<lambda>r. if stop_id r = sid then g r else r) (stops (db s))\<rparr>"
    by (simp add: update_stop_def update_where_def)
  moreover have "stop_id r = i" if "lookup_by stop_id i (stops (db s)) = Some r" for i r using lookup_by_Some [OF that] by simp
  ultimately show ?thesis using assms by (simp only:) (rule door_step_rows; force)
qed



text \<open>Writing forecasts changes nothing of what a stop keeps.\<close>

lemma write_etas_rows:
  "\<exists>g. fold write_eta ws rows = map g rows \<and> (\<forall>r. stop_id (g r) = stop_id r \<and> stop_stays r (g r) \<and> (stop_ok r \<longrightarrow> stop_ok (g r)))"
proof (induction ws arbitrary: rows)
  case Nil
  show ?case by (intro exI [of _ id]) simp
next
  case (Cons w ws)
  define f :: "stop_row \<Rightarrow> stop_row" where "f = (\<lambda>r. if stop_id r = fst w then r\<lparr>stop_eta := Some (snd w),
      stop_planned_eta := (case stop_planned_eta r of None \<Rightarrow> Some (snd w) | p \<Rightarrow> p)\<rparr> else r)"
  have f: "stop_id (f r) = stop_id r" "stop_stays r (f r)" "stop_ok r \<longrightarrow> stop_ok (f r)" for r
    by (simp_all add: f_def stop_stays_def stop_ok_def)
  obtain g where g: "fold write_eta ws (map f rows) = map g (map f rows)"
      "\<forall>r. stop_id (g r) = stop_id r \<and> stop_stays r (g r) \<and> (stop_ok r \<longrightarrow> stop_ok (g r))"
    using Cons.IH by blast
  have "write_eta w rows = map f rows" by (simp add: write_eta_def update_where_def f_def)
  then have "fold write_eta (w # ws) rows = map (g \<circ> f) rows" using g(1) by simp
  moreover have "stop_stays r ((g \<circ> f) r)" for r using stop_stays_trans [OF f(2)] g(2) by simp
  ultimately show ?case using f g(2) by (intro exI [of _ "g \<circ> f"]) simp
qed

lemma door_step_refresh [simp]: "door_step s (refresh_etas miles now rid s)"
proof (cases rule: refresh_cases [of miles now rid "db s"])
  case none
  then show ?thesis by (simp add: refresh_etas_def)
next
  case (walked xy cursor)
  obtain g where g: "fold write_eta (fst (walk miles xy cursor (points (db s) rid))) (stops (db s)) = map g (stops (db s))"
      "\<forall>r. stop_id (g r) = stop_id r \<and> stop_stays r (g r) \<and> (stop_ok r \<longrightarrow> stop_ok (g r))"
    using write_etas_rows by blast
  have "door_step s (s\<lparr>db := (db s)\<lparr>stops := map g (stops (db s))\<rparr>\<rparr>)" using g(2) by (intro door_step_rows) simp_all
  then show ?thesis by (simp add: refresh_etas_def walked(3) g(1))
qed

lemma keeps_stops_promote:
  "keeps_stops ss (update_where (\<lambda>r. stop_id r = i \<and> stop_status_of r = Stop_pending) (\<lambda>r. r\<lparr>stop_status_of := Stop_en_route\<rparr>) ss)"
  by (rule keeps_stops_update) (auto simp: stop_stays_def stop_ok_def TERMINAL_STOPS_def)

lemma door_step_mark:
  assumes "keeps_doors others" "keeps_keys env"
  shows "door_step s (snd (mark_current_stop_en_route others env now rid s))"
  unfolding door_step_def
proof (intro impI conjI)
  let ?s' = "snd (mark_current_stop_en_route others env now rid s)"
  assume ok: "doors_ok s"
  have sane: "sane ?s'" using sane_mark_current [OF _ assms(2)] assms(1) ok by (simp add: keeps_doors_def doors_ok_def)
  have o: "doors_ok (interfere_db others s)" using door_step_others [OF assms(1), of s] ok by (simp add: door_step_def)
  have rows: "stops (db ?s') =
    (case current_stop rid (db s) of None \<Rightarrow> stops (db s)
     | Some c \<Rightarrow> if stop_status_of c = Stop_pending then update_where (\<lambda>r. stop_id r = stop_id c \<and> stop_status_of r = Stop_pending)
           (\<lambda>r. r\<lparr>stop_status_of := Stop_en_route\<rparr>) (stops (others (db s))) else stops (db s))"
    using ok o by (intro mark_current_stops) (simp_all add: doors_ok_def sane_def)
  have "distinct (map stop_id (stops (others (db s))))" using o by (simp add: doors_ok_def interfere_db_def)
  then show "doors_ok ?s'" using ok sane rows by (auto simp: doors_ok_def distinct_update_where split: option.splits)
  have "keeps_stops (stops (db s)) (stops (others (db s)))" using assms(1) by (simp add: keeps_doors_def)
  with keeps_stops_trans [OF this keeps_stops_promote] rows
  show "keeps_stops (stops (db s)) (stops (db ?s'))" by (auto split: option.splits)
qed

text \<open>Taking orders off live stops.\<close>

lemma door_step_take_off:
  assumes "set sts \<subseteq> set (stops (db s))" "distinct (map stop_id sts)" "\<forall>st \<in> set sts. stop_status_of st \<notin> set FINISHED_STOP_STATUSES"
  shows "door_step s (s\<lparr>db := snd (take_orders_off_stops leaving sts (db s))\<rparr>)"
  unfolding door_step_def
proof (intro impI conjI)
  assume ok: "doors_ok s"
  let ?f = "off_row leaving (stop_id ` set sts) (db s)"
  have rows: "stops (snd (take_orders_off_stops leaving sts (db s))) = map ?f (stops (db s))"
    using take_orders_off_stops_rows [OF assms(1) _ assms(2)] ok by (simp add: doors_ok_def)
  have "sane (s\<lparr>db := snd (take_orders_off_stops leaving sts (db s))\<rparr>)"
    using ok take_orders_off_stops_tables by (intro sane_db) (simp_all add: doors_ok_def)
  then show "doors_ok (s\<lparr>db := snd (take_orders_off_stops leaving sts (db s))\<rparr>)"
    using ok by (simp add: doors_ok_def rows comp_def)
  have "stop_stays r (?f r) \<and> (stop_ok r \<longrightarrow> stop_ok (?f r))" if r: "lookup_by stop_id i (stops (db s)) = Some r" for i r
  proof (cases "stop_id r \<in> stop_id ` set sts")
    case True
    then obtain st where st: "st \<in> set sts" "stop_id st = stop_id r" by auto
    have "st = r" using st assms(1) lookup_by_Some [OF r] ok unfolding doors_ok_def by (metis distinct_map inj_onD subsetD)
    then have "stop_status_of r \<notin> set FINISHED_STOP_STATUSES" using assms(3) st(1) by simp
    then show ?thesis
      by (auto simp: off_row_def stop_stays_def stop_ok_def TERMINAL_STOPS_def FINISHED_STOP_STATUSES_def shed_parcels_def Let_def split_beta)
  qed (simp add: off_row_def)
  then show "keeps_stops (stops (db s)) (stops (db (s\<lparr>db := snd (take_orders_off_stops leaving sts (db s))\<rparr>)))"
    by (simp add: rows) (rule keeps_stops_map; simp)
qed


text \<open>Writes to other tables.\<close>

lemma door_step_same:
  assumes "map ord_id (orders (db s')) = map ord_id (orders (db s))" "deliveries (db s') = deliveries (db s)"
    "endpoints (db s') = endpoints (db s)" "stops (db s') = stops (db s)" "fresh s \<le> fresh s'"
  shows "door_step s s'"
  using assms by (auto simp: door_step_def doors_ok_def sane_def session_ok_def)

lemma fold_add_outcome_tables:
  "orders (fold add_outcome es d) = orders d \<and> deliveries (fold add_outcome es d) = deliveries d \<and>
   endpoints (fold add_outcome es d) = endpoints d \<and> stops (fold add_outcome es d) = stops d"
  by (induction es arbitrary: d) (simp_all add: add_outcome_def)

lemma record_delivery_outcomes_fresh: "record_delivery_outcomes now moved s = Inr (es, s') \<Longrightarrow> fresh s \<le> fresh s'"
proof (induction now moved s arbitrary: es s' rule: record_delivery_outcomes.induct)
  case (2 now order moved s)
  from 2(2) obtain e s1 es1 where e: "record_delivery_outcome now order (delivery_commitment order (order_term (db s) order)) (snapshot_that_assigned (db s) order) s = Inr (e, s1)"
    and es: "record_delivery_outcomes now moved s1 = Inr (es1, s')" "es = e # es1"
    by (auto split: sum.splits)
  from record_delivery_outcome_Inr [OF e] 2(1) [OF e refl es(1)] show ?case by simp
qed simp

lemma moved_is_stamped:
  "\<forall>r \<in> set (fst (advance_rows env k pre Delivered t rows s)). ord_delivered_at r \<noteq> None"
proof (induction rows arbitrary: k s)
  case (Cons r rows)
  then show ?case
    by (auto simp: Let_def split_beta moved_order_def split: option.split if_splits)
qed simp

lemma advance_stop_orders_step:
  assumes "keeps_keys (de_orders en)"
  shows "\<exists>entries s'. advance_stop_orders en now st order_ids s = (Inr entries, s') \<and> door_step s s'"
proof (cases "order_ids = []")
  case True
  then show ?thesis by (simp add: advance_stop_orders_def)
next
  case False
  define new where "new = (if stop_type_of st = Dropoff then Delivered else Picked_up)"
  obtain moved s1 where m: "advance_orders (de_orders en) now (Some now) None order_ids new s = (moved, s1)" by fastforce
  have s1: "door_step s s1" using door_step_advance [OF assms, of s now "Some now" None order_ids new] m by simp
  show ?thesis
  proof (cases "stop_type_of st = Dropoff \<and> moved \<noteq> []")
    case True
    then have "\<forall>r \<in> set moved. ord_delivered_at r \<noteq> None"
      using m False moved_is_stamped [of "de_orders en" 0 _ now "read_rows order_ids s" s] by (simp add: new_def advance_orders_def) (metis fst_conv)
    then obtain es s2 where r: "record_delivery_outcomes now moved s1 = Inr (es, s2)" using record_delivery_outcomes_succeed by blast
    have "door_step s1 s2"
      using record_delivery_outcomes_each [OF r] record_delivery_outcomes_fresh [OF r] fold_add_outcome_tables [of es "db s1"]
      by (intro door_step_same) simp_all
    with door_step_trans [OF s1] True False m r show ?thesis by (simp add: advance_stop_orders_def new_def)
  next
    case nd: False
    then show ?thesis using s1 m False by (auto simp: advance_stop_orders_def new_def)
  qed
qed

section \<open>What the handlers keep\<close>

text \<open>Between requests a session has nothing uncommitted.\<close>

definition request_step :: "session \<Rightarrow> session \<Rightarrow> bool" where
  "request_step s s' \<longleftrightarrow> (base s = db s \<longrightarrow> base s' = db s' \<and> door_step s s')"

lemma request_step_commit: "door_step s s' \<Longrightarrow> request_step s (commit s')"
  using door_step_trans [OF _ door_step_commit] by (simp add: request_step_def commit_def)

lemma request_step_trans [trans]: "request_step a b \<Longrightarrow> request_step b c \<Longrightarrow> request_step a c"
  using door_step_trans by (auto simp: request_step_def)

lemma request_step_rollback: "request_step s s1 \<Longrightarrow> request_step s (rollback s1)"
  by (auto simp: request_step_def rollback_def)

lemma request_step_refl [simp]: "request_step s s"
  by (simp add: request_step_def)

lemma request_step_others: "keeps_doors f \<Longrightarrow> request_step s (interfere_db f s)"
  using door_step_others [of f s] by (auto simp: request_step_def) (simp add: interfere_db_def)

lemma locked_stop:
  assumes "get_owned_stop_on_locked_route others sid driver s = (found, s1)" "keeps_doors others"
  shows "request_step s s1 \<and> door_step s s1 \<and> (\<forall>st. found = Some st \<longrightarrow> lookup_by stop_id sid (stops (db s1)) = Some st \<and> stop_id st = sid)"
proof -
  have "request_step s (interfere_db others s)" "door_step s (interfere_db others s)"
    using door_step_others [OF assms(2)] request_step_others [OF assms(2)] by blast+
  then show ?thesis using assms(1)
    by (auto simp: get_owned_stop_on_locked_route_def Let_def request_step_def split: option.splits dest: lookup_by_Some)
qed

lemma row_ids [simp]:
  "stop_id (set_evidence f r) = stop_id r" "stop_id (arrive_row now pin r) = stop_id r" "stop_id (complete_row now body r) = stop_id r"
  "stop_id (flag_row now reason note r) = stop_id r"
  by (simp_all add: set_evidence_def arrive_row_def complete_row_def flag_row_def)

lemma row_stays:
  assumes "stop_status_of r \<notin> set TERMINAL_STOPS"
  shows "stop_stays r (arrive_row now pin r) \<and> (stop_ok r \<longrightarrow> stop_ok (arrive_row now pin r))"
    "stop_stays r (complete_row now body r) \<and> (stop_ok r \<longrightarrow> stop_ok (complete_row now body r))"
    "stop_stays r (flag_row now reason note r) \<and> (stop_ok r \<longrightarrow> stop_ok (flag_row now reason note r))"
  using assms
  by (auto simp: stop_stays_def stop_ok_def arrive_row_def complete_row_def flag_row_def set_evidence_def first_time_def Let_def split: option.split)

lemma arrive_step:
  assumes "keeps_doors (de_lock en)"
  shows "request_step s (snd (arrive_at_stop out en now sid driver body s))"
proof -
  obtain found s1 where l: "get_owned_stop_on_locked_route (de_lock en) sid driver s = (found, s1)" by fastforce
  note s1 = locked_stop [OF l assms]
  show ?thesis
  proof (cases "found = None \<or> stop_status_of (the found) \<in> set TERMINAL_STOPS")
    case True
    then show ?thesis using l s1 by (auto simp: arrive_at_stop_def intro: request_step_rollback split: option.splits)
  next
    case False
    then obtain st where st: "found = Some st" "stop_status_of st \<notin> set TERMINAL_STOPS" by auto
    have "door_step s1 (s1\<lparr>db := update_stop sid (arrive_row now pin) (db s1)\<rparr>)" for pin
      using s1 st row_stays(1) by (intro door_step_update) auto
    then have "door_step s (refresh_etas m now rid (s1\<lparr>db := update_stop sid (arrive_row now pin) (db s1)\<rparr>))" for pin m rid
      using s1 door_step_trans door_step_refresh by blast
    then show ?thesis using l st by (simp add: arrive_at_stop_def Let_def request_step_commit)
  qed
qed

lemma scan_step:
  assumes "keeps_doors others"
  shows "request_step s (snd (scan_parcels others sid driver n s))"
proof -
  have "door_step (interfere_db others s) ((interfere_db others s)\<lparr>db := update_stop sid (\<lambda>r. r\<lparr>stop_scanned_count := max 0 k\<rparr>) (db (interfere_db others s))\<rparr>)" for k
    by (intro door_step_update) (auto simp: stop_stays_def stop_ok_def)
  from door_step_trans [OF door_step_others [OF assms] this] show ?thesis
    by (auto simp: scan_parcels_def intro: request_step_commit request_step_rollback split: sum.split)
qed

lemma scan_parcel_step:
  assumes "keeps_doors others"
  shows "request_step s (snd (scan_parcel others now h sid driver barcode s))"
proof -
  let ?s = "interfere_db others s"
  note i = request_step_others [OF assms, of s]
  have "door_step ?s (?s\<lparr>db := stamp_parcel h barcode now (db ?s)\<rparr>)"
    by (intro door_step_same) (simp_all add: stamp_parcel_def)
  moreover have "door_step q (q\<lparr>db := update_stop sid (\<lambda>r. r\<lparr>stop_scanned_count := max (stop_scanned_count r) k\<rparr>) (db q)\<rparr>)" for q k
    by (intro door_step_update) (auto simp: stop_stays_def stop_ok_def)
  from this [of "?s\<lparr>db := stamp_parcel h barcode now (db ?s)\<rparr>"]
  have "door_step (?s\<lparr>db := stamp_parcel h barcode now (db ?s)\<rparr>)
      (?s\<lparr>db := update_stop sid (\<lambda>r. r\<lparr>stop_scanned_count := max (stop_scanned_count r) k\<rparr>) (stamp_parcel h barcode now (db ?s))\<rparr>)" for k
    by simp
  ultimately have "door_step s (?s\<lparr>db := update_stop sid (\<lambda>r. r\<lparr>stop_scanned_count := max (stop_scanned_count r) k\<rparr>) (stamp_parcel h barcode now (db ?s))\<rparr>)" for k
    using door_step_trans door_step_others [OF assms] by meson
  with i show ?thesis
    by (auto simp: scan_parcel_def Let_def request_step_commit intro: request_step_rollback split: sum.split option.split)
qed


lemma complete_txn_step:
  assumes "keeps_keys (de_orders en)" "lookup_by stop_id (stop_id st) (stops (db s)) = Some st" "stop_status_of st \<notin> set TERMINAL_STOPS"
  shows "\<exists>fin s'. complete_txn out en now body st order_ids s = (Inr fin, s') \<and> door_step s s' \<and> base s' = db s' \<and>
    door_step (s\<lparr>db := update_stop (stop_id st) (complete_row now body) (db s)\<rparr>) s'"
proof -
  let ?s1 = "s\<lparr>db := update_stop (stop_id st) (complete_row now body) (db s)\<rparr>"
  have 1: "door_step s ?s1" using assms(2,3) row_stays(2) by (intro door_step_update) auto
  obtain es s2 where s2: "advance_stop_orders en now st order_ids ?s1 = (Inr es, s2)" "door_step ?s1 s2"
    using advance_stop_orders_step [OF assms(1)] by blast
  have route: "door_step q (q\<lparr>db := update_route rid f (db q)\<rparr>)" for q rid f
    by (rule door_step_same) (simp_all add: update_route_def)
  have token: "door_step q (q\<lparr>db := mint_tokens tok ids (db q)\<rparr>)" for q tok ids
    by (rule door_step_same) (simp_all add: mint_tokens_def map_update_where_inv ensure_tracking_token_def)
  define s3 where "s3 = (if route_finished (stop_route_id st) (db s2)
      then s2\<lparr>db := update_route (stop_route_id st) (\<lambda>r. r\<lparr>route_status_of := Route_completed\<rparr>) (db s2)\<rparr>
      else refresh_etas (ou_miles out) now (stop_route_id st) s2)"
  define s4 where "s4 = (if stop_type_of st = Pickup \<and> order_ids \<noteq> [] then s3\<lparr>db := mint_tokens (ou_token out) order_ids (db s3)\<rparr> else s3)"
  note s2(2)
  also have "door_step s2 s3" by (simp add: s3_def route)
  also have "door_step s3 s4" by (simp add: s4_def token)
  also have "door_step s4 (commit s4)" by simp
  finally have 2: "door_step ?s1 (commit s4)" .
  note door_step_trans [OF 1 2]
  moreover have "complete_txn out en now body st order_ids s = (Inr (route_finished (stop_route_id st) (db s2)), commit s4)"
    by (simp add: complete_txn_def s2(1) Let_def s3_def s4_def)
  ultimately show ?thesis using 2 by (simp add: commit_def)
qed

lemma pay_out_step: "pay_out_gig_delivery out h row sid order_ids s = Some s' \<Longrightarrow> request_step s s'"
proof -
  have "request_step s (commit (s\<lparr>db := add_payout p (db s)\<rparr>))" for p
    by (intro request_step_commit door_step_same) (simp_all add: add_payout_def)
  then show "pay_out_gig_delivery out h row sid order_ids s = Some s' \<Longrightarrow> request_step s s'"
    by (auto simp: pay_out_gig_delivery_def Let_def split: if_splits option.splits transfer.splits)
qed

lemma pay_if_gig_step: "pay_if_gig out h driver st order_ids s = Inr s' \<Longrightarrow> request_step s s'"
  by (auto simp: pay_if_gig_def pay_out_step split: if_splits option.splits)

lemma after_completion_step:
  assumes "keeps_doors (de_mark en)" "keeps_keys (de_drop en)"
  shows "request_step (sess w) (sess (snd (after_completion out en now h driver st order_ids fin w)))"
proof (cases "pay_if_gig out h driver st order_ids (sess w)")
  case (Inl e)
  then show ?thesis by (simp add: after_completion_def)
next
  case (Inr s1)
  have "request_step s1 (commit (snd (mark_current_stop_en_route (de_mark en) (de_drop en) now (stop_route_id st) s1)))"
    by (rule request_step_commit [OF door_step_mark [OF assms]])
  then show ?thesis using pay_if_gig_step [OF Inr] request_step_trans
    by (auto simp: after_completion_def Inr Let_def split: option.split)
qed

lemma after_completion_refusal:
  "fst (after_completion out en now h driver st order_ids fin w) = Inl why \<Longrightarrow> why \<in> {Driver_gone, Payout_failed}"
  by (auto simp: after_completion_def pay_if_gig_def Let_def split: sum.splits if_splits option.splits)

definition door_env_ok :: "door_env \<Rightarrow> bool" where
  "door_env_ok en \<longleftrightarrow> keeps_doors (de_lock en) \<and> keeps_keys (de_orders en) \<and> keeps_doors (de_mark en) \<and> keeps_keys (de_drop en)"

lemma complete_refusal_live:
  "complete_refusal v body st d = None \<or> complete_refusal v body st d = Some Wrong_pin \<Longrightarrow> stop_status_of st = Stop_arrived"
  by (auto simp: complete_refusal_def Let_def split: if_splits)

lemma complete_refusal_wrong_pin:
  "complete_refusal v body st d = Some Wrong_pin \<Longrightarrow> ev_pin_attempts (stop_evidence_of st) < MAX_PIN_VERIFICATION_ATTEMPTS"
  by (auto simp: complete_refusal_def pin_refusal_def Let_def split: if_splits option.splits)

lemma complete_step:
  assumes "door_env_ok en" "complete_stop out en now h sid driver body w = (res, w')"
  shows "request_step (sess w) (sess w') \<and>
    (base (sess w) = db (sess w) \<and> doors_ok (sess w) \<and> res = Inl Wrong_pin \<longrightarrow> (\<forall>r. lookup_by stop_id sid (stops (db (sess w))) = Some r \<longrightarrow>
      (\<exists>r'. lookup_by stop_id sid (stops (db (sess w'))) = Some r' \<and>
        ev_pin_attempts (stop_evidence_of r) + 1 \<le> ev_pin_attempts (stop_evidence_of r'))))"
proof -
  have en: "keeps_doors (de_lock en)" "keeps_keys (de_orders en)" "keeps_doors (de_mark en)" "keeps_keys (de_drop en)"
    using assms(1) by (simp_all add: door_env_ok_def)
  obtain found s1 where l: "get_owned_stop_on_locked_route (de_lock en) sid driver (sess w) = (found, s1)" by fastforce
  note s1 = locked_stop [OF l en(1)]
  show ?thesis
  proof (cases found)
    case None
    then show ?thesis using assms(2) l s1 by (auto simp: complete_stop_def request_step_rollback)
  next
    case (Some st)
    note st = s1 [THEN conjunct2, THEN conjunct2, rule_format, OF Some]
    let ?r = "complete_refusal (ou_validate out) body st (db s1)"
    consider (replay) "stop_status_of st = Stop_completed" | (wrong) "stop_status_of st \<noteq> Stop_completed" "?r = Some Wrong_pin"
      | (refused) why where "stop_status_of st \<noteq> Stop_completed" "?r = Some why" "why \<noteq> Wrong_pin" | (passed) "stop_status_of st \<noteq> Stop_completed" "?r = None"
      by (cases ?r) auto
    then show ?thesis
    proof cases
      case replay
      then show ?thesis using assms(2) l s1 Some by (auto simp: complete_stop_def)
    next
      case wrong
      let ?g = "set_evidence (\<lambda>e. e\<lparr>ev_pin_attempts := ev_pin_attempts e + 1\<rparr>)"
      have live: "stop_status_of st \<notin> set TERMINAL_STOPS" using complete_refusal_live wrong(2) by (force simp: TERMINAL_STOPS_def)
      have w': "res = Inl Wrong_pin" "sess w' = commit (s1\<lparr>db := update_stop sid ?g (db s1)\<rparr>)"
        using assms(2) l Some wrong by (auto simp: complete_stop_def)
      have "stop_stays st (?g st) \<and> (stop_ok st \<longrightarrow> stop_ok (?g st))"
        using live complete_refusal_wrong_pin [OF wrong(2)] by (auto simp: stop_stays_def stop_ok_def set_evidence_def)
      then have "door_step s1 (s1\<lparr>db := update_stop sid ?g (db s1)\<rparr>)" using st by (intro door_step_update) auto
      then have req: "request_step (sess w) (sess w')" unfolding w'(2) using s1 door_step_trans by (blast intro: request_step_commit)
      have new: "lookup_by stop_id sid (stops (db (sess w'))) = Some (?g st)"
        using st unfolding w'(2) by (simp add: commit_def update_stop_def lookup_by_update_where)
      have "ev_pin_attempts (stop_evidence_of r) + 1 \<le> ev_pin_attempts (stop_evidence_of (?g st))"
        if "doors_ok (sess w)" "lookup_by stop_id sid (stops (db (sess w))) = Some r" for r
      proof -
        have "stop_stays r st" using keeps_stopsD [OF _ that(2)] s1 st that(1) unfolding door_step_def by force
        then show ?thesis by (simp add: stop_stays_def set_evidence_def)
      qed
      with req new show ?thesis by blast
    next
      case (refused why)
      then have "res = Inl why" "sess w' = rollback s1" using assms(2) l Some by (auto simp: complete_stop_def split: stop_refusal.splits)
      with s1 refused(3) show ?thesis by (simp add: request_step_rollback)
    next
      case passed
      let ?ids = "stop_order_ids sid (db s1)"
      have live: "stop_status_of st \<notin> set TERMINAL_STOPS" using complete_refusal_live [of "ou_validate out" body st] passed(2) by (force simp: TERMINAL_STOPS_def)
      have look: "lookup_by stop_id (stop_id st) (stops (db s1)) = Some st" using st by simp
      obtain fin s2 where t: "complete_txn out en now body st ?ids s1 = (Inr fin, s2)" "door_step s1 s2" "base s2 = db s2"
        using complete_txn_step [OF en(2) look live] by blast
      have w': "(res, w') = after_completion out en now h driver st ?ids fin (w\<lparr>sess := s2\<rparr>)"
        using assms(2) l Some passed t(1) by (simp add: complete_stop_def)
      have "request_step (sess w) s2" using s1 t(2,3) door_step_trans by (auto simp: request_step_def)
      moreover have "request_step s2 (sess w')"
        using after_completion_step [OF en(3,4), of "w\<lparr>sess := s2\<rparr>" out now h driver st ?ids fin] w' [symmetric] by simp
      moreover have "res \<noteq> Inl Wrong_pin"
        using after_completion_refusal [of out en now h driver st ?ids fin "w\<lparr>sess := s2\<rparr>"] w' [symmetric] by auto
      ultimately show ?thesis using request_step_trans by blast
    qed
  qed
qed


lemma fail_orders_step:
  assumes "keeps_keys (de_orders en)"
  shows "door_step s (fail_orders en now reason order_ids s)"
proof -
  let ?s1 = "snd (advance_orders (de_orders en) now None None order_ids Delivery_failed s)"
  have "door_step ?s1 (?s1\<lparr>db := (db ?s1)\<lparr>orders := update_where p (\<lambda>r. r\<lparr>ord_failure_reason := Some reason\<rparr>) (orders (db ?s1))\<rparr>\<rparr>)" for p
    by (rule door_step_same) (simp_all add: map_update_where_inv)
  from door_step_trans [OF door_step_advance [OF assms] this] show ?thesis by (simp add: fail_orders_def)
qed

lemma flag_route_step:
  assumes "door_env_ok en"
  shows "door_step s (flag_route out en now rid changed s)"
proof -
  have route: "door_step q (q\<lparr>db := update_route rid f (db q)\<rparr>)" for q f
    by (rule door_step_same) (simp_all add: update_route_def)
  have "door_step q (refresh_etas m now rid (snd (mark_current_stop_en_route (de_mark en) (de_drop en) now rid q)))" for q m
    using door_step_mark [of "de_mark en" "de_drop en"] assms door_step_trans door_step_refresh unfolding door_env_ok_def by blast
  then show ?thesis using route door_step_trans by (simp add: flag_route_def Let_def) blast
qed

lemma other_stops_live:
  assumes "distinct (map stop_id (stops d))"
  shows "set (other_stops st ids d) \<subseteq> set (stops d)" "distinct (map stop_id (other_stops st ids d))"
    "\<forall>r \<in> set (other_stops st ids d). stop_status_of r \<notin> set FINISHED_STOP_STATUSES"
  using assms by (auto simp: other_stops_def distinct_map_sort distinct_map_filter)

text \<open>What follows the write of the flag itself.\<close>

lemma flag_txn_rest:
  assumes "door_env_ok en" "flag_txn out en now reason note st order_ids s = (r, s')"
  shows "door_step (s\<lparr>db := update_stop (stop_id st) (flag_row now reason note) (db s)\<rparr>) s'"
proof -
  let ?s1 = "s\<lparr>db := update_stop (stop_id st) (flag_row now reason note) (db s)\<rparr>"
  define others where "others = (if order_ids = [] then [] else other_stops st order_ids (db ?s1))"
  let ?s2 = "?s1\<lparr>db := snd (take_orders_off_stops order_ids others (db ?s1))\<rparr>"
  let ?s3 = "fail_orders en now reason order_ids ?s2"
  have "door_step ?s1 ?s2" if "doors_ok ?s1"
    using other_stops_live [of "db ?s1"] that by (intro door_step_take_off) (simp_all add: others_def doors_ok_def)
  then have "door_step ?s1 ?s2" unfolding door_step_def by blast
  also have "door_step ?s2 ?s3" using assms(1) by (intro fail_orders_step) (simp add: door_env_ok_def)
  also have "door_step ?s3 (flag_route out en now (stop_route_id st) (others \<noteq> []) ?s3)" by (rule flag_route_step [OF assms(1)])
  finally have "door_step ?s1 (commit (flag_route out en now (stop_route_id st) (others \<noteq> []) ?s3))"
    using door_step_trans [OF _ door_step_commit] by blast
  moreover have "s' = commit (flag_route out en now (stop_route_id st) (others \<noteq> []) ?s3)"
    using assms(2) unfolding flag_txn_def Let_def others_def [symmetric] by (simp add: split_beta)
  ultimately show ?thesis by simp
qed

lemma flag_txn_step:
  assumes "door_env_ok en" "lookup_by stop_id (stop_id st) (stops (db s)) = Some st" "stop_status_of st \<notin> set TERMINAL_STOPS"
    and "flag_txn out en now reason note st order_ids s = (r, s')"
  shows "door_step s s' \<and> base s' = db s'"
proof -
  have "door_step s (s\<lparr>db := update_stop (stop_id st) (flag_row now reason note) (db s)\<rparr>)"
    using assms(2,3) row_stays(3) by (intro door_step_update) auto
  also note flag_txn_rest [OF assms(1,4)]
  finally show ?thesis using assms(4) by (auto simp: flag_txn_def Let_def split_beta commit_def)
qed

lemma flag_step:
  assumes "door_env_ok en"
  shows "request_step (sess w) (sess (snd (flag_stop_issue out en now h sid driver reason note w)))"
proof -
  obtain found s1 where l: "get_owned_stop_on_locked_route (de_lock en) sid driver (sess w) = (found, s1)" by fastforce
  have "keeps_doors (de_lock en)" using assms by (simp add: door_env_ok_def)
  note s1 = locked_stop [OF l this]
  show ?thesis
  proof (cases "found = None \<or> stop_status_of (the found) \<in> set TERMINAL_STOPS")
    case True
    then show ?thesis using l s1 by (auto simp: flag_stop_issue_def request_step_rollback split: option.splits)
  next
    case False
    then obtain st where st: "found = Some st" "stop_status_of st \<notin> set TERMINAL_STOPS" by auto
    obtain taken changed fin s2 where t: "flag_txn out en now reason note st (stop_order_ids sid (db s1)) s1 = ((taken, changed, fin), s2)"
      by (metis prod.exhaust)
    have "door_step s1 s2 \<and> base s2 = db s2" using flag_txn_step [OF assms _ st(2) t] s1 st(1) by simp
    then have "request_step (sess w) s2" using s1 door_step_trans by (auto simp: request_step_def)
    moreover have "sess (snd (flag_stop_issue out en now h sid driver reason note w)) = s2"
      using l st t by (auto simp: flag_stop_issue_def Let_def TERMINAL_STOPS_def split: option.split)
    ultimately show ?thesis by simp
  qed
qed

section \<open>A driver's day\<close>

datatype door_op =
    Arriving door_env instant uuid uuid "(rat option \<times> rat option \<times> rat option) option"
  | Counting "db \<Rightarrow> db" uuid uuid int
  | Scanning "db \<Rightarrow> db" instant hub uuid uuid string
  | Completing door_env instant hub uuid uuid complete_body
  | Flagging door_env instant hub uuid uuid string "string option"

fun door_stop :: "door_op \<Rightarrow> uuid" where
  "door_stop (Arriving en now sid driver body) = sid"
| "door_stop (Counting others sid driver n) = sid"
| "door_stop (Scanning others now h sid driver barcode) = sid"
| "door_stop (Completing en now h sid driver body) = sid"
| "door_stop (Flagging en now h sid driver reason note) = sid"

fun door_op_ok :: "door_op \<Rightarrow> bool" where
  "door_op_ok (Arriving en now sid driver body) \<longleftrightarrow> door_env_ok en"
| "door_op_ok (Counting others sid driver n) \<longleftrightarrow> keeps_doors others"
| "door_op_ok (Scanning others now h sid driver barcode) \<longleftrightarrow> keeps_doors others"
| "door_op_ok (Completing en now h sid driver body) \<longleftrightarrow> door_env_ok en"
| "door_op_ok (Flagging en now h sid driver reason note) \<longleftrightarrow> door_env_ok en"

fun do_door :: "outside \<Rightarrow> door_op \<Rightarrow> world \<Rightarrow> (stop_refusal + unit) \<times> world" where
  "do_door out (Arriving en now sid driver body) w =
     (case arrive_at_stop out en now sid driver body (sess w) of (r, s) \<Rightarrow> (r, w\<lparr>sess := s\<rparr>))"
| "do_door out (Counting others sid driver n) w = (case scan_parcels others sid driver n (sess w) of (r, s) \<Rightarrow> (r, w\<lparr>sess := s\<rparr>))"
| "do_door out (Scanning others now h sid driver barcode) w =
     (case scan_parcel others now h sid driver barcode (sess w) of (r, s) \<Rightarrow> (r, w\<lparr>sess := s\<rparr>))"
| "do_door out (Completing en now h sid driver body) w = complete_stop out en now h sid driver body w"
| "do_door out (Flagging en now h sid driver reason note) w = flag_stop_issue out en now h sid driver reason note w"

fun run_doors :: "outside \<Rightarrow> door_op list \<Rightarrow> world \<Rightarrow> (uuid \<times> (stop_refusal + unit)) list \<times> world" where
  "run_doors out [] w = ([], w)"
| "run_doors out (op # ops) w =
     (let (r, w1) = do_door out op w; (rs, w2) = run_doors out ops w1 in ((door_stop op, r) # rs, w2))"

definition wrong_pins :: "uuid \<Rightarrow> (uuid \<times> (stop_refusal + unit)) list \<Rightarrow> int" where
  "wrong_pins sid rs = int (length (filter (\<lambda>(i, r). i = sid \<and> r = Inl Wrong_pin) rs))"

lemma refusal_not_wrong_pin:
  "fst (arrive_at_stop out en now sid driver pos s) \<noteq> Inl Wrong_pin"
  "fst (scan_parcels others sid driver n s) \<noteq> Inl Wrong_pin"
  "fst (scan_parcel others now h sid driver barcode s) \<noteq> Inl Wrong_pin"
  "fst (flag_stop_issue out en now h sid driver reason note w) \<noteq> Inl Wrong_pin"
  by (auto simp: arrive_at_stop_def scan_parcels_def scan_parcel_def flag_stop_issue_def stop_at_door_def Let_def
      split: prod.splits option.splits sum.splits if_splits)


lemma do_door_step:
  assumes "do_door out op w = (res, w')" "door_op_ok op"
  shows "request_step (sess w) (sess w') \<and>
    (base (sess w) = db (sess w) \<and> doors_ok (sess w) \<and> res = Inl Wrong_pin \<longrightarrow>
      (\<forall>r. lookup_by stop_id (door_stop op) (stops (db (sess w))) = Some r \<longrightarrow>
      (\<exists>r'. lookup_by stop_id (door_stop op) (stops (db (sess w'))) = Some r' \<and>
        ev_pin_attempts (stop_evidence_of r) + 1 \<le> ev_pin_attempts (stop_evidence_of r'))))"
proof (cases op)
  case (Arriving en now sid driver body)
  with assms arrive_step [of en "sess w" out now sid driver body] refusal_not_wrong_pin(1) [of out en now sid driver body "sess w"] show ?thesis
    by (auto simp: split_beta door_env_ok_def)
next
  case (Counting others sid driver n)
  with assms scan_step [of others "sess w" sid driver n] refusal_not_wrong_pin(2) [of others sid driver n "sess w"] show ?thesis
    by (auto simp: split_beta)
next
  case (Scanning others now h sid driver barcode)
  with assms scan_parcel_step [of others "sess w" now h sid driver barcode] refusal_not_wrong_pin(3) [of others now h sid driver barcode "sess w"]
  show ?thesis by (auto simp: split_beta)
next
  case (Completing en now h sid driver body)
  with assms complete_step [of en out now h sid driver body w res w'] show ?thesis by simp
next
  case (Flagging en now h sid driver reason remark)
  with assms flag_step [of en w out now h sid driver reason remark] refusal_not_wrong_pin(4) [of out en now h sid driver reason remark w]
  show ?thesis by auto
qed

text \<open>
  (C7) Through any sequence of arrivals, counts, scans, completions and flags, by any drivers, and whatever others
  commit in between that keeps it too, a stop row stays well formed: its PIN attempts between nought and five, an arrived
  stop with its time, a completed stop with its time and, for a delivery, its proof, a failed stop with its time and
  reason. A stop that is over stays as it is for good, evidence included. Every wrong PIN is
  counted, so a stop takes five of them at most.
\<close>

theorem stops_stay_in_order:
  assumes "run_doors out ops w = (rs, w')" "doors_ok (sess w)" "base (sess w) = db (sess w)" "\<forall>op \<in> set ops. door_op_ok op"
    and "lookup_by stop_id sid (stops (db (sess w))) = Some r" "stop_ok r"
  shows "\<exists>r'. lookup_by stop_id sid (stops (db (sess w'))) = Some r' \<and> stop_ok r' \<and> stop_stays r r' \<and>
    ev_pin_attempts (stop_evidence_of r) + wrong_pins sid rs \<le> ev_pin_attempts (stop_evidence_of r') \<and>
    wrong_pins sid rs \<le> 5"
proof -
  have "\<exists>r'. lookup_by stop_id sid (stops (db (sess w'))) = Some r' \<and> stop_ok r' \<and> stop_stays r r' \<and>
    ev_pin_attempts (stop_evidence_of r) + wrong_pins sid rs \<le> ev_pin_attempts (stop_evidence_of r')"
    using assms
  proof (induction ops arbitrary: w rs r)
    case Nil
    then show ?case by (auto simp: wrong_pins_def)
  next
    case (Cons op ops)
    obtain res w1 where a: "do_door out op w = (res, w1)" by fastforce
    obtain rs1 w2 where "run_doors out ops w1 = (rs1, w2)" by fastforce
    then have rs: "run_doors out ops w1 = (rs1, w')" "rs = (door_stop op, res) # rs1"
      using Cons.prems(1) a by simp_all
    note step = do_door_step [OF a, unfolded request_step_def door_step_def]
    have ok: "base (sess w1) = db (sess w1)" "doors_ok (sess w1)" "keeps_stops (stops (db (sess w))) (stops (db (sess w1)))"
      using step Cons.prems(2-4) by auto
    obtain r1 where r1: "lookup_by stop_id sid (stops (db (sess w1))) = Some r1" "stop_stays r r1" "stop_ok r1"
      using keeps_stopsD [OF ok(3) Cons.prems(5)] Cons.prems(6) by blast
    have inc: "ev_pin_attempts (stop_evidence_of r) + (if door_stop op = sid \<and> res = Inl Wrong_pin then 1 else 0) \<le> ev_pin_attempts (stop_evidence_of r1)"
      using step Cons.prems(2-5) r1(1,2) by (auto simp: stop_stays_def)
    have all: "\<forall>op \<in> set ops. door_op_ok op" using Cons.prems(4) by simp
    obtain r' where r': "lookup_by stop_id sid (stops (db (sess w'))) = Some r'" "stop_ok r'" "stop_stays r1 r'"
        "ev_pin_attempts (stop_evidence_of r1) + wrong_pins sid rs1 \<le> ev_pin_attempts (stop_evidence_of r')"
      using Cons.IH [OF rs(1) ok(2,1) all r1(1,3)] by blast
    have "wrong_pins sid rs = (if door_stop op = sid \<and> res = Inl Wrong_pin then 1 else 0) + wrong_pins sid rs1"
      by (auto simp: wrong_pins_def rs(2))
    with inc r' stop_stays_trans [OF r1(2) r'(3)] show ?case by auto
  qed
  then show ?thesis using assms(6) by (auto simp: stop_ok_def MAX_PIN_VERIFICATION_ATTEMPTS_def)
qed

section \<open>A delivery with a PIN\<close>

definition alone_door :: door_env where
  "alone_door = \<lparr>de_lock = (\<lambda>d. d), de_orders = no_interference, de_mark = (\<lambda>d. d), de_drop = no_interference,
     de_load = (\<lambda>f. f), de_free = (\<lambda>f. f)\<rparr>"

lemma alone_door_ok: "door_env_ok alone_door"
  by (simp add: alone_door_def door_env_ok_def keeps_doors_def keeps_sane_def interfere_db_def keeps_keys_def no_interference_def)

definition sample_outside :: outside where
  "sample_outside = \<lparr>ou_miles = (\<lambda>_ _ _ _. 1), ou_validate = count_only, ou_token = (\<lambda>_. ''tok''), ou_pay_out = (\<lambda>_ _ _. Transfer_failed)\<rparr>"

definition sample_door_tables :: "string \<Rightarrow> db" where
  "sample_door_tables employment = sample_route_tables\<lparr>
     orders := [(sample_order 7 En_route_drop)\<lparr>ord_delivery_lat := Some 1, ord_delivery_lng := Some 2\<rparr>],
     shops := [sample_shop 3 1 1],
     stops := [sample_stop 10 1 Stop_completed Pickup, (sample_stop 11 2 Stop_arrived Dropoff)\<lparr>stop_arrived_at := Some 3,
       stop_evidence_of := no_evidence\<lparr>ev_delivery_pin := Some ''1234''\<rparr>\<rparr>],
     ops_of := (ops_of sample_route_tables)\<lparr>driver_rows := [\<lparr>driver_id = 3, driver_hub_id = 1, driver_is_active = True,
       driver_vehicle_capacity_units = 5, driver_employment_type = employment, driver_stripe_account = Some ''acct'',
       driver_hourly_rate_cents = None, driver_status_text = ''off_shift''\<rparr>]\<rparr>\<rparr>"

definition sample_door_world :: "string \<Rightarrow> world" where
  "sample_door_world employment = (sample_world [])\<lparr>sess := (sample_session [])\<lparr>db := sample_door_tables employment, base := sample_door_tables employment\<rparr>\<rparr>"

definition pin_body :: "string \<Rightarrow> complete_body" where
  "pin_body pin = sample_body\<lparr>cb_method := By_pin, cb_photo_url := None, cb_photo_urls := [], cb_pin := Some pin\<rparr>"

lemmas sample_door_defs = sample_door_world_def sample_door_tables_def sample_route_tables_def sample_world_def sample_session_def sample_tables_def
  sample_stop_def sample_order_def no_evidence_def

lemma sample_door_ok: "doors_ok (sess (sample_door_world e))" "base (sess (sample_door_world e)) = db (sess (sample_door_world e))"
  by (simp_all add: doors_ok_def sane_def session_ok_def sample_door_defs)

definition sample_drop :: stop_row where
  "sample_drop = (sample_stop 11 2 Stop_arrived Dropoff)\<lparr>stop_arrived_at := Some 3, stop_evidence_of := no_evidence\<lparr>ev_delivery_pin := Some ''1234''\<rparr>\<rparr>"

lemma sample_drop_at: "lookup_by stop_id 11 (stops (db (sess (sample_door_world e)))) = Some sample_drop"
  by (simp add: sample_drop_def sample_door_defs)

lemma alone_lock: "interfere_db (de_lock alone_door) s = s"
  by (simp add: alone_door_def)

theorem stops_stay_in_order_witness:
  "wrong_pins 11 (fst (run_doors sample_outside (replicate 2 (Completing alone_door 5 1 11 3 (pin_body ''0000''))) (sample_door_world ''staff''))) = 2 \<and>
   (\<exists>r'. lookup_by stop_id 11 (stops (db (sess (snd (run_doors sample_outside (replicate 2 (Completing alone_door 5 1 11 3 (pin_body ''0000'')))
     (sample_door_world ''staff'')))))) = Some r' \<and> stop_ok r' \<and> 2 \<le> ev_pin_attempts (stop_evidence_of r'))"
proof -
  let ?ops = "replicate 2 (Completing alone_door 5 1 11 3 (pin_body ''0000''))"
  let ?r = "run_doors sample_outside ?ops (sample_door_world ''staff'')"
  have w: "wrong_pins 11 (fst ?r) = 2" by code_simp
  have ok: "stop_ok sample_drop" "\<forall>op \<in> set ?ops. door_op_ok op"
    by (simp_all add: sample_drop_def sample_stop_def stop_ok_def no_evidence_def MAX_PIN_VERIFICATION_ATTEMPTS_def alone_door_ok numeral_2_eq_2)
  have "ev_pin_attempts (stop_evidence_of sample_drop) = 0" by (simp add: sample_drop_def no_evidence_def)
  with stops_stay_in_order [OF prod.collapse [symmetric] sample_door_ok ok(2) sample_drop_at [of "''staff''"] ok(1), of sample_outside] w
  show ?thesis by auto
qed

end
