(* ===== verification/Stop_Outcomes.thy ===== *)
theory Stop_Outcomes
  imports Stop_Life
begin

text \<open>
  What completing and flagging a stop achieve: what a completed stop went through, what happens when
  a payout fails, which deliveries reach the outcome ledger, and what a flag takes off the route.
\<close>

section \<open>What a completed stop went through\<close>

lemma complete_refusal_None:
  assumes "complete_refusal v body st d = None"
  shows "stop_status_of st = Stop_arrived" "stop_type_of st = Pickup \<longrightarrow> stop_parcel_count st \<le> stop_scanned_count st"
    "stop_type_of st = Dropoff \<longrightarrow> \<not> pickup_pending st d \<and> assert_cod_settled (stop_id st) d = None \<and>
       assert_proof_satisfied (resolve_stop_proof v (stop_id st) d) (cb_method body) (all_photo_urls body) (cb_signature_url body)
         (cb_method body = By_pin) = None"
    "cb_method body = By_pin \<longrightarrow> ev_delivery_pin (stop_evidence_of st) \<noteq> None \<and> cb_pin body = ev_delivery_pin (stop_evidence_of st) \<and>
       ev_pin_attempts (stop_evidence_of st) < MAX_PIN_VERIFICATION_ATTEMPTS"
  using assms by (auto simp: complete_refusal_def pin_refusal_def Let_def split: if_splits option.splits)

text \<open>The cases of a completion, with the stop read under the lock of its route.\<close>

lemma complete_cases [consumes 2]:
  assumes "complete_stop out en now h sid driver body w = (res, w')" "s1 = interfere_db (de_lock en) (sess w)"
  obtains (missing) "get_owned_stop sid driver (db (sess w)) = None" "w' = w\<lparr>sess := rollback (sess w)\<rparr>" "res = Inl Stop_not_found"
  | (gone) "lookup_by stop_id sid (stops (db s1)) = None" "res = Inl Stop_not_found" "w' = w\<lparr>sess := rollback s1\<rparr>"
  | (replay) st where "get_owned_stop sid driver (db (sess w)) \<noteq> None" "lookup_by stop_id sid (stops (db s1)) = Some st"
      "stop_status_of st = Stop_completed" "res = Inr ()" "w' = w\<lparr>sess := s1\<rparr>"
  | (wrong) st where "lookup_by stop_id sid (stops (db s1)) = Some st" "stop_status_of st = Stop_arrived" "res = Inl Wrong_pin"
      "complete_refusal (ou_validate out) body st (db s1) = Some Wrong_pin"
      "w' = w\<lparr>sess := commit (s1\<lparr>db := update_stop sid (set_evidence (\<lambda>e. e\<lparr>ev_pin_attempts := ev_pin_attempts e + 1\<rparr>)) (db s1)\<rparr>)\<rparr>"
  | (refused) st why where "lookup_by stop_id sid (stops (db s1)) = Some st" "stop_status_of st \<noteq> Stop_completed"
      "complete_refusal (ou_validate out) body st (db s1) = Some why" "res = Inl why" "w' = w\<lparr>sess := rollback s1\<rparr>"
  | (passed) st where "get_owned_stop sid driver (db (sess w)) \<noteq> None" "lookup_by stop_id sid (stops (db s1)) = Some st"
      "complete_refusal (ou_validate out) body st (db s1) = None" "stop_id st = sid"
      "(res, w') = (case complete_txn out en now body st (stop_order_ids sid (db s1)) s1 of
          (Inl err, s2) \<Rightarrow> (Inl Outcome_failed, w\<lparr>sess := rollback s2\<rparr>)
        | (Inr fin, s2) \<Rightarrow> after_completion out en now h driver st (stop_order_ids sid (db s1)) fin (w\<lparr>sess := s2\<rparr>))"
proof (cases "get_owned_stop sid driver (db (sess w))")
  case None
  then show thesis using assms by (intro missing) (auto simp: complete_stop_def get_owned_stop_on_locked_route_def)
next
  case (Some st0)
  then have l: "get_owned_stop_on_locked_route (de_lock en) sid driver (sess w) = (lookup_by stop_id sid (stops (db s1)), s1)"
    by (simp add: get_owned_stop_on_locked_route_def assms(2) Let_def)
  show thesis
  proof (cases "lookup_by stop_id sid (stops (db s1))")
    case None
    then show thesis using assms(1) l by (intro gone) (auto simp: complete_stop_def)
  next
    case st: (Some st)
    have id: "stop_id st = sid" using lookup_by_Some [OF st] by simp
    show thesis
    proof (cases "stop_status_of st = Stop_completed")
      case True
      then show thesis using assms(1) l st Some by (intro replay [of st]) (auto simp: complete_stop_def)
    next
      case open1: False
      show thesis
      proof (cases "complete_refusal (ou_validate out) body st (db s1)")
        case None
        show thesis
          using assms(1) l st Some open1 None id by (intro passed [of st]) (simp_all add: complete_stop_def Let_def)
      next
        case why: (Some why)
        show thesis
        proof (cases "why = Wrong_pin")
          case True
          then show thesis using assms(1) l st why open1 complete_refusal_live [of "ou_validate out" body st "db s1"]
            by (intro wrong [of st]) (auto simp: complete_stop_def)
        next
          case False
          then show thesis using assms(1) l st why open1
            by (intro refused [of st why]) (auto simp: complete_stop_def split: stop_refusal.splits)
        qed
      qed
    qed
  qed
qed

text \<open>
  (C6) A completed stop was earned. If a request that may end any way it does (even in an error after its commit) leaves
  completed a stop that, read under its route's lock, was not over, then the stop belongs to a route of this driver, who had arrived; a
  pickup had all its parcels scanned; a delivery had every pickup of its orders on the route over, its cash settled and the
  proof its orders ask for; a PIN, where one was given as proof, was the one issued and came before the fifth wrong
  one; and the row holds this request's proof and time.
\<close>

theorem completed_stop_was_earned:
  assumes "complete_stop out en now h sid driver body w = (res, w')" "door_env_ok en" "doors_ok (sess w)" "base (sess w) = db (sess w)"
    and s1: "s1 = interfere_db (de_lock en) (sess w)"
    and "lookup_by stop_id sid (stops (db s1)) = Some st" "stop_status_of st \<notin> set TERMINAL_STOPS"
    and "lookup_by stop_id sid (stops (db (sess w'))) = Some r'" "stop_status_of r' = Stop_completed"
  shows "get_owned_stop sid driver (db (sess w)) \<noteq> None \<and> stop_status_of st = Stop_arrived \<and>
    (stop_type_of st = Pickup \<longrightarrow> stop_parcel_count st \<le> stop_scanned_count st) \<and>
    (stop_type_of st = Dropoff \<longrightarrow>
       (\<forall>p \<in> set (stops (db s1)). stop_route_id p = stop_route_id st \<and> stop_type_of p = Pickup \<and>
          (\<exists>i. i \<in> set (stop_order_ids (stop_id p) (db s1)) \<and> i \<in> set (stop_order_ids sid (db s1))) \<longrightarrow> stop_status_of p \<in> set TERMINAL_STOPS) \<and>
       assert_cod_settled sid (db s1) = None \<and>
       assert_proof_satisfied (resolve_stop_proof (ou_validate out) sid (db s1)) (cb_method body) (all_photo_urls body) (cb_signature_url body)
         (cb_method body = By_pin) = None) \<and>
    (cb_method body = By_pin \<longrightarrow> ev_delivery_pin (stop_evidence_of st) \<noteq> None \<and> cb_pin body = ev_delivery_pin (stop_evidence_of st) \<and>
       ev_pin_attempts (stop_evidence_of st) < MAX_PIN_VERIFICATION_ATTEMPTS) \<and>
    stop_completed_at r' = Some now \<and> stop_evidence_of r' = stop_evidence_of (complete_row now body st)"
proof -
  have en: "keeps_doors (de_lock en)" "keeps_keys (de_orders en)" "keeps_doors (de_mark en)" "keeps_keys (de_drop en)"
    using assms(2) by (simp_all add: door_env_ok_def)
  have same: "rollback s1 = s1" "rollback (sess w) = sess w" using assms(4) by (simp_all add: s1 rollback_def interfere_db_def)
  have over: "stop_status_of st \<noteq> Stop_completed" using assms(7) by (auto simp: TERMINAL_STOPS_def)
  from assms(1) s1 show ?thesis
  proof (cases rule: complete_cases)
    case missing
    have "door_step (sess w) s1" using door_step_others [OF en(1)] by (simp add: s1)
    with assms(3) have "keeps_stops (stops (db (sess w))) (stops (db s1))" by (simp add: door_step_def)
    from keeps_stopsD [OF this, of sid r'] assms(6-9) missing(2) same show ?thesis by (auto simp: stop_stays_def TERMINAL_STOPS_def)
  next
    case (wrong st')
    then have "stop_status_of r' = stop_status_of st"
      using assms(6,8) by (auto simp: commit_def update_stop_def lookup_by_update_where set_evidence_def)
    with assms(9) over show ?thesis by simp
  next
    case (passed st')
    have st: "st' = st" using passed(2) assms(6) by simp
    note ok = complete_refusal_None [OF passed(3) [unfolded st]]
    have id: "stop_id st = sid" using passed(4) st by simp
    have look: "lookup_by stop_id (stop_id st) (stops (db s1)) = Some st" using assms(6) id by simp
    obtain fin s2 where t: "complete_txn out en now body st (stop_order_ids sid (db s1)) s1 = (Inr fin, s2)" "base s2 = db s2"
        "door_step (s1\<lparr>db := update_stop sid (complete_row now body) (db s1)\<rparr>) s2"
      using complete_txn_step [OF en(2) look assms(7)] id by blast
    have "request_step s2 (sess w')"
      using after_completion_step [OF en(3,4), of "w\<lparr>sess := s2\<rparr>" out now h driver st "stop_order_ids sid (db s1)" fin] passed(5) [symmetric]
      by (simp add: st t(1))
    then have step: "door_step (s1\<lparr>db := update_stop sid (complete_row now body) (db s1)\<rparr>) (sess w')"
      using t(2,3) door_step_trans by (auto simp: request_step_def)
    have "door_step (sess w) s1" using door_step_others [OF en(1)] by (simp add: s1)
    moreover have "door_step s1 (s1\<lparr>db := update_stop sid (complete_row now body) (db s1)\<rparr>)"
      using look id assms(7) row_stays(2) by (intro door_step_update) auto
    ultimately have "doors_ok (s1\<lparr>db := update_stop sid (complete_row now body) (db s1)\<rparr>)" using assms(3) by (simp add: door_step_def)
    with step have keep: "keeps_stops (stops (update_stop sid (complete_row now body) (db s1))) (stops (db (sess w')))" by (simp add: door_step_def)
    have "lookup_by stop_id sid (stops (update_stop sid (complete_row now body) (db s1))) = Some (complete_row now body st)"
      using assms(6) id by (simp add: update_stop_def lookup_by_update_where)
    from keeps_stopsD [OF keep this] assms(8)
    have "stop_stays (complete_row now body st) r'" by simp
    then have "stop_completed_at r' = Some now \<and> stop_evidence_of r' = stop_evidence_of (complete_row now body st)"
      by (simp add: stop_stays_def TERMINAL_STOPS_def) (simp add: complete_row_def set_evidence_def)
    with ok passed(1) id show ?thesis by (auto simp: pickup_pending_def)
  qed (use assms(6,8,9) over same in auto)
qed


section \<open>A payout that fails\<close>

lemma completion_committed:
  assumes "door_env_ok en" "complete_refusal v body st (db s) = None" "stop_id st = sid" "lookup_by stop_id sid (stops (db s)) = Some st" "doors_ok s"
  obtains fin s' r where "complete_txn out en now body st order_ids s = (Inr fin, s')" "doors_ok s'" "base s' = db s'"
    "lookup_by stop_id sid (stops (db s')) = Some r" "stop_status_of r = Stop_completed" "stop_type_of r = stop_type_of st"
proof -
  let ?s1 = "s\<lparr>db := update_stop sid (complete_row now body) (db s)\<rparr>"
  have live: "stop_status_of st \<notin> set TERMINAL_STOPS" using complete_refusal_None(1) [OF assms(2)] by (simp add: TERMINAL_STOPS_def)
  obtain fin s' where t: "complete_txn out en now body st order_ids s = (Inr fin, s')" "base s' = db s'" "door_step s s'" "door_step ?s1 s'"
    using complete_txn_step [of en st s out now body order_ids] assms(1,3,4) live unfolding door_env_ok_def by metis
  have "door_step s ?s1" using assms(3,4) live row_stays(2) by (intro door_step_update) auto
  then have keep: "keeps_stops (stops (db ?s1)) (stops (db s'))" using t(4) assms(5) unfolding door_step_def by blast
  have "lookup_by stop_id sid (stops (db ?s1)) = Some (complete_row now body st)"
    using assms(3,4) by (simp add: update_stop_def lookup_by_update_where)
  from keeps_stopsD [OF keep this] obtain r where r: "lookup_by stop_id sid (stops (db s')) = Some r" "stop_stays (complete_row now body st) r" by blast
  have "doors_ok s'" using t(3) assms(5) by (simp add: door_step_def)
  moreover have "stop_status_of r = Stop_completed" "stop_type_of r = stop_type_of st"
    using r(2) by (simp_all add: stop_stays_def complete_row_def set_evidence_def TERMINAL_STOPS_def)
  ultimately show thesis using that t(1,2) r(1) by blast
qed

text \<open>
  (C10) A failed payout is never made good. When the payout provider raises, the delivery is committed and the request ends in an
  error: no payout row is left, the driver's load and status stay as they were and the dispatcher is not told; and every
  later request to complete the stop, in whatever surroundings, writes nothing, so the driver is neither paid nor,
  after a route's last stop, freed.
\<close>

theorem failed_payout_is_never_made_good:
  assumes "complete_stop out en now h sid driver body w = (Inl Payout_failed, w')" "door_env_ok en" "doors_ok (sess w)" "base (sess w) = db (sess w)"
    and "complete_stop out2 en2 now2 h2 sid driver2 body2 w' = (res, w'')" "door_env_ok en2"
  shows "(\<exists>r. lookup_by stop_id sid (stops (db (sess w'))) = Some r \<and> stop_status_of r = Stop_completed \<and> stop_type_of r = Dropoff) \<and>
    base (sess w') = db (sess w') \<and> (\<forall>p \<in> set (payouts (db (sess w'))). pay_stop_id p \<noteq> sid) \<and>
    fleet_of w' = fleet_of w \<and> queue w' = queue w \<and>
    fleet_of w'' = fleet_of w \<and> queue w'' = queue w \<and> sess w'' \<in> {sess w', interfere_db (de_lock en2) (sess w')}"
proof -
  have en: "keeps_doors (de_lock en)" "keeps_doors (de_lock en2)" using assms(2,6) by (simp_all add: door_env_ok_def)
  define s1 where "s1 = interfere_db (de_lock en) (sess w)"
  have s1: "doors_ok s1" using door_step_others [OF en(1), of "sess w"] assms(3) by (simp add: s1_def door_step_def)
  have first: "doors_ok (sess w') \<and> base (sess w') = db (sess w') \<and> (\<forall>p \<in> set (payouts (db (sess w'))). pay_stop_id p \<noteq> sid) \<and>
      fleet_of w' = fleet_of w \<and> queue w' = queue w \<and>
      (\<exists>r. lookup_by stop_id sid (stops (db (sess w'))) = Some r \<and> stop_status_of r = Stop_completed \<and> stop_type_of r = Dropoff)"
    using assms(1) s1_def
  proof (cases rule: complete_cases)
    case (refused st why)
    then show ?thesis by (auto simp: complete_refusal_def pin_refusal_def Let_def split: if_splits option.splits)
  next
    case (passed st)
    obtain fin s2 r where t: "complete_txn out en now body st (stop_order_ids sid (db s1)) s1 = (Inr fin, s2)" "doors_ok s2" "base s2 = db s2"
        "lookup_by stop_id sid (stops (db s2)) = Some r" "stop_status_of r = Stop_completed" "stop_type_of r = stop_type_of st"
      using completion_committed [OF assms(2) passed(3,4,2) s1] by metis
    have a: "after_completion out en now h driver st (stop_order_ids sid (db s1)) fin (w\<lparr>sess := s2\<rparr>) = (Inl Payout_failed, w')"
      using passed(5) t(1) by simp
    have p: "pay_if_gig out h driver st (stop_order_ids sid (db s1)) s2 = Inl Payout_failed \<and> w' = w\<lparr>sess := s2\<rparr>"
      using a by (auto simp: after_completion_def Let_def split: sum.splits if_splits option.splits)
    then have "stop_type_of st = Dropoff \<and> (\<forall>p \<in> set (payouts (db s2)). pay_stop_id p \<noteq> sid)"
      using passed(4) by (auto simp: pay_if_gig_def pay_out_gig_delivery_def Let_def split: if_splits option.splits transfer.splits)
    with p t show ?thesis by auto
  qed simp_all
  then obtain r where r: "lookup_by stop_id sid (stops (db (sess w'))) = Some r" "stop_status_of r = Stop_completed" by blast
  have "door_step (sess w') (interfere_db (de_lock en2) (sess w'))" by (rule door_step_others [OF en(2)])
  then have "keeps_stops (stops (db (sess w'))) (stops (db (interfere_db (de_lock en2) (sess w'))))" using first by (simp add: door_step_def)
  from keeps_stopsD [OF this r(1)] obtain r2 where r2: "lookup_by stop_id sid (stops (db (interfere_db (de_lock en2) (sess w')))) = Some r2"
      "stop_status_of r2 = Stop_completed" using r(2) by (auto simp: stop_stays_def TERMINAL_STOPS_def)
  have "fleet_of w'' = fleet_of w' \<and> queue w'' = queue w' \<and> sess w'' \<in> {sess w', interfere_db (de_lock en2) (sess w')}"
    using assms(5) refl
  proof (cases rule: complete_cases)
    case missing
    then show ?thesis using first by (simp add: rollback_def)
  next
    case (passed st)
    then show ?thesis using r2 complete_refusal_None(1) [OF passed(3)] by simp
  qed (use r2 in auto)
  with first show ?thesis by auto
qed


section \<open>The ledger of deliveries\<close>

abbreviation (input) ledger_of :: "db \<Rightarrow> outcome_row list" where
  "ledger_of d \<equiv> outcome_ledger (ledgers_of (ops_of d))"

lemma refresh_etas_frame: "ignores_stops view \<Longrightarrow> view (db (refresh_etas miles now rid s)) = view (db s)"
  by (cases rule: refresh_cases [of miles now rid "db s"]) (simp_all add: refresh_etas_def ignores_stops_def)

lemma advance_stop_orders_ledger:
  assumes "de_orders en = no_interference" "stop_type_of st = Dropoff" "sane s"
    and "advance_stop_orders en now st ids s = (Inr entries, s')"
  shows "ledger_of (db s') = ledger_of (db s) @ entries \<and> (\<forall>e \<in> set entries. out_kind e = KIND_DELIVERED) \<and>
    map out_subject_id entries = map ord_id (filter (may_move (legal_sources Delivered) Delivered) (read_rows ids s))"
proof (cases "ids = []")
  case True
  then show ?thesis using assms(4) by (simp add: advance_stop_orders_def read_rows_def)
next
  case False
  obtain moved s1 where m: "advance_orders no_interference now (Some now) None ids Delivered s = (moved, s1)" by fastforce
  have ok: "session_ok s" "distinct (map ord_id (orders (db s)))" using assms(3) by (simp_all add: sane_def)
  have "moved = map (\<lambda>r. moved_order r Delivered now (txn_now s)) (filter (may_move (legal_sources Delivered) Delivered) (read_rows ids s))"
    using advance_rows_quiet [OF ok, of "read_rows ids s" 0 "legal_sources Delivered" Delivered now] m False
      distinct_read_rows [OF ok(2), of ids] by (simp add: advance_orders_def precondition_of_def set_read_rows)
  then have ids: "map ord_id moved = map ord_id (filter (may_move (legal_sources Delivered) Delivered) (read_rows ids s))" by simp
  have led: "ledger_of (db s1) = ledger_of (db s)"
    using advance_orders_frame [OF ok(1), of ledger_of no_interference now "Some now" None ids Delivered] m by (simp add: ignores_orders_def)
  show ?thesis
  proof (cases "moved = []")
    case True
    then show ?thesis using assms(1,2,4) m False led ids by (auto simp: advance_stop_orders_def)
  next
    case some: False
    then have r: "record_delivery_outcomes now moved s1 = Inr (entries, s')"
      using assms(1,2,4) m False by (auto simp: advance_stop_orders_def split: sum.splits)
    from record_delivery_outcomes_each [OF r] ledger_fold_add [of entries "db s1"] led ids show ?thesis by simp
  qed
qed

lemma pay_if_gig_ledger: "pay_if_gig out h driver st ids s = Inr s' \<Longrightarrow> ledger_of (db s') = ledger_of (db s)"
  by (auto simp: pay_if_gig_def pay_out_gig_delivery_def Let_def commit_def add_payout_def split: if_splits option.splits transfer.splits)

lemma complete_txn_ledger:
  assumes "complete_txn out en now body st ids s = (Inr fin, s')"
  obtains entries s2 where "advance_stop_orders en now st ids (s\<lparr>db := update_stop (stop_id st) (complete_row now body) (db s)\<rparr>) = (Inr entries, s2)"
    "ledger_of (db s') = ledger_of (db s2)"
proof -
  obtain entries s2 where a: "advance_stop_orders en now st ids (s\<lparr>db := update_stop (stop_id st) (complete_row now body) (db s)\<rparr>) = (Inr entries, s2)"
    using assms by (auto simp: complete_txn_def Let_def split: prod.splits sum.splits)
  have "ledger_of (db (refresh_etas miles now rid q)) = ledger_of (db q)" for miles rid q
    by (rule refresh_etas_frame) (simp add: ignores_stops_def)
  then have "ledger_of (db s') = ledger_of (db s2)"
    using assms a by (auto simp: complete_txn_def Let_def commit_def update_route_def mint_tokens_def split: if_splits)
  with a that show thesis by blast
qed

text \<open>
  (C8) Every delivery is on the ledger once. When a completed drop-off passes its checks and nobody else moves its orders at that moment,
  exactly the orders on the stop that could become delivered get one entry each at the end of the ledger, and no other
  order does, however the request ends after its commit.
\<close>

theorem deliveries_reach_the_ledger:
  assumes "complete_stop out en now h sid driver body w = (res, w')" "door_env_ok en" "doors_ok (sess w)"
    and "s1 = interfere_db (de_lock en) (sess w)" "get_owned_stop sid driver (db (sess w)) \<noteq> None"
    and "lookup_by stop_id sid (stops (db s1)) = Some st" "stop_type_of st = Dropoff" "complete_refusal (ou_validate out) body st (db s1) = None"
    and "de_orders en = no_interference" "\<forall>d. ledger_of (de_mark en d) = ledger_of d"
  shows "\<exists>entries. ledger_of (db (sess w')) = ledger_of (db s1) @ entries \<and> (\<forall>e \<in> set entries. out_kind e = KIND_DELIVERED) \<and>
    map out_subject_id entries =
      map ord_id (filter (may_move (legal_sources Delivered) Delivered) (read_rows (stop_order_ids sid (db s1)) s1))"
proof -
  have en: "keeps_doors (de_lock en)" "keeps_doors (de_mark en)" using assms(2) by (simp_all add: door_env_ok_def)
  let ?ids = "stop_order_ids sid (db s1)"
  have s1: "doors_ok s1" using door_step_others [OF en(1), of "sess w"] assms(3) by (simp add: assms(4) door_step_def)
  have arrived: "stop_status_of st = Stop_arrived" by (rule complete_refusal_None(1) [OF assms(8)])
  have id: "stop_id st = sid" using lookup_by_Some [OF assms(6)] by simp
  from assms(1,4) show ?thesis
  proof (cases rule: complete_cases)
    case (passed st')
    have st: "st' = st" using passed(2) assms(6) by simp
    obtain fin s2 where t: "complete_txn out en now body st ?ids s1 = (Inr fin, s2)" "doors_ok s2" "base s2 = db s2"
      using completion_committed [OF assms(2,8) id assms(6) s1] by metis
    obtain entries s3 where a: "advance_stop_orders en now st ?ids (s1\<lparr>db := update_stop sid (complete_row now body) (db s1)\<rparr>) = (Inr entries, s3)"
        "ledger_of (db s2) = ledger_of (db s3)"
      using complete_txn_ledger [OF t(1)] id by metis
    have "sane (s1\<lparr>db := update_stop sid (complete_row now body) (db s1)\<rparr>)"
      using s1 by (intro sane_db) (simp_all add: doors_ok_def update_stop_def)
    from advance_stop_orders_ledger [OF assms(9,7) this a(1)]
    have led: "ledger_of (db s2) = ledger_of (db s1) @ entries" "\<forall>e \<in> set entries. out_kind e = KIND_DELIVERED"
      "map out_subject_id entries = map ord_id (filter (may_move (legal_sources Delivered) Delivered) (read_rows ?ids s1))"
      using a(2) by (simp_all add: update_stop_def read_rows_def)
    have w': "after_completion out en now h driver st ?ids fin (w\<lparr>sess := s2\<rparr>) = (res, w')" using passed(5) st t(1) by simp
    have "ledger_of (db (sess w')) = ledger_of (db s2)"
    proof (cases "pay_if_gig out h driver st ?ids s2")
      case (Inl e)
      then show ?thesis using w' by (auto simp: after_completion_def)
    next
      case (Inr s4)
      have "doors_ok s4" using pay_if_gig_step [OF Inr] t(2,3) by (simp add: request_step_def door_step_def)
      then have "ledger_of (db (snd (mark_current_stop_en_route (de_mark en) (de_drop en) now (stop_route_id st) s4))) = ledger_of (db s4)"
        using en(2) assms(10) by (intro mark_current_frame) (simp_all add: doors_ok_def keeps_doors_def ignores_orders_def ignores_stops_def)
      then show ?thesis using w' Inr pay_if_gig_ledger [OF Inr]
        by (auto simp: after_completion_def Let_def commit_def split: if_splits option.splits)
    qed
    with led show ?thesis by auto
  qed (use assms(5,6,8) arrived in auto)
qed


section \<open>A flagged stop\<close>

text \<open>Which stops are on which route, and which of them are over.\<close>

definition over_view :: "db \<Rightarrow> (uuid \<times> uuid \<times> bool) list" where
  "over_view d = map (\<lambda>r. (stop_id r, stop_route_id r, stop_status_of r \<in> set FINISHED_STOP_STATUSES)) (stops d)"

lemma over_view_map:
  "(\<And>r. stop_id (g r) = stop_id r \<and> stop_route_id (g r) = stop_route_id r \<and>
     (stop_status_of (g r) \<in> set FINISHED_STOP_STATUSES \<longleftrightarrow> stop_status_of r \<in> set FINISHED_STOP_STATUSES)) \<Longrightarrow>
   over_view (d\<lparr>stops := map g (stops d)\<rparr>) = over_view d"
  by (simp add: over_view_def)

lemma over_view_cong: "stops d = stops d' \<Longrightarrow> over_view d = over_view d'"
  by (simp add: over_view_def)

lemma over_view_write_eta: "over_view (d\<lparr>stops := fold write_eta ws ss\<rparr>) = over_view (d\<lparr>stops := ss\<rparr>)"
proof (induction ws arbitrary: ss)
  case (Cons w ws)
  have "over_view (d\<lparr>stops := write_eta w ss\<rparr>) = over_view (d\<lparr>stops := ss\<rparr>)"
    by (simp add: over_view_def write_eta_def update_where_def)
  with Cons [of "write_eta w ss"] show ?case by simp
qed simp

lemma over_view_refresh: "over_view (db (refresh_etas miles now rid s)) = over_view (db s)"
  by (cases rule: refresh_cases [of miles now rid "db s"]) (simp_all add: refresh_etas_def over_view_write_eta)

lemma over_view_mark:
  assumes "doors_ok s" "keeps_doors others" "\<And>d. stops (others d) = stops d"
  shows "over_view (db (snd (mark_current_stop_en_route others env now rid s))) = over_view (db s)"
proof -
  have o: "doors_ok (interfere_db others s)" using door_step_others [OF assms(2), of s] assms(1) by (simp add: door_step_def)
  have "stops (db (snd (mark_current_stop_en_route others env now rid s))) =
    (case current_stop rid (db s) of None \<Rightarrow> stops (db s)
     | Some c \<Rightarrow> if stop_status_of c = Stop_pending then update_where (\<lambda>r. stop_id r = stop_id c \<and> stop_status_of r = Stop_pending)
           (\<lambda>r. r\<lparr>stop_status_of := Stop_en_route\<rparr>) (stops (others (db s))) else stops (db s))"
    using assms(1) o by (intro mark_current_stops) (simp_all add: doors_ok_def sane_def)
  then show ?thesis
    by (auto simp: over_view_def assms(3) update_where_def FINISHED_STOP_STATUSES_def split: option.split)
qed

text \<open>After the flagged stop's orders were taken off: nothing of the route that is not over carries them.\<close>

definition route_clear :: "uuid \<Rightarrow> uuid list \<Rightarrow> db \<Rightarrow> bool" where
  "route_clear rid ids d \<longleftrightarrow> (\<forall>(i, q, over) \<in> set (over_view d). q = rid \<and> \<not> over \<longrightarrow> set (stop_order_ids i d) \<inter> set ids = {})"

lemma route_clear_cong:
  "over_view d = over_view d' \<Longrightarrow> stop_orders d = stop_orders d' \<Longrightarrow> route_clear rid ids d = route_clear rid ids d'"
  by (simp add: route_clear_def stop_order_ids_def)

lemma taken_off_clear:
  assumes "distinct (map stop_id (stops d))" "lookup_by stop_id (stop_id st) (stops d) = Some st'" "stop_status_of st' \<in> set FINISHED_STOP_STATUSES"
    and "ids \<noteq> []"
  shows "route_clear (stop_route_id st) ids (snd (take_orders_off_stops ids (other_stops st ids d) d))"
  unfolding route_clear_def
proof (clarify)
  let ?o = "other_stops st ids d" let ?d = "snd (take_orders_off_stops ids ?o d)" let ?S = "stop_id ` set ?o"
  note live = other_stops_live [OF assms(1), of st ids]
  note r = take_orders_off_stops_rows [OF live(1) assms(1) live(2), of ids]
  fix i q over assume m: "(i, stop_route_id st, over) \<in> set (over_view ?d)" "\<not> over"
  then obtain x where x: "x \<in> set (stops d)" "i = stop_id x" "stop_route_id (off_row ids ?S d x) = stop_route_id st"
      "stop_status_of (off_row ids ?S d x) \<notin> set FINISHED_STOP_STATUSES"
    by (auto simp: over_view_def r)
  have route: "stop_route_id x = stop_route_id st" using x(3) by (auto simp: off_row_def shed_parcels_def Let_def split_beta split: if_splits)
  show "set (stop_order_ids i ?d) \<inter> set ids = {}"
  proof (cases "i \<in> ?S")
    case True
    then have "left_on ids i d \<noteq> []" using x(2,4) by (auto simp: off_row_def FINISHED_STOP_STATUSES_def)
    then have "off_link ids ?S d l" if "so_stop_id l = i" "so_order_id l \<in> set ids" for l
      using that True by (simp add: off_link_def)
    then show ?thesis by (auto simp: stop_order_ids_def r)
  next
    case False
    then have "stop_status_of x \<notin> set FINISHED_STOP_STATUSES" using x(2,4) by (simp add: off_row_def)
    moreover have "stop_id x \<noteq> stop_id st"
      using calculation lookup_by_distinct [OF assms(1) x(1)] assms(2,3) by auto
    ultimately have "set (stop_order_ids i d) \<inter> set ids = {}"
      using False x(1,2) route by (auto simp: other_stops_def image_iff)
    then show ?thesis by (auto simp: stop_order_ids_def r)
  qed
qed


lemma fail_orders_frame:
  assumes "ignores_orders view" "session_ok s"
  shows "view (db (fail_orders en now reason ids s)) = view (db s)"
  using advance_orders_frame [OF assms(2,1)] assms(1) by (simp add: fail_orders_def ignores_orders_def)

lemma flag_route_clear:
  assumes "door_env_ok en" "doors_ok s" "\<And>d. stops (de_mark en d) = stops d \<and> stop_orders (de_mark en d) = stop_orders d"
  shows "route_clear rid ids (db (flag_route out en now rid2 changed s)) = route_clear rid ids (db s)"
proof -
  have en: "keeps_doors (de_mark en)" using assms(1) by (simp add: door_env_ok_def)
  have up: "doors_ok (s\<lparr>db := update_route rid2 f (db s)\<rparr>)" for f
    using assms(2) by (auto simp: doors_ok_def update_route_def intro: sane_db)
  have clear: "route_clear rid ids (update_route rid2 f d) = route_clear rid ids d" for f d
    by (rule route_clear_cong) (simp_all add: update_route_def over_view_def)
  have "route_clear rid ids (db (refresh_etas m now rid2 q)) = route_clear rid ids (db q)" for m q
    using refresh_etas_frame [of stop_orders] by (intro route_clear_cong over_view_refresh) (simp add: ignores_stops_def)
  moreover have "route_clear rid ids (db (snd (mark_current_stop_en_route (de_mark en) (de_drop en) now rid2 q))) = route_clear rid ids (db q)"
    if "doors_ok q" for q
    using that en assms(3) mark_current_frame [of q "de_mark en" stop_orders "de_drop en" now rid2]
    by (intro route_clear_cong over_view_mark) (simp_all add: doors_ok_def keeps_doors_def ignores_orders_def ignores_stops_def)
  ultimately show ?thesis using up by (simp add: flag_route_def Let_def clear)
qed

lemma flag_txn_keeps_flag:
  assumes "door_env_ok en" "doors_ok s" "lookup_by stop_id (stop_id st) (stops (db s)) = Some st" "stop_status_of st \<notin> set TERMINAL_STOPS"
    and "flag_txn out en now reason remark st ids s = (r, s')"
  shows "\<exists>r'. lookup_by stop_id (stop_id st) (stops (db s')) = Some r' \<and> stop_status_of r' = Stop_failed \<and>
    ev_failure_reason (stop_evidence_of r') = Some reason"
proof -
  let ?s1 = "s\<lparr>db := update_stop (stop_id st) (flag_row now reason remark) (db s)\<rparr>"
  have "door_step s ?s1" using assms(3,4) row_stays(3) by (intro door_step_update) auto
  then have ok1: "doors_ok ?s1" using assms(2) by (simp add: door_step_def)
  have flagged: "lookup_by stop_id (stop_id st) (stops (db ?s1)) = Some (flag_row now reason remark st)"
    using assms(3) by (simp add: update_stop_def lookup_by_update_where)
  have "keeps_stops (stops (db ?s1)) (stops (db s'))" using flag_txn_rest [OF assms(1,5)] ok1 by (simp add: door_step_def)
  from keeps_stopsD [OF this flagged] show ?thesis
    by (auto simp: stop_stays_def flag_row_def set_evidence_def TERMINAL_STOPS_def)
qed

lemma flag_txn_clear:
  assumes "door_env_ok en" "doors_ok s" "lookup_by stop_id (stop_id st) (stops (db s)) = Some st" "stop_status_of st \<notin> set TERMINAL_STOPS"
    and "\<And>d. stops (de_mark en d) = stops d \<and> stop_orders (de_mark en d) = stop_orders d"
    and "flag_txn out en now reason remark st ids s = (r, s')"
  shows "route_clear (stop_route_id st) ids (db s')"
proof -
  let ?s1 = "s\<lparr>db := update_stop (stop_id st) (flag_row now reason remark) (db s)\<rparr>"
  define others where "others = (if ids = [] then [] else other_stops st ids (db ?s1))"
  let ?s2 = "?s1\<lparr>db := snd (take_orders_off_stops ids others (db ?s1))\<rparr>"
  let ?s3 = "fail_orders en now reason ids ?s2"
  have "door_step s ?s1" using assms(3,4) row_stays(3) by (intro door_step_update) auto
  then have ok1: "doors_ok ?s1" using assms(2) by (simp add: door_step_def)
  then have ids: "distinct (map stop_id (stops (db ?s1)))" by (simp add: doors_ok_def)
  have "door_step ?s1 ?s2" using other_stops_live [OF ids] by (intro door_step_take_off) (simp_all add: others_def)
  then have ok2: "doors_ok ?s2" using ok1 by (simp add: door_step_def)
  have "door_step ?s2 ?s3" using assms(1) by (intro fail_orders_step) (simp add: door_env_ok_def)
  then have ok3: "doors_ok ?s3" using ok2 by (simp add: door_step_def)
  have flagged: "lookup_by stop_id (stop_id st) (stops (db ?s1)) = Some (flag_row now reason remark st)"
    using assms(3) by (simp add: update_stop_def lookup_by_update_where)
  have "route_clear (stop_route_id st) ids (db ?s2)"
  proof (cases "ids = []")
    case True
    then show ?thesis by (auto simp: route_clear_def)
  next
    case False
    from taken_off_clear [OF ids flagged _ False] show ?thesis
      using False by (simp add: others_def flag_row_def set_evidence_def FINISHED_STOP_STATUSES_def)
  qed
  also have "route_clear (stop_route_id st) ids (db ?s2) = route_clear (stop_route_id st) ids (db ?s3)"
    using ok2 fail_orders_frame [of over_view ?s2] fail_orders_frame [of stop_orders ?s2]
    by (intro route_clear_cong) (simp_all add: ignores_orders_def over_view_def doors_ok_def sane_def)
  also have "\<dots> = route_clear (stop_route_id st) ids (db (flag_route out en now (stop_route_id st) (others \<noteq> []) ?s3))"
    by (rule flag_route_clear [OF assms(1) ok3 assms(5), symmetric])
  also have "\<dots> = route_clear (stop_route_id st) ids (db s')"
    using assms(6) unfolding flag_txn_def Let_def others_def [symmetric] by (auto simp: split_beta commit_def)
  finally show ?thesis .
qed

text \<open>
  (C9) A flagged stop takes its orders off the route. When a driver flags a stop that is not over, and others respect the lock on
  the route, afterwards the stop is failed with the reason given, and no stop of the route that is still to be done
  carries any of its orders: above all not the delivery after a flagged pickup.
\<close>

theorem flagged_orders_leave_the_route:
  assumes "flag_stop_issue out en now h sid driver reason remark w = (res, w')" "door_env_ok en" "doors_ok (sess w)"
    and "s1 = interfere_db (de_lock en) (sess w)" "get_owned_stop sid driver (db (sess w)) \<noteq> None"
    and "lookup_by stop_id sid (stops (db s1)) = Some st" "stop_status_of st \<notin> set TERMINAL_STOPS"
    and "\<And>d. stops (de_mark en d) = stops d \<and> stop_orders (de_mark en d) = stop_orders d"
  shows "(\<exists>r'. lookup_by stop_id sid (stops (db (sess w'))) = Some r' \<and> stop_status_of r' = Stop_failed \<and>
       ev_failure_reason (stop_evidence_of r') = Some reason) \<and>
    (\<forall>p \<in> set (stops (db (sess w'))). stop_route_id p = stop_route_id st \<and> stop_status_of p \<notin> set FINISHED_STOP_STATUSES \<longrightarrow>
       set (stop_order_ids (stop_id p) (db (sess w'))) \<inter> set (stop_order_ids sid (db s1)) = {})"
proof -
  let ?ids = "stop_order_ids sid (db s1)"
  have en: "keeps_doors (de_lock en)" using assms(2) by (simp add: door_env_ok_def)
  have s1: "doors_ok s1" using door_step_others [OF en, of "sess w"] assms(3) by (simp add: assms(4) door_step_def)
  have id: "stop_id st = sid" using lookup_by_Some [OF assms(6)] by simp
  have look: "lookup_by stop_id (stop_id st) (stops (db s1)) = Some st" using assms(6) id by simp
  obtain taken changed fin s2 where t: "flag_txn out en now reason remark st ?ids s1 = ((taken, changed, fin), s2)"
    by (metis prod.exhaust)
  have "get_owned_stop_on_locked_route (de_lock en) sid driver (sess w) = (Some st, s1)"
    using assms(4-6) by (auto simp: get_owned_stop_on_locked_route_def Let_def)
  then have w': "sess w' = s2"
    using assms(1,7) t by (auto simp: flag_stop_issue_def Let_def TERMINAL_STOPS_def split: if_splits option.splits)
  have "route_clear (stop_route_id st) ?ids (db s2)" by (rule flag_txn_clear [OF assms(2) s1 look assms(7,8) t])
  then have "set (stop_order_ids (stop_id p) (db s2)) \<inter> set ?ids = {}"
    if "p \<in> set (stops (db s2))" "stop_route_id p = stop_route_id st" "stop_status_of p \<notin> set FINISHED_STOP_STATUSES" for p
    using that unfolding route_clear_def over_view_def by fastforce
  moreover obtain r' where "lookup_by stop_id sid (stops (db s2)) = Some r'" "stop_status_of r' = Stop_failed"
      "ev_failure_reason (stop_evidence_of r') = Some reason"
    using flag_txn_keeps_flag [OF assms(2) s1 look assms(7) t] id by auto
  ultimately show ?thesis using w' by blast
qed

theorem completed_stop_was_earned_witness:
  "\<exists>r' :: stop_row. lookup_by stop_id 11 (stops (db (sess (snd (complete_stop sample_outside alone_door 5 1 11 3 (pin_body ''1234'')
     (sample_door_world ''staff'')))))) = Some r' \<and> stop_completed_at r' = Some 5"
proof -
  let ?c = "complete_stop sample_outside alone_door 5 1 11 3 (pin_body ''1234'') (sample_door_world ''staff'')"
  have c: "(case lookup_by stop_id 11 (stops (db (sess (snd ?c)))) of None \<Rightarrow> False | Some r \<Rightarrow> stop_status_of r = Stop_completed)"
    by code_simp
  then obtain r' where r': "lookup_by stop_id 11 (stops (db (sess (snd ?c)))) = Some r'" "stop_status_of r' = Stop_completed"
    by (auto split: option.splits)
  have "stop_status_of sample_drop \<notin> set TERMINAL_STOPS" by (simp add: sample_drop_def sample_stop_def TERMINAL_STOPS_def)
  from completed_stop_was_earned [OF prod.collapse [symmetric] alone_door_ok sample_door_ok refl _ this r'] r'(1)
  show ?thesis by (simp add: alone_lock sample_drop_at)
qed

theorem failed_payout_is_never_made_good_witness:
  "fleet_of (snd (complete_stop sample_outside alone_door 5 1 11 3 (pin_body ''1234'') (sample_door_world ''gig''))) = sample_fleet"
proof -
  let ?c = "complete_stop sample_outside alone_door 5 1 11 3 (pin_body ''1234'') (sample_door_world ''gig'')"
  have "fst ?c = Inl Payout_failed" by code_simp
  then have "?c = (Inl Payout_failed, snd ?c)" by (metis prod.collapse)
  from failed_payout_is_never_made_good [OF this alone_door_ok sample_door_ok prod.collapse [symmetric] alone_door_ok]
  show ?thesis by (simp add: sample_door_world_def sample_world_def)
qed

theorem deliveries_reach_the_ledger_witness:
  "\<exists>entries. outcome_ledger (ledgers_of (ops_of (db (sess (snd (complete_stop sample_outside alone_door 5 1 11 3 (pin_body ''1234'')
     (sample_door_world ''gig''))))))) = entries \<and> map out_subject_id entries = [7]"
proof -
  have 1: "get_owned_stop 11 3 (db (sess (sample_door_world ''gig''))) \<noteq> None"
    "complete_refusal (ou_validate sample_outside) (pin_body ''1234'') sample_drop (db (sess (sample_door_world ''gig''))) = None"
    "map ord_id (filter (may_move (legal_sources Delivered) Delivered) (read_rows (stop_order_ids 11 (db (sess (sample_door_world ''gig'')))) (sess (sample_door_world ''gig'')))) = [7]"
    "outcome_ledger (ledgers_of (ops_of (db (sess (sample_door_world ''gig''))))) = []"
    by code_simp+
  have 2: "stop_type_of sample_drop = Dropoff" "de_orders alone_door = no_interference"
    "\<forall>d. outcome_ledger (ledgers_of (ops_of (de_mark alone_door d))) = outcome_ledger (ledgers_of (ops_of d))"
    by (simp_all add: sample_drop_def sample_stop_def alone_door_def)
  show ?thesis
    using deliveries_reach_the_ledger [OF prod.collapse [symmetric] alone_door_ok sample_door_ok(1) alone_lock [symmetric] 1(1) sample_drop_at 2(1) 1(2) 2(2,3)] 1(3,4)
    by auto
qed

definition sample_flag_world :: world where
  "sample_flag_world = (sample_world [])\<lparr>sess := (sample_session [])\<lparr>db := sample_route_tables, base := sample_route_tables\<rparr>\<rparr>"

theorem flagged_orders_leave_the_route_witness:
  "filter (\<lambda>p. stop_route_id p = 4 \<and> stop_status_of p \<notin> set FINISHED_STOP_STATUSES \<and>
      7 \<in> set (stop_order_ids (stop_id p) (db (sess (snd (flag_stop_issue sample_outside alone_door 5 1 10 3 ''SHOP_CLOSED'' None sample_flag_world))))))
    (stops (db (sess (snd (flag_stop_issue sample_outside alone_door 5 1 10 3 ''SHOP_CLOSED'' None sample_flag_world))))) = []"
proof -
  have ok: "doors_ok (sess sample_flag_world)"
    by (simp add: doors_ok_def sane_def session_ok_def sample_flag_world_def sample_door_defs)
  have 1: "get_owned_stop 10 3 (db (sess sample_flag_world)) \<noteq> None"
    "lookup_by stop_id 10 (stops (db (sess sample_flag_world))) = Some (sample_stop 10 1 Stop_pending Pickup)"
    "7 \<in> set (stop_order_ids 10 (db (sess sample_flag_world)))" by code_simp+
  have 2: "stop_status_of (sample_stop 10 1 Stop_pending Pickup) \<notin> set TERMINAL_STOPS" "stop_route_id (sample_stop 10 1 Stop_pending Pickup) = 4"
    by (simp_all add: sample_stop_def TERMINAL_STOPS_def)
  have 3: "stops (de_mark alone_door d) = stops d \<and> stop_orders (de_mark alone_door d) = stop_orders d" for d by (simp add: alone_door_def)
  from flagged_orders_leave_the_route [OF prod.collapse [symmetric] alone_door_ok ok alone_lock [symmetric] 1(1,2) 2(1) 3,
      of sample_outside 5 1 "''SHOP_CLOSED''" None] 1(3) 2(2)
  show ?thesis unfolding filter_empty_conv by (metis IntI empty_iff)
qed

end
