(* ===== verification/Civil_Dates.thy ===== *)
theory Civil_Dates
  imports Hub_Calendar
begin

text \<open>
  The proleptic calendar behind \<open>datetime.date\<close>, for the ordinals \<open>Hub_Calendar\<close> keeps dates as: the year, month and day that
  \<open>date_parts\<close> reads off an ordinal name that ordinal, and the months follow each other without a gap. The pay periods of
  \<open>Payroll\<close> rest on it.
\<close>

section \<open>The parts of a date\<close>

lemma year_div:
  assumes "0 \<le> b" "b < 4" "0 \<le> c" "c < 25" "0 \<le> e" "(e :: int) < 4" "q = 400 * a + 100 * b + 4 * c + e"
  shows "q div 4 = 100 * a + 25 * b + c" "q div 100 = 4 * a + b" "q div 400 = a"
proof -
  show "q div 4 = 100 * a + 25 * b + c" by (rule int_div_pos_eq [of _ _ _ e]) (use assms in simp_all)
  show "q div 100 = 4 * a + b" by (rule int_div_pos_eq [of _ _ _ "4 * c + e"]) (use assms in simp_all)
  show "q div 400 = a" by (rule int_div_pos_eq [of _ _ _ "100 * b + 4 * c + e"]) (use assms in simp_all)
qed

lemma days_before_year_parts:
  assumes "0 \<le> b" "b < 4" "0 \<le> c" "c < 25" "0 \<le> e" "e < 4"
  shows "days_before_year (400 * a + 100 * b + 4 * c + e + 1) = 146097 * a + 36524 * b + 1461 * c + 365 * e"
  using year_div [OF assms refl, of a] by (simp add: days_before_year_def)

lemma mod_below: "y = k * q + r \<Longrightarrow> 0 < r \<Longrightarrow> r \<le> k \<Longrightarrow> y mod k = 0 \<longleftrightarrow> r = k" for y k q r :: int
  using int_mod_pos_eq [of y k q r] by (cases "r = k") auto

lemma is_leap_parts:
  assumes "0 \<le> b" "b < 4" "0 \<le> c" "c < 25" "0 \<le> e" "e < 4"
  shows "is_leap (400 * a + 100 * b + 4 * c + e + 1) \<longleftrightarrow> e = 3 \<and> (c \<noteq> 24 \<or> b = 3)"
proof -
  let ?y = "400 * a + 100 * b + 4 * c + e + 1"
  have "?y mod 4 = 0 \<longleftrightarrow> e + 1 = 4" by (rule mod_below [of _ _ "100 * a + 25 * b + c"]) (use assms in simp_all)
  moreover have "?y mod 100 = 0 \<longleftrightarrow> 4 * c + e + 1 = 100" by (rule mod_below [of _ _ "4 * a + b"]) (use assms in simp_all)
  moreover have "?y mod 400 = 0 \<longleftrightarrow> 100 * b + 4 * c + e + 1 = 400" by (rule mod_below [of _ _ a]) (use assms in simp_all)
  ultimately show ?thesis unfolding is_leap_def by (cases "e = 3"; cases "c = 24") (simp_all only:, simp_all)
qed

text \<open>The month of a day of the year, 0 being 1 January.\<close>

definition month_table :: "bool \<Rightarrow> int \<Rightarrow> int \<times> int" where
  "month_table leap n =
     (let month = (n + 50) div 32; preceding = days_before_month 1 month + (if 2 < month \<and> leap then 1 else 0)
      in if n < preceding then (month - 1, n - (preceding - month_days (month - 1) leap) + 1) else (month, n - preceding + 1))"

lemma month_table_ok:
  assumes "0 \<le> n" "n < 365 + (if leap then 1 else 0)" "month_table leap n = (m, k)"
  shows "1 \<le> m \<and> m \<le> 12 \<and> 1 \<le> k \<and> k \<le> month_days m leap \<and> days_before_month 1 m + (if 2 < m \<and> leap then 1 else 0) + k = n + 1"
proof -
  define month where "month = (n + 50) div 32"
  have bounds: "32 * month \<le> n + 50" "n + 50 < 32 * month + 32" by (simp_all add: month_def)
  then have "1 \<le> month" "month \<le> 12" using assms(1,2) by (auto split: if_splits)
  then have "month \<in> {1, 2, 3, 4, 5, 6, 7, 8, 9, 10, 11, 12}" unfolding insert_iff empty_iff by presburger
  moreover have "(let preceding = days_before_month 1 month + (if 2 < month \<and> leap then 1 else 0)
      in if n < preceding then (month - 1, n - (preceding - month_days (month - 1) leap) + 1) else (month, n - preceding + 1)) = (m, k)"
    using assms(3) by (simp add: month_table_def month_def [symmetric] Let_def)
  ultimately show ?thesis using assms(1,2) bounds
    by (cases leap) (elim insertE emptyE; simp add: days_before_month_def month_days_def is_leap_def Let_def split: if_splits; linarith)+
qed

lemma is_leap_1: "\<not> is_leap 1" by (simp add: is_leap_def)

lemma days_before_month_leap: "days_before_month y m = days_before_month 1 m + (if 2 < m \<and> is_leap y then 1 else 0)"
  by (simp add: days_before_month_def is_leap_1)

text \<open>What \<open>date.fromordinal\<close> is for: the parts name the day.\<close>

lemma date_parts_ok:
  assumes "date_parts d = (y, m, k)"
  shows "1 \<le> m \<and> m \<le> 12 \<and> 1 \<le> k \<and> k \<le> month_days m (is_leap y) \<and> days_before_year y + days_before_month y m + k = d"
proof -
  define a r b r' c r'' e n where parts: "a = (d - 1) div 146097" "r = (d - 1) mod 146097" "b = r div 36524" "r' = r mod 36524"
    "c = r' div 1461" "r'' = r' mod 1461" "e = r'' div 365" "n = r'' mod 365"
  have day: "d - 1 = 146097 * a + r" "r = 36524 * b + r'" "r' = 1461 * c + r''" "r'' = 365 * e + n" by (simp_all add: parts)
  have range: "0 \<le> r" "r < 146097" "0 \<le> r'" "r' < 36524" "0 \<le> r''" "r'' < 1461" "0 \<le> n" "n < 365" by (simp_all add: parts)
  then have range2: "0 \<le> b" "0 \<le> c" "0 \<le> e" by (simp_all add: parts pos_imp_zdiv_nonneg_iff)
  have range3: "b \<le> 4" "c < 25" "e \<le> 4" "b = 4 \<Longrightarrow> r' = 0" "e = 4 \<Longrightarrow> n = 0" using day range by linarith+
  let ?year = "a * 400 + 1 + b * 100 + c * 4 + e" and ?leap = "e = 3 \<and> (c \<noteq> 24 \<or> b = 3)"
  show ?thesis
  proof (cases "e = 4 \<or> b = 4")
    case True
    have last: "date_parts d = (?year - 1, 12, 31)"
      unfolding date_parts_def Let_def parts [symmetric] using True by (simp only: if_True)
    have "\<exists>b' c'. ?year - 1 = 400 * a + 100 * b' + 4 * c' + 3 + 1 \<and> 0 \<le> b' \<and> b' < 4 \<and> 0 \<le> c' \<and> c' < 25 \<and>
        d = 146097 * a + 36524 * b' + 1461 * c' + 365 * 3 + 366 \<and> (c' \<noteq> 24 \<or> b' = 3)"
    proof (cases "b = 4")
      case True
      then have "r' = 0" by (rule range3)
      then have "c = 0" "r'' = 0" using day(3) range(5) range2(2) by linarith+
      then have "e = 0" "n = 0" using day(4) range(7) range2(3) by linarith+
      then show ?thesis using True day \<open>c = 0\<close> \<open>r' = 0\<close> by (intro exI [of _ 3] exI [of _ 24]) simp
    next
      case False
      then have "e = 4" "n = 0" "b < 4" using True range3 by auto
      then show ?thesis using day range range2 by (intro exI [of _ b] exI [of _ c]) simp
    qed
    then obtain b' c' where y: "?year - 1 = 400 * a + 100 * b' + 4 * c' + 3 + 1" "0 \<le> b'" "b' < 4" "0 \<le> c'" "c' < 25"
        "d = 146097 * a + 36524 * b' + 1461 * c' + 365 * 3 + 366" "c' \<noteq> 24 \<or> b' = 3" by (elim exE conjE)
    have mk: "y = 400 * a + 100 * b' + 4 * c' + 3 + 1" "m = 12" "k = 31" using assms last y(1) by simp_all
    have "is_leap y" using is_leap_parts [of b' c' 3 a] y by (simp only: mk)
    moreover have "days_before_year y = 146097 * a + 36524 * b' + 1461 * c' + 365 * 3"
      using days_before_year_parts [of b' c' 3 a] y by (simp only: mk)
    ultimately show ?thesis using y(6) mk(2,3) by (simp add: days_before_month_def month_days_def)
  next
    case False
    define leap where "leap \<longleftrightarrow> ?leap"
    obtain m' k' where table: "month_table leap n = (m', k')" by (rule prod.exhaust)
    have "date_parts d = (case month_table leap n of (m, k) \<Rightarrow> (?year, m, k))"
      unfolding date_parts_def Let_def parts [symmetric] leap_def [symmetric] month_table_def using False by (simp only: if_False) simp
    then have "date_parts d = (?year, m', k')" by (simp add: table)
    then have mk: "y = ?year" "m = m'" "k = k'" using assms by simp_all
    have leap: "is_leap y = leap"
      unfolding leap_def using is_leap_parts [of b c e a] range2 range3 False by (simp add: mk algebra_simps)
    have year: "days_before_year y = 146097 * a + 36524 * b + 1461 * c + 365 * e"
      using days_before_year_parts [of b c e a] range2 range3 False by (simp add: mk algebra_simps)
    have "n < 365 + (if leap then 1 else 0)" using range by simp
    note tab = month_table_ok [OF range(7) this table]
    then have "days_before_year y + days_before_month y m + k = d"
      unfolding days_before_month_leap [of y] leap year mk(2,3) using day by linarith
    then show ?thesis using tab unfolding mk(2,3) leap by blast
  qed
qed


subsection \<open>Months follow each other\<close>

lemma div_pred: "0 < k \<Longrightarrow> (y - 1) div k = y div k - (if y mod k = 0 then 1 else 0)" for y k :: int
proof (cases "y mod k = 0")
  case True
  assume k: "0 < k"
  have "(y - 1) div k = y div k - 1" by (rule int_div_pos_eq [of _ _ _ "k - 1"]) (use True k in \<open>auto simp: algebra_simps\<close>)
  with True show ?thesis by simp
next
  case False
  assume k: "0 < k"
  have "0 \<le> y mod k" "y mod k < k" using k by simp_all
  then have "(y - 1) div k = y div k" by (intro int_div_pos_eq [of _ _ _ "y mod k - 1"]) (use False in \<open>auto simp: algebra_simps\<close>)
  with False show ?thesis by simp
qed

lemma leap_cases:
  obtains "y mod 4 \<noteq> 0" "y mod 100 \<noteq> 0" "y mod 400 \<noteq> 0" | "y mod 4 = 0" "y mod 100 \<noteq> 0" "y mod 400 \<noteq> 0"
  | "y mod 4 = 0" "y mod 100 = 0" "y mod 400 \<noteq> 0" | "y mod 4 = 0" "y mod 100 = 0" "(y :: int) mod 400 = 0"
  using mod_mod_cancel [of 100 400 y] mod_mod_cancel [of 4 100 y] by (cases "y mod 4 = 0"; cases "y mod 100 = 0"; cases "y mod 400 = 0") simp_all

lemma days_before_next_year: "days_before_year (y + 1) = days_before_year y + 365 + (if is_leap y then 1 else 0)"
  unfolding days_before_year_def add_diff_cancel_right' Let_def div_pred [of 4 y, simplified] div_pred [of 100 y, simplified] div_pred [of 400 y, simplified]
  by (rule leap_cases [of y]) (simp_all add: is_leap_def algebra_simps)

lemma month_cases: "1 \<le> m \<Longrightarrow> m \<le> 12 \<Longrightarrow> m \<in> {1, 2, 3, 4, 5, 6, 7, 8, 9, 10, 11, 12}" for m :: int
  unfolding insert_iff empty_iff by presburger

text \<open>The ordinal of the last day of the month before.\<close>

definition month_start :: "int \<Rightarrow> int \<Rightarrow> date" where
  "month_start y m = days_before_year y + days_before_month y m"

lemma month_start_next:
  assumes "1 \<le> m" "m \<le> 12"
  shows "month_start (y + m div 12) (m mod 12 + 1) = month_start y m + month_days m (is_leap y)"
  using month_cases [OF assms]
  by (elim insertE emptyE; cases "is_leap y"; simp add: month_start_def days_before_month_def month_days_def days_before_next_year)

lemma month_days_pos: "1 \<le> m \<Longrightarrow> m \<le> 12 \<Longrightarrow> 28 \<le> month_days m leap"
  by (drule (1) month_cases) (elim insertE emptyE; simp add: month_days_def)

text \<open>Months counted from the year 0.\<close>

definition month_index :: "int \<Rightarrow> int \<Rightarrow> int" where
  "month_index y m = 12 * y + (m - 1)"

definition start_of :: "int \<Rightarrow> date" where
  "start_of i = month_start (i div 12) (i mod 12 + 1)"

lemma start_of_index: "1 \<le> m \<Longrightarrow> m \<le> 12 \<Longrightarrow> start_of (month_index y m) = month_start y m"
proof -
  assume m: "1 \<le> m" "m \<le> 12"
  have "(12 * y + (m - 1)) div 12 = y" "(12 * y + (m - 1)) mod 12 = m - 1"
    using m by (auto intro: int_div_pos_eq [of _ _ _ "m - 1"] int_mod_pos_eq [of _ _ y])
  then show ?thesis by (simp add: start_of_def month_index_def)
qed

lemma index_next: "1 \<le> m \<Longrightarrow> m \<le> 12 \<Longrightarrow> month_index (y + m div 12) (m mod 12 + 1) = month_index y m + 1"
  by (drule (1) month_cases) (elim insertE emptyE; simp add: month_index_def)

lemma start_of_next: "start_of i < start_of (i + 1)"
proof -
  let ?y = "i div 12" and ?m = "i mod 12 + 1"
  have m: "1 \<le> ?m" "?m \<le> 12" using pos_mod_bound [of 12 i] by simp_all
  have i: "month_index ?y ?m = i" by (simp add: month_index_def)
  have m': "1 \<le> ?m mod 12 + 1" "?m mod 12 + 1 \<le> 12" using pos_mod_bound [of 12 ?m] by simp_all
  have "start_of (i + 1) = month_start (?y + ?m div 12) (?m mod 12 + 1)"
    using start_of_index [OF m', of "?y + ?m div 12"] index_next [OF m, of ?y] by (simp add: i)
  then show ?thesis using month_start_next [OF m, of ?y] month_days_pos [OF m, of "is_leap ?y"] start_of_index [OF m, of ?y] by (simp add: i)
qed

lemma start_of_mono: "i < j \<Longrightarrow> start_of i < start_of j"
  by (induction j rule: int_gr_induct [of i]) (use start_of_next less_trans in blast)+

text \<open>The month before a month's first day is the one that ends there.\<close>

lemma previous_month:
  assumes "1 \<le> m" "m \<le> 12" "date_parts (month_start y m) = (y', m', k')"
  shows "month_start (y' + m' div 12) (m' mod 12 + 1) = month_start y m" "1 \<le> m'" "m' \<le> 12"
proof -
  note ok = date_parts_ok [OF assms(3)]
  then show m': "1 \<le> m'" "m' \<le> 12" by simp_all
  let ?i = "month_index y m" and ?j = "month_index y' m'"
  have n: "1 \<le> m' mod 12 + 1" "m' mod 12 + 1 \<le> 12" using pos_mod_bound [of 12 m'] by simp_all
  have next1: "start_of (?j + 1) = month_start (y' + m' div 12) (m' mod 12 + 1)"
    using start_of_index [OF n] index_next [OF m'] by metis
  have "start_of ?j < start_of ?i" "start_of ?i \<le> start_of (?j + 1)"
    using ok month_start_next [OF m', of y'] by (simp_all add: start_of_index [OF assms(1,2)] start_of_index [OF m'] next1) (simp_all add: month_start_def)
  then have "?j < ?i" "?i \<le> ?j + 1" using start_of_mono [of ?i ?j] start_of_mono [of "?j + 1" ?i] by (cases "?i = ?j"; force)+
  then have "?i = ?j + 1" by simp
  then show "month_start (y' + m' div 12) (m' mod 12 + 1) = month_start y m"
    using next1 start_of_index [OF assms(1,2), of y] by simp
qed

lemma date_positive:
  assumes "date_parts d = (y, m, k)" "1 \<le> d" shows "1 \<le> y"
proof (rule ccontr)
  assume "\<not> 1 \<le> y"
  note ok = date_parts_ok [OF assms(1)]
  let ?j = "month_index y m"
  have "?j < month_index 1 1" using ok \<open>\<not> 1 \<le> y\<close> by (simp add: month_index_def)
  then have "?j + 1 \<le> month_index 1 1" by simp
  then have "start_of (?j + 1) \<le> start_of (month_index 1 1)" using start_of_mono [of "?j + 1" "month_index 1 1"] by (cases "?j + 1 = month_index 1 1") auto
  also have "\<dots> = 0" by (simp add: start_of_index month_start_def days_before_year_def days_before_month_def)
  also have "start_of (?j + 1) = month_start y m + month_days m (is_leap y)"
    using start_of_index [of "m mod 12 + 1" "y + m div 12"] index_next [of m y] month_start_next [of m y] ok pos_mod_bound [of 12 m] by simp
  finally show False using ok assms(2) by (simp add: month_start_def)
qed

end
