(* ===== verification/Payroll.thy ===== *)
theory Payroll
  imports Civil_Dates Py_Float Compliance Requeue
begin

text \<open>
  Hours and pay (\<open>src/app/payroll/hours.py\<close>, \<open>overtime_rules.py\<close>, \<open>bonuses.py\<close>), the switch between on and off duty that the
  shift log records (\<open>update_my_availability\<close>), the driver's earnings and the payroll run. The log is the table
  \<open>driver_shift_events\<close>; events of one moment are read in the order they were written. The two loops over a
  clock are partial functions, \<open>None\<close> being a loop that never ends, and are proved to end on every clock that keeps its midnights. The zone
  database and the payroll provider are parameters.
\<close>

section \<open>Periods\<close>

definition PLACEHOLDER_HOURLY_RATE_CENTS :: cents where "PLACEHOLDER_HOURLY_RATE_CENTS = 1800"

definition ON_DUTY_STATUSES :: "string list" where
  "ON_DUTY_STATUSES = [''available'', ''en_route'', ''offered'']"

text \<open>\<open>date.weekday()\<close>, Monday 0; the first day of the calendar, ordinal 1, is a Monday.\<close>

definition weekday :: "date \<Rightarrow> int" where
  "weekday d = (d - 1) mod 7"

definition week_bounds :: "instant \<Rightarrow> zone \<Rightarrow> instant \<times> instant" where
  "week_bounds now z =
     (let today = local_date z now; monday = today - weekday today
      in (midnight monday z, midnight (monday + 7) z))"

text \<open>\<open>None\<close> is the \<open>ValueError\<close> of a date after the year 9999.\<close>

definition month_bounds :: "instant \<Rightarrow> zone \<Rightarrow> (instant \<times> instant) option" where
  "month_bounds now z =
     (case date_parts (local_date z now) of (y, m, _) \<Rightarrow>
        (case (first_of_month y m, first_of_month (y + m div 12) (m mod 12 + 1)) of
           (Some first, Some following) \<Rightarrow> Some (midnight first z, midnight following z)
         | _ \<Rightarrow> None))"

definition pay_period_bounds :: "string \<Rightarrow> instant \<Rightarrow> zone \<Rightarrow> (instant \<times> instant) option" where
  "pay_period_bounds employment_type now z =
     (if employment_type = ''w2'' then month_bounds now z else Some (week_bounds now z))"

definition previous_pay_period_bounds :: "string \<Rightarrow> instant \<Rightarrow> zone \<Rightarrow> (instant \<times> instant) option" where
  "previous_pay_period_bounds employment_type now z =
     (case pay_period_bounds employment_type now z of
        None \<Rightarrow> None
      | Some (current_start, _) \<Rightarrow> pay_period_bounds employment_type (current_start - minutes 1) z)"

partial_function (option) weeks_from :: "instant \<Rightarrow> zone \<Rightarrow> instant \<Rightarrow> instant \<Rightarrow> (instant \<times> instant) list option" where
  "weeks_from stop z week_start week_end =
     (if week_start < stop
      then Option.bind (weeks_from stop z week_end (snd (week_bounds week_end z))) (\<lambda>ws. Some ((week_start, week_end) # ws))
      else Some [])"

definition calendar_weeks_overlapping :: "instant \<Rightarrow> instant \<Rightarrow> zone \<Rightarrow> (instant \<times> instant) list option" where
  "calendar_weeks_overlapping start stop z = (case week_bounds start z of (a, b) \<Rightarrow> weeks_from stop z a b)"

section \<open>On duty\<close>

definition on_duty_event :: "shift_event_row \<Rightarrow> bool" where
  "on_duty_event e \<longleftrightarrow> se_event_type e \<in> set ON_DUTY_STATUSES"

fun spans_from :: "instant \<Rightarrow> instant option \<Rightarrow> shift_event_row list \<Rightarrow> (instant \<times> instant) list" where
  "spans_from stop since [] = (case since of None \<Rightarrow> [] | Some a \<Rightarrow> [(a, stop)])"
| "spans_from stop since (e # es) =
     (if on_duty_event e
      then spans_from stop (case since of None \<Rightarrow> Some (se_occurred_at e) | Some a \<Rightarrow> Some a) es
      else (case since of
          None \<Rightarrow> spans_from stop None es
        | Some a \<Rightarrow> (a, se_occurred_at e) # spans_from stop None es))"

definition events_before :: "db \<Rightarrow> uuid \<Rightarrow> instant \<Rightarrow> shift_event_row list" where
  "events_before d driver stop =
     sort_key se_occurred_at (filter (\<lambda>e. se_driver_id e = driver \<and> se_occurred_at e < stop) (shift_events (ops_of d)))"

definition on_duty_spans :: "db \<Rightarrow> uuid \<Rightarrow> instant \<Rightarrow> instant \<Rightarrow> (instant \<times> instant) list" where
  "on_duty_spans d driver start stop =
     (let events = events_before d driver stop;
          prior = filter (\<lambda>e. se_occurred_at e < start) events;
          since = (if prior \<noteq> [] \<and> on_duty_event (last prior) then Some start else None)
      in spans_from stop since (filter (\<lambda>e. \<not> se_occurred_at e < start) events))"

definition hours_worked_from_shift_events :: "db \<Rightarrow> uuid \<Rightarrow> instant \<Rightarrow> instant \<Rightarrow> rat" where
  "hours_worked_from_shift_events d driver start stop =
     max (fdiv (fsum (map (\<lambda>(a, b). total_seconds (b - a)) (on_duty_spans d driver start stop))) 3600) 0"

text \<open>One span, cut at the midnights inside it.\<close>

partial_function (option) cut_span :: "zone \<Rightarrow> instant \<Rightarrow> instant \<Rightarrow> (date \<times> instant \<times> instant) list option" where
  "cut_span z cursor stop =
     (if cursor < stop
      then
        (let day = local_date z cursor; day_end = min (midnight (day + 1) z) stop in
         Option.bind (cut_span z day_end stop) (\<lambda>ps. Some ((day, cursor, day_end) # ps)))
      else Some [])"

fun cut_spans :: "zone \<Rightarrow> (instant \<times> instant) list \<Rightarrow> (date \<times> instant \<times> instant) list option" where
  "cut_spans z [] = Some []"
| "cut_spans z ((a, b) # spans) =
     (case cut_span z a b of
        None \<Rightarrow> None
      | Some ps \<Rightarrow> (case cut_spans z spans of None \<Rightarrow> None | Some rest \<Rightarrow> Some (ps @ rest)))"

definition add_hours :: "date \<times> instant \<times> instant \<Rightarrow> (date \<times> rat) list \<Rightarrow> (date \<times> rat) list" where
  "add_hours p daily =
     (case p of (day, a, b) \<Rightarrow>
        put_key day (fadd (case map_of daily day of None \<Rightarrow> 0 | Some h \<Rightarrow> h) (fdiv (total_seconds (b - a)) 3600)) daily)"

definition daily_hours_worked_from_shift_events :: "db \<Rightarrow> uuid \<Rightarrow> instant \<Rightarrow> instant \<Rightarrow> zone \<Rightarrow> (date \<times> rat) list option" where
  "daily_hours_worked_from_shift_events d driver start stop z =
     map_option (\<lambda>ps. fold add_hours ps []) (cut_spans z (on_duty_spans d driver start stop))"

section \<open>Overtime\<close>

definition FEDERAL_OVERTIME_THRESHOLD_HOURS :: rat where "FEDERAL_OVERTIME_THRESHOLD_HOURS = 40"
definition FEDERAL_OVERTIME_MULTIPLIER :: rat where "FEDERAL_OVERTIME_MULTIPLIER = 3 / 2"

type_synonym overtime_rule = "(date \<times> rat) list \<Rightarrow> rat \<times> rat"

definition federal_weekly_rule :: overtime_rule where
  "federal_weekly_rule daily =
     (let week_hours = fsum (map snd daily) in
      if FEDERAL_OVERTIME_THRESHOLD_HOURS < week_hours
      then (FEDERAL_OVERTIME_THRESHOLD_HOURS, fsub week_hours FEDERAL_OVERTIME_THRESHOLD_HOURS)
      else (week_hours, 0))"

definition STATE_OVERTIME_RULES :: "(string \<times> overtime_rule) list" where
  "STATE_OVERTIME_RULES = []"

text \<open>\<open>str.upper()\<close> of a state code, which is ASCII.\<close>

definition upper_ascii :: "string \<Rightarrow> string" where
  "upper_ascii s = map (\<lambda>c. let n = (of_char c :: nat) in if 97 \<le> n \<and> n \<le> 122 then char_of (n - 32) else c) s"

definition overtime_rule_for_state :: "string option \<Rightarrow> overtime_rule" where
  "overtime_rule_for_state code =
     (case code of
        None \<Rightarrow> federal_weekly_rule
      | Some c \<Rightarrow> if c = [] then federal_weekly_rule
          else (case map_of STATE_OVERTIME_RULES (upper_ascii c) of None \<Rightarrow> federal_weekly_rule | Some rule \<Rightarrow> rule))"

text \<open>The weeks of the period, each clipped to it. \<open>None\<close> is a zone the database lacks or a loop that never ends.\<close>

fun week_totals :: "overtime_rule \<Rightarrow> db \<Rightarrow> uuid \<Rightarrow> zone \<Rightarrow> instant \<Rightarrow> instant \<Rightarrow> (instant \<times> instant) list \<Rightarrow> rat \<times> rat \<Rightarrow> (rat \<times> rat) option" where
  "week_totals rule d driver z start stop [] totals = Some totals"
| "week_totals rule d driver z start stop ((week_start, week_end) # weeks) totals =
     (case daily_hours_worked_from_shift_events d driver (max week_start start) (min week_end stop) z of
        None \<Rightarrow> None
      | Some daily \<Rightarrow>
          (case rule daily of (regular, overtime) \<Rightarrow>
             week_totals rule d driver z start stop weeks (fadd (fst totals) regular, fadd (snd totals) overtime)))"

definition hours_and_overtime :: "tz_database \<Rightarrow> db \<Rightarrow> uuid \<Rightarrow> uuid \<Rightarrow> instant \<Rightarrow> instant \<Rightarrow> (rat \<times> rat) option" where
  "hours_and_overtime tzdata d driver hub start stop =
     (let h = lookup_by hub_id hub (hubs d);
          rule = overtime_rule_for_state (case h of None \<Rightarrow> None | Some r \<Rightarrow> hub_state_code r)
      in case hub_zone tzdata h of
           None \<Rightarrow> None
         | Some z \<Rightarrow>
             (case calendar_weeks_overlapping start stop z of
                None \<Rightarrow> None
              | Some weeks \<Rightarrow> week_totals rule d driver z start stop weeks (0, 0)))"

section \<open>Pay\<close>

definition gig_payout_total_cents_for_period :: "db \<Rightarrow> uuid \<Rightarrow> instant \<Rightarrow> instant \<Rightarrow> cents" where
  "gig_payout_total_cents_for_period d driver start stop =
     sum_list (map pay_amount_cents (filter (\<lambda>p. pay_driver_id p = driver \<and> start \<le> pay_created_at p \<and> pay_created_at p < stop)
       (gig_payouts (ledgers_of (ops_of d)))))"

definition hours_and_pay_for_period ::
    "tz_database \<Rightarrow> db \<Rightarrow> uuid \<Rightarrow> uuid \<Rightarrow> string \<Rightarrow> cents \<Rightarrow> instant \<Rightarrow> instant \<Rightarrow> (rat \<times> rat \<times> cents) option" where
  "hours_and_pay_for_period tzdata d driver hub employment_type rate_cents start stop =
     (if employment_type = ''w2'' then
        (case hours_and_overtime tzdata d driver hub start stop of
           None \<Rightarrow> None
         | Some (regular, overtime) \<Rightarrow>
             Some (regular, overtime, round_half_even (fmul regular (of_py_int rate_cents)) +
               round_half_even (fmul (fmul overtime (of_py_int rate_cents)) FEDERAL_OVERTIME_MULTIPLIER)))
      else
        let regular = hours_worked_from_shift_events d driver start stop in
        if employment_type = ''gig'' then Some (regular, 0, gig_payout_total_cents_for_period d driver start stop)
        else Some (regular, 0, round_half_even (fmul regular (of_py_int rate_cents))))"

text \<open>
  The offers, each once, that the driver accepted with a bonus and whose order was dropped off in the period, by that driver on
  the route the offer became.
\<close>

definition bonus_earned :: "db \<Rightarrow> uuid \<Rightarrow> instant \<Rightarrow> instant \<Rightarrow> offer_row \<Rightarrow> bool" where
  "bonus_earned d driver start stop x \<longleftrightarrow>
     offer_driver_id x = driver \<and> offer_status_of x = Offer_accepted \<and> offer_bonus_cents x \<noteq> None \<and>
     (\<exists>r \<in> set (routes d). offer_route_id x = Some (route_id r) \<and> route_driver_id r = driver \<and>
        (\<exists>st \<in> set (stops d). stop_route_id st = route_id r \<and> stop_type_of st = Dropoff \<and> stop_status_of st = Stop_completed \<and>
           (case stop_completed_at st of None \<Rightarrow> False | Some t \<Rightarrow> start \<le> t \<and> t < stop) \<and>
           (\<exists>so \<in> set (stop_orders d). so_stop_id so = stop_id st \<and> so_order_id so \<in> ps_order_id ` set (offer_stop_payload x))))"

definition offer_bonuses_owed_cents :: "db \<Rightarrow> uuid \<Rightarrow> instant \<Rightarrow> instant \<Rightarrow> cents" where
  "offer_bonuses_owed_cents d driver start stop =
     sum_list (map (\<lambda>x. case offer_bonus_cents x of None \<Rightarrow> 0 | Some b \<Rightarrow> b) (filter (bonus_earned d driver start stop) (offers d)))"


section \<open>The earnings screen and the payroll run\<close>

record earnings_view =
  ew_period_start :: date
  ew_period_end :: date
  ew_hours_worked :: rat
  ew_overtime_hours :: rat
  ew_hourly_rate_cents :: cents
  ew_estimated_pay_cents :: cents
  ew_is_placeholder :: bool
  ew_employment_type :: string
  ew_bonuses_owed_cents :: cents

definition rate_of :: "driver_row \<Rightarrow> cents" where
  "rate_of row = (case driver_hourly_rate_cents row of
     None \<Rightarrow> PLACEHOLDER_HOURLY_RATE_CENTS
   | Some c \<Rightarrow> if c = 0 then PLACEHOLDER_HOURLY_RATE_CENTS else c)"

definition get_my_earnings :: "tz_database \<Rightarrow> instant \<Rightarrow> db \<Rightarrow> driver_row \<Rightarrow> earnings_view option" where
  "get_my_earnings tzdata now d row =
     (case hub_zone tzdata (lookup_by hub_id (driver_hub_id row) (hubs d)) of
        None \<Rightarrow> None
      | Some z \<Rightarrow>
          (case pay_period_bounds (driver_employment_type row) now z of
             None \<Rightarrow> None
           | Some (start, stop) \<Rightarrow>
               map_option (\<lambda>(regular, overtime, pay).
                   \<lparr>ew_period_start = local_date z start, ew_period_end = local_date z stop - 1,
                    ew_hours_worked = py_round_ndigits 2 (fadd regular overtime), ew_overtime_hours = py_round_ndigits 2 overtime,
                    ew_hourly_rate_cents = (if driver_employment_type row = ''gig'' then 0 else rate_of row), ew_estimated_pay_cents = pay,
                    ew_is_placeholder = (driver_hourly_rate_cents row = None \<and> driver_employment_type row \<noteq> ''gig''),
                    ew_employment_type = driver_employment_type row,
                    ew_bonuses_owed_cents = offer_bonuses_owed_cents d (driver_id row) start (min stop now)\<rparr>)
                 (hours_and_pay_for_period tzdata d (driver_id row) (driver_hub_id row) (driver_employment_type row) (rate_of row)
                   start (min stop now))))"

text \<open>One call of \<open>submit_hours\<close>, and the line of the result.\<close>

record payroll_submission =
  sub_driver_id :: uuid
  sub_period_start :: date
  sub_period_end :: date
  sub_hours_worked :: rat
  sub_rate_cents :: cents

record driver_payroll =
  dpl_submission :: payroll_submission
  dpl_employment_type :: string
  dpl_hours_worked :: rat
  dpl_overtime_hours :: rat
  dpl_estimated_pay_cents :: cents
  dpl_reference :: "string option"

datatype provider_answer = Provider_failed | Submitted "string option"

text \<open>
  The drivers in turn; what was submitted stays submitted when a later driver fails. The first result is \<open>None\<close> when the run
  ends in an exception.
\<close>

fun payroll_from ::
    "tz_database \<Rightarrow> instant \<Rightarrow> (payroll_submission \<Rightarrow> provider_answer) \<Rightarrow> db \<Rightarrow> driver_row list \<Rightarrow> driver_payroll list
      \<Rightarrow> driver_payroll list option \<times> payroll_submission list" where
  "payroll_from tzdata now provider d [] done_so_far = (Some done_so_far, map dpl_submission done_so_far)"
| "payroll_from tzdata now provider d (row # rows) done_so_far =
     (if driver_employment_type row = ''gig'' then payroll_from tzdata now provider d rows done_so_far
      else (case hub_zone tzdata (lookup_by hub_id (driver_hub_id row) (hubs d)) of
          None \<Rightarrow> (None, map dpl_submission done_so_far)
        | Some z \<Rightarrow>
            (case previous_pay_period_bounds (driver_employment_type row) now z of
               None \<Rightarrow> (None, map dpl_submission done_so_far)
             | Some (start, stop) \<Rightarrow>
                 (case hours_and_pay_for_period tzdata d (driver_id row) (driver_hub_id row) (driver_employment_type row) (rate_of row) start stop of
                    None \<Rightarrow> (None, map dpl_submission done_so_far)
                  | Some (regular, overtime, pay) \<Rightarrow>
                      if regular = 0 \<and> overtime = 0 then payroll_from tzdata now provider d rows done_so_far
                      else
                        let sub = \<lparr>sub_driver_id = driver_id row, sub_period_start = local_date z start, sub_period_end = local_date z stop - 1,
                              sub_hours_worked = py_round_ndigits 2 (fadd regular overtime), sub_rate_cents = rate_of row\<rparr> in
                        (case provider sub of
                           Provider_failed \<Rightarrow> (None, map dpl_submission done_so_far @ [sub])
                         | Submitted reference \<Rightarrow>
                             payroll_from tzdata now provider d rows (done_so_far @
                               [\<lparr>dpl_submission = sub, dpl_employment_type = driver_employment_type row,
                                 dpl_hours_worked = py_round_ndigits 2 regular, dpl_overtime_hours = py_round_ndigits 2 overtime,
                                 dpl_estimated_pay_cents = pay, dpl_reference = reference\<rparr>]))))))"

definition run_payroll ::
    "tz_database \<Rightarrow> instant \<Rightarrow> (payroll_submission \<Rightarrow> provider_answer) \<Rightarrow> uuid \<Rightarrow> db
      \<Rightarrow> driver_payroll list option \<times> payroll_submission list" where
  "run_payroll tzdata now provider hub d =
     payroll_from tzdata now provider d (filter (\<lambda>r. driver_hub_id r = hub) (driver_rows (ops_of d))) []"

section \<open>Going on and off shift\<close>

datatype availability_answer = Availability_ok | Not_a_state | Driver_gone | Switched_off | Documents_refused "document_problem list"

fun driver_status_value :: "driver_status \<Rightarrow> string" where
  "driver_status_value Available = ''available''"
| "driver_status_value Offered = ''offered''"
| "driver_status_value En_route = ''en_route''"
| "driver_status_value On_break = ''on_break''"
| "driver_status_value Off_shift = ''off_shift''"

definition log_shift :: "uuid \<Rightarrow> hub \<Rightarrow> string \<Rightarrow> instant \<Rightarrow> db \<Rightarrow> db" where
  "log_shift driver h kind now d =
     d\<lparr>ops_of := (ops_of d)\<lparr>shift_events := shift_events (ops_of d) @
         [\<lparr>se_driver_id = driver, se_hub_id = h, se_event_type = kind, se_occurred_at = now\<rparr>],
       driver_rows := update_where (\<lambda>r. driver_id r = driver) (\<lambda>r. r\<lparr>driver_status_text := kind\<rparr>) (driver_rows (ops_of d))\<rparr>\<rparr>"

text \<open>
  The request's schema refuses the state \<open>offered\<close>, which only dispatch gives. \<open>others\<close> acts while the request waits for the driver's row, \<open>between\<close> between the read and the
  write of the fleet state.
\<close>

definition update_my_availability ::
    "(db \<Rightarrow> db) \<Rightarrow> (fleet \<Rightarrow> fleet) \<Rightarrow> instant \<Rightarrow> date \<Rightarrow> hub \<Rightarrow> uuid \<Rightarrow> driver_status \<Rightarrow> world \<Rightarrow> availability_answer \<times> world" where
  "update_my_availability others between now today h driver status w =
     (if status = Offered then (Not_a_state, w)
      else
      let s1 = interfere_db others (sess w); w1 = w\<lparr>sess := s1\<rparr> in
      case lookup_by driver_id driver (driver_rows (ops_of (db s1))) of
        None \<Rightarrow> (Driver_gone, w1)
      | Some row \<Rightarrow>
          if \<not> driver_is_active row then (Switched_off, w1)
          else
            let problems = evaluate_driver_documents today (db s1) driver in
            if status = Available \<and> \<not> can_go_on_shift problems then (Documents_refused problems, w1)
            else
              let existing = get_driver_state h driver (fleet_of w1);
                  state = \<lparr>ds_driver_id = driver, ds_hub_id = h, ds_status = status, ds_capacity_units = driver_vehicle_capacity_units row,
                    ds_load_units = (case existing of None \<Rightarrow> 0 | Some x \<Rightarrow> ds_load_units x),
                    ds_current_route_id = (case existing of None \<Rightarrow> None | Some x \<Rightarrow> ds_current_route_id x)\<rparr>
              in (Availability_ok,
                  w1\<lparr>sess := commit (s1\<lparr>db := log_shift driver h (driver_status_value status) now (db s1)\<rparr>),
                    fleet_of := upsert_driver_state state (between (fleet_of w1)),
                    queue := (queue w1)\<lparr>hs_bus := publish h (hs_bus (queue w1))\<rparr>\<rparr>))"


section \<open>What the log says\<close>

text \<open>On duty at an instant: the last event up to then puts the driver on duty.\<close>

definition on_duty_at :: "db \<Rightarrow> uuid \<Rightarrow> instant \<Rightarrow> bool" where
  "on_duty_at d driver t =
     (let es = filter (\<lambda>e. se_occurred_at e \<le> t) (sort_key se_occurred_at (filter (\<lambda>e. se_driver_id e = driver) (shift_events (ops_of d))))
      in es \<noteq> [] \<and> on_duty_event (last es))"

definition length_of :: "(instant \<times> instant) list \<Rightarrow> int" where
  "length_of spans = sum_list (map (\<lambda>(a, b). b - a) spans)"

definition moments :: "(instant \<times> instant) list \<Rightarrow> instant set" where
  "moments spans = (\<Union>(a, b) \<in> set spans. {a..<b})"

text \<open>Spans in order that do not overlap, between two instants.\<close>

fun ordered_spans :: "instant \<Rightarrow> instant \<Rightarrow> (instant \<times> instant) list \<Rightarrow> bool" where
  "ordered_spans lo hi [] = (lo \<le> hi)"
| "ordered_spans lo hi ((a, b) # spans) = (lo \<le> a \<and> a \<le> b \<and> ordered_spans b hi spans)"

lemma moments_simps [simp]: "moments [] = {}" "moments ((a, b) # spans) = {a..<b} \<union> moments spans" "moments (xs @ ys) = moments xs \<union> moments ys"
  by (auto simp: moments_def)

lemma length_of_simps [simp]: "length_of [] = 0" "length_of ((a, b) # spans) = b - a + length_of spans" "length_of (xs @ ys) = length_of xs + length_of ys"
  by (simp_all add: length_of_def)

lemma ordered_spans_moments: "ordered_spans lo hi spans \<Longrightarrow> moments spans \<subseteq> {lo..<hi} \<and> finite (moments spans) \<and> lo \<le> hi"
  by (induction lo hi spans rule: ordered_spans.induct) force+

lemma ordered_spans_card: "ordered_spans lo hi spans \<Longrightarrow> length_of spans = int (card (moments spans))"
proof (induction lo hi spans rule: ordered_spans.induct)
  case (2 lo hi a b spans)
  then have "moments spans \<subseteq> {b..<hi}" "finite (moments spans)" using ordered_spans_moments [of b hi spans] by simp_all
  then have "card ({a..<b} \<union> moments spans) = card {a..<b} + card (moments spans)" by (intro card_Un_disjoint) force+
  with 2 show ?case by simp
qed simp

lemma spans_from_ordered:
  assumes "sorted (map se_occurred_at es)" "\<forall>e \<in> set es. lo \<le> se_occurred_at e \<and> se_occurred_at e < stop" "lo \<le> stop"
    "\<forall>a. since = Some a \<longrightarrow> lo \<le> a \<and> a \<le> stop \<and> (\<forall>e \<in> set es. a \<le> se_occurred_at e)"
  shows "ordered_spans lo stop (spans_from stop since es)"
  using assms
proof (induction es arbitrary: lo since)
  case (Cons e es)
  show ?case
  proof (cases "on_duty_event e")
    case True
    then show ?thesis using Cons by (cases since) auto
  next
    case False
    then show ?thesis using Cons.IH [of lo None] Cons.IH [of "se_occurred_at e" None] Cons.prems by (cases since) auto
  qed
qed (auto split: option.split)

lemma spans_from_moments:
  assumes "sorted (map se_occurred_at es)" "t < stop" "\<forall>a. since = Some a \<longrightarrow> (\<forall>e \<in> set es. a \<le> se_occurred_at e)"
  shows "t \<in> moments (spans_from stop since es) \<longleftrightarrow>
    (case filter (\<lambda>e. se_occurred_at e \<le> t) es of [] \<Rightarrow> (\<exists>a. since = Some a \<and> a \<le> t) | ps \<Rightarrow> on_duty_event (last ps))"
  using assms
proof (induction es arbitrary: since)
  case Nil
  then show ?case by (auto split: option.split)
next
  case (Cons e es)
  show ?case
  proof (cases "se_occurred_at e \<le> t")
    case True
    then show ?thesis using Cons.IH [of since] Cons.IH [of None] Cons.IH [of "Some (se_occurred_at e)"] Cons.prems
      by (cases since) (auto split: list.splits)
  next
    case False
    then have none: "filter (\<lambda>e. se_occurred_at e \<le> t) es = []" using Cons.prems(1) by (fastforce simp: filter_empty_conv)
    then show ?thesis using Cons.IH [of since] Cons.IH [of None] Cons.IH [of "Some (se_occurred_at e)"] Cons.prems False
      by (cases since) auto
  qed
qed

lemma events_before_sorted: "sorted (map se_occurred_at (events_before d driver stop))"
  by (simp add: events_before_def)

lemma events_before_less: "e \<in> set (events_before d driver stop) \<Longrightarrow> se_occurred_at e < stop"
  by (simp add: events_before_def)

lemma sorted_split_at:
  "sorted (map f xs) \<Longrightarrow> filter (\<lambda>x. f x < s) xs @ filter (\<lambda>x. \<not> f x < s) xs = xs" for s :: "'b :: linorder"
proof (induction xs)
  case (Cons x xs)
  show ?case
  proof (cases "f x < s")
    case False
    then have "filter (\<lambda>x. f x < s) xs = []" using Cons.prems by (fastforce simp: filter_empty_conv)
    with Cons False show ?thesis by simp
  qed (use Cons in simp)
qed simp

text \<open>The spans are exactly the moments of the window at which the log has the driver on duty.\<close>

lemma on_duty_spans_moments:
  assumes "start \<le> t" "t < stop" shows "t \<in> moments (on_duty_spans d driver start stop) \<longleftrightarrow> on_duty_at d driver t"
proof -
  let ?es = "events_before d driver stop"
  let ?prior = "filter (\<lambda>e. se_occurred_at e < start) ?es" and ?later = "filter (\<lambda>e. \<not> se_occurred_at e < start) ?es"
  let ?since = "if ?prior \<noteq> [] \<and> on_duty_event (last ?prior) then Some start else None"
  have "filter (\<lambda>e. se_occurred_at e \<le> t) ?es =
      filter (\<lambda>e. se_occurred_at e \<le> t) (sort_key se_occurred_at (filter (\<lambda>e. se_driver_id e = driver) (shift_events (ops_of d))))"
    using assms(2) by (auto simp: events_before_def filter_sort intro!: arg_cong [of _ _ "sort_key se_occurred_at"] filter_cong)
  then have log: "on_duty_at d driver t \<longleftrightarrow>
      (let es = filter (\<lambda>e. se_occurred_at e \<le> t) ?es in es \<noteq> [] \<and> on_duty_event (last es))" by (simp add: on_duty_at_def)
  have "filter (\<lambda>e. se_occurred_at e \<le> t) ?es = ?prior @ filter (\<lambda>e. se_occurred_at e \<le> t) ?later"
    using arg_cong [OF sorted_split_at [OF events_before_sorted, of start d driver stop], of "filter (\<lambda>e. se_occurred_at e \<le> t)"] assms(1)
    by (simp del: filter_filter)
  then have log2: "on_duty_at d driver t \<longleftrightarrow> (case filter (\<lambda>e. se_occurred_at e \<le> t) ?later of
      [] \<Rightarrow> ?prior \<noteq> [] \<and> on_duty_event (last ?prior) | ps \<Rightarrow> on_duty_event (last ps))"
    using log by (auto simp: Let_def simp del: filter_filter split: list.split)
  have "t \<in> moments (spans_from stop ?since ?later) \<longleftrightarrow>
      (case filter (\<lambda>e. se_occurred_at e \<le> t) ?later of [] \<Rightarrow> (\<exists>a. ?since = Some a \<and> a \<le> t) | ps \<Rightarrow> on_duty_event (last ps))"
    by (rule spans_from_moments) (use assms in \<open>auto simp: sorted_filter [OF events_before_sorted]\<close>)
  then show ?thesis unfolding log2 using assms(1) by (simp add: on_duty_spans_def Let_def del: filter_filter split: list.split)
qed

lemma on_duty_spans_ordered:
  assumes "start \<le> stop" shows "ordered_spans start stop (on_duty_spans d driver start stop)"
  unfolding on_duty_spans_def Let_def
  by (rule spans_from_ordered) (use assms in \<open>auto simp: sorted_filter [OF events_before_sorted] dest: events_before_less\<close>)

lemma on_duty_spans_window:
  "start \<le> stop \<Longrightarrow> moments (on_duty_spans d driver start stop) = {t. start \<le> t \<and> t < stop \<and> on_duty_at d driver t}"
  using ordered_spans_moments [OF on_duty_spans_ordered, of start stop d driver] on_duty_spans_moments [of start _ stop d driver] by auto


section \<open>What the clock cuts\<close>

abbreviation (input) pieces_of :: "(date \<times> instant \<times> instant) list \<Rightarrow> (instant \<times> instant) list" where
  "pieces_of ps \<equiv> map snd ps"

definition in_its_day :: "zone \<Rightarrow> date \<times> instant \<times> instant \<Rightarrow> bool" where
  "in_its_day z p \<longleftrightarrow> (\<forall>t. fst (snd p) \<le> t \<and> t < snd (snd p) \<longrightarrow> local_date z t = fst p)"

lemma local_day: "zone_ok z \<Longrightarrow> midnight (local_date z t) z \<le> t \<and> t < midnight (local_date z t + 1) z"
  using hub_clock.in_day_iff [OF zone_clock, of z "local_date z t" t] by simp

lemma same_day: "zone_ok z \<Longrightarrow> midnight day z \<le> t \<Longrightarrow> t < midnight (day + 1) z \<Longrightarrow> local_date z t = day"
  using hub_clock.in_day_iff [OF zone_clock, of z day t] by simp

text \<open>On a clock that keeps its midnights a span is cut in the end, without loss, into pieces of one day each.\<close>

lemma cut_span_ok:
  assumes "zone_ok z" "a \<le> b"
  shows "\<exists>ps. cut_span z a b = Some ps \<and> ordered_spans a b (pieces_of ps) \<and> moments (pieces_of ps) = {a..<b} \<and>
    (\<forall>p \<in> set ps. in_its_day z p)"
  using assms(2)
proof (induction "nat (b - a)" arbitrary: a rule: less_induct)
  case less
  show ?case
  proof (cases "a < b")
    case False
    then show ?thesis using less.prems by (subst cut_span.simps) auto
  next
    case True
    let ?day = "local_date z a" and ?cut_at = "min (midnight (local_date z a + 1) z) b"
    have day: "midnight ?day z \<le> a" "a < ?cut_at" "?cut_at \<le> b" "?cut_at \<le> midnight (?day + 1) z" using local_day [OF assms(1), of a] True by auto
    then obtain ps where ps: "cut_span z ?cut_at b = Some ps" "ordered_spans ?cut_at b (pieces_of ps)" "moments (pieces_of ps) = {?cut_at..<b}"
        "\<forall>p \<in> set ps. in_its_day z p"
      using less.hyps [of ?cut_at] by auto
    have run: "cut_span z a b = Some ((?day, a, ?cut_at) # ps)" using True ps(1) by (subst cut_span.simps) (simp add: Let_def)
    have "{a..<?cut_at} \<union> {?cut_at..<b} = {a..<b}" using day by auto
    then have all: "moments (pieces_of ((?day, a, ?cut_at) # ps)) = {a..<b}" using ps(3) by simp
    have ordered: "ordered_spans a b (pieces_of ((?day, a, ?cut_at) # ps))" using day(2) ps(2) by simp
    have "in_its_day z (?day, a, ?cut_at)"
      unfolding in_its_day_def fst_conv snd_conv
    proof (intro allI impI)
      fix t assume "a \<le> t \<and> t < ?cut_at"
      then have "midnight ?day z \<le> t" "t < midnight (?day + 1) z" using day by linarith+
      then show "local_date z t = ?day" by (rule same_day [OF assms(1)])
    qed
    then have days: "\<forall>p \<in> set ((?day, a, ?cut_at) # ps). in_its_day z p" using ps(4) by simp
    show ?thesis by (intro exI conjI) (rule run, rule ordered, rule all, rule days)
  qed
qed

lemma ordered_spans_le: "ordered_spans lo hi spans \<Longrightarrow> (x, y) \<in> set spans \<Longrightarrow> x \<le> y"
  by (induction lo hi spans rule: ordered_spans.induct) auto

lemma ordered_spans_lower: "ordered_spans lo hi spans \<Longrightarrow> lo' \<le> lo \<Longrightarrow> ordered_spans lo' hi spans"
  by (cases spans) auto

lemma ordered_spans_append: "ordered_spans lo mid xs \<Longrightarrow> ordered_spans mid hi ys \<Longrightarrow> ordered_spans lo hi (xs @ ys)"
  by (induction lo mid xs rule: ordered_spans.induct) (auto intro: ordered_spans_lower)

lemma ordered_spans_filter: "ordered_spans lo hi (map f ps) \<Longrightarrow> ordered_spans lo hi (map f (filter P ps))"
proof (induction ps arbitrary: lo)
  case (Cons p ps)
  obtain x y where "f p = (x, y)" by (rule prod.exhaust)
  with Cons show ?case by (auto intro: ordered_spans_lower [of y])
qed simp

lemma cut_spans_ok:
  assumes "zone_ok z" "ordered_spans lo hi spans"
  shows "\<exists>ps. cut_spans z spans = Some ps \<and> ordered_spans lo hi (pieces_of ps) \<and> moments (pieces_of ps) = moments spans \<and>
    (\<forall>p \<in> set ps. in_its_day z p)"
  using assms(2)
proof (induction spans arbitrary: lo)
  case (Cons s spans)
  obtain a b where s: "s = (a, b)" by (rule prod.exhaust)
  have le: "lo \<le> a" "a \<le> b" "ordered_spans b hi spans" using Cons.prems s by simp_all
  from cut_span_ok [OF assms(1) le(2)] obtain ps where ps: "cut_span z a b = Some ps" "ordered_spans a b (pieces_of ps)"
      "moments (pieces_of ps) = {a..<b}" "\<forall>p \<in> set ps. in_its_day z p" by (elim exE conjE)
  from Cons.IH [OF le(3)] obtain qs where qs: "cut_spans z spans = Some qs" "ordered_spans b hi (pieces_of qs)"
      "moments (pieces_of qs) = moments spans" "\<forall>p \<in> set qs. in_its_day z p" by (elim exE conjE)
  have "cut_spans z (s # spans) = Some (ps @ qs)" using ps(1) qs(1) by (simp add: s)
  moreover have "ordered_spans lo hi (pieces_of (ps @ qs))"
    using ordered_spans_append [OF ps(2) qs(2)] le(1) by (auto intro: ordered_spans_lower)
  moreover have "moments (pieces_of (ps @ qs)) = moments (s # spans)" using ps(3) qs(3) by (simp add: s)
  moreover have "\<forall>p \<in> set (ps @ qs). in_its_day z p" using ps(4) qs(4) by (simp add: ball_Un)
  ultimately show ?case by (intro exI conjI)
qed simp

lemma week_holds: "zone_ok z \<Longrightarrow> fst (week_bounds t z) \<le> t \<and> t < snd (week_bounds t z)"
proof -
  assume z: "zone_ok z"
  let ?day = "local_date z t"
  have "weekday ?day \<in> {0..<7}" by (simp add: weekday_def)
  then have "midnight (?day - weekday ?day) z \<le> midnight ?day z" "midnight (?day + 1) z \<le> midnight (?day - weekday ?day + 7) z"
    using z by (auto intro!: midnight_mono)
  then show ?thesis using local_day [OF z, of t] by (simp add: week_bounds_def Let_def)
qed


text \<open>The weeks from a Monday on: each ends where the next begins, and the last reaches the end.\<close>

lemma weeks_from_ok:
  assumes "zone_ok z" "ws < we"
  shows "\<exists>weeks. weeks_from stop z ws we = Some weeks \<and> adjacent weeks \<and> (\<forall>(a, b) \<in> set weeks. a < b \<and> a < stop) \<and>
    (ws < stop \<longrightarrow> weeks \<noteq> [] \<and> fst (hd weeks) = ws \<and> stop \<le> snd (last weeks))"
  using assms(2)
proof (induction "nat (stop - ws)" arbitrary: ws we rule: less_induct)
  case less
  show ?case
  proof (cases "ws < stop")
    case False
    then show ?thesis by (subst weeks_from.simps) auto
  next
    case True
    have next1: "we < snd (week_bounds we z)" using week_holds [OF assms(1), of we] by simp
    obtain weeks where weeks: "weeks_from stop z we (snd (week_bounds we z)) = Some weeks" "adjacent weeks"
        "\<forall>(a, b) \<in> set weeks. a < b \<and> a < stop" "we < stop \<longrightarrow> weeks \<noteq> [] \<and> fst (hd weeks) = we \<and> stop \<le> snd (last weeks)"
      using less.hyps [OF _ next1] less.prems True by auto
    have none: "weeks = []" if "\<not> we < stop" using weeks(1) that by (subst (asm) weeks_from.simps) simp
    have run: "weeks_from stop z ws we = Some ((ws, we) # weeks)" using True weeks(1) by (subst weeks_from.simps) simp
    show ?thesis
    proof (cases "we < stop")
      case True
      then obtain b rest where "weeks = (we, b) # rest" using weeks(4) by (cases weeks) auto
      then show ?thesis using run weeks less.prems \<open>ws < stop\<close> True by (intro exI [of _ "(ws, we) # weeks"]) auto
    next
      case False
      then show ?thesis using run none less.prems True by auto
    qed
  qed
qed

text \<open>Clipping consecutive spans to a window they cover loses nothing of it.\<close>

lemma adjacent_from:
  "adjacent spans \<Longrightarrow> \<forall>(a, b) \<in> set spans. a < b \<Longrightarrow> (x, y) \<in> set spans \<Longrightarrow> fst (hd spans) \<le> x"
  by (induction spans rule: adjacent.induct) fastforce+

lemma clipped_cover:
  assumes "adjacent spans" "\<forall>(a, b) \<in> set spans. a < b \<and> a < stop" "spans \<noteq> []" "fst (hd spans) \<le> start" "stop \<le> snd (last spans)" "start < stop"
    "start < snd (hd spans)"
  shows "ordered_spans start stop (map (\<lambda>(a, b). (max a start, min b stop)) spans) \<and>
    moments (map (\<lambda>(a, b). (max a start, min b stop)) spans) = {start..<stop}"
  using assms
proof (induction spans arbitrary: start rule: adjacent.induct)
  case (1 a b c d xs)
  let ?rest = "(c, d) # xs"
  have b: "b = c" "c < d" "c < stop" "a \<le> start" "start < b" using 1(2-8) by simp_all
  have ih: "ordered_spans c stop (map (\<lambda>(x, y). (max x c, min y stop)) ?rest) \<and>
      moments (map (\<lambda>(x, y). (max x c, min y stop)) ?rest) = {c..<stop}"
    by (rule 1(1)) (use 1(2-8) b in auto)
  have "\<forall>(x, y) \<in> set ?rest. x < y" using 1(3) by auto
  then have "max x start = max x c" if "(x, y) \<in> set ?rest" for x y
    using adjacent_from [of ?rest x y] 1(2) that b by simp
  then have same: "map (\<lambda>(x, y). (max x start, min y stop)) ?rest = map (\<lambda>(x, y). (max x c, min y stop)) ?rest"
    by (intro map_cong) auto
  have "map (\<lambda>(x, y). (max x start, min y stop)) ((a, b) # ?rest) = (start, c) # map (\<lambda>(x, y). (max x c, min y stop)) ?rest"
    using b same by simp
  moreover have "{start..<c} \<union> {c..<stop} = {start..<stop}" using b by auto
  ultimately show ?case using ih b by (simp only: ordered_spans.simps moments_simps) simp
qed auto

text \<open>The weeks of a period, each clipped to it.\<close>

lemma weeks_of_period:
  assumes "zone_ok z" "start < stop"
  obtains weeks where "calendar_weeks_overlapping start stop z = Some weeks"
    "ordered_spans start stop (map (\<lambda>(a, b). (max a start, min b stop)) weeks)"
    "moments (map (\<lambda>(a, b). (max a start, min b stop)) weeks) = {start..<stop}"
proof -
  obtain ws we where wk: "week_bounds start z = (ws, we)" by (rule prod.exhaust)
  then have in_week: "ws \<le> start" "start < we" using week_holds [OF assms(1), of start] by simp_all
  then obtain weeks where weeks: "weeks_from stop z ws we = Some weeks" "adjacent weeks" "\<forall>(a, b) \<in> set weeks. a < b \<and> a < stop"
      "weeks \<noteq> []" "fst (hd weeks) = ws" "stop \<le> snd (last weeks)"
    using weeks_from_ok [OF assms(1), of ws we stop] assms(2) by auto
  have "start < snd (hd weeks)"
    using weeks(1) in_week assms(2) by (subst (asm) weeks_from.simps) (auto split: bind_splits)
  then show thesis using that [of weeks] weeks wk in_week assms(2) clipped_cover [OF weeks(2,3,4), of start]
    by (simp add: calendar_weeks_overlapping_def)
qed


section \<open>Hours are what the log says\<close>

lemma ordered_spans_sum:
  "ordered_spans lo hi spans \<Longrightarrow> sum_list (map (\<lambda>(a, b). int (card {t. a \<le> t \<and> t < b \<and> Q t})) spans) = int (card {t \<in> moments spans. Q t})"
proof (induction lo hi spans rule: ordered_spans.induct)
  case (2 lo hi a b spans)
  then have "moments spans \<subseteq> {b..<hi}" "finite (moments spans)" using ordered_spans_moments [of b hi spans] by simp_all
  moreover have "{t \<in> moments ((a, b) # spans). Q t} = {t. a \<le> t \<and> t < b \<and> Q t} \<union> {t \<in> moments spans. Q t}" by auto
  moreover have "finite {t. a \<le> t \<and> t < b \<and> Q t}" by (rule finite_subset [of _ "{a..<b}"]) auto
  ultimately have "card {t \<in> moments ((a, b) # spans). Q t} = card {t. a \<le> t \<and> t < b \<and> Q t} + card {t \<in> moments spans. Q t}"
    by (simp only:) (intro card_Un_disjoint, auto)
  with 2 show ?case by simp
qed simp

lemma moments_of_day:
  assumes "\<forall>p \<in> set ps. in_its_day z p"
  shows "moments (pieces_of (filter (\<lambda>p. fst p = day) ps)) = {t \<in> moments (pieces_of ps). local_date z t = day}"
  using assms by (induction ps) (auto simp: in_its_day_def)

lemma window_pieces:
  assumes "zone_ok z" "a \<le> b"
  obtains ps where "cut_spans z (on_duty_spans d driver a b) = Some ps"
    "length_of (pieces_of ps) = int (card {t. a \<le> t \<and> t < b \<and> on_duty_at d driver t})"
    "\<And>day. length_of (pieces_of (filter (\<lambda>p. fst p = day) ps)) = int (card {t. a \<le> t \<and> t < b \<and> on_duty_at d driver t \<and> local_date z t = day})"
proof -
  from cut_spans_ok [OF assms(1) on_duty_spans_ordered [OF assms(2)], of d driver]
  obtain ps where ps: "cut_spans z (on_duty_spans d driver a b) = Some ps" "ordered_spans a b (pieces_of ps)"
      "moments (pieces_of ps) = moments (on_duty_spans d driver a b)" "\<forall>p \<in> set ps. in_its_day z p" by (elim exE conjE)
  have all: "length_of (pieces_of ps) = int (card {t. a \<le> t \<and> t < b \<and> on_duty_at d driver t})"
    using ordered_spans_card [OF ps(2)] ps(3) on_duty_spans_window [OF assms(2)] by simp
  have "{t \<in> moments (pieces_of ps). local_date z t = day} = {t. a \<le> t \<and> t < b \<and> on_duty_at d driver t \<and> local_date z t = day}" for day
    using ps(3) on_duty_spans_window [OF assms(2), of d driver] by auto
  then have "length_of (pieces_of (filter (\<lambda>p. fst p = day) ps)) = int (card {t. a \<le> t \<and> t < b \<and> on_duty_at d driver t \<and> local_date z t = day})" for day
    using ordered_spans_card [OF ordered_spans_filter [OF ps(2), of "\<lambda>p. fst p = day"]] moments_of_day [OF ps(4), of day] by simp
  with ps(1) all show thesis by (rule that)
qed

text \<open>
  (C17) No time on duty is lost, counted twice or put on a wrong day, whatever the log holds and whatever clock changes fall into the period: on
  a clock that keeps its midnights the weeks of a period and the days of each week are cut in the end, the pieces
  add up to the number of microseconds of the period at which the last event of the log has the driver on duty, and the pieces of each
  day of a week to those of that day.
\<close>

theorem hours_are_what_the_log_says:
  assumes "zone_ok z" "start < stop"
  shows "\<exists>weeks cut. calendar_weeks_overlapping start stop z = Some weeks \<and>
    map (\<lambda>(a, b). cut_spans z (on_duty_spans d driver (max a start) (min b stop))) weeks = map Some cut \<and>
    sum_list (map (\<lambda>ps. length_of (map snd ps)) cut) = int (card {t. start \<le> t \<and> t < stop \<and> on_duty_at d driver t}) \<and>
    list_all2 (\<lambda>(a, b) ps. \<forall>day. length_of (map snd (filter (\<lambda>p. fst p = day) ps)) =
        int (card {t. max a start \<le> t \<and> t < min b stop \<and> on_duty_at d driver t \<and> local_date z t = day})) weeks cut"
proof -
  obtain weeks where weeks: "calendar_weeks_overlapping start stop z = Some weeks"
    "ordered_spans start stop (map (\<lambda>(a, b). (max a start, min b stop)) weeks)"
    "moments (map (\<lambda>(a, b). (max a start, min b stop)) weeks) = {start..<stop}"
    by (rule weeks_of_period [OF assms])
  let ?spans = "\<lambda>w. on_duty_spans d driver (max (fst w) start) (min (snd w) stop)"
  let ?cut = "map (\<lambda>w. the (cut_spans z (?spans w))) weeks"
  have order: "max a start \<le> min b stop" if "(a, b) \<in> set weeks" for a b
    using ordered_spans_le [OF weeks(2), of "max a start" "min b stop"] that by force
  have week: "cut_spans z (?spans w) = Some (the (cut_spans z (?spans w))) \<and>
      length_of (pieces_of (the (cut_spans z (?spans w)))) = int (card {t. max (fst w) start \<le> t \<and> t < min (snd w) stop \<and> on_duty_at d driver t}) \<and>
      (\<forall>day. length_of (pieces_of (filter (\<lambda>p. fst p = day) (the (cut_spans z (?spans w))))) =
        int (card {t. max (fst w) start \<le> t \<and> t < min (snd w) stop \<and> on_duty_at d driver t \<and> local_date z t = day}))"
    if "w \<in> set weeks" for w
  proof -
    have "max (fst w) start \<le> min (snd w) stop" using order [of "fst w" "snd w"] that by simp
    then obtain ps where "cut_spans z (?spans w) = Some ps"
      "length_of (pieces_of ps) = int (card {t. max (fst w) start \<le> t \<and> t < min (snd w) stop \<and> on_duty_at d driver t})"
      "\<And>day. length_of (pieces_of (filter (\<lambda>p. fst p = day) ps)) =
        int (card {t. max (fst w) start \<le> t \<and> t < min (snd w) stop \<and> on_duty_at d driver t \<and> local_date z t = day})"
      by (rule window_pieces [OF assms(1), of _ _ d driver]) blast
    then show ?thesis by simp
  qed
  have "sum_list (map (\<lambda>ps. length_of (map snd ps)) ?cut) =
      sum_list (map (\<lambda>w. int (card {t. max (fst w) start \<le> t \<and> t < min (snd w) stop \<and> on_duty_at d driver t})) weeks)"
    using week by (simp add: comp_def cong: map_cong)
  also have "\<dots> = int (card {t \<in> {start..<stop}. on_duty_at d driver t})"
    using ordered_spans_sum [OF weeks(2), of "on_duty_at d driver"] weeks(3) by (simp add: comp_def case_prod_unfold)
  finally have total: "sum_list (map (\<lambda>ps. length_of (map snd ps)) ?cut) = int (card {t. start \<le> t \<and> t < stop \<and> on_duty_at d driver t})"
    by (simp add: conj_assoc)
  have "map (\<lambda>(a, b). cut_spans z (on_duty_spans d driver (max a start) (min b stop))) weeks = map Some ?cut"
    using week by (simp add: case_prod_unfold)
  moreover have "list_all2 (\<lambda>(a, b) ps. \<forall>day. length_of (map snd (filter (\<lambda>p. fst p = day) ps)) =
        int (card {t. max a start \<le> t \<and> t < min b stop \<and> on_duty_at d driver t \<and> local_date z t = day})) weeks ?cut"
    using week by (auto simp: list_all2_conv_all_nth case_prod_unfold)
  ultimately show ?thesis using weeks(1) total by blast
qed


section \<open>Every request for hours ends\<close>

lemma cut_span_ends: "zone_ok z \<Longrightarrow> \<exists>ps. cut_span z a b = Some ps \<and> (\<forall>(day, x, y) \<in> set ps. x \<le> y)"
proof (cases "a \<le> b")
  case False
  then show ?thesis by (subst cut_span.simps) simp
next
  case True
  assume "zone_ok z"
  from cut_span_ok [OF this True] obtain ps where ps: "cut_span z a b = Some ps" "ordered_spans a b (pieces_of ps)" by blast
  from ordered_spans_le [OF ps(2)] have "x \<le> y" if "(day, x, y) \<in> set ps" for day x y using that by (force simp: image_iff)
  with ps(1) show ?thesis by blast
qed

lemma cut_spans_end: "zone_ok z \<Longrightarrow> \<exists>ps. cut_spans z spans = Some ps \<and> (\<forall>(day, x, y) \<in> set ps. x \<le> y)"
proof (induction spans)
  case (Cons s spans)
  obtain a b where "s = (a, b)" by (rule prod.exhaust)
  moreover obtain ps where "cut_span z a b = Some ps" "\<forall>(day, x, y) \<in> set ps. x \<le> y" using cut_span_ends [OF Cons.prems] by blast
  moreover obtain qs where "cut_spans z spans = Some qs" "\<forall>(day, x, y) \<in> set qs. x \<le> y" using Cons.IH [OF Cons.prems] by blast
  ultimately show ?case by (simp add: ball_Un)
qed simp

lemma put_key_values: "p \<in> set (put_key k v kvs) \<Longrightarrow> p = (k, v) \<or> p \<in> set kvs"
  by (induction k v kvs rule: put_key.induct) (auto split: if_splits)

lemma add_hours_nonneg:
  assumes "\<forall>(day, h) \<in> set daily. 0 \<le> h" "\<forall>(day, x, y) \<in> set ps. x \<le> y"
  shows "\<forall>(day, h) \<in> set (fold add_hours ps daily). 0 \<le> h"
  using assms
proof (induction ps arbitrary: daily)
  case (Cons p ps)
  obtain day x y where p: "p = (day, x, y)" by (metis prod.exhaust)
  have "0 \<le> (case map_of daily day of None \<Rightarrow> 0 | Some h \<Rightarrow> h)" using Cons.prems(1) by (auto dest: map_of_SomeD split: option.split)
  moreover have "0 \<le> fdiv (total_seconds (y - x)) 3600"
    using Cons.prems(2) p by (intro fdiv_nonneg) (simp_all add: total_seconds_def int_truediv_def fl_nonneg)
  ultimately have "\<forall>(day, h) \<in> set (add_hours p daily). 0 \<le> h"
    using Cons.prems(1) by (auto simp: p add_hours_def fadd_nonneg dest!: put_key_values)
  then show ?case using Cons by simp
qed simp

lemma daily_hours_end:
  assumes "zone_ok z"
  shows "\<exists>daily. daily_hours_worked_from_shift_events d driver a b z = Some daily \<and> (\<forall>(day, h) \<in> set daily. 0 \<le> h)"
proof -
  obtain ps where "cut_spans z (on_duty_spans d driver a b) = Some ps" "\<forall>(day, x, y) \<in> set ps. x \<le> y"
    using cut_spans_end [OF assms] by blast
  with add_hours_nonneg [of "[]" ps] show ?thesis by (simp add: daily_hours_worked_from_shift_events_def)
qed

lemma federal_rule_nonneg: "\<forall>(day, h) \<in> set daily. 0 \<le> h \<Longrightarrow> 0 \<le> fst (federal_weekly_rule daily) \<and> 0 \<le> snd (federal_weekly_rule daily)"
proof -
  assume "\<forall>(day, h) \<in> set daily. 0 \<le> h"
  then have "0 \<le> fsum (map snd daily)" by (intro fsum_nonneg) auto
  then show ?thesis by (simp add: federal_weekly_rule_def Let_def FEDERAL_OVERTIME_THRESHOLD_HOURS_def fsub_def fl_nonneg)
qed

lemma overtime_rule_federal [simp]: "overtime_rule_for_state code = federal_weekly_rule"
  by (simp add: overtime_rule_for_state_def STATE_OVERTIME_RULES_def split: option.split)

lemma week_totals_end:
  assumes "zone_ok z" "0 \<le> fst totals" "0 \<le> snd totals"
  shows "\<exists>r. week_totals federal_weekly_rule d driver z start stop weeks totals = Some r \<and> 0 \<le> fst r \<and> 0 \<le> snd r"
  using assms(2,3)
proof (induction weeks arbitrary: totals)
  case (Cons w weeks)
  obtain a b where w: "w = (a, b)" by (rule prod.exhaust)
  obtain daily where daily: "daily_hours_worked_from_shift_events d driver (max a start) (min b stop) z = Some daily"
      "\<forall>(day, h) \<in> set daily. 0 \<le> h" using daily_hours_end [OF assms(1)] by blast
  note rule = federal_rule_nonneg [OF daily(2)]
  show ?case using Cons.IH [of "(fadd (fst totals) (fst (federal_weekly_rule daily)), fadd (snd totals) (snd (federal_weekly_rule daily)))"]
      Cons.prems rule by (simp add: w daily(1) case_prod_unfold fadd_nonneg)
qed simp

lemma calendar_weeks_end:
  assumes "zone_ok z" shows "\<exists>weeks. calendar_weeks_overlapping start stop z = Some weeks"
proof -
  obtain a b where wk: "week_bounds start z = (a, b)" by (rule prod.exhaust)
  then have "a < b" using week_holds [OF assms, of start] by simp
  then show ?thesis using weeks_from_ok [OF assms, of a b stop] wk by (auto simp: calendar_weeks_overlapping_def)
qed

text \<open>
  (C18) The hours of any period are computed in the end: on a hub whose zone the database knows and whose clock keeps its midnights, both loops over
  the clock stop, for every log, every period and every driver, and the answer is a number of regular and of overtime hours, neither of them
  negative.
\<close>

theorem hours_are_computed_in_the_end:
  assumes "hub_zone tzdata (lookup_by hub_id hub (hubs d)) = Some z" "zone_ok z"
  shows "\<exists>regular overtime. hours_and_overtime tzdata d driver hub start stop = Some (regular, overtime) \<and> 0 \<le> regular \<and> 0 \<le> overtime"
proof -
  obtain weeks where "calendar_weeks_overlapping start stop z = Some weeks" using calendar_weeks_end [OF assms(2)] by blast
  moreover obtain r where "week_totals federal_weekly_rule d driver z start stop weeks (0, 0) = Some r" "0 \<le> fst r" "0 \<le> snd r"
    using week_totals_end [OF assms(2), of "(0, 0)" d driver start stop weeks] by auto
  ultimately show ?thesis using assms(1)
    by (intro exI [of _ "fst r"] exI [of _ "snd r"]) (simp add: hours_and_overtime_def Let_def)
qed


section \<open>Pay periods follow each other\<close>

lemma week_first:
  assumes "zone_ok z"
  shows "fst (week_bounds t z) = midnight (local_date z t - weekday (local_date z t)) z"
  by (simp add: week_bounds_def Let_def)

lemma weekday_monday: "weekday (d - weekday d) = 0" "weekday (d - weekday d - 1) = 6"
proof -
  have "d - weekday d - 1 = 7 * ((d - 1) div 7)" by (simp add: weekday_def minus_mod_eq_mult_div [symmetric])
  then show "weekday (d - weekday d) = 0" by (simp add: weekday_def)
  have "d - weekday d - 1 - 1 = 7 * ((d - 1) div 7 - 1) + 6" using \<open>d - weekday d - 1 = 7 * ((d - 1) div 7)\<close> by simp
  then show "weekday (d - weekday d - 1) = 6" unfolding weekday_def [of "d - weekday d - 1"] by (simp only: mod_mult_self4) simp
qed

text \<open>The instant a minute before a midnight is in the day before, on a day that is not shorter than a minute.\<close>

lemma minute_before:
  assumes "zone_ok z" "midnight (day - 1) z + minutes 1 \<le> midnight day z"
  shows "local_date z (midnight day z - minutes 1) = day - 1"
  using same_day [OF assms(1), of "day - 1" "midnight day z - minutes 1"] assms(2) by (simp add: minutes_def)

lemma local_date_midnight:
  assumes "zone_ok z" "midnight (day - 1) z + minutes 1 \<le> midnight day z" "midnight day z < midnight (day + 1) z"
  shows "local_date z (midnight day z) = day"
  using same_day [OF assms(1), of day "midnight day z"] assms(3) by simp

definition first_day_of_period :: "string \<Rightarrow> date \<Rightarrow> date" where
  "first_day_of_period employment_type day =
     (if employment_type = ''w2'' then (case date_parts day of (y, m, _) \<Rightarrow> month_start y m + 1) else day - weekday day)"

lemma period_starts:
  "pay_period_bounds et now z = Some (start, stop) \<Longrightarrow> start = midnight (first_day_of_period et (local_date z now)) z"
  by (auto simp: pay_period_bounds_def month_bounds_def first_day_of_period_def week_bounds_def Let_def month_start_def first_of_month_def
    split: if_splits prod.splits option.splits)

lemma previous_month_bounds:
  assumes "month_bounds now z = Some (start, stop)" "local_date z (start - minutes 1) = first - 1"
    "first = first_day_of_period ''w2'' (local_date z now)" "1 < first" "start = midnight first z"
  shows "\<exists>earlier. month_bounds (start - minutes 1) z = Some (earlier, start)"
proof -
  obtain y m k where d: "date_parts (local_date z now) = (y, m, k)" by (rule prod_cases3)
  note ok = date_parts_ok [OF d]
  have F: "first = month_start y m + 1" using assms(3) d by (simp add: first_day_of_period_def)
  obtain y' m' k' where d': "date_parts (month_start y m) = (y', m', k')" by (rule prod_cases3)
  have m: "1 \<le> m" "m \<le> 12" using ok by simp_all
  note prev = previous_month [OF m d']
  have "1 \<le> month_start y m" using assms(4) F by simp
  then have y': "1 \<le> y'" by (rule date_positive [OF d'])
  have "y \<le> 9999" using assms(1) d by (auto simp: month_bounds_def first_of_month_def split: option.splits if_splits)
  note ok' = date_parts_ok [OF d']
  have "y' \<le> y"
  proof (rule ccontr)
    assume "\<not> y' \<le> y"
    then have "month_index y m < month_index y' m'" using prev(2) m by (simp add: month_index_def)
    then have "start_of (month_index y m) < start_of (month_index y' m')" by (rule start_of_mono)
    then show False using ok' by (simp add: start_of_index m prev(2,3)) (simp add: month_start_def)
  qed
  have nxt: "y' + m' div 12 \<le> 9999"
  proof (rule ccontr)
    assume "\<not> y' + m' div 12 \<le> 9999"
    then have "month_index y m < month_index (y' + m' div 12) (m' mod 12 + 1)" using \<open>y \<le> 9999\<close> m by (simp add: month_index_def)
    then have "start_of (month_index y m) < start_of (month_index (y' + m' div 12) (m' mod 12 + 1))" by (rule start_of_mono)
    then have "month_start y m < month_start (y' + m' div 12) (m' mod 12 + 1)"
      using start_of_index [OF m, of y] start_of_index [of "m' mod 12 + 1" "y' + m' div 12"] pos_mod_bound [of 12 m'] by simp
    then show False using prev(1) by simp
  qed
  have "first_of_month (y' + m' div 12) (m' mod 12 + 1) = Some first"
  proof -
    have "0 \<le> m' div 12" "0 \<le> m' mod 12" "m' mod 12 < 12" using prev(2) by (simp_all add: pos_imp_zdiv_nonneg_iff)
    then show ?thesis using prev y' nxt F by (simp add: first_of_month_def month_start_def)
  qed
  moreover have "first_of_month y' m' = Some (month_start y' m' + 1)"
    using prev y' \<open>y' \<le> y\<close> \<open>y \<le> 9999\<close> by (simp add: first_of_month_def month_start_def)
  ultimately show ?thesis using assms(2,5) d' F by (simp add: month_bounds_def)
qed


lemma period_holds:
  assumes "zone_ok z" "pay_period_bounds et t z = Some (a, b)" shows "a \<le> t" "t < b"
proof -
  have "a \<le> t \<and> t < b"
  proof (cases "et = ''w2''")
    case True
    obtain y m k where d: "date_parts (local_date z t) = (y, m, k)" by (rule prod_cases3)
    note ok = date_parts_ok [OF d]
    then have m: "1 \<le> m" "m \<le> 12" by simp_all
    have "a = midnight (month_start y m + 1) z" "b = midnight (month_start (y + m div 12) (m mod 12 + 1) + 1) z"
      using assms(2) True d by (auto simp: pay_period_bounds_def month_bounds_def first_of_month_def month_start_def split: option.splits if_splits)
    then show ?thesis using ok midnight_law [OF assms(1), of _ t] month_start_next [OF m, of y]
      by (simp add: linorder_not_le [symmetric]) (simp add: month_start_def)
  next
    case False
    then show ?thesis using assms(2) week_holds [OF assms(1), of t] by (simp add: pay_period_bounds_def)
  qed
  then show "a \<le> t" "t < b" by simp_all
qed

text \<open>
  (C19) Every moment is paid once: the period a payroll run pays for ends at the very instant at which the current one begins, be it a week or
  a month and whatever clock change falls on the boundary, so the runs of successive periods leave no gap and pay
  nothing twice. The day before the boundary must last at least a minute, and the boundary lie after the first day of the calendar.
\<close>

theorem pay_periods_follow_each_other:
  assumes "zone_ok z" "pay_period_bounds employment_type now z = Some (start, stop)"
    "midnight (local_date z start - 1) z + minutes 1 \<le> start" "1 < local_date z start"
  shows "\<exists>earlier. previous_pay_period_bounds employment_type now z = Some (earlier, start) \<and> earlier < start \<and> start \<le> now \<and> now < stop"
proof -
  let ?first = "first_day_of_period employment_type (local_date z now)" and ?t = "start - minutes 1"
  have start: "start = midnight ?first z" by (rule period_starts [OF assms(2)])
  then have "?first \<le> local_date z start" using midnight_law [OF assms(1), of ?first start] by simp
  moreover have "\<not> ?first \<le> local_date z start - 1"
    using midnight_mono [OF assms(1), of ?first "local_date z start - 1"] assms(3) start by (auto simp: minutes_def)
  ultimately have first: "local_date z start = ?first" by simp
  have before: "local_date z ?t = ?first - 1"
    using minute_before [OF assms(1), of ?first] assms(3) unfolding first start [symmetric] by blast
  have "\<exists>earlier. pay_period_bounds employment_type ?t z = Some (earlier, start)"
  proof (cases "employment_type = ''w2''")
    case True
    then show ?thesis using previous_month_bounds [of now z start stop ?first] assms(2,4) before first start
      by (simp add: pay_period_bounds_def)
  next
    case False
    then show ?thesis using before start weekday_monday [of "local_date z now"]
      by (simp add: pay_period_bounds_def first_day_of_period_def week_bounds_def Let_def)
  qed
  then obtain earlier where "pay_period_bounds employment_type ?t z = Some (earlier, start)" by blast
  then show ?thesis using period_holds [OF assms(1,2)] period_holds [OF assms(1), of employment_type ?t earlier start] assms(2)
    by (simp add: previous_pay_period_bounds_def minutes_def)
qed

lemma pay_periods_follow_each_other_witness:
  "\<exists>earlier. previous_pay_period_bounds ''w2'' 1772600000000000 sample_zone = Some (earlier, 1772352000000000) \<and>
    earlier < 1772352000000000 \<and> (1772352000000000 :: int) \<le> 1772600000000000 \<and> (1772600000000000 :: int) < 1775026800000000"
proof -
  have bounds: "pay_period_bounds ''w2'' 1772600000000000 sample_zone = Some (1772352000000000, 1775026800000000)"
    by code_simp
  have "midnight (local_date sample_zone 1772352000000000 - 1) sample_zone + minutes 1 \<le> 1772352000000000"
    "1 < local_date sample_zone 1772352000000000" by code_simp+
  from pay_periods_follow_each_other [OF zone_ok_sample bounds this] show ?thesis .
qed


section \<open>The switch moves the clock\<close>

lemma insort_key_snoc: "f y \<le> f x \<Longrightarrow> insort_key f y (zs @ [x]) = insort_key f y zs @ [x]"
  by (induction zs) auto

lemma sort_key_snoc: "\<forall>y \<in> set ys. f y \<le> f x \<Longrightarrow> sort_key f (ys @ [x]) = sort_key f ys @ [x]"
  by (induction ys) (simp_all add: sort_key_def insort_key_snoc)

text \<open>
  (C20) Pay follows the switch: when the request to change state succeeds, later than everything in the driver's log, the driver was
  switched on by the office and, if the new state is available, every document the gate asks for was there; from that moment on the log
  has the driver on the clock exactly if the new state is a working one, every moment before it is counted as it was,
  and so is every moment of every other driver.
\<close>

theorem switch_moves_the_clock:
  assumes "update_my_availability others between now today h driver status w = (Availability_ok, w')"
    "d = db (interfere_db others (sess w))" "\<forall>e \<in> set (shift_events (ops_of d)). se_driver_id e = driver \<longrightarrow> se_occurred_at e \<le> now"
  shows "(\<exists>row. lookup_by driver_id driver (driver_rows (ops_of d)) = Some row \<and> driver_is_active row) \<and>
    (status = Available \<longrightarrow> can_go_on_shift (evaluate_driver_documents today d driver)) \<and>
    (\<forall>t. now \<le> t \<longrightarrow> on_duty_at (db (sess w')) driver t = (driver_status_value status \<in> set ON_DUTY_STATUSES)) \<and>
    (\<forall>t. t < now \<longrightarrow> on_duty_at (db (sess w')) driver t = on_duty_at d driver t) \<and>
    (\<forall>other t. other \<noteq> driver \<longrightarrow> on_duty_at (db (sess w')) other t = on_duty_at d other t)"
proof -
  let ?e = "\<lparr>se_driver_id = driver, se_hub_id = h, se_event_type = driver_status_value status, se_occurred_at = now\<rparr>"
  let ?mine = "filter (\<lambda>e. se_driver_id e = driver) (shift_events (ops_of d))"
  have gates: "(\<exists>row. lookup_by driver_id driver (driver_rows (ops_of d)) = Some row \<and> driver_is_active row)"
      "status = Available \<longrightarrow> can_go_on_shift (evaluate_driver_documents today d driver)"
      "shift_events (ops_of (db (sess w'))) = shift_events (ops_of d) @ [?e]"
    using assms(1) unfolding assms(2)
    by (auto simp: update_my_availability_def Let_def log_shift_def commit_def split: option.splits if_splits)
  have log: "sort_key se_occurred_at (filter (\<lambda>e. se_driver_id e = driver) (shift_events (ops_of (db (sess w'))))) =
      sort_key se_occurred_at ?mine @ [?e]"
    using sort_key_snoc [of ?mine se_occurred_at ?e] assms(3) by (simp add: gates(3))
  have "on_duty_at (db (sess w')) driver t = (driver_status_value status \<in> set ON_DUTY_STATUSES)" if "now \<le> t" for t
    using that by (simp add: on_duty_at_def log Let_def on_duty_event_def)
  moreover have "on_duty_at (db (sess w')) driver t = on_duty_at d driver t" if "t < now" for t
    using that by (simp add: on_duty_at_def log Let_def)
  moreover have "on_duty_at (db (sess w')) other t = on_duty_at d other t" if "other \<noteq> driver" for other t
    using that by (simp add: on_duty_at_def gates(3))
  ultimately show ?thesis using gates(1,2) by blast
qed


section \<open>Witnesses\<close>

text \<open>A driver on duty from 20:00 on 31 October 2026 to 20:00 on 1 November in UTC, with a break that never starts the clock twice.\<close>

definition sample_shift_log :: db where
  "sample_shift_log = sample_hub_db\<lparr>ops_of := (ops_of sample_hub_db)\<lparr>shift_events := [
     \<lparr>se_driver_id = 8, se_hub_id = 1, se_event_type = ''off_shift'', se_occurred_at = 1793563200000000\<rparr>,
     \<lparr>se_driver_id = 8, se_hub_id = 1, se_event_type = ''available'', se_occurred_at = 1793476800000000\<rparr>,
     \<lparr>se_driver_id = 8, se_hub_id = 1, se_event_type = ''en_route'', se_occurred_at = 1793523600000000\<rparr>]\<rparr>\<rparr>"

theorem hours_are_what_the_log_says_witness:
  "card {t :: int. 1793430000000000 \<le> t \<and> t < 1793606400000000 \<and> on_duty_at sample_shift_log 8 t} = 86400000000"
proof -
  let ?clip = "\<lambda>(a, b). cut_spans sample_zone (on_duty_spans sample_shift_log 8 (max a 1793430000000000) (min b 1793606400000000))"
  have "(1793430000000000 :: int) < 1793606400000000" by simp
  from hours_are_what_the_log_says [OF zone_ok_sample this, of sample_shift_log 8] obtain weeks cut
    where *: "calendar_weeks_overlapping 1793430000000000 1793606400000000 sample_zone = Some weeks" "map ?clip weeks = map Some cut"
      "sum_list (map (\<lambda>ps. length_of (map snd ps)) cut) =
        int (card {t. 1793430000000000 \<le> t \<and> t < 1793606400000000 \<and> on_duty_at sample_shift_log 8 t})" by blast
  have "week_bounds 1793430000000000 sample_zone = (1792998000000000, 1793606400000000)" by code_simp
  then have "calendar_weeks_overlapping 1793430000000000 1793606400000000 sample_zone = Some [(1792998000000000, 1793606400000000)]"
    by (simp add: calendar_weeks_overlapping_def weeks_from.simps)
  moreover have "on_duty_spans sample_shift_log 8 1793430000000000 1793606400000000 = [(1793476800000000, 1793563200000000)]" by code_simp
  moreover have "local_date sample_zone 1793476800000000 = 739920" "midnight 739921 sample_zone = 1793516400000000"
    "local_date sample_zone 1793516400000000 = 739921" "midnight 739922 sample_zone = 1793606400000000" by code_simp+
  then have "cut_span sample_zone 1793476800000000 1793563200000000 =
      Some [(739920, 1793476800000000, 1793516400000000), (739921, 1793516400000000, 1793563200000000)]"
    by (simp add: cut_span.simps [of _ 1793476800000000] cut_span.simps [of _ 1793516400000000] cut_span.simps [of _ 1793563200000000] Let_def)
  ultimately have "map_option (map ?clip) (calendar_weeks_overlapping 1793430000000000 1793606400000000 sample_zone) =
      Some (map Some [[(739920, 1793476800000000, 1793516400000000), (739921, 1793516400000000, 1793563200000000)]])"
    by simp
  then have "map Some cut = map Some [[(739920, 1793476800000000, 1793516400000000), (739921, 1793516400000000, 1793563200000000)]]"
    using *(1,2) by simp
  then have "cut = [[(739920, 1793476800000000, 1793516400000000), (739921, 1793516400000000, 1793563200000000)]]" by auto
  with *(3) show ?thesis by simp
qed

theorem hours_are_computed_in_the_end_witness:
  "\<exists>regular overtime. hours_and_overtime sample_tz sample_shift_log 8 1 1793430000000000 1793606400000000 = Some (regular, overtime) \<and>
    0 \<le> regular \<and> 0 \<le> overtime"
  by (rule hours_are_computed_in_the_end [OF _ zone_ok_sample])
    (simp add: sample_shift_log_def sample_hub_db_def sample_hub_def sample_tz_def hub_zone_def lookup_by_def)

definition sample_switch_world :: world where
  "sample_switch_world = (sample_world [])\<lparr>sess := (sample_session [])\<lparr>db :=
     (sample_tables [])\<lparr>ops_of := (ops_of (sample_tables []))\<lparr>driver_rows := [\<lparr>driver_id = 8, driver_hub_id = 1, driver_is_active = True,
         driver_vehicle_capacity_units = 4, driver_employment_type = ''w2'', driver_stripe_account = None, driver_hourly_rate_cents = None,
         driver_status_text = ''available''\<rparr>],
       shift_events := [\<lparr>se_driver_id = 8, se_hub_id = 1, se_event_type = ''available'', se_occurred_at = 5\<rparr>]\<rparr>\<rparr>\<rparr>\<rparr>"

theorem switch_moves_the_clock_witness:
  "\<not> on_duty_at (db (sess (snd (update_my_availability id id 100 739000 1 8 On_break sample_switch_world)))) 8 200 \<and>
   on_duty_at (db (sess (snd (update_my_availability id id 100 739000 1 8 On_break sample_switch_world)))) 8 50"
proof -
  let ?r = "update_my_availability id id 100 739000 1 8 On_break sample_switch_world"
  let ?d = "db (interfere_db id (sess sample_switch_world))"
  have "fst ?r = Availability_ok"
    by (simp add: update_my_availability_def sample_switch_world_def sample_world_def sample_session_def interfere_db_def lookup_by_def Let_def)
  then have r: "?r = (Availability_ok, snd ?r)" by (metis prod.collapse)
  have d: "shift_events (ops_of ?d) = [\<lparr>se_driver_id = 8, se_hub_id = 1, se_event_type = ''available'', se_occurred_at = 5\<rparr>]"
    by (simp add: sample_switch_world_def interfere_db_def)
  have "\<forall>e \<in> set (shift_events (ops_of ?d)). se_driver_id e = 8 \<longrightarrow> se_occurred_at e \<le> 100" by (simp add: d)
  from switch_moves_the_clock [OF r refl this]
  have "on_duty_at (db (sess (snd ?r))) 8 200 = (driver_status_value On_break \<in> set ON_DUTY_STATUSES)"
    "on_duty_at (db (sess (snd ?r))) 8 50 = on_duty_at ?d 8 50" by simp_all
  moreover have "on_duty_at ?d 8 50" by (simp add: on_duty_at_def d on_duty_event_def ON_DUTY_STATUSES_def)
  ultimately show ?thesis by (simp add: ON_DUTY_STATUSES_def)
qed

end
