(* ===== verification/Spec2Isabelle.thy ===== *)
theory Spec2Isabelle
  imports Cancellation Webhook_Delivery Assignment Feeds Stop_Outcomes Payroll
begin

text \<open>
  A verification library for the dispatch service under \<open>src/app\<close>: a last-mile delivery operation
  that takes orders from clients, holds them until they can be batched, offers them to drivers,
  follows the drivers' routes and tells the clients what happened.

  \<^bold>\<open>How the parts fit.\<close> An order is a row whose status moves along the table of
  \<open>orders/state_machine.py\<close>. Every writer of a status goes through \<open>orders/status_service.py\<close>, which
  writes conditionally on the row's present status, so that two transactions cannot both move an
  order, and which hands each move to the sinks, one of which owes the client a signed webhook.
  A live order waits in the hold queue (Redis); the event bus wakes a hub when something changed there or a hold
  runs out, under a lock per hub. The fleet state (Redis) says which driver is available; an offer
  claims a driver. An accepted offer is a route with stops; the driver arrives at them, scans, collects
  cash, completes or flags them, and taking orders off them, arrival times, the cancels and the
  requeue work on the same rows. A delivery is entered in the outcome ledger against what was promised, and
  the orders of a period are billed, with credits for late ones. Assignment is dispatch's own way from an order to an
  offer, past the hub's calendar and the driver's documents. An order comes into being at intake: a client's
  payload, shaped by that client's adapter, is matched against the orders there are, its pickup is resolved to an address and a dock,
  it draws an arm of the hold experiment, is priced, and is held and queued. The switch between on and off duty
  writes the shift log, from which hours and pay are computed.

  \<^bold>\<open>Theories.\<close>
  \<^item> \<open>Prelude\<close>: identifiers, instants, tables as lists of rows, dictionaries, fact collections.
  \<^item> \<open>Py_Float\<close>: IEEE doubles as the rationals they denote, rounding to even, \<open>timedelta\<close> of a float.
  \<^item> \<open>Py_Text\<close>: Python's strings as far as the code uses them.
  \<^item> \<open>Tables\<close>: rows of \<open>models/*.py\<close> and the database session with \<open>commit\<close> and \<open>rollback\<close>.
  \<^item> \<open>State_Machine\<close>: \<open>orders/state_machine.py\<close>; what any life of an order passes through.
  \<^item> \<open>Status_Service\<close>: \<open>orders/status_service.py\<close>, \<open>orders/sinks.py\<close>, \<open>webhooks/sink.py\<close>;
    legality under interference, and the exact effect without it.
  \<^item> \<open>Event_Bus\<close>: \<open>events/bus.py\<close> as functions on the Redis state and as a step relation;
    mutual exclusion, and that a poll loses no event.
  \<^item> \<open>Hold_Queue\<close>: \<open>batch_queue/*.py\<close>; what a cycle releases, and the store as a map.
  \<^item> \<open>Fleet\<close>: \<open>fleet_state/manager.py\<close>; the available set, and that claims do not overlap.
  \<^item> \<open>Dwell\<close>, \<open>Eta\<close>: \<open>identity/inherited_dwell.py\<close>, \<open>travel.py\<close>, \<open>delivery/eta.py\<close>; arrival times go
    forward along the route.
  \<^item> \<open>Route_Stops\<close>: \<open>delivery/routes.py\<close>, \<open>delivery/en_route.py\<close>; what taking orders off stops leaves.
  \<^item> \<open>Requeue\<close>, \<open>Cancellation\<close>: \<open>orders/requeue.py\<close>, \<open>orders/cancellation.py\<close>; only the orders that may
    go back or be cancelled do. \<open>Interference\<close> holds what both need about other transactions.
  \<^item> \<open>Signing\<close>, \<open>Webhook_Delivery\<close>: \<open>webhooks/signing.py\<close> with HMAC-SHA256 written out,
    \<open>webhooks/delivery.py\<close> with runs that overlap; the retry discipline, that a sweep delivers what is due, and that a run on its own is the
    code's loop.
  \<^item> \<open>Hub_Calendar\<close>, \<open>Compliance\<close>: \<open>hub_calendar.py\<close>, \<open>compliance/driver_documents.py\<close>.
  \<^item> \<open>Assignment\<close>: \<open>orders/assignment.py\<close>; what a successful assign did and that a refused one left nothing.
  \<^item> \<open>Sla\<close>: \<open>sla/*.py\<close>; tiers, hold windows, and what was promised. \<open>Outcomes\<close>: \<open>record/outcomes.py\<close>; an
    append-only ledger whose corrections count.
  \<^item> \<open>Billing\<close>: \<open>billing/rates.py\<close>, \<open>billing/credits.py\<close>, \<open>billing/service.py\<close>; statements add up and bill an
    order once as long as runs do not overlap, and what happens when they do.
  \<^item> \<open>Offers\<close>: the answers to job offers in \<open>api/driver_routes.py\<close>; an offer is answered once, and the stops of
    an accepted one are those of the plan.
  \<^item> \<open>Door\<close>: \<open>delivery/proof.py\<close>, \<open>delivery/cod.py\<close> and the routes that record money; a stop's proof is the proof of
    each of its orders, cash is recorded once without a race and twice with one.
  \<^item> \<open>Driver_Stops\<close>: arriving, scanning, completing and flagging in \<open>api/driver_routes.py\<close>. \<open>Stop_Life\<close> shows what every
    sequence of these requests keeps of a stop, \<open>Stop_Outcomes\<close> what a completion proves and leaves behind, and what a
    flag takes off the route.
  \<^item> \<open>Experiment\<close>: \<open>experiment/arms.py\<close>, \<open>exclusions.py\<close>, \<open>integrity.py\<close> and \<open>record/abstention.py\<close>; one control order per full
    block, every assignment verifies, and when the check of a window blocks a fair one.
  \<^item> \<open>Docks\<close>: \<open>geocoding/base.py\<close>, \<open>geocoding/cache.py\<close>, \<open>identity/resolution.py\<close>, with SHA-1 written out; an address is asked for
    once and resolves to one dock.
  \<^item> \<open>Intake\<close>: \<open>ingestion/service.py\<close>, \<open>schemas/lmx_order.py\<close>; a replay changes nothing, a hold keeps the promise, history is not
    work, and what a race over a cached address does. Its locale says what every step of intake keeps.
  \<^item> \<open>Feeds\<close>: \<open>ingestion/adapters\<close> (Epicor, flat files, the contract itself), \<open>registry.py\<close>, \<open>router.py\<close>, \<open>backfill.py\<close>; a second run of
    an import creates nothing.
  \<^item> \<open>Civil_Dates\<close>: the parts of a date name it, and months follow each other. \<open>Payroll\<close>: \<open>payroll/hours.py\<close>, \<open>overtime_rules.py\<close>,
    \<open>bonuses.py\<close>, the earnings screen and the switch in \<open>api/driver_routes.py\<close>, the payroll run in \<open>api/admin_routes.py\<close>; hours are what
    the log says, they are computed in the end, periods leave no gap, and the switch moves the clock.

  \<^bold>\<open>State and interference.\<close> One transaction is a function on a \<open>session\<close>: the rows it sees, the
  committed rows, a supply of identifiers. Where the code waits (a lock, a conditional write, an
  \<open>await\<close> between a read and a write that others can overtake) the definition takes a function that
  stands for what other transactions commit there, and the theorems quantify over it, under the
  assumption that others keep keys distinct and, where the point matters, move orders legally or
  respect a row lock. Others may thus answer or withdraw an offer while a request waits for it, but not once it holds the row. Where
  runs overlap without a lock (webhook deliveries) the runs themselves are the state: what each read, what it changed, and a commit that writes
  the columns it changed. Redis scripts are atomic steps.

  \<^bold>\<open>Bounds and fuel.\<close> Alias chains are followed to the depth the code sets (\<open>MAX_ALIAS_DEPTH\<close>). The
  wait for the hub lock has fuel 31, the first count that exceeds three seconds of tenths, and is
  proved to end within it. A pending notification has attempts left out of six; an immediate attempt that comes last may be a seventh. The loop over
  the days of an interval is total by a measure. The two loops of payroll over a clock are partial functions, with
  \<open>None\<close> for a loop that never ends, and are proved to end when the zone keeps its midnights in order. Integers are Python's, hence unbounded; floats are
  doubles without overflow to infinity.

  \<^bold>\<open>Parameters.\<close> The geodesic distance, the zone database, the webhook consumer, the JSON text of a body
  and the clocks are arguments, and so are the validation of stored proof requirements, the tracking tokens and the
  payout provider. So are, at intake, the geocoding provider, the normal quantiles and square roots the sample sizes are
  computed from, the text of a JSON value, the tokens drawn and the reading of dates and numbers from text; and in
  payroll the provider that takes the hours. Other requests that run beside intake are functions, one for each place
  at which it waits.

  \<^bold>\<open>Not modelled.\<close> The HTTP routes beyond the handlers above, the optimizer's cycle and its solver
  (a third-party library), the parsing of order files and of outgoing reports (\<open>ingestion/manifest.py\<close>,
  \<open>ingestion/adapters/dispatch_export.py\<close>), delivery resolutions and returns, the playbook, shadow runs, baselines and the learning
  loop, reporting, the rest of the record, the clients of the payout providers and the platform for outside jobs, authentication, storage and messaging (calls to outside services), the front ends and the
  infrastructure.
\<close>

end
